(* ===== verification/Rust_Prelude.thy ===== *)
theory Rust_Prelude
  imports Main "HOL-Library.Word" "HOL-Library.Product_Lexorder"
begin

text \<open>
  Shared vocabulary of the development: the machine integers of the Rust source, its checked
  arithmetic, slices and little-endian byte access, and the monad in which stateful fallible
  functions are written. A Rust function \<open>fn f(&mut S) -> Result<A, E>\<close> is modelled by a function
  of type \<open>('s, 'e, 'a) rsm\<close>, that is \<open>'s \<Rightarrow> ('e + 'a) \<times> 's\<close>: the state survives an
  error, as it does behind a \<open>&mut\<close> reference, and the operator \<open>?\<close> is \<open>bindR\<close>.
\<close>

unbundle bit_operations_syntax

named_theorems rsm_simps "evaluation of the result-state monad"

section \<open>Machine integers and checked arithmetic\<close>

type_synonym u8 = "8 word"
type_synonym u16 = "16 word"
type_synonym u32 = "32 word"
type_synonym u64 = "64 word"

text \<open>
  \<open>usize\<close> is a natural number together with the explicit bound of a 64-bit target; every
  arithmetic operation of the source on a \<open>usize\<close> is one of the checked operations below or is
  guarded by a comparison that keeps it in range.
\<close>

definition usize_MAX :: nat where
  "usize_MAX = 2 ^ 64 - 1"

definition checked_add :: "nat \<Rightarrow> nat \<Rightarrow> nat option" where
  "checked_add a b = (if a + b \<le> usize_MAX then Some (a + b) else None)"

definition checked_mul :: "nat \<Rightarrow> nat \<Rightarrow> nat option" where
  "checked_mul a b = (if a * b \<le> usize_MAX then Some (a * b) else None)"

definition checked_sub :: "nat \<Rightarrow> nat \<Rightarrow> nat option" where
  "checked_sub a b = (if b \<le> a then Some (a - b) else None)"

definition saturating_mul :: "nat \<Rightarrow> nat \<Rightarrow> nat" where
  "saturating_mul a b = (if a * b \<le> usize_MAX then a * b else usize_MAX)"

text \<open>\<open>u64::checked_add\<close>.\<close>

definition checked_add_word :: "'a::len word \<Rightarrow> 'a word \<Rightarrow> 'a word option" where
  "checked_add_word a b = (if unat a + unat b < 2 ^ LENGTH('a) then Some (a + b) else None)"

lemma checked_add_Some_iff [simp]: "checked_add a b = Some c \<longleftrightarrow> c = a + b \<and> a + b \<le> usize_MAX"
  by (auto simp: checked_add_def)

lemma checked_add_None_iff [simp]: "checked_add a b = None \<longleftrightarrow> usize_MAX < a + b"
  by (auto simp: checked_add_def)

lemma checked_mul_Some_iff [simp]: "checked_mul a b = Some c \<longleftrightarrow> c = a * b \<and> a * b \<le> usize_MAX"
  by (auto simp: checked_mul_def)

lemma checked_sub_Some_iff [simp]: "checked_sub a b = Some c \<longleftrightarrow> c = a - b \<and> b \<le> a"
  by (auto simp: checked_sub_def)

lemma saturating_mul_le [simp]: "saturating_mul a b \<le> usize_MAX"
  by (simp add: saturating_mul_def)

lemma checked_add_word_SomeD:
  fixes a b :: "'a::len word"
  assumes "checked_add_word a b = Some c"
  shows "c = a + b" "unat c = unat a + unat b"
  using assms by (auto simp: checked_add_word_def unat_word_ariths split: if_splits)

section \<open>Results without state\<close>

text \<open>The operator \<open>?\<close> on a \<open>Result\<close> without state.\<close>

definition bindE :: "'e + 'a \<Rightarrow> ('a \<Rightarrow> 'e + 'b) \<Rightarrow> 'e + 'b" where
  "bindE r f = (case r of Inl e \<Rightarrow> Inl e | Inr x \<Rightarrow> f x)"

definition ensure :: "bool \<Rightarrow> 'e \<Rightarrow> 'e + unit" where
  "ensure b e = (if b then Inr () else Inl e)"

definition some_or :: "'a option \<Rightarrow> 'e \<Rightarrow> 'e + 'a" where
  "some_or v e = (case v of None \<Rightarrow> Inl e | Some x \<Rightarrow> Inr x)"

lemma bindE_simps [simp]: "bindE (Inl e) f = Inl e" "bindE (Inr x) f = f x"
  by (simp_all add: bindE_def)

lemma bindE_Inr_iff: "bindE r f = Inr y \<longleftrightarrow> (\<exists>x. r = Inr x \<and> f x = Inr y)"
  by (cases r) simp_all

lemma ensure_Inr_iff [simp]: "ensure b e = Inr u \<longleftrightarrow> b"
  by (simp add: ensure_def)

lemma ensure_simps [simp]: "ensure True e = Inr ()" "ensure False e = Inl e"
  by (simp_all add: ensure_def)

lemma some_or_Inr_iff [simp]: "some_or v e = Inr x \<longleftrightarrow> v = Some x"
  by (cases v) (simp_all add: some_or_def)

lemma some_or_simps [simp]: "some_or None e = Inl e" "some_or (Some x) e = Inr x"
  by (simp_all add: some_or_def)

lemma if_Inl_iff: "(if b then Inl e else r) = Inr x \<longleftrightarrow> \<not> b \<and> r = Inr x"
  by simp

lemma ex_unit: "(\<exists>u :: unit. P u) \<longleftrightarrow> P ()"
  by auto

text \<open>Loops whose body may fail: \<open>map\<close>, a check of every element, and a fold.\<close>

fun mapE :: "('a \<Rightarrow> 'e + 'b) \<Rightarrow> 'a list \<Rightarrow> 'e + 'b list" where
  "mapE f [] = Inr []"
| "mapE f (x # xs) = bindE (f x) (\<lambda>y. bindE (mapE f xs) (\<lambda>ys. Inr (y # ys)))"

fun forE :: "('a \<Rightarrow> 'e + unit) \<Rightarrow> 'a list \<Rightarrow> 'e + unit" where
  "forE f [] = Inr ()"
| "forE f (x # xs) = bindE (f x) (\<lambda>_. forE f xs)"

fun foldE :: "('a \<Rightarrow> 's \<Rightarrow> 'e + 's) \<Rightarrow> 'a list \<Rightarrow> 's \<Rightarrow> 'e + 's" where
  "foldE f [] s = Inr s"
| "foldE f (x # xs) s = bindE (f x s) (foldE f xs)"

lemma forE_Inr_iff [simp]: "forE f xs = Inr u \<longleftrightarrow> (\<forall>x \<in> set xs. f x = Inr ())"
  by (induction xs) (auto simp: bindE_Inr_iff)

lemma foldE_append: "foldE f (xs @ ys) s = bindE (foldE f xs s) (foldE f ys)"
proof (induction xs arbitrary: s)
  case (Cons x xs)
  then show ?case by (cases "f x s") simp_all
qed simp

text \<open>A fold that collects distinct keys into a set.\<close>

lemma foldE_insert_iff:
  assumes "\<And>x s s'. x \<in> set xs \<Longrightarrow> f x s = Inr s' \<longleftrightarrow> ok x \<and> key x \<notin> s \<and> s' = insert (key x) s"
  shows "foldE f xs s = Inr s' \<longleftrightarrow>
    (\<forall>x \<in> set xs. ok x) \<and> distinct (map key xs) \<and> key ` set xs \<inter> s = {} \<and> s' = key ` set xs \<union> s"
  using assms by (induction xs arbitrary: s) (auto simp: bindE_Inr_iff)

section \<open>The result-state monad\<close>

type_synonym ('s, 'e, 'a) rsm = "'s \<Rightarrow> ('e + 'a) \<times> 's"

definition ret :: "'a \<Rightarrow> ('s, 'e, 'a) rsm" where
  "ret x s = (Inr x, s)"

definition fail :: "'e \<Rightarrow> ('s, 'e, 'a) rsm" where
  "fail e s = (Inl e, s)"

definition bindR :: "('s, 'e, 'a) rsm \<Rightarrow> ('a \<Rightarrow> ('s, 'e, 'b) rsm) \<Rightarrow> ('s, 'e, 'b) rsm" where
  "bindR m f s = (case m s of (r, s') \<Rightarrow> (case r of Inl e \<Rightarrow> (Inl e, s') | Inr x \<Rightarrow> f x s'))"

text \<open>\<open>option.ok_or(e)?\<close>\<close>

definition ok_or :: "'a option \<Rightarrow> 'e \<Rightarrow> ('s, 'e, 'a) rsm" where
  "ok_or v e = (case v of None \<Rightarrow> fail e | Some x \<Rightarrow> ret x)"

text \<open>\<open>if !b { return Err(e) }\<close>\<close>

definition guardR :: "bool \<Rightarrow> 'e \<Rightarrow> ('s, 'e, unit) rsm" where
  "guardR b e = (if b then ret () else fail e)"

text \<open>\<open>result.map_err(f)?\<close>\<close>

definition map_err :: "('e \<Rightarrow> 'f) \<Rightarrow> ('s, 'e, 'a) rsm \<Rightarrow> ('s, 'f, 'a) rsm" where
  "map_err f m s = (case m s of (r, s') \<Rightarrow> ((case r of Inl e \<Rightarrow> Inl (f e) | Inr x \<Rightarrow> Inr x), s'))"

lemma bindR_cong [fundef_cong]:
  assumes "m = m'" "s = s'" "\<And>x t. m' s' = (Inr x, t) \<Longrightarrow> f x t = f' x t"
  shows "bindR m f s = bindR m' f' s'"
  using assms by (auto simp: bindR_def split: prod.splits sum.splits)

lemma bindR_cong_fun [fundef_cong]:
  assumes "m = m'" "\<And>x s t. m' s = (Inr x, t) \<Longrightarrow> f x t = f' x t"
  shows "bindR m f = bindR m' f'"
proof
  fix s show "bindR m f s = bindR m' f' s"
    by (rule bindR_cong) (use assms in auto)
qed

text \<open>The continuation of a \<open>bindR\<close> is not simplified before its first part has a value.\<close>

lemma bindR_weak_cong [cong]: "m = m' \<Longrightarrow> s = s' \<Longrightarrow> bindR m f s = bindR m' f s'"
  by simp

lemma ret_apply [rsm_simps]: "ret x s = (Inr x, s)"
  by (simp add: ret_def)

lemma fail_apply [rsm_simps]: "fail e s = (Inl e, s)"
  by (simp add: fail_def)

lemma ret_iffs [simp]:
  "ret x s = (Inr y, t) \<longleftrightarrow> y = x \<and> t = s" "ret x s = (Inl e, t) \<longleftrightarrow> False"
  "fst (ret x s) = Inr x" "snd (ret x s) = s"
  by (auto simp: ret_def)

lemma fail_iffs [simp]:
  "fail e s = (Inl e', t) \<longleftrightarrow> e' = e \<and> t = s" "fail e s = (Inr y, t) \<longleftrightarrow> False"
  "fst (fail e s) = Inl e" "snd (fail e s) = s"
  by (auto simp: fail_def)

lemma guardR_apply [simp, rsm_simps]: "guardR b e s = (if b then (Inr (), s) else (Inl e, s))"
  by (simp add: guardR_def ret_def fail_def)

lemma ok_or_apply [simp, rsm_simps]:
  "ok_or v e s = (case v of None \<Rightarrow> (Inl e, s) | Some x \<Rightarrow> (Inr x, s))"
  by (simp add: ok_or_def ret_def fail_def split: option.splits)

lemma bindR_Inr_iff:
  "bindR m f s = (Inr y, t) \<longleftrightarrow> (\<exists>x s'. m s = (Inr x, s') \<and> f x s' = (Inr y, t))"
  by (auto simp: bindR_def split: prod.splits sum.splits)

lemma bindR_Inl_iff:
  "bindR m f s = (Inl e, t) \<longleftrightarrow>
     m s = (Inl e, t) \<or> (\<exists>x s'. m s = (Inr x, s') \<and> f x s' = (Inl e, t))"
  by (auto simp: bindR_def split: prod.splits sum.splits)

lemma bindR_Inr [rsm_simps]: "m s = (Inr x, s') \<Longrightarrow> bindR m f s = f x s'"
  by (simp add: bindR_def)

lemma bindR_Inl [rsm_simps]: "m s = (Inl e, s') \<Longrightarrow> bindR m f s = (Inl e, s')"
  by (simp add: bindR_def)

lemma bindR_ret [simp, rsm_simps]: "bindR (ret x) f s = f x s"
  by (simp add: bindR_def ret_def)

lemma bindR_fail [simp, rsm_simps]: "bindR (fail e) f s = (Inl e, s)"
  by (simp add: bindR_def fail_def)

lemma bindR_guardR [simp, rsm_simps]:
  "bindR (guardR b e) f s = (if b then f () s else (Inl e, s))"
  by (simp add: bindR_def)

lemma bindR_ok_or [simp, rsm_simps]:
  "bindR (ok_or v e) f s = (case v of None \<Rightarrow> (Inl e, s) | Some x \<Rightarrow> f x s)"
  by (simp add: bindR_def split: option.splits)

lemma bindR_ok_or_Some: "bindR (ok_or (Some x) e) f = f x"
  by (rule ext) simp

lemma bindR_if [simp]:
  "bindR (if b then m1 else m2) f s = (if b then bindR m1 f s else bindR m2 f s)"
  by simp

lemma bindR_assoc: "bindR (bindR m f) g s = bindR m (\<lambda>x. bindR (f x) g) s"
  by (simp add: bindR_def split: prod.splits sum.splits)

lemma map_err_Inr_iff [simp]: "map_err f m s = (Inr x, t) \<longleftrightarrow> m s = (Inr x, t)"
  by (auto simp: map_err_def split: prod.splits sum.splits)

lemma map_err_Inl_iff: "map_err f m s = (Inl e, t) \<longleftrightarrow> (\<exists>e'. m s = (Inl e', t) \<and> e = f e')"
  by (auto simp: map_err_def split: prod.splits sum.splits)

lemma map_err_state [simp]: "snd (map_err f m s) = snd (m s)"
  by (simp add: map_err_def split: prod.splits)

lemmas rsm_iffs = bindR_Inr_iff bindR_Inl_iff map_err_Inl_iff

subsection \<open>A weakest-precondition reading of the monad\<close>

text \<open>
  \<open>rsm_valid P m Q E\<close>: run from a state satisfying \<open>P\<close>, a returned value and its state satisfy
  \<open>Q\<close>, and an error and its state satisfy \<open>E\<close>.
\<close>

definition rsm_valid ::
    "('s \<Rightarrow> bool) \<Rightarrow> ('s, 'e, 'a) rsm \<Rightarrow> ('a \<Rightarrow> 's \<Rightarrow> bool) \<Rightarrow> ('e \<Rightarrow> 's \<Rightarrow> bool) \<Rightarrow> bool" where
  "rsm_valid P m Q E \<longleftrightarrow>
     (\<forall>s. P s \<longrightarrow> (case m s of (Inr x, t) \<Rightarrow> Q x t | (Inl e, t) \<Rightarrow> E e t))"

lemma rsm_validI:
  assumes "\<And>s x t. P s \<Longrightarrow> m s = (Inr x, t) \<Longrightarrow> Q x t"
    and "\<And>s e t. P s \<Longrightarrow> m s = (Inl e, t) \<Longrightarrow> E e t"
  shows "rsm_valid P m Q E"
  using assms by (auto simp: rsm_valid_def split: prod.splits sum.splits)

lemma rsm_validD:
  assumes "rsm_valid P m Q E" "P s"
  shows "m s = (Inr x, t) \<Longrightarrow> Q x t" "m s = (Inl e, t) \<Longrightarrow> E e t"
  using assms by (auto simp: rsm_valid_def dest!: spec [where x = s])

lemma rsm_valid_ret: "(\<And>s. P s \<Longrightarrow> Q x s) \<Longrightarrow> rsm_valid P (ret x) Q E"
  by (simp add: rsm_valid_def ret_def)

lemma rsm_valid_fail: "(\<And>s. P s \<Longrightarrow> E e s) \<Longrightarrow> rsm_valid P (fail e) Q E"
  by (simp add: rsm_valid_def fail_def)

lemma rsm_valid_bind:
  assumes "rsm_valid P m Q' E" "\<And>x. rsm_valid (Q' x) (f x) Q E"
  shows "rsm_valid P (bindR m f) Q E"
proof (rule rsm_validI)
  fix s x t assume "P s" "bindR m f s = (Inr x, t)"
  then show "Q x t"
    by (auto simp: bindR_Inr_iff dest: rsm_validD [OF assms(1)] rsm_validD [OF assms(2)])
next
  fix s e t assume "P s" "bindR m f s = (Inl e, t)"
  then show "E e t"
    by (auto simp: bindR_Inl_iff dest: rsm_validD [OF assms(1)] rsm_validD [OF assms(2)])
qed

lemma rsm_valid_guardR:
  assumes "\<And>s. P s \<Longrightarrow> b \<Longrightarrow> Q () s" "\<And>s. P s \<Longrightarrow> \<not> b \<Longrightarrow> E e s"
  shows "rsm_valid P (guardR b e) Q E"
  using assms by (simp add: rsm_valid_def)

lemma rsm_valid_ok_or:
  assumes "\<And>s x. P s \<Longrightarrow> v = Some x \<Longrightarrow> Q x s" "\<And>s. P s \<Longrightarrow> v = None \<Longrightarrow> E e s"
  shows "rsm_valid P (ok_or v e) Q E"
  using assms by (auto simp: rsm_valid_def split: option.splits)

lemma rsm_valid_conseq:
  assumes "rsm_valid P' m Q' E'" "\<And>s. P s \<Longrightarrow> P' s" "\<And>x s. Q' x s \<Longrightarrow> Q x s" "\<And>e s. E' e s \<Longrightarrow> E e s"
  shows "rsm_valid P m Q E"
proof (rule rsm_validI)
  fix s x t assume "P s" "m s = (Inr x, t)"
  then show "Q x t" using rsm_validD(1) [OF assms(1)] assms(2,3) by blast
next
  fix s e t assume "P s" "m s = (Inl e, t)"
  then show "E e t" using rsm_validD(2) [OF assms(1)] assms(2,4) by blast
qed

section \<open>Slices and little-endian integers\<close>

text \<open>\<open>bytes.get(a..b)\<close>: \<open>None\<close> when the range is not inside the slice.\<close>

definition slice_get :: "'a list \<Rightarrow> nat \<Rightarrow> nat \<Rightarrow> 'a list option" where
  "slice_get xs a b = (if a \<le> b \<and> b \<le> length xs then Some (take (b - a) (drop a xs)) else None)"

text \<open>\<open>xs.get(i)\<close>; an indexing expression \<open>xs[i]\<close> is \<open>ok_or (nth_get xs i) Panic\<close>.\<close>

definition nth_get :: "'a list \<Rightarrow> nat \<Rightarrow> 'a option" where
  "nth_get xs i = (if i < length xs then Some (xs ! i) else None)"

fun from_le_bytes :: "u8 list \<Rightarrow> 'a::len word" where
  "from_le_bytes [] = 0"
| "from_le_bytes (b # bs) = ucast b OR push_bit 8 (from_le_bytes bs)"

definition to_le_bytes :: "nat \<Rightarrow> 'a::len word \<Rightarrow> u8 list" where
  "to_le_bytes n w = map (\<lambda>i. ucast (drop_bit (8 * i) w)) [0..<n]"

lemma length_to_le_bytes [simp]: "length (to_le_bytes n w) = n"
  by (simp add: to_le_bytes_def)

lemma to_le_bytes_Suc: "to_le_bytes (Suc n) w = ucast w # to_le_bytes n (drop_bit 8 w)"
  by (simp add: to_le_bytes_def upt_conv_Cons map_Suc_upt [symmetric] add.commute del: upt_Suc)

lemma bit_from_le_bytes:
  "bit (from_le_bytes bs :: 'a::len word) i \<longleftrightarrow>
     i < LENGTH('a) \<and> i < 8 * length bs \<and> bit (bs ! (i div 8)) (i mod 8)"
proof (induction bs arbitrary: i)
  case (Cons b bs)
  show ?case
  proof (cases "i < 8")
    case True
    then show ?thesis by (auto simp: bit_simps)
  next
    case False
    then have "(i - 8) div 8 = i div 8 - 1" "(i - 8) mod 8 = i mod 8" "0 < i div 8"
      "i - 8 < 8 * length bs \<longleftrightarrow> i < 8 * length (b # bs)"
      by (auto simp: le_div_geq le_mod_geq)
    moreover have "\<not> bit b i" using False by (auto dest: bit_imp_le_length)
    ultimately show ?thesis using False Cons [of "i - 8"]
      by (auto simp: bit_simps nth_Cons')
  qed
qed simp

lemma nth_to_le_bytes [simp]: "i < n \<Longrightarrow> to_le_bytes n w ! i = ucast (drop_bit (8 * i) w)"
  by (simp add: to_le_bytes_def)

lemma to_le_bytes_from_le_bytes:
  assumes "8 * length bs \<le> LENGTH('a::len)"
  shows "to_le_bytes (length bs) (from_le_bytes bs :: 'a word) = bs"
proof (rule nth_equalityI)
  fix i assume "i < length (to_le_bytes (length bs) (from_le_bytes bs :: 'a word))"
  then have i: "i < length bs" by simp
  show "to_le_bytes (length bs) (from_le_bytes bs :: 'a word) ! i = bs ! i"
  proof (rule bit_word_eqI)
    fix n assume "n < LENGTH(8)"
    then have n: "n < 8" by simp
    then have "(8 * i + n) div 8 = i" "(8 * i + n) mod 8 = n" by simp_all
    with i n assms show "bit (to_le_bytes (length bs) (from_le_bytes bs :: 'a word) ! i) n = bit (bs ! i) n"
      by (simp add: bit_simps bit_from_le_bytes)
  qed
qed simp

lemma from_le_bytes_to_le_bytes:
  fixes w :: "'a::len word"
  assumes "LENGTH('a) \<le> 8 * n"
  shows "from_le_bytes (to_le_bytes n w) = w"
proof (rule bit_word_eqI)
  fix i assume i: "i < LENGTH('a)"
  then have "i div 8 < n" using assms by auto
  then show "bit (from_le_bytes (to_le_bytes n w) :: 'a word) i = bit w i"
    using i assms by (simp add: bit_from_le_bytes bit_simps)
qed

lemma xor_left_cancel: "a XOR b = a XOR d \<longleftrightarrow> b = (d :: 'a::len word)"
  by (metis bit.xor_left_self)

lemma xor_right_cancel: "b XOR a = d XOR a \<longleftrightarrow> b = (d :: 'a::len word)"
  by (metis xor.commute xor_left_cancel)

lemma slice_get_Some_iff [simp]:
  "slice_get xs a b = Some ys \<longleftrightarrow> a \<le> b \<and> b \<le> length xs \<and> ys = take (b - a) (drop a xs)"
  by (auto simp: slice_get_def)

lemma slice_get_None_iff [simp]:
  "slice_get xs a b = None \<longleftrightarrow> b < a \<or> length xs < b"
  by (auto simp: slice_get_def)

lemma nth_get_Some_iff [simp]: "nth_get xs i = Some x \<longleftrightarrow> i < length xs \<and> x = xs ! i"
  by (auto simp: nth_get_def)

lemma nth_get_None_iff [simp]: "nth_get xs i = None \<longleftrightarrow> length xs \<le> i"
  by (auto simp: nth_get_def)

section \<open>Focusing on a part of the state\<close>

text \<open>
  \<open>on_fst m\<close> runs \<open>m\<close> on the first component of a pair of states: a Rust function that holds two
  \<open>&mut\<close> references calls a function that takes only the first.
\<close>

definition on_fst :: "('s, 'e, 'a) rsm \<Rightarrow> ('s \<times> 't, 'e, 'a) rsm" where
  "on_fst m p = (case p of (s, t) \<Rightarrow> (case m s of (r, s') \<Rightarrow> (r, (s', t))))"

lemma on_fst_iff [simp]:
  "on_fst m p = (r, q) \<longleftrightarrow> m (fst p) = (r, fst q) \<and> snd q = snd p"
  by (auto simp: on_fst_def split: prod.splits)

lemma on_fst_Pair: "on_fst m (s, t) = (fst (m s), (snd (m s), t))"
  by (simp add: on_fst_def split: prod.splits)

section \<open>Metered resources\<close>

text \<open>
  The contract of a counter with a cap: spending succeeds only within the cap, adds exactly the
  requested amount, and the cap never moves. The resource budget (one instance per kind) and the
  work and allocation counters of the frame parser are its instances.
\<close>

primrec spend_all :: "(nat \<Rightarrow> ('s, 'e, unit) rsm) \<Rightarrow> nat list \<Rightarrow> ('s, 'e, unit) rsm" where
  "spend_all spend [] = ret ()"
| "spend_all spend (n # ns) = bindR (spend n) (\<lambda>_. spend_all spend ns)"

locale meter =
  fixes spend :: "nat \<Rightarrow> ('s, 'e, unit) rsm"
    and used :: "'s \<Rightarrow> nat"
    and cap :: "'s \<Rightarrow> nat"
  assumes spend_used: "spend n s = (Inr u, t) \<Longrightarrow> used t = used s + n"
    and spend_within: "spend n s = (Inr u, t) \<Longrightarrow> used t \<le> cap t"
    and cap_frame: "spend n s = (r, t) \<Longrightarrow> cap t = cap s"
begin

lemma spend_all_used: "spend_all spend ns s = (Inr u, t) \<Longrightarrow> used t = used s + sum_list ns"
  by (induction ns arbitrary: s) (auto simp: bindR_Inr_iff dest: spend_used)

lemma spend_all_cap_frame: "spend_all spend ns s = (r, t) \<Longrightarrow> cap t = cap s"
proof (induction ns arbitrary: s)
  case Nil
  then show ?case by (simp add: ret_def)
next
  case (Cons n ns)
  obtain r' s' where step: "spend n s = (r', s')" by fastforce
  then have "cap s' = cap s" by (rule cap_frame)
  with Cons step show ?case
    by (cases r') (auto simp: bindR_def)
qed

lemma spend_all_within:
  assumes "used s \<le> cap s" "spend_all spend ns s = (Inr u, t)"
  shows "used t \<le> cap t"
  using assms
proof (induction ns arbitrary: s)
  case Nil
  then show ?case by simp
next
  case (Cons n ns)
  from Cons.prems(2) obtain v s' where
    "spend n s = (Inr v, s')" "spend_all spend ns s' = (Inr u, t)"
    by (auto simp: bindR_Inr_iff)
  then show ?case using Cons.IH spend_within by blast
qed

text \<open>What was spent in total fits into what the cap had left.\<close>

lemma spend_all_sum_le:
  assumes "used s \<le> cap s" "spend_all spend ns s = (Inr u, t)"
  shows "used s + sum_list ns \<le> cap s"
  using spend_all_used [OF assms(2)] spend_all_within [OF assms] spend_all_cap_frame [OF assms(2)]
  by simp

end

end
