(* ===== verification/Resource_Budget.thy ===== *)
theory Resource_Budget
  imports Rust_Prelude
begin

text \<open>
  The crate \<open>kyberia-resource-budget\<close> (\<open>crates/resource-budget/src/lib.rs\<close>): six cumulative
  counters with limits and a cancellation hook that is polled before every charge. The hook is
  code of the application: its answers are a parameter, the function \<open>hook\<close> from the number of the
  poll to the answer, with \<open>polls\<close> counting the polls made so far.
\<close>

section \<open>Data\<close>

datatype budget_kind =
  OperationAncestryWork
| CausalWitnessWork
| AggregateConflictChecks
| OperationBytes
| ProjectCopyBytes
| WorkingSetBytes

fun budget_label :: "budget_kind \<Rightarrow> string" where
  "budget_label OperationAncestryWork = ''operation_ancestry_work''"
| "budget_label CausalWitnessWork = ''causal_witness_work''"
| "budget_label AggregateConflictChecks = ''aggregate_conflict_checks''"
| "budget_label OperationBytes = ''operation_bytes''"
| "budget_label ProjectCopyBytes = ''project_copy_bytes''"
| "budget_label WorkingSetBytes = ''working_set_bytes''"

record resource_limits =
  lim_operation_ancestry_work :: nat
  lim_causal_witness_work :: nat
  lim_aggregate_conflict_checks :: nat
  lim_operation_bytes :: nat
  lim_project_copy_bytes :: nat
  lim_working_set_bytes :: nat

record resource_usage =
  use_operation_ancestry_work :: nat
  use_causal_witness_work :: nat
  use_aggregate_conflict_checks :: nat
  use_operation_bytes :: nat
  use_project_copy_bytes :: nat
  use_working_set_bytes :: nat

definition resource_limits_new ::
    "nat \<Rightarrow> nat \<Rightarrow> nat \<Rightarrow> nat \<Rightarrow> nat \<Rightarrow> nat \<Rightarrow> resource_limits" where
  "resource_limits_new a c g o' p w =
     \<lparr>lim_operation_ancestry_work = a, lim_causal_witness_work = c,
      lim_aggregate_conflict_checks = g, lim_operation_bytes = o',
      lim_project_copy_bytes = p, lim_working_set_bytes = w\<rparr>"

definition resource_usage_default :: resource_usage where
  "resource_usage_default =
     \<lparr>use_operation_ancestry_work = 0, use_causal_witness_work = 0,
      use_aggregate_conflict_checks = 0, use_operation_bytes = 0,
      use_project_copy_bytes = 0, use_working_set_bytes = 0\<rparr>"

fun usage_get :: "resource_usage \<Rightarrow> budget_kind \<Rightarrow> nat" where
  "usage_get u OperationAncestryWork = use_operation_ancestry_work u"
| "usage_get u CausalWitnessWork = use_causal_witness_work u"
| "usage_get u AggregateConflictChecks = use_aggregate_conflict_checks u"
| "usage_get u OperationBytes = use_operation_bytes u"
| "usage_get u ProjectCopyBytes = use_project_copy_bytes u"
| "usage_get u WorkingSetBytes = use_working_set_bytes u"

fun usage_set :: "resource_usage \<Rightarrow> budget_kind \<Rightarrow> nat \<Rightarrow> resource_usage" where
  "usage_set u OperationAncestryWork v = u\<lparr>use_operation_ancestry_work := v\<rparr>"
| "usage_set u CausalWitnessWork v = u\<lparr>use_causal_witness_work := v\<rparr>"
| "usage_set u AggregateConflictChecks v = u\<lparr>use_aggregate_conflict_checks := v\<rparr>"
| "usage_set u OperationBytes v = u\<lparr>use_operation_bytes := v\<rparr>"
| "usage_set u ProjectCopyBytes v = u\<lparr>use_project_copy_bytes := v\<rparr>"
| "usage_set u WorkingSetBytes v = u\<lparr>use_working_set_bytes := v\<rparr>"

text \<open>The selection of the limit in \<open>charge_global\<close>.\<close>

fun limit_get :: "resource_limits \<Rightarrow> budget_kind \<Rightarrow> nat" where
  "limit_get l OperationAncestryWork = lim_operation_ancestry_work l"
| "limit_get l CausalWitnessWork = lim_causal_witness_work l"
| "limit_get l AggregateConflictChecks = lim_aggregate_conflict_checks l"
| "limit_get l OperationBytes = lim_operation_bytes l"
| "limit_get l ProjectCopyBytes = lim_project_copy_bytes l"
| "limit_get l WorkingSetBytes = lim_working_set_bytes l"

record resource_limit_exceeded =
  rle_kind :: budget_kind
  rle_limit :: nat
  rle_used :: nat
  rle_requested :: nat

datatype resource_budget_error = LimitExceeded resource_limit_exceeded | Cancelled

record resource_budget =
  limits :: resource_limits
  usage :: resource_usage
  hook :: "nat \<Rightarrow> bool"
  polls :: nat

section \<open>Operations\<close>

definition never_cancel :: "nat \<Rightarrow> bool" where
  "never_cancel n = False"

definition with_cancellation :: "resource_limits \<Rightarrow> (nat \<Rightarrow> bool) \<Rightarrow> resource_budget" where
  "with_cancellation l h =
     \<lparr>limits = l, usage = resource_usage_default, hook = h, polls = 0\<rparr>"

definition resource_budget_new :: "resource_limits \<Rightarrow> resource_budget" where
  "resource_budget_new l =
     \<lparr>limits = l, usage = resource_usage_default, hook = never_cancel, polls = 0\<rparr>"

definition check_cancelled :: "(resource_budget, resource_budget_error, unit) rsm" where
  "check_cancelled b =
     (if hook b (polls b) then (Inl Cancelled, b\<lparr>polls := Suc (polls b)\<rparr>)
      else (Inr (), b\<lparr>polls := Suc (polls b)\<rparr>))"

definition charge_global ::
    "budget_kind \<Rightarrow> nat \<Rightarrow> (resource_budget, resource_budget_error, unit) rsm" where
  "charge_global kind amount b =
     (let used = usage_get (usage b) kind;
          limit = limit_get (limits b) kind;
          err = LimitExceeded \<lparr>rle_kind = kind, rle_limit = limit, rle_used = used,
                               rle_requested = amount\<rparr>
      in case checked_add used amount of
           None \<Rightarrow> (Inl err, b)
         | Some next \<Rightarrow>
             if limit < next then (Inl err, b)
             else (Inr (), b\<lparr>usage := usage_set (usage b) kind next\<rparr>))"

definition charge ::
    "budget_kind \<Rightarrow> nat \<Rightarrow> (resource_budget, resource_budget_error, unit) rsm" where
  "charge kind amount = bindR check_cancelled (\<lambda>_. charge_global kind amount)"

definition charge_with_limit ::
    "budget_kind \<Rightarrow> nat \<Rightarrow> nat
       \<Rightarrow> (resource_budget \<times> resource_usage, resource_budget_error, unit) rsm" where
  "charge_with_limit kind amount local_limit =
     bindR (on_fst check_cancelled) (\<lambda>_ (b, local_usage).
       (let local_used = usage_get local_usage kind;
            err = LimitExceeded \<lparr>rle_kind = kind, rle_limit = local_limit, rle_used = local_used,
                                 rle_requested = amount\<rparr>
        in case checked_add local_used amount of
             None \<Rightarrow> (Inl err, (b, local_usage))
           | Some local_next \<Rightarrow>
               if local_limit < local_next then (Inl err, (b, local_usage))
               else bindR (on_fst (charge_global kind amount))
                      (\<lambda>_ (b', u). (Inr (), (b', usage_set u kind local_next)))
                      (b, local_usage)))"

section \<open>Lemmas\<close>

lemma usage_get_set [simp]:
  "usage_get (usage_set u k v) k' = (if k' = k then v else usage_get u k')"
  by (cases k; cases k') simp_all

lemma usage_set_get [simp]: "usage_set u k (usage_get u k) = u"
  by (cases k) simp_all

lemma usage_get_default [simp]: "usage_get resource_usage_default k = 0"
  by (cases k) (simp_all add: resource_usage_default_def)

lemma usage_eqI: "(\<And>k. usage_get u k = usage_get v k) \<Longrightarrow> u = v"
  by (metis (full_types) old.unit.exhaust resource_usage.equality usage_get.simps)

lemma check_cancelled_cases:
  obtains "hook b (polls b)" "check_cancelled b = (Inl Cancelled, b\<lparr>polls := Suc (polls b)\<rparr>)"
  | "\<not> hook b (polls b)" "check_cancelled b = (Inr (), b\<lparr>polls := Suc (polls b)\<rparr>)"
  by (auto simp: check_cancelled_def)

text \<open>
  Every kind fits in a \<open>usize\<close>; a limit is one of the source's \<open>usize\<close> values, so the overflow
  branch of \<open>checked_add\<close> is subsumed by the comparison with the limit.
\<close>

definition limits_representable :: "resource_limits \<Rightarrow> bool" where
  "limits_representable l \<longleftrightarrow> (\<forall>k. limit_get l k \<le> usize_MAX)"

definition within_limits :: "resource_budget \<Rightarrow> bool" where
  "within_limits b \<longleftrightarrow> (\<forall>k. usage_get (usage b) k \<le> limit_get (limits b) k)"

lemma charge_global_eq:
  assumes "limit_get (limits b) k \<le> usize_MAX"
  shows "charge_global k n b =
    (if usage_get (usage b) k + n \<le> limit_get (limits b) k
     then (Inr (), b\<lparr>usage := usage_set (usage b) k (usage_get (usage b) k + n)\<rparr>)
     else (Inl (LimitExceeded \<lparr>rle_kind = k, rle_limit = limit_get (limits b) k,
             rle_used = usage_get (usage b) k, rle_requested = n\<rparr>), b))"
  using assms by (auto simp: charge_global_def Let_def split: option.splits)

lemma charge_global_Inr:
  "charge_global k n b = (Inr u, t) \<longleftrightarrow>
     usage_get (usage b) k + n \<le> usize_MAX \<and> usage_get (usage b) k + n \<le> limit_get (limits b) k \<and>
     t = b\<lparr>usage := usage_set (usage b) k (usage_get (usage b) k + n)\<rparr>"
  by (auto simp: charge_global_def Let_def split: option.splits)

lemma charge_global_Inl:
  "charge_global k n b = (Inl e, t) \<Longrightarrow>
     t = b \<and> e = LimitExceeded \<lparr>rle_kind = k, rle_limit = limit_get (limits b) k,
                               rle_used = usage_get (usage b) k, rle_requested = n\<rparr>"
  by (auto simp: charge_global_def Let_def split: option.splits if_splits)

lemma charge_Inr:
  "charge k n b = (Inr u, t) \<longleftrightarrow>
     \<not> hook b (polls b) \<and>
     usage_get (usage b) k + n \<le> usize_MAX \<and> usage_get (usage b) k + n \<le> limit_get (limits b) k \<and>
     t = b\<lparr>polls := Suc (polls b), usage := usage_set (usage b) k (usage_get (usage b) k + n)\<rparr>"
  by (auto simp: charge_def bindR_Inr_iff check_cancelled_def charge_global_Inr)

lemma charge_Inl:
  "charge k n b = (Inl e, t) \<Longrightarrow> t = b\<lparr>polls := Suc (polls b)\<rparr>"
  by (auto simp: charge_def bindR_Inl_iff check_cancelled_def split: if_splits
        dest: charge_global_Inl)

lemma charge_frame:
  "charge k n b = (r, t) \<Longrightarrow> limits t = limits b \<and> hook t = hook b \<and> polls t = Suc (polls b)"
  by (cases r) (auto simp: charge_Inr dest: charge_Inl)

interpretation budget_meter:
  meter "charge k" "\<lambda>b. usage_get (usage b) k" "\<lambda>b. limit_get (limits b) k" for k
  by unfold_locales (auto simp: charge_Inr dest: charge_frame)

section \<open>Runs of charges\<close>

text \<open>
  A caller holds the budget across many charges and may go on after a rejected one.
  \<open>run_charges\<close> is such a caller; it returns the requests the budget accepted.
\<close>

fun run_charges ::
    "(budget_kind \<times> nat) list \<Rightarrow> resource_budget \<Rightarrow> (budget_kind \<times> nat) list \<times> resource_budget" where
  "run_charges [] b = ([], b)"
| "run_charges ((k, n) # rs) b =
     (case charge k n b of
        (Inl e, b') \<Rightarrow> run_charges rs b'
      | (Inr u, b') \<Rightarrow> (case run_charges rs b' of (acc, b'') \<Rightarrow> ((k, n) # acc, b'')))"

definition charged :: "budget_kind \<Rightarrow> (budget_kind \<times> nat) list \<Rightarrow> nat" where
  "charged k rs = sum_list (map snd (filter (\<lambda>r. fst r = k) rs))"

lemma charged_simps [simp]:
  "charged k [] = 0"
  "charged k ((k', n) # rs) = (if k' = k then n + charged k rs else charged k rs)"
  by (simp_all add: charged_def)

lemma run_charges_usage:
  "run_charges rs b = (acc, t) \<Longrightarrow>
     usage_get (usage t) k = usage_get (usage b) k + charged k acc \<and> limits t = limits b"
proof (induction rs b arbitrary: acc rule: run_charges.induct)
  case (1 b)
  then show ?case by simp
next
  case (2 k' n rs b)
  obtain r b' where step: "charge k' n b = (r, b')" by fastforce
  show ?case
  proof (cases r)
    case (Inl e)
    with 2 step show ?thesis by (auto dest: charge_Inl)
  next
    case (Inr u)
    obtain acc' t' where rest: "run_charges rs b' = (acc', t')" by fastforce
    with "2.prems" step Inr have acc: "acc = (k', n) # acc'" and t: "t' = t"
      by simp_all
    from rest t have "run_charges rs b' = (acc', t)" by simp
    with "2.IH"(2) step Inr
    have "usage_get (usage t) k = usage_get (usage b') k + charged k acc'" "limits t = limits b'"
      by simp_all
    with step Inr acc show ?thesis by (auto simp: charge_Inr)
  qed
qed

lemma charge_within_limits:
  assumes "within_limits b" "charge k n b = (r, t)"
  shows "within_limits t"
  using assms by (cases r) (auto simp: within_limits_def charge_Inr dest!: charge_Inl)

lemma run_charges_within_limits:
  "within_limits b \<Longrightarrow> within_limits (snd (run_charges rs b))"
proof (induction rs b rule: run_charges.induct)
  case (1 b)
  then show ?case by simp
next
  case (2 k n rs b)
  obtain r b' where step: "charge k n b = (r, b')" by fastforce
  with "2.prems" have "within_limits b'" by (rule charge_within_limits)
  with 2 step show ?case
    by (cases r) (auto split: prod.split)
qed

lemma with_cancellation_within_limits [simp]: "within_limits (with_cancellation l h)"
  by (simp add: within_limits_def with_cancellation_def)

section \<open>Answers and ledgers\<close>

text \<open>The same caller, with the answer to every request.\<close>

fun serve ::
    "(budget_kind \<times> nat) list \<Rightarrow> resource_budget \<Rightarrow> (resource_budget_error + unit) list \<times> resource_budget" where
  "serve [] b = ([], b)"
| "serve ((k, n) # rs) b =
     (case charge k n b of (r, b') \<Rightarrow> (case serve rs b' of (answers, b'') \<Rightarrow> (r # answers, b'')))"

text \<open>
  A ledger knows one limit and one list of amounts: an amount that fits is added, another is left out.
  \<open>requests_of\<close> are the amounts of one kind, without the requests at the positions the hook cancels.
\<close>

fun ledger :: "nat \<Rightarrow> nat \<Rightarrow> nat list \<Rightarrow> nat" where
  "ledger cap t [] = t"
| "ledger cap t (n # ns) = ledger cap (if t + n \<le> cap then t + n else t) ns"

fun requests_of :: "(nat \<Rightarrow> bool) \<Rightarrow> budget_kind \<Rightarrow> nat \<Rightarrow> (budget_kind \<times> nat) list \<Rightarrow> nat list" where
  "requests_of h k i [] = []"
| "requests_of h k i ((k', n) # rs) =
     (if k' = k \<and> \<not> h i then n # requests_of h k (Suc i) rs else requests_of h k (Suc i) rs)"

lemma charge_eq:
  assumes "limits_representable (limits b)"
  shows "charge k n b =
    (let b' = b\<lparr>polls := Suc (polls b)\<rparr>
     in if hook b (polls b) then (Inl Cancelled, b')
        else if usage_get (usage b) k + n \<le> limit_get (limits b) k
        then (Inr (), b'\<lparr>usage := usage_set (usage b) k (usage_get (usage b) k + n)\<rparr>)
        else (Inl (LimitExceeded \<lparr>rle_kind = k, rle_limit = limit_get (limits b) k,
               rle_used = usage_get (usage b) k, rle_requested = n\<rparr>), b'))"
  using assms
  by (auto simp: charge_def bindR_def check_cancelled_def charge_global_eq Let_def limits_representable_def)

lemma serve_counters:
  assumes "limits_representable (limits b)"
  shows "usage_get (usage (snd (serve rs b))) k =
    ledger (limit_get (limits b) k) (usage_get (usage b) k) (requests_of (hook b) k (polls b) rs)"
  using assms
proof (induction rs b rule: serve.induct)
  case (2 k' n rs b)
  obtain r b' where step: "charge k' n b = (r, b')" by fastforce
  note keep = charge_frame [OF step]
  with 2 step show ?case
    by (simp add: charge_eq Let_def split: prod.splits if_splits) (auto split: if_splits)
qed simp

lemma serve_answers:
  assumes "limits_representable (limits b)"
  shows "fst (serve rs b) = map (\<lambda>i. case rs ! i of (k, n) \<Rightarrow>
      let used = ledger (limit_get (limits b) k) (usage_get (usage b) k) (requests_of (hook b) k (polls b) (take i rs))
      in if hook b (polls b + i) then Inl Cancelled
         else if used + n \<le> limit_get (limits b) k then Inr ()
         else Inl (LimitExceeded \<lparr>rle_kind = k, rle_limit = limit_get (limits b) k, rle_used = used, rle_requested = n\<rparr>))
      [0..<length rs]"
  using assms
proof (induction rs b rule: serve.induct)
  case (2 k' n rs b)
  obtain r b' where step: "charge k' n b = (r, b')" by fastforce
  note keep = charge_frame [OF step]
  have upto: "[0..<length ((k', n) # rs)] = 0 # map Suc [0..<length rs]"
    by (simp add: upt_conv_Cons map_Suc_upt del: upt_Suc)
  have used: "usage_get (usage b') k = ledger (limit_get (limits b) k) (usage_get (usage b) k)
      (requests_of (hook b) k (polls b) [(k', n)])" for k
    using serve_counters [of b "[(k', n)]" k] 2(2) step by simp
  have more: "ledger (limit_get (limits b) k) (usage_get (usage b) k) (requests_of (hook b) k (polls b) ((k', n) # xs)) =
      ledger (limit_get (limits b) k) (usage_get (usage b') k) (requests_of (hook b) k (Suc (polls b)) xs)" for k xs
    using used [of k] by auto
  have "fst (serve ((k', n) # rs) b) = r # fst (serve rs b')" using step by (simp split: prod.splits)
  moreover have "r = (if hook b (polls b) then Inl Cancelled
         else if usage_get (usage b) k' + n \<le> limit_get (limits b) k' then Inr ()
         else Inl (LimitExceeded \<lparr>rle_kind = k', rle_limit = limit_get (limits b) k', rle_used = usage_get (usage b) k', rle_requested = n\<rparr>))"
    using step 2(2) by (auto simp: charge_eq Let_def split: if_splits)
  ultimately show ?case
    using 2(1) [OF step [symmetric]] 2(2) keep unfolding upto
    by (simp add: comp_def Let_def more del: requests_of.simps(2) ledger.simps(2) split: prod.split)
qed simp

lemma serve_fresh:
  assumes "limits_representable l" "limit_get l = cap"
  shows "fst (serve rs (with_cancellation l h)) = map (\<lambda>i. case rs ! i of (k, n) \<Rightarrow>
      if h i then Inl Cancelled
      else if ledger (cap k) 0 (requests_of h k 0 (take i rs)) + n \<le> cap k then Inr ()
      else Inl (LimitExceeded \<lparr>rle_kind = k, rle_limit = cap k,
                  rle_used = ledger (cap k) 0 (requests_of h k 0 (take i rs)), rle_requested = n\<rparr>))
      [0..<length rs]"
  using serve_answers [of "with_cancellation l h" rs] assms(1)
  by (simp add: Let_def with_cancellation_def assms(2) split: prod.split)

section \<open>Properties\<close>

text \<open>
  Claim C1. A budget is six independent ledgers. A client makes any requests, one after the other, and
  goes on after refusals. Each of the six counters, read by its own accessor, ends with the total its
  ledger has: the requests of its kind in their order, without those that the hook cancelled, each
  added when it fits under the limit given for that counter and left out when it does not. The answer to
  every single request is determined by the same ledger: cancelled, accepted, or refused with the kind,
  its limit, the total so far and the request.
\<close>

theorem budget_keeps_ledgers:
  assumes "\<forall>c \<in> {anc, wit, agg, opb, prj, wrk}. c \<le> usize_MAX"
  shows "let (answers, b) = serve rs (with_cancellation (resource_limits_new anc wit agg opb prj wrk) h);
      cap = (\<lambda>k. case k of OperationAncestryWork \<Rightarrow> anc | CausalWitnessWork \<Rightarrow> wit | AggregateConflictChecks \<Rightarrow> agg
               | OperationBytes \<Rightarrow> opb | ProjectCopyBytes \<Rightarrow> prj | WorkingSetBytes \<Rightarrow> wrk);
      entered = (\<lambda>k i. ledger (cap k) 0 (requests_of h k 0 (take i rs)))
    in use_operation_ancestry_work (usage b) = entered OperationAncestryWork (length rs) \<and>
       use_causal_witness_work (usage b) = entered CausalWitnessWork (length rs) \<and>
       use_aggregate_conflict_checks (usage b) = entered AggregateConflictChecks (length rs) \<and>
       use_operation_bytes (usage b) = entered OperationBytes (length rs) \<and>
       use_project_copy_bytes (usage b) = entered ProjectCopyBytes (length rs) \<and>
       use_working_set_bytes (usage b) = entered WorkingSetBytes (length rs) \<and>
       answers = map (\<lambda>i. case rs ! i of (k, n) \<Rightarrow>
         if h i then Inl Cancelled
         else if entered k i + n \<le> cap k then Inr ()
         else Inl (LimitExceeded \<lparr>rle_kind = k, rle_limit = cap k, rle_used = entered k i, rle_requested = n\<rparr>))
         [0..<length rs]"
proof -
  let ?l = "resource_limits_new anc wit agg opb prj wrk" and ?b = "with_cancellation (resource_limits_new anc wit agg opb prj wrk) h"
  obtain answers b where run: "serve rs ?b = (answers, b)" by fastforce
  have fresh: "usage_get (usage ?b) k = 0" "hook ?b = h" "polls ?b = 0" "limits ?b = ?l" for k
    by (simp_all add: with_cancellation_def)
  have cap: "limit_get ?l = (\<lambda>k. case k of OperationAncestryWork \<Rightarrow> anc | CausalWitnessWork \<Rightarrow> wit
      | AggregateConflictChecks \<Rightarrow> agg | OperationBytes \<Rightarrow> opb | ProjectCopyBytes \<Rightarrow> prj | WorkingSetBytes \<Rightarrow> wrk)"
    by (auto simp: resource_limits_new_def split: budget_kind.split)
  have rep: "limits_representable ?l" using assms
    by (auto simp: limits_representable_def cap split: budget_kind.split)
  have counters: "usage_get (usage b) k = ledger (limit_get ?l k) 0 (requests_of h k 0 rs)" for k
    using serve_counters [of ?b rs k] rep run by (simp add: fresh)
  note answers = serve_fresh [OF rep cap, of rs h, unfolded run fst_conv]
  show ?thesis
    unfolding Let_def run prod.case
    by (intro conjI answers) (use counters [of OperationAncestryWork] counters [of CausalWitnessWork]
      counters [of AggregateConflictChecks] counters [of OperationBytes] counters [of ProjectCopyBytes]
      counters [of WorkingSetBytes] in \<open>simp_all add: cap\<close>)
qed

text \<open>Four requests: the second does not fit, the third is cancelled, the fourth fits again.\<close>

theorem budget_keeps_ledgers_witness:
  "case serve [(OperationBytes, 6), (OperationBytes, 5), (OperationBytes, 1), (OperationBytes, 4)]
          (with_cancellation (resource_limits_new 1 2 3 10 4 5) (\<lambda>i. i = 2)) of
     (answers, b) \<Rightarrow> use_operation_bytes (usage b) = 10 \<and> use_working_set_bytes (usage b) = 0 \<and>
       map isl answers = [False, True, True, False]"
  using budget_keeps_ledgers [of 1 2 3 10 4 5
      "[(OperationBytes, 6), (OperationBytes, 5), (OperationBytes, 1), (OperationBytes, 4)]" "\<lambda>i. i = 2"]
  by (auto simp: Let_def usize_MAX_def upt_rec split: prod.splits)

text \<open>
  Claim C36. A budget carried across any sequence of charges, accepted, rejected or cancelled, is
  cumulative: the counter of every kind is the sum of exactly the accepted charges of that kind,
  it never exceeds its limit, and the limits never change.
\<close>

theorem run_charges_cumulative:
  "let (acc, b) = run_charges rs (with_cancellation l h)
   in usage_get (usage b) k = charged k acc \<and> charged k acc \<le> limit_get l k \<and> limits b = l"
proof -
  obtain acc b where run: "run_charges rs (with_cancellation l h) = (acc, b)" by fastforce
  have "usage_get (usage b) k = charged k acc" "limits b = l"
    using run_charges_usage [OF run, of k] by (simp_all add: with_cancellation_def)
  moreover have "within_limits b"
    using run_charges_within_limits [of "with_cancellation l h" rs] run by simp
  ultimately show ?thesis by (simp add: run within_limits_def) metis
qed

text \<open>
  Claim C37. \<open>charge_with_limit\<close> is atomic over its two counters: either it succeeds and the shared
  and the local counter of the kind both grow by the requested amount and both respect their limit,
  or it fails and neither usage changes.
\<close>

theorem charge_with_limit_atomic:
  "case charge_with_limit k n lim (b, u) of
     (Inr _, (b', u')) \<Rightarrow>
       usage b' = usage_set (usage b) k (usage_get (usage b) k + n) \<and>
       u' = usage_set u k (usage_get u k + n) \<and>
       usage_get (usage b') k \<le> limit_get (limits b') k \<and> usage_get u' k \<le> lim \<and>
       limits b' = limits b \<and> \<not> hook b (polls b)
   | (Inl e, (b', u')) \<Rightarrow> usage b' = usage b \<and> u' = u \<and> limits b' = limits b"
proof (cases "hook b (polls b)")
  case True
  then show ?thesis
    by (simp add: charge_with_limit_def bindR_def on_fst_Pair check_cancelled_def)
next
  case False
  let ?b = "b\<lparr>polls := Suc (polls b)\<rparr>"
  obtain r b' where glob: "charge_global k n ?b = (r, b')" by fastforce
  have start: "charge_with_limit k n lim (b, u) =
      (if lim < usage_get u k + n \<or> usize_MAX < usage_get u k + n
       then (Inl (LimitExceeded \<lparr>rle_kind = k, rle_limit = lim, rle_used = usage_get u k,
                                 rle_requested = n\<rparr>), (?b, u))
       else case r of Inl e \<Rightarrow> (Inl e, (b', u))
            | Inr x \<Rightarrow> (Inr (), (b', usage_set u k (usage_get u k + n))))"
    using False
    by (auto simp: charge_with_limit_def bindR_def on_fst_Pair check_cancelled_def Let_def glob
        split: option.splits sum.splits)
  show ?thesis
  proof (cases r)
    case (Inl e)
    then show ?thesis using glob by (auto simp: start dest!: charge_global_Inl)
  next
    case (Inr x)
    then show ?thesis using glob False by (auto simp: start charge_global_Inr)
  qed
qed

end
