(* ===== verification/Ieee80211_Types.thy ===== *)
theory Ieee80211_Types
  imports Rust_Prelude
begin

text \<open>
  The data of the crate \<open>kyberia-ieee80211\<close> (\<open>crates/ieee80211/src/lib.rs\<close>): parse limits,
  management frames, information elements, decoded element values, errors, and the \<open>Control\<close>
  object that meters work and allocation and polls cancellation.

  An index or slice expression that would panic in Rust is the error \<open>Panic\<close>, which the source
  never returns as a value; that no input reaches it is a theorem of \<open>Ieee80211_Parse\<close>. The sizes
  \<open>std::mem::size_of::<T>()\<close> are chosen by the compiler and are a parameter, \<open>rust_layout\<close>.
  Cancellation is the application's: \<open>cancellation n\<close> is the answer to poll number \<open>n\<close>.
\<close>

section \<open>Limits and enumerations\<close>

record parse_limits =
  max_frame_bytes :: nat
  max_elements :: nat
  max_ie_payload_bytes :: nat
  max_work_units :: nat
  max_canonical_bytes :: nat
  max_allocation_bytes :: nat

definition parse_limits_default :: parse_limits where
  "parse_limits_default =
     \<lparr>max_frame_bytes = 11454, max_elements = 1024, max_ie_payload_bytes = 11418,
      max_work_units = 128000, max_canonical_bytes = 11468, max_allocation_bytes = 256 * 1024\<rparr>"

definition HEADER_LEN :: nat where "HEADER_LEN = 24"
definition RESPONSE_FIXED_LEN :: nat where "RESPONSE_FIXED_LEN = 12"
definition ASSOCIATION_REQUEST_FIXED_LEN :: nat where "ASSOCIATION_REQUEST_FIXED_LEN = 4"
definition ASSOCIATION_RESPONSE_FIXED_LEN :: nat where "ASSOCIATION_RESPONSE_FIXED_LEN = 6"
definition REASSOCIATION_REQUEST_FIXED_LEN :: nat where "REASSOCIATION_REQUEST_FIXED_LEN = 10"
definition REASSOCIATION_RESPONSE_FIXED_LEN :: nat where "REASSOCIATION_RESPONSE_FIXED_LEN = 6"

lemmas length_constants =
  HEADER_LEN_def RESPONSE_FIXED_LEN_def ASSOCIATION_REQUEST_FIXED_LEN_def
  ASSOCIATION_RESPONSE_FIXED_LEN_def REASSOCIATION_REQUEST_FIXED_LEN_def
  REASSOCIATION_RESPONSE_FIXED_LEN_def

datatype input_framing = FcsAbsent | FcsPresentAndValidate

datatype management_subtype =
  AssociationRequest
| AssociationResponse
| ReassociationRequest
| ReassociationResponse
| ProbeRequest
| ProbeResponse
| Beacon

datatype mac_address = MacAddress (octets: "u8 list")

record address_roles =
  receiver :: mac_address
  transmitter :: mac_address
  bssid_field :: mac_address

record response_fixed_fields =
  timestamp :: u64
  beacon_interval_tu :: u16
  capability_information :: u16

section \<open>Information elements\<close>

datatype ssid_value = Hidden | Wildcard | Binary "u8 list"

record encoded_rate =
  rate_raw :: u8
  rate_basic :: bool
  units_500_kbps :: u8

record tim_structure =
  dtim_count :: u8
  dtim_period :: u8
  bitmap_control :: u8
  partial_virtual_bitmap :: "u8 list"

record country_structure =
  country_environment :: "u8 list"
  triplets :: "(u8 \<times> u8 \<times> u8) list"
  padding :: "u8 option"

datatype element_problem =
  SsidTooLong
| RatesLength
| DsLength
| TimContext
| TimTooShort
| TimTooLong
| TimInvalidPeriod
| TimCountExceedsPeriod
| CountryTooShort
| CountryInvalidPadding

datatype element_decode =
  Ssid ssid_value
| SupportedRates "encoded_rate list"
| ExtendedSupportedRates "encoded_rate list"
| DsParameterChannel u8
| Tim tim_structure
| Country country_structure
| Extension u8 "u8 list"
| UnknownElement
| Malformed element_problem

record information_element =
  ie_id :: u8
  ie_extension_id :: "u8 option"
  ie_offset :: u32
  ie_payload_offset :: u32
  ie_payload :: "u8 list"
  ie_decoded :: element_decode

text \<open>
  \<open>ElementKey\<close> derives \<open>Ord\<close>: the identifier first, then the optional extension identifier with
  \<open>None\<close> before every \<open>Some\<close>.
\<close>

datatype element_key = ElementKey (key_id: u8) (key_extension_id: "u8 option")

fun ext_rank :: "u8 option \<Rightarrow> nat" where
  "ext_rank None = 0"
| "ext_rank (Some e) = Suc (unat e)"

definition key_rank :: "element_key \<Rightarrow> nat \<times> nat" where
  "key_rank k = (unat (key_id k), ext_rank (key_extension_id k))"

lemma ext_rank_inject [simp]: "ext_rank a = ext_rank b \<longleftrightarrow> a = b"
  by (cases a; cases b) (auto simp: word_unat_eq_iff)

lemma key_rank_inject [simp]: "key_rank a = key_rank b \<longleftrightarrow> a = b"
  by (cases a; cases b) (auto simp: key_rank_def word_unat_eq_iff)

instantiation element_key :: linorder
begin

definition less_eq_element_key :: "element_key \<Rightarrow> element_key \<Rightarrow> bool" where
  "a \<le> b \<longleftrightarrow> key_rank a \<le> key_rank b"

definition less_element_key :: "element_key \<Rightarrow> element_key \<Rightarrow> bool" where
  "a < b \<longleftrightarrow> key_rank a < key_rank b"

instance
  by standard (auto simp: less_eq_element_key_def less_element_key_def less_le_not_le)

end

definition element_key_of :: "information_element \<Rightarrow> element_key" where
  "element_key_of e = ElementKey (ie_id e) (ie_extension_id e)"

record repeated_element =
  rep_key :: element_key
  rep_indices :: "u32 list"
  payloads_identical :: bool
  violates_singleton_cardinality :: bool
  contradictory :: bool

record management_frame =
  schema_version :: u16
  framing :: input_framing
  raw_mpdu :: "u8 list"
  subtype :: management_subtype
  frame_control :: u16
  duration_id :: u16
  addresses :: address_roles
  sequence_number :: u16
  fragment_number :: u8
  fixed :: "response_fixed_fields option"
  elements :: "information_element list"
  repeated_elements :: "repeated_element list"

record ie_resource_usage =
  work_units :: nat
  allocation_bytes :: nat

section \<open>Errors\<close>

datatype ie_error =
  IeCancelled
| IeLimitExceeded string
| Truncated string
| UnsupportedProtocolVersion u8
| UnsupportedFrameType u8
| UnsupportedManagementSubtype u8
| InvalidManagementDsFlags u8
| InvalidFcs u32 u32
| TruncatedInformationElement u32 u8
| EmptyExtensionElement u32
| CanonicalMagic
| CanonicalVersion u16
| CanonicalFraming u8
| CanonicalLength
| NonCanonical
| Panic

section \<open>Control: metered work and allocation\<close>

record rust_layout =
  size_InformationElement :: nat
  size_ElementChange :: nat
  size_ElementOccurrence :: nat
  size_EncodedRate :: nat
  size_RepeatedElement :: nat

definition size_usize :: nat where "size_usize = 8"
definition size_u32 :: nat where "size_u32 = 4"

record control =
  ctl_limits :: parse_limits
  cancellation :: "nat \<Rightarrow> bool"
  ctl_polls :: nat
  work :: nat
  allocation :: nat

definition control_new :: "parse_limits \<Rightarrow> (nat \<Rightarrow> bool) \<Rightarrow> control" where
  "control_new l canc =
     \<lparr>ctl_limits = l, cancellation = canc, ctl_polls = 0, work = 0, allocation = 0\<rparr>"

definition ctl_charge :: "nat \<Rightarrow> (control, ie_error, unit) rsm" where
  "ctl_charge amount c =
     (let c1 = c\<lparr>ctl_polls := Suc (ctl_polls c)\<rparr>
      in if cancellation c (ctl_polls c) then (Inl IeCancelled, c1)
         else case checked_add (work c) amount of
                None \<Rightarrow> (Inl (IeLimitExceeded ''work units''), c1)
              | Some w \<Rightarrow>
                  if max_work_units (ctl_limits c) < w
                  then (Inl (IeLimitExceeded ''work units''), c1\<lparr>work := w\<rparr>)
                  else (Inr (), c1\<lparr>work := w\<rparr>))"

definition ctl_allocate :: "nat \<Rightarrow> (control, ie_error, unit) rsm" where
  "ctl_allocate amount =
     bindR (ctl_charge 1) (\<lambda>_ c.
       case checked_add (allocation c) amount of
         None \<Rightarrow> (Inl (IeLimitExceeded ''allocation bytes''), c)
       | Some a \<Rightarrow>
           if max_allocation_bytes (ctl_limits c) < a
           then (Inl (IeLimitExceeded ''allocation bytes''), c\<lparr>allocation := a\<rparr>)
           else (Inr (), c\<lparr>allocation := a\<rparr>))"

definition ctl_usage :: "control \<Rightarrow> ie_resource_usage" where
  "ctl_usage c = \<lparr>work_units = work c, allocation_bytes = allocation c\<rparr>"

lemma ctl_charge_Inr:
  "ctl_charge n c = (Inr u, t) \<longleftrightarrow>
     \<not> cancellation c (ctl_polls c) \<and> work c + n \<le> usize_MAX \<and>
     work c + n \<le> max_work_units (ctl_limits c) \<and>
     t = c\<lparr>ctl_polls := Suc (ctl_polls c), work := work c + n\<rparr>"
  by (auto simp: ctl_charge_def Let_def split: option.splits)

lemma ctl_charge_Inl:
  "ctl_charge n c = (Inl e, t) \<Longrightarrow>
     ctl_limits t = ctl_limits c \<and> cancellation t = cancellation c \<and> allocation t = allocation c \<and>
     (e = IeCancelled \<or> e = IeLimitExceeded ''work units'')"
  by (auto simp: ctl_charge_def Let_def split: option.splits if_splits)

lemma ctl_allocate_Inr:
  "ctl_allocate n c = (Inr u, t) \<longleftrightarrow>
     \<not> cancellation c (ctl_polls c) \<and> work c + 1 \<le> usize_MAX \<and>
     work c + 1 \<le> max_work_units (ctl_limits c) \<and>
     allocation c + n \<le> usize_MAX \<and> allocation c + n \<le> max_allocation_bytes (ctl_limits c) \<and>
     t = c\<lparr>ctl_polls := Suc (ctl_polls c), work := work c + 1, allocation := allocation c + n\<rparr>"
  by (auto simp: ctl_allocate_def bindR_Inr_iff ctl_charge_Inr split: option.splits)

lemma ctl_allocate_Inl:
  "ctl_allocate n c = (Inl e, t) \<Longrightarrow>
     ctl_limits t = ctl_limits c \<and> cancellation t = cancellation c \<and>
     (e = IeCancelled \<or> e = IeLimitExceeded ''work units'' \<or> e = IeLimitExceeded ''allocation bytes'')"
  by (auto simp: ctl_allocate_def bindR_Inl_iff ctl_charge_Inr split: option.splits if_splits
        dest: ctl_charge_Inl)

lemma ctl_charge_frame: "ctl_charge n c = (r, t) \<Longrightarrow> ctl_limits t = ctl_limits c"
  by (cases r) (auto simp: ctl_charge_Inr dest: ctl_charge_Inl)

lemma ctl_allocate_frame: "ctl_allocate n c = (r, t) \<Longrightarrow> ctl_limits t = ctl_limits c"
  by (cases r) (auto simp: ctl_allocate_Inr dest: ctl_allocate_Inl)

interpretation work_meter: meter ctl_charge work "\<lambda>c. max_work_units (ctl_limits c)"
  by unfold_locales (auto simp: ctl_charge_Inr dest: ctl_charge_frame)

interpretation allocation_meter:
  meter ctl_allocate allocation "\<lambda>c. max_allocation_bytes (ctl_limits c)"
  by unfold_locales (auto simp: ctl_allocate_Inr dest: ctl_allocate_frame)

end
