(* ===== verification/Ieee80211_Metered.thy ===== *)
theory Ieee80211_Metered
  imports Ieee80211_Types
begin

text \<open>
  Reasoning about programs that run under a \<open>Control\<close>. Two kinds of judgement are compositional over
  \<open>bindR\<close>, so each function of the parser is covered by one short lemma:

  \<^item> \<open>ctl_det L m\<close>: under limits \<open>L\<close> the program has one value and one price. Either it never
    succeeds, or there are a value, an amount of work, an amount of allocation and a number of
    polls such that it succeeds exactly when that much is left and no poll cancels, and then it
    returns that value and has spent exactly that.
  \<^item> \<open>yields m Q\<close> and \<open>implements m v\<close>: what the program returns, and which of its errors can only
    be due to the resources it was given.
\<close>

section \<open>One value, one price\<close>

definition work_cap :: "control \<Rightarrow> nat" where
  "work_cap c = min usize_MAX (max_work_units (ctl_limits c))"

definition allocation_cap :: "control \<Rightarrow> nat" where
  "allocation_cap c = min usize_MAX (max_allocation_bytes (ctl_limits c))"

definition ctl_ok :: "control \<Rightarrow> bool" where
  "ctl_ok c \<longleftrightarrow> work c \<le> work_cap c \<and> allocation c \<le> allocation_cap c"

definition spent :: "control \<Rightarrow> nat \<Rightarrow> nat \<Rightarrow> nat \<Rightarrow> control" where
  "spent c w a p = c\<lparr>ctl_polls := ctl_polls c + p, work := work c + w, allocation := allocation c + a\<rparr>"

definition affordable :: "control \<Rightarrow> nat \<Rightarrow> nat \<Rightarrow> nat \<Rightarrow> bool" where
  "affordable c w a p \<longleftrightarrow>
     (\<forall>i < p. \<not> cancellation c (ctl_polls c + i)) \<and>
     work c + w \<le> work_cap c \<and> allocation c + a \<le> allocation_cap c"

definition priced ::
    "parse_limits \<Rightarrow> (control, ie_error, 'a) rsm \<Rightarrow> 'a \<Rightarrow> nat \<Rightarrow> nat \<Rightarrow> nat \<Rightarrow> bool" where
  "priced L m v w a p \<longleftrightarrow>
     (\<forall>c x t. ctl_limits c = L \<longrightarrow> ctl_ok c \<longrightarrow>
        (m c = (Inr x, t) \<longleftrightarrow> x = v \<and> affordable c w a p \<and> t = spent c w a p))"

definition hopeless :: "parse_limits \<Rightarrow> (control, ie_error, 'a) rsm \<Rightarrow> bool" where
  "hopeless L m \<longleftrightarrow> (\<forall>c x t. ctl_limits c = L \<longrightarrow> ctl_ok c \<longrightarrow> m c \<noteq> (Inr x, t))"

definition ctl_det :: "parse_limits \<Rightarrow> (control, ie_error, 'a) rsm \<Rightarrow> bool" where
  "ctl_det L m \<longleftrightarrow> (\<exists>v w a p. priced L m v w a p) \<or> hopeless L m"

lemma spent_simps [simp]:
  "ctl_limits (spent c w a p) = ctl_limits c"
  "cancellation (spent c w a p) = cancellation c"
  "ctl_polls (spent c w a p) = ctl_polls c + p"
  "work (spent c w a p) = work c + w"
  "allocation (spent c w a p) = allocation c + a"
  "work_cap (spent c w a p) = work_cap c"
  "allocation_cap (spent c w a p) = allocation_cap c"
  by (simp_all add: spent_def work_cap_def allocation_cap_def)

lemma spent_spent [simp]: "spent (spent c w a p) w' a' p' = spent c (w + w') (a + a') (p + p')"
  by (simp add: spent_def add.assoc)

lemma spent_0 [simp]: "spent c 0 0 0 = c"
  by (simp add: spent_def)

lemma affordable_ok: "affordable c w a p \<Longrightarrow> ctl_ok (spent c w a p)"
  by (simp add: affordable_def ctl_ok_def)

lemma affordable_0 [simp]: "ctl_ok c \<Longrightarrow> affordable c 0 0 0"
  by (simp add: affordable_def ctl_ok_def)

lemma ctl_ok_control_new [simp]: "ctl_ok (control_new L canc)"
  by (simp add: ctl_ok_def control_new_def work_cap_def allocation_cap_def)

lemma ctl_limits_control_new [simp]: "ctl_limits (control_new L canc) = L"
  by (simp add: control_new_def)

lemma affordable_add:
  "affordable c w a p \<and> affordable (spent c w a p) w' a' p' \<longleftrightarrow>
     affordable c (w + w') (a + a') (p + p')"
proof -
  have "(\<forall>i < p + p'. P i) \<longleftrightarrow> (\<forall>i < p. P i) \<and> (\<forall>i < p'. P (p + i))" for P :: "nat \<Rightarrow> bool"
  proof safe
    fix i assume P: "\<forall>i < p. P i" "\<forall>i < p'. P (p + i)" and i: "i < p + p'"
    show "P i"
    proof (cases "i < p")
      case False
      then have "i = p + (i - p)" "i - p < p'" using i by auto
      with P(2) show ?thesis by metis
    qed (use P(1) in simp)
  qed auto
  then show ?thesis by (auto simp: affordable_def add.assoc)
qed

lemma pricedD:
  "priced L m v w a p \<Longrightarrow> ctl_limits c = L \<Longrightarrow> ctl_ok c \<Longrightarrow>
     m c = (Inr x, t) \<longleftrightarrow> x = v \<and> affordable c w a p \<and> t = spent c w a p"
  by (simp add: priced_def)

lemma priced_ret: "priced L (ret v) v 0 0 0"
  by (auto simp: priced_def)

lemma priced_charge: "priced L (ctl_charge n) () n 0 1"
  by (auto simp: priced_def ctl_charge_Inr affordable_def spent_def work_cap_def allocation_cap_def
      ctl_ok_def)

lemma priced_allocate: "priced L (ctl_allocate n) () 1 n 1"
  by (auto simp: priced_def ctl_allocate_Inr affordable_def spent_def work_cap_def
      allocation_cap_def ctl_ok_def)

lemma priced_bind:
  assumes m: "priced L m v w a p" and f: "priced L (f v) v' w' a' p'"
  shows "priced L (bindR m f) v' (w + w') (a + a') (p + p')"
  unfolding priced_def
proof (intro allI impI)
  fix c x t assume c: "ctl_limits c = L" "ctl_ok c"
  have "bindR m f c = (Inr x, t) \<longleftrightarrow>
      affordable c w a p \<and> f v (spent c w a p) = (Inr x, t)"
    by (auto simp: bindR_Inr_iff pricedD [OF m c])
  also have "\<dots> \<longleftrightarrow> affordable c w a p \<and> x = v' \<and> affordable (spent c w a p) w' a' p' \<and>
      t = spent c (w + w') (a + a') (p + p')"
    using pricedD [OF f] c affordable_ok by auto
  finally show "bindR m f c = (Inr x, t) \<longleftrightarrow> x = v' \<and> affordable c (w + w') (a + a') (p + p') \<and>
      t = spent c (w + w') (a + a') (p + p')"
    using affordable_add by blast
qed

lemma hopeless_bind1: "hopeless L m \<Longrightarrow> hopeless L (bindR m f)"
  by (auto simp: hopeless_def bindR_Inr_iff)

lemma hopeless_bind2: "priced L m v w a p \<Longrightarrow> hopeless L (f v) \<Longrightarrow> hopeless L (bindR m f)"
  by (auto simp: hopeless_def bindR_Inr_iff pricedD dest: affordable_ok)

named_theorems ctl_det_rules "one value, one price, for each program construct"

lemma ctl_det_ret [ctl_det_rules]: "ctl_det L (ret v)"
  unfolding ctl_det_def by (intro disjI1 exI) (rule priced_ret)

lemma ctl_det_fail [ctl_det_rules]: "ctl_det L (fail e)"
  by (simp add: ctl_det_def hopeless_def)

lemma ctl_det_charge [ctl_det_rules]: "ctl_det L (ctl_charge n)"
  unfolding ctl_det_def by (intro disjI1 exI) (rule priced_charge)

lemma ctl_det_allocate [ctl_det_rules]: "ctl_det L (ctl_allocate n)"
  unfolding ctl_det_def by (intro disjI1 exI) (rule priced_allocate)

lemma ctl_det_guardR [ctl_det_rules]: "ctl_det L (guardR b e)"
  by (cases b) (simp_all add: guardR_def ctl_det_ret ctl_det_fail)

lemma ctl_det_ok_or [ctl_det_rules]: "ctl_det L (ok_or v e)"
  by (cases v) (simp_all add: ok_or_def ctl_det_ret ctl_det_fail)

lemma ctl_det_bind:
  assumes "ctl_det L m" "\<And>x. ctl_det L (f x)"
  shows "ctl_det L (bindR m f)"
proof (cases "hopeless L m")
  case True
  then show ?thesis by (simp add: ctl_det_def hopeless_bind1)
next
  case False
  with assms(1) obtain v w a p where m: "priced L m v w a p" by (auto simp: ctl_det_def)
  from assms(2) [of v] show ?thesis
    unfolding ctl_det_def using priced_bind [OF m] hopeless_bind2 [OF m] by metis
qed

text \<open>The continuation of a checked operation may use what the check established.\<close>

lemma ctl_det_bind_ok_or:
  assumes "\<And>x. v = Some x \<Longrightarrow> ctl_det L (f x)"
  shows "ctl_det L (bindR (ok_or v e) f)"
proof (cases v)
  case None
  then show ?thesis by (simp add: ctl_det_def hopeless_def)
next
  case (Some x)
  then have "bindR (ok_or v e) f = f x" by (auto simp: fun_eq_iff)
  with Some assms show ?thesis by simp
qed

lemma ctl_det_if: "(b \<Longrightarrow> ctl_det L m) \<Longrightarrow> (\<not> b \<Longrightarrow> ctl_det L m') \<Longrightarrow> ctl_det L (if b then m else m')"
  by simp

text \<open>A guard that reads the limits from its control.\<close>

lemma ctl_det_guard_limits [ctl_det_rules]:
  assumes "ctl_det L m"
  shows "ctl_det L (\<lambda>c. bindR (guardR (P (ctl_limits c)) e) (\<lambda>_. m) c)"
proof (cases "P L")
  case True
  with assms show ?thesis by (auto simp: ctl_det_def priced_def hopeless_def)
next
  case False
  then have "hopeless L (\<lambda>c. bindR (guardR (P (ctl_limits c)) e) (\<lambda>_. m) c)"
    by (simp add: hopeless_def)
  then show ?thesis by (simp add: ctl_det_def)
qed

lemma ctl_det_result_unique:
  assumes "ctl_det L m" "ctl_limits c = L" "ctl_ok c" "m c = (Inr x, t)"
    and "ctl_limits c' = L" "ctl_ok c'" "m c' = (Inr x', t')"
  shows "x' = x"
proof -
  from assms(1-4) obtain v w a p where m: "priced L m v w a p"
    by (auto simp: ctl_det_def hopeless_def)
  have "x = v" "x' = v"
    using pricedD [OF m assms(2,3)] pricedD [OF m assms(5,6)] assms(4,7) by blast+
  then show ?thesis by simp
qed

text \<open>
  A successful run can be repeated from another control with the same limits, provided that what
  the first run spent is still available there and nobody cancels; it spends the same again.
\<close>

lemma ctl_det_rerun:
  assumes "ctl_det L m" "ctl_limits c = L" "ctl_ok c" "m c = (Inr x, t)"
    and "ctl_limits c' = L" "ctl_ok c'" "\<And>i. \<not> cancellation c' i"
    and "work c' + (work t - work c) \<le> work_cap c'"
    and "allocation c' + (allocation t - allocation c) \<le> allocation_cap c'"
  shows "\<exists>t'. m c' = (Inr x, t') \<and> work t' = work c' + (work t - work c) \<and>
    allocation t' = allocation c' + (allocation t - allocation c)"
proof -
  from assms(1-4) obtain v w a p where m: "priced L m v w a p"
    by (auto simp: ctl_det_def hopeless_def)
  with assms(2-4) have x: "x = v" and t: "t = spent c w a p" by (auto simp: pricedD)
  have "affordable c' w a p" using assms(7-9) t by (simp add: affordable_def)
  then have "m c' = (Inr x, spent c' w a p)" using pricedD [OF m assms(5,6)] x by simp
  with t show ?thesis by simp
qed

lemma ctl_det_spends:
  assumes "ctl_det L m" "ctl_limits c = L" "ctl_ok c" "m c = (Inr x, t)"
  shows "ctl_limits t = L" "ctl_ok t" "work c \<le> work t" "allocation c \<le> allocation t"
    "cancellation t = cancellation c"
proof -
  from assms obtain v w a p where m: "priced L m v w a p"
    by (auto simp: ctl_det_def hopeless_def)
  with assms have "affordable c w a p" "t = spent c w a p" by (auto simp: pricedD)
  with assms(2) show "ctl_limits t = L" "ctl_ok t" "work c \<le> work t" "allocation c \<le> allocation t"
    "cancellation t = cancellation c"
    by (auto simp: affordable_ok)
qed

section \<open>Outcomes\<close>

text \<open>The errors that speak of the resources granted to a call, not of its input.\<close>

definition resource_error :: "ie_error \<Rightarrow> bool" where
  "resource_error e \<longleftrightarrow> e = IeCancelled \<or> (\<exists>what. e = IeLimitExceeded what)"

lemma resource_error_simps [simp]:
  "resource_error IeCancelled" "resource_error (IeLimitExceeded what)"
  "\<not> resource_error Panic"
  by (simp_all add: resource_error_def)

lemma ctl_charge_error: "ctl_charge n c = (Inl e, t) \<Longrightarrow> resource_error e"
  by (auto dest: ctl_charge_Inl)

lemma ctl_allocate_error: "ctl_allocate n c = (Inl e, t) \<Longrightarrow> resource_error e"
  by (auto dest: ctl_allocate_Inl)

subsection \<open>Programs that can only run out of resources\<close>

definition yields :: "(control, ie_error, 'a) rsm \<Rightarrow> ('a \<Rightarrow> bool) \<Rightarrow> bool" where
  "yields m Q \<longleftrightarrow>
     (\<forall>c e t. m c = (Inl e, t) \<longrightarrow> resource_error e) \<and> (\<forall>c x t. m c = (Inr x, t) \<longrightarrow> Q x)"

named_theorems yields_rules "a postcondition and resource errors only, for each program construct"

lemma yieldsI:
  assumes "\<And>c e t. m c = (Inl e, t) \<Longrightarrow> resource_error e" "\<And>c x t. m c = (Inr x, t) \<Longrightarrow> Q x"
  shows "yields m Q"
  using assms unfolding yields_def by blast

lemma yieldsD:
  assumes "yields m Q"
  shows "m c = (Inl e, t) \<Longrightarrow> resource_error e" "m c = (Inr x, t) \<Longrightarrow> Q x"
  using assms unfolding yields_def by blast+

lemma yields_mono: "yields m Q \<Longrightarrow> (\<And>x. Q x \<Longrightarrow> Q' x) \<Longrightarrow> yields m Q'"
  unfolding yields_def by blast

lemma yields_ret [yields_rules]: "Q v \<Longrightarrow> yields (ret v) Q"
  by (auto intro: yieldsI)

lemma yields_fail [yields_rules]: "resource_error e \<Longrightarrow> yields (fail e) Q"
  by (auto intro: yieldsI)

lemma yields_if [yields_rules]:
  "(b \<Longrightarrow> yields m Q) \<Longrightarrow> (\<not> b \<Longrightarrow> yields m' Q) \<Longrightarrow> yields (if b then m else m') Q"
  by simp

lemma yields_bind:
  assumes "yields m Q'" "\<And>x. Q' x \<Longrightarrow> yields (f x) Q"
  shows "yields (bindR m f) Q"
  using assms by (intro yieldsI) (auto simp: bindR_Inr_iff bindR_Inl_iff dest: yieldsD)

lemma yields_bind_charge [yields_rules]: "yields (f ()) Q \<Longrightarrow> yields (bindR (ctl_charge n) f) Q"
  by (rule yields_bind [where Q' = "\<lambda>_. True"]) (auto intro: yieldsI dest: ctl_charge_error)

lemma yields_bind_allocate [yields_rules]: "yields (f ()) Q \<Longrightarrow> yields (bindR (ctl_allocate n) f) Q"
  by (rule yields_bind [where Q' = "\<lambda>_. True"]) (auto intro: yieldsI dest: ctl_allocate_error)

lemma yields_bind_guardR [yields_rules]:
  "b \<or> resource_error e \<Longrightarrow> (b \<Longrightarrow> yields (f ()) Q) \<Longrightarrow> yields (bindR (guardR b e) f) Q"
  by (rule yields_bind [where Q' = "\<lambda>_. b"]) (auto intro: yieldsI split: if_splits)

lemma yields_bind_ok_or [yields_rules]:
  "v \<noteq> None \<or> resource_error e \<Longrightarrow> (\<And>x. v = Some x \<Longrightarrow> yields (f x) Q) \<Longrightarrow>
     yields (bindR (ok_or v e) f) Q"
  by (rule yields_bind [where Q' = "\<lambda>x. v = Some x"]) (auto intro!: yieldsI split: option.splits)

subsection \<open>Programs that implement a partial function\<close>

text \<open>
  \<open>implements m v\<close>: the program returns the value of the specification \<open>v\<close>; where the
  specification has a value it fails only for want of resources; and it never panics.
\<close>

definition implements :: "(control, ie_error, 'a) rsm \<Rightarrow> 'a option \<Rightarrow> bool" where
  "implements m v \<longleftrightarrow>
     (\<forall>c x t. m c = (Inr x, t) \<longrightarrow> v = Some x) \<and>
     (\<forall>c e t. m c = (Inl e, t) \<longrightarrow> e \<noteq> Panic \<and> (v = None \<or> resource_error e))"

named_theorems implements_rules "the specification of each program construct"

lemma implementsI:
  assumes "\<And>c x t. m c = (Inr x, t) \<Longrightarrow> v = Some x"
    and "\<And>c e t. m c = (Inl e, t) \<Longrightarrow> e \<noteq> Panic \<and> (v = None \<or> resource_error e)"
  shows "implements m v"
  using assms unfolding implements_def by blast

lemma implementsD:
  assumes "implements m v"
  shows "m c = (Inr x, t) \<Longrightarrow> v = Some x"
    and "m c = (Inl e, t) \<Longrightarrow> e \<noteq> Panic \<and> (v = None \<or> resource_error e)"
  using assms unfolding implements_def by blast+

lemma yields_implements: "yields m (\<lambda>x. x = v) \<Longrightarrow> implements m (Some v)"
  by (auto intro!: implementsI dest: yieldsD)

lemma implements_yields: "implements m (Some v) \<Longrightarrow> yields m (\<lambda>x. x = v)"
  by (auto intro!: yieldsI dest: implementsD)

lemma implements_ret [implements_rules]: "implements (ret x) (Some x)"
  by (auto intro: implementsI)

lemma implements_fail [implements_rules]: "e \<noteq> Panic \<Longrightarrow> implements (fail e) None"
  by (auto intro: implementsI)

lemma implements_charge [implements_rules]: "implements (ctl_charge n) (Some ())"
  by (auto intro!: implementsI dest: ctl_charge_error)

lemma implements_allocate [implements_rules]: "implements (ctl_allocate n) (Some ())"
  by (auto intro!: implementsI dest: ctl_allocate_error)

lemma implements_bind:
  assumes "implements m v" "\<And>x. v = Some x \<Longrightarrow> implements (f x) (g x)"
  shows "implements (bindR m f) (Option.bind v g)"
proof (rule implementsI)
  fix c y t assume "bindR m f c = (Inr y, t)"
  then obtain x s where "m c = (Inr x, s)" "f x s = (Inr y, t)" by (auto simp: bindR_Inr_iff)
  then show "Option.bind v g = Some y"
    using implementsD(1) [OF assms(1)] implementsD(1) [OF assms(2)] by (metis Option.bind.simps(2))
next
  fix c e t assume "bindR m f c = (Inl e, t)"
  then consider "m c = (Inl e, t)" | x s where "m c = (Inr x, s)" "f x s = (Inl e, t)"
    by (auto simp: bindR_Inl_iff)
  then show "e \<noteq> Panic \<and> (Option.bind v g = None \<or> resource_error e)"
  proof cases
    case 1
    then show ?thesis using implementsD(2) [OF assms(1) 1] by auto
  next
    case 2
    then have "v = Some x" using implementsD(1) [OF assms(1)] by simp
    with 2 show ?thesis using implementsD(2) [OF assms(2)] by (metis Option.bind.simps(2))
  qed
qed

text \<open>Rules that consume the first step of a program.\<close>

lemma implements_bind_charge [implements_rules]:
  "implements (f ()) v \<Longrightarrow> implements (bindR (ctl_charge n) f) v"
  using implements_bind [OF implements_charge, of f "\<lambda>_. v"] by simp

lemma implements_bind_allocate [implements_rules]:
  "implements (f ()) v \<Longrightarrow> implements (bindR (ctl_allocate n) f) v"
  using implements_bind [OF implements_allocate, of f "\<lambda>_. v"] by simp

lemma implements_if [implements_rules]:
  "(b \<Longrightarrow> implements m v) \<Longrightarrow> (\<not> b \<Longrightarrow> implements m' v) \<Longrightarrow> implements (if b then m else m') v"
  by simp

lemma implements_bind_guardR [implements_rules]:
  assumes "e \<noteq> Panic" "\<not> b \<Longrightarrow> v = None \<or> resource_error e" "b \<Longrightarrow> implements (f ()) v"
  shows "implements (bindR (guardR b e) f) v"
  using assms by (cases b) (auto intro!: implementsI dest: implementsD)

lemma implements_bind_ok_or [implements_rules]:
  assumes "u = None \<Longrightarrow> e \<noteq> Panic \<and> (v = None \<or> resource_error e)"
    and "\<And>x. u = Some x \<Longrightarrow> implements (f x) v"
  shows "implements (bindR (ok_or u e) f) v"
  using assms by (cases u) (auto intro!: implementsI dest: implementsD)

lemma implements_bind_eq:
  assumes "implements m u" "u = None \<Longrightarrow> v = None" "\<And>x. u = Some x \<Longrightarrow> implements (f x) v"
  shows "implements (bindR m f) v"
proof (cases u)
  case None
  then show ?thesis using implements_bind [OF assms(1), of f "\<lambda>_. v"] assms(2) by simp
next
  case (Some x)
  then show ?thesis using implements_bind [OF assms(1), of f "\<lambda>_. v"] assms(3) by simp
qed

lemma implements_guard_limits [implements_rules]:
  "resource_error e \<Longrightarrow> implements m v \<Longrightarrow> implements (\<lambda>c. bindR (guardR (P (ctl_limits c)) e) (\<lambda>_. m) c) v"
  by (auto simp: implements_def)

lemma implements_bind_Some: "implements m (Some y) \<Longrightarrow> implements (f y) v \<Longrightarrow> implements (bindR m f) v"
  by (erule implements_bind_eq) auto

lemma implements_bind_None: "implements m None \<Longrightarrow> implements (bindR m f) None"
  by (erule implements_bind_eq) auto

lemma implements_bind_guard: "b \<Longrightarrow> implements (f ()) v \<Longrightarrow> implements (bindR (guardR b e) f) v"
  by (simp add: guardR_def implements_bind_Some [OF implements_ret])

section \<open>Enough resources\<close>

text \<open>
  \<open>solvent L m w a\<close>: under limits \<open>L\<close> and without cancellation, a control that has \<open>w\<close> units of work
  and \<open>a\<close> bytes of allocation left does not run out of either, and spends at most that.
\<close>

definition funded :: "parse_limits \<Rightarrow> nat \<Rightarrow> nat \<Rightarrow> control \<Rightarrow> bool" where
  "funded L w a c \<longleftrightarrow> ctl_limits c = L \<and> (\<forall>i. \<not> cancellation c i) \<and> work c + w \<le> work_cap c \<and>
     allocation c + a \<le> allocation_cap c"

definition spends :: "nat \<Rightarrow> nat \<Rightarrow> control \<Rightarrow> control \<Rightarrow> bool" where
  "spends w a c t \<longleftrightarrow> ctl_limits t = ctl_limits c \<and> cancellation t = cancellation c \<and>
     work t \<le> work c + w \<and> allocation t \<le> allocation c + a"

definition solvent :: "parse_limits \<Rightarrow> (control, ie_error, 'a) rsm \<Rightarrow> nat \<Rightarrow> nat \<Rightarrow> bool" where
  "solvent L m w a \<longleftrightarrow>
     (\<forall>c e t. funded L w a c \<longrightarrow> m c = (Inl e, t) \<longrightarrow> \<not> resource_error e) \<and>
     (\<forall>c x t. funded L w a c \<longrightarrow> m c = (Inr x, t) \<longrightarrow> spends w a c t)"

named_theorems solvent_rules "the resources that are enough, for each program construct"

lemma solventI:
  assumes "\<And>c e t. funded L w a c \<Longrightarrow> m c = (Inl e, t) \<Longrightarrow> \<not> resource_error e"
    and "\<And>c x t. funded L w a c \<Longrightarrow> m c = (Inr x, t) \<Longrightarrow> spends w a c t"
  shows "solvent L m w a"
  using assms unfolding solvent_def by blast

lemma solventD:
  assumes "solvent L m w a" "funded L w a c"
  shows "m c = (Inl e, t) \<Longrightarrow> \<not> resource_error e" "m c = (Inr x, t) \<Longrightarrow> spends w a c t"
  using assms unfolding solvent_def by blast+

lemma funded_mono: "funded L w a c \<Longrightarrow> w' \<le> w \<Longrightarrow> a' \<le> a \<Longrightarrow> funded L w' a' c"
  by (auto simp: funded_def)

lemma funded_spends:
  "funded L w a c \<Longrightarrow> spends w1 a1 c t \<Longrightarrow> w1 \<le> w \<Longrightarrow> a1 \<le> a \<Longrightarrow> funded L (w - w1) (a - a1) t"
  by (auto simp: funded_def spends_def work_cap_def allocation_cap_def)

lemma spends_spends:
  "spends w1 a1 c s \<Longrightarrow> spends (w - w1) (a - a1) s t \<Longrightarrow> w1 \<le> w \<Longrightarrow> a1 \<le> a \<Longrightarrow> spends w a c t"
  by (auto simp: spends_def)

lemma solvent_bind:
  assumes m: "solvent L m w1 a1" and f: "\<And>c x t. m c = (Inr x, t) \<Longrightarrow> solvent L (f x) (w - w1) (a - a1)"
    and le: "w1 \<le> w" "a1 \<le> a"
  shows "solvent L (bindR m f) w a"
proof (rule solventI)
  fix c e t assume c: "funded L w a c" and run: "bindR m f c = (Inl e, t)"
  note fm = funded_mono [OF c le]
  from run consider "m c = (Inl e, t)" | x s where "m c = (Inr x, s)" "f x s = (Inl e, t)"
    by (auto simp: bindR_Inl_iff)
  then show "\<not> resource_error e"
  proof cases
    case 1
    then show ?thesis by (rule solventD(1) [OF m fm])
  next
    case 2
    from solventD(2) [OF m fm 2(1)] have "funded L (w - w1) (a - a1) s"
      using funded_spends [OF c] le by blast
    then show ?thesis by (rule solventD(1) [OF f [OF 2(1)] _ 2(2)])
  qed
next
  fix c y t assume c: "funded L w a c" and "bindR m f c = (Inr y, t)"
  then obtain x s where run: "m c = (Inr x, s)" "f x s = (Inr y, t)"
    by (auto simp: bindR_Inr_iff)
  have s: "spends w1 a1 c s" by (rule solventD(2) [OF m funded_mono [OF c le] run(1)])
  have "spends (w - w1) (a - a1) s t"
    by (rule solventD(2) [OF f [OF run(1)] funded_spends [OF c s le] run(2)])
  then show "spends w a c t" using spends_spends [OF s] le by blast
qed

lemma solvent_ret [solvent_rules]: "solvent L (ret x) w a"
  by (auto intro!: solventI simp: spends_def)

lemma solvent_fail [solvent_rules]: "\<not> resource_error e \<Longrightarrow> solvent L (fail e) w a"
  by (auto intro!: solventI)

lemma solvent_charge: "n \<le> w \<Longrightarrow> solvent L (ctl_charge n) w a"
  by (rule solventI)
    (auto simp: ctl_charge_def Let_def work_cap_def spends_def funded_def split: option.splits if_splits)

lemma solvent_allocate: "1 \<le> w \<Longrightarrow> n \<le> a \<Longrightarrow> solvent L (ctl_allocate n) w a"
  by (rule solventI)
    (auto simp: ctl_allocate_def ctl_charge_def bindR_def Let_def work_cap_def allocation_cap_def
      spends_def funded_def split: option.splits if_splits)

lemma solvent_bind_charge [solvent_rules]:
  "n \<le> w \<Longrightarrow> solvent L (f ()) (w - n) a \<Longrightarrow> solvent L (bindR (ctl_charge n) f) w a"
  by (rule solvent_bind [OF solvent_charge [OF order_refl, where a = 0]]) simp_all

lemma solvent_bind_allocate [solvent_rules]:
  "1 \<le> w \<Longrightarrow> n \<le> a \<Longrightarrow> solvent L (f ()) (w - 1) (a - n) \<Longrightarrow> solvent L (bindR (ctl_allocate n) f) w a"
  by (rule solvent_bind [OF solvent_allocate [OF order_refl order_refl]]) simp_all

lemma solvent_if [solvent_rules]:
  "(b \<Longrightarrow> solvent L m w a) \<Longrightarrow> (\<not> b \<Longrightarrow> solvent L m' w a) \<Longrightarrow> solvent L (if b then m else m') w a"
  by simp

lemma solvent_bind_guardR [solvent_rules]:
  "b \<or> \<not> resource_error e \<Longrightarrow> (b \<Longrightarrow> solvent L (f ()) w a) \<Longrightarrow> solvent L (bindR (guardR b e) f) w a"
  by (cases b) (auto intro!: solventI simp: solventD)

lemma solvent_bind_ok_or [solvent_rules]:
  "v \<noteq> None \<or> \<not> resource_error e \<Longrightarrow> (\<And>x. v = Some x \<Longrightarrow> solvent L (f x) w a) \<Longrightarrow>
     solvent L (bindR (ok_or v e) f) w a"
  by (cases v) (auto intro!: solventI simp: solventD)

lemma solvent_guard_limits [solvent_rules]:
  "P L \<or> \<not> resource_error e \<Longrightarrow> (P L \<Longrightarrow> solvent L m w a) \<Longrightarrow>
     solvent L (\<lambda>c. bindR (guardR (P (ctl_limits c)) e) (\<lambda>_. m) c) w a"
  unfolding solvent_def funded_def by (auto split: if_splits)

text \<open>Solvent and specified: the program returns.\<close>

lemma solvent_implements:
  assumes "solvent L m w a" "implements m (Some v)" "funded L w a c"
  shows "\<exists>t. m c = (Inr v, t)"
proof -
  obtain r t where run: "m c = (r, t)" by fastforce
  show ?thesis
  proof (cases r)
    case (Inl e)
    with run solventD(1) [OF assms(1,3)] implementsD(2) [OF assms(2)] show ?thesis by fastforce
  next
    case (Inr x)
    with run implementsD(1) [OF assms(2)] show ?thesis by fastforce
  qed
qed

lemma solvent_mono:
  assumes "solvent L m w a" "w \<le> w'" "a \<le> a'"
  shows "solvent L m w' a'"
proof -
  have "spends w' a' c t" if "spends w a c t" for c t using that assms(2,3) by (auto simp: spends_def)
  then show ?thesis
    using assms(1) funded_mono [OF _ assms(2,3)] unfolding solvent_def by blast
qed

lemma solvent_representable:
  assumes "w \<le> usize_MAX \<Longrightarrow> a \<le> usize_MAX \<Longrightarrow> solvent L m w a"
  shows "solvent L m w a"
proof (cases "w \<le> usize_MAX \<and> a \<le> usize_MAX")
  case False
  then have "\<not> funded L w a c" for c by (auto simp: funded_def work_cap_def allocation_cap_def)
  then show ?thesis by (simp add: solvent_def)
qed (use assms in blast)

lemma solvent_bind_value:
  assumes "solvent L m w1 a1" "implements m (Some v)" "w1 \<le> w" "a1 \<le> a" "solvent L (f v) (w - w1) (a - a1)"
  shows "solvent L (bindR m f) w a"
  by (rule solvent_bind [OF assms(1) _ assms(3,4)]) (use implementsD(1) [OF assms(2)] assms(5) in fastforce)

end
