(* ===== verification/Ieee80211_Decode.thy ===== *)
theory Ieee80211_Decode
  imports Ieee80211_Metered
begin

text \<open>
  The leaf functions of \<open>crates/ieee80211/src/lib.rs\<close>: integer reads, the frame check sequence,
  and the decoders of single information elements.
\<close>

section \<open>Reads, checksum, copy accounting\<close>

definition read_u16 :: "u8 list \<Rightarrow> nat \<Rightarrow> u16 option" where
  "read_u16 bytes offset =
     Option.bind (checked_add offset 2) (\<lambda>e. map_option from_le_bytes (slice_get bytes offset e))"

definition read_u32 :: "u8 list \<Rightarrow> nat \<Rightarrow> u32 option" where
  "read_u32 bytes offset =
     Option.bind (checked_add offset 4) (\<lambda>e. map_option from_le_bytes (slice_get bytes offset e))"

definition read_u64 :: "u8 list \<Rightarrow> nat \<Rightarrow> u64 option" where
  "read_u64 bytes offset =
     Option.bind (checked_add offset 8) (\<lambda>e. map_option from_le_bytes (slice_get bytes offset e))"

definition to_u32 :: "nat \<Rightarrow> (control, ie_error, u32) rsm" where
  "to_u32 value = (if value < 2 ^ 32 then ret (of_nat value) else fail (IeLimitExceeded ''offset''))"

definition crc_shift :: "u32 \<Rightarrow> u32" where
  "crc_shift crc = (if crc AND 1 \<noteq> 0 then drop_bit 1 crc XOR 0xedb88320 else drop_bit 1 crc)"

definition crc_byte :: "u32 \<Rightarrow> u8 \<Rightarrow> u32" where
  "crc_byte crc byte = (crc_shift ^^ 8) (crc XOR ucast byte)"

fun crc32_loop :: "nat \<Rightarrow> nat \<Rightarrow> u8 list \<Rightarrow> u32 \<Rightarrow> (control, ie_error, u32) rsm" where
  "crc32_loop len index [] crc c = ret (NOT crc) c"
| "crc32_loop len index (byte # bytes) crc c =
     bindR (if index mod 64 = 0 then ctl_charge (min 64 (len - index)) else ret ())
       (\<lambda>_. crc32_loop len (Suc index) bytes (crc_byte crc byte)) c"

definition crc32 :: "u8 list \<Rightarrow> (control, ie_error, u32) rsm" where
  "crc32 bytes = crc32_loop (length bytes) 0 bytes (NOT 0)"

text \<open>\<open>for chunk in (0..bytes).step_by(256)\<close>\<close>

function copy_work_loop :: "nat \<Rightarrow> nat \<Rightarrow> (control, ie_error, unit) rsm" where
  "copy_work_loop bytes chunk c =
     (if chunk < bytes
      then bindR (ctl_charge (min 256 (bytes - chunk))) (\<lambda>_. copy_work_loop bytes (chunk + 256)) c
      else ret () c)"
  by pat_completeness auto
termination
  by (relation "measure (\<lambda>(bytes, chunk, _). bytes - chunk)") auto

declare copy_work_loop.simps [simp del]

definition copy_work :: "nat \<Rightarrow> (control, ie_error, unit) rsm" where
  "copy_work bytes = copy_work_loop bytes 0"

section \<open>Decoding one element\<close>

definition encoded_rate_of :: "u8 \<Rightarrow> encoded_rate" where
  "encoded_rate_of raw =
     \<lparr>rate_raw = raw, rate_basic = (raw AND 0x80 \<noteq> 0), units_500_kbps = raw AND 0x7f\<rparr>"

definition decode_rates :: "rust_layout \<Rightarrow> u8 list \<Rightarrow> (control, ie_error, encoded_rate list) rsm" where
  "decode_rates ly payload =
     bindR (ok_or (checked_mul (length payload) (size_EncodedRate ly)) (IeLimitExceeded ''allocation bytes''))
       (\<lambda>n. bindR (ctl_allocate n) (\<lambda>_. ret (map encoded_rate_of payload)))"

text \<open>The \<open>while offset < triplet_bytes.len()\<close> loop; a ragged tail would index out of range.\<close>

fun country_triplets :: "u8 list \<Rightarrow> (u8 \<times> u8 \<times> u8) list option" where
  "country_triplets [] = Some []"
| "country_triplets (a # b # d # rest) = map_option (Cons (a, b, d)) (country_triplets rest)"
| "country_triplets _ = None"

definition decode_country :: "u8 list \<Rightarrow> (control, ie_error, element_decode) rsm" where
  "decode_country payload =
     (if length payload < 6 then ret (Malformed CountryTooShort)
      else if length payload mod 2 \<noteq> 0 then ret (Malformed CountryInvalidPadding)
      else
        (let remainder = length payload - 3
         in case (if remainder mod 3 = 0 then Some (drop 3 payload, None)
                  else if remainder mod 3 = 1 \<and> payload ! (length payload - 1) = 0
                       then Some (take (length payload - 1 - 3) (drop 3 payload), Some 0)
                       else None) of
              None \<Rightarrow> ret (Malformed CountryInvalidPadding)
            | Some (triplet_bytes, pad) \<Rightarrow>
                bindR (ctl_allocate (length triplet_bytes)) (\<lambda>_.
                  bindR (ok_or (country_triplets triplet_bytes) Panic) (\<lambda>ts.
                    ret (Country \<lparr>country_environment = take 3 payload, triplets = ts,
                                  padding = pad\<rparr>)))))"

definition decode_element ::
    "rust_layout \<Rightarrow> u8 \<Rightarrow> u8 list \<Rightarrow> management_subtype \<Rightarrow> (control, ie_error, element_decode) rsm" where
  "decode_element ly eid payload st =
     bindR (ctl_charge (max (length payload) 1)) (\<lambda>_.
       if eid = 0 \<and> length payload > 32 then ret (Malformed SsidTooLong)
       else if eid = 0 \<and> payload = [] then
         ret (Ssid (if st = ProbeRequest then Wildcard else Hidden))
       else if eid = 0 then
         bindR (ctl_allocate (length payload)) (\<lambda>_. ret (Ssid (Binary payload)))
       else if eid = 1 \<and> (payload = [] \<or> length payload > 8) then ret (Malformed RatesLength)
       else if eid = 1 then bindR (decode_rates ly payload) (\<lambda>r. ret (SupportedRates r))
       else if eid = 50 \<and> payload = [] then ret (Malformed RatesLength)
       else if eid = 50 then bindR (decode_rates ly payload) (\<lambda>r. ret (ExtendedSupportedRates r))
       else if eid = 3 \<and> length payload \<noteq> 1 then ret (Malformed DsLength)
       else if eid = 3 then bindR (ok_or (nth_get payload 0) Panic) (\<lambda>b. ret (DsParameterChannel b))
       else if eid = 5 \<and> st \<noteq> Beacon then ret (Malformed TimContext)
       else if eid = 5 \<and> length payload < 4 then ret (Malformed TimTooShort)
       else if eid = 5 \<and> length payload > 254 then ret (Malformed TimTooLong)
       else if eid = 5 \<and> payload ! 1 = 0 then ret (Malformed TimInvalidPeriod)
       else if eid = 5 \<and> payload ! 0 \<ge> payload ! 1 then ret (Malformed TimCountExceedsPeriod)
       else if eid = 5 then
         bindR (ctl_allocate (length payload - 3)) (\<lambda>_.
           ret (Tim \<lparr>dtim_count = payload ! 0, dtim_period = payload ! 1,
                     bitmap_control = payload ! 2, partial_virtual_bitmap = drop 3 payload\<rparr>))
       else if eid = 7 then decode_country payload
       else if eid = 255 then
         bindR (ok_or (checked_sub (length payload) 1) Panic) (\<lambda>n.
           bindR (ctl_allocate n) (\<lambda>_.
             bindR (ok_or (nth_get payload 0) Panic) (\<lambda>x. ret (Extension x (drop 1 payload)))))
       else ret UnknownElement)"

section \<open>Price\<close>

lemma ctl_det_to_u32 [ctl_det_rules]: "ctl_det L (to_u32 n)"
  unfolding to_u32_def by (intro ctl_det_if ctl_det_rules)

lemma yields_bind_to_u32 [yields_rules]:
  "(n < 2 ^ 32 \<Longrightarrow> yields (f (of_nat n)) Q) \<Longrightarrow> yields (bindR (to_u32 n) f) Q"
  by (rule yields_bind [where Q' = "\<lambda>x. n < 2 ^ 32 \<and> x = of_nat n"])
    (auto simp: to_u32_def intro!: yieldsI split: if_splits)

lemma ctl_det_crc32_loop: "ctl_det L (crc32_loop len index bytes crc)"
proof (induction bytes arbitrary: index crc)
  case Nil
  have "crc32_loop len index [] crc = ret (NOT crc)" by auto
  then show ?case by (simp add: ctl_det_ret)
next
  case (Cons b bs)
  have "crc32_loop len index (b # bs) crc =
      bindR (if index mod 64 = 0 then ctl_charge (min 64 (len - index)) else ret ())
        (\<lambda>_. crc32_loop len (Suc index) bs (crc_byte crc b))"
    by (auto simp: fun_eq_iff)
  then show ?case by (simp only:) (intro ctl_det_bind ctl_det_if ctl_det_rules Cons.IH)
qed

lemma crc32_loop_value:
  "crc32_loop len index bytes crc c = (Inr v, t) \<Longrightarrow> v = NOT (foldl crc_byte crc bytes)"
  by (induction bytes arbitrary: index crc c) (auto simp: bindR_Inr_iff split: if_splits)

lemma ctl_det_crc32 [ctl_det_rules]: "ctl_det L (crc32 bytes)"
  by (simp add: crc32_def ctl_det_crc32_loop)

lemma copy_work_loop_unfold:
  "copy_work_loop bytes chunk =
     (if chunk < bytes
      then bindR (ctl_charge (min 256 (bytes - chunk))) (\<lambda>_. copy_work_loop bytes (chunk + 256))
      else ret ())"
  by (rule ext) (subst copy_work_loop.simps, simp)

lemma ctl_det_copy_work_loop: "ctl_det L (copy_work_loop bytes chunk)"
proof (induction "bytes - chunk" arbitrary: chunk rule: less_induct)
  case less
  then have IH: "chunk < bytes \<Longrightarrow> ctl_det L (copy_work_loop bytes (chunk + 256))" by simp
  show ?case
    by (subst copy_work_loop_unfold) (intro ctl_det_if ctl_det_bind ctl_det_rules IH)
qed

lemma ctl_det_copy_work [ctl_det_rules]: "ctl_det L (copy_work bytes)"
  by (simp add: copy_work_def ctl_det_copy_work_loop)

lemma ctl_det_decode_rates [ctl_det_rules]: "ctl_det L (decode_rates ly payload)"
  unfolding decode_rates_def by (intro ctl_det_bind ctl_det_rules)

lemma country_triplets_None_iff: "country_triplets bs = None \<longleftrightarrow> length bs mod 3 \<noteq> 0"
  by (induction bs rule: country_triplets.induct) auto

lemma ctl_det_decode_country [ctl_det_rules]: "ctl_det L (decode_country payload)"
  unfolding decode_country_def Let_def
  by (intro ctl_det_if ctl_det_rules)
    (auto split: option.split prod.split intro!: ctl_det_bind ctl_det_rules)

lemma ctl_det_decode_element [ctl_det_rules]: "ctl_det L (decode_element ly eid payload st)"
  unfolding decode_element_def by (intro ctl_det_bind ctl_det_if ctl_det_rules)

section \<open>Specification of the decoders\<close>

fun triples :: "u8 list \<Rightarrow> (u8 \<times> u8 \<times> u8) list" where
  "triples (a # b # d # rest) = (a, b, d) # triples rest"
| "triples _ = []"

definition country_spec :: "u8 list \<Rightarrow> element_decode" where
  "country_spec p =
     (if length p < 6 then Malformed CountryTooShort
      else if odd (length p) then Malformed CountryInvalidPadding
      else if 3 dvd length p then Country \<lparr>country_environment = take 3 p, triplets = triples (drop 3 p), padding = None\<rparr>
      else if 3 dvd length p - 1 \<and> last p = 0
      then Country \<lparr>country_environment = take 3 p, triplets = triples (drop 3 (butlast p)), padding = Some 0\<rparr>
      else Malformed CountryInvalidPadding)"

definition tim_spec :: "management_subtype \<Rightarrow> u8 list \<Rightarrow> element_decode" where
  "tim_spec st p =
     (if st \<noteq> Beacon then Malformed TimContext
      else case p of
        count # period # ctrl # bitmap \<Rightarrow>
          if bitmap = [] then Malformed TimTooShort
          else if length bitmap > 251 then Malformed TimTooLong
          else if period = 0 then Malformed TimInvalidPeriod
          else if period \<le> count then Malformed TimCountExceedsPeriod
          else Tim \<lparr>dtim_count = count, dtim_period = period, bitmap_control = ctrl,
                    partial_virtual_bitmap = bitmap\<rparr>
      | _ \<Rightarrow> Malformed TimTooShort)"

definition ssid_spec :: "management_subtype \<Rightarrow> u8 list \<Rightarrow> element_decode" where
  "ssid_spec st p =
     (if p = [] then Ssid (if st = ProbeRequest then Wildcard else Hidden)
      else if length p \<le> 32 then Ssid (Binary p) else Malformed SsidTooLong)"

definition decode_spec :: "management_subtype \<Rightarrow> u8 \<Rightarrow> u8 list \<Rightarrow> element_decode" where
  "decode_spec st eid p =
     (if eid = 0 then ssid_spec st p
      else if eid = 1 then
        (if length p \<in> {1..8} then SupportedRates (map encoded_rate_of p) else Malformed RatesLength)
      else if eid = 50 then
        (if p = [] then Malformed RatesLength else ExtendedSupportedRates (map encoded_rate_of p))
      else if eid = 3 then (case p of [channel] \<Rightarrow> DsParameterChannel channel | _ \<Rightarrow> Malformed DsLength)
      else if eid = 5 then tim_spec st p
      else if eid = 7 then country_spec p
      else if eid = 255 then (case p of [] \<Rightarrow> UnknownElement | x # body \<Rightarrow> Extension x body)
      else UnknownElement)"

lemma country_triplets_eq: "length bs mod 3 = 0 \<Longrightarrow> country_triplets bs = Some (triples bs)"
  by (induction bs rule: country_triplets.induct) auto

lemma implements_decode_rates:
  "implements (decode_rates ly p) (Some (map encoded_rate_of p))"
  unfolding decode_rates_def by (intro implements_rules) simp_all

lemma mod3_minus3: "3 \<le> n \<Longrightarrow> (n - 3) mod 3 = n mod (3 :: nat)"
  by (metis add_diff_inverse_nat mod_add_self2 not_less add.commute)

lemma mod3_1_dvd: "n mod 3 = Suc 0 \<longleftrightarrow> \<not> 3 dvd n \<and> 3 dvd n - (1 :: nat)"
  by presburger

lemma implements_decode_country: "implements (decode_country p) (Some (country_spec p))"
proof -
  have "country_triplets (drop 3 p) = Some (triples (drop 3 p))" if "6 \<le> length p" "3 dvd length p"
    using that mod3_minus3 [of "length p"] by (intro country_triplets_eq) (simp add: mod_eq_0_iff_dvd)
  moreover have "take (length p - 1 - 3) (drop 3 p) = drop 3 (butlast p)" if "6 \<le> length p"
    using that by (simp add: butlast_conv_take drop_take)
  moreover have "country_triplets (drop 3 (butlast p)) = Some (triples (drop 3 (butlast p)))"
    if "6 \<le> length p" "3 dvd length p - 1"
    using that mod3_minus3 [of "length p - 1"] by (intro country_triplets_eq) (simp add: mod_eq_0_iff_dvd)
  moreover have "p ! (length p - 1) = last p" if "6 \<le> length p"
    using that by (intro last_conv_nth [symmetric]) auto
  ultimately show ?thesis
    unfolding decode_country_def country_spec_def Let_def
    apply (auto simp: mod3_minus3 mod_eq_0_iff_dvd mod3_1_dvd odd_iff_mod_2_eq_one
        intro!: implements_rules)
    done
qed

lemma implements_decode_element:
  assumes "eid = 255 \<Longrightarrow> p \<noteq> []"
  shows "implements (decode_element ly eid p st) (Some (decode_spec st eid p))"
proof -
  have tim: "tim_spec st p = (if st \<noteq> Beacon then Malformed TimContext
     else if length p < 4 then Malformed TimTooShort
     else if 254 < length p then Malformed TimTooLong
     else if p ! 1 = 0 then Malformed TimInvalidPeriod
     else if p ! 1 \<le> p ! 0 then Malformed TimCountExceedsPeriod
     else Tim \<lparr>dtim_count = p ! 0, dtim_period = p ! 1, bitmap_control = p ! 2,
                partial_virtual_bitmap = drop 3 p\<rparr>)"
    unfolding tim_spec_def by (auto split: list.split)
  show ?thesis
    unfolding decode_element_def decode_spec_def ssid_spec_def tim
    apply (intro implements_rules)
    using assms
    apply (auto intro!: implements_rules implements_bind_eq [OF implements_decode_rates] implements_decode_country
      simp: checked_sub_def Suc_le_eq split: list.split)
    done
qed

lemmas implements_decode [implements_rules] = implements_decode_rates implements_decode_country

section \<open>Decoding is lossless\<close>

fun encode_ssid :: "ssid_value \<Rightarrow> u8 list" where
  "encode_ssid (Binary bytes) = bytes"
| "encode_ssid _ = []"

fun encode_decoded :: "element_decode \<Rightarrow> u8 list option" where
  "encode_decoded (Ssid v) = Some (encode_ssid v)"
| "encode_decoded (SupportedRates rs) = Some (map rate_raw rs)"
| "encode_decoded (ExtendedSupportedRates rs) = Some (map rate_raw rs)"
| "encode_decoded (DsParameterChannel ch) = Some [ch]"
| "encode_decoded (Tim t) =
     Some (dtim_count t # dtim_period t # bitmap_control t # partial_virtual_bitmap t)"
| "encode_decoded (Country s) =
     Some (country_environment s @ concat (map (\<lambda>(a, b, d). [a, b, d]) (triplets s)) @
           (case padding s of None \<Rightarrow> [] | Some b \<Rightarrow> [b]))"
| "encode_decoded (Extension x body) = Some (x # body)"
| "encode_decoded _ = None"

lemma concat_triples: "length bs mod 3 = 0 \<Longrightarrow> concat (map (\<lambda>(a, b, d). [a, b, d]) (triples bs)) = bs"
  by (induction bs rule: triples.induct) auto

lemma encode_country_spec: "encode_decoded (country_spec p) \<in> {None, Some p}"
proof -
  have "concat (map (\<lambda>(a, b, d). [a, b, d]) (triples (drop 3 p))) = drop 3 p"
    if "6 \<le> length p" "3 dvd length p"
    using that mod3_minus3 [of "length p"] by (intro concat_triples) (simp add: mod_eq_0_iff_dvd)
  moreover have "take 3 p @ concat (map (\<lambda>(a, b, d). [a, b, d]) (triples (drop 3 (butlast p)))) @ [0] = p"
    if "6 \<le> length p" "3 dvd length p - 1" "last p = 0"
  proof -
    have "concat (map (\<lambda>(a, b, d). [a, b, d]) (triples (drop 3 (butlast p)))) = drop 3 (butlast p)"
      using that mod3_minus3 [of "length p - 1"] by (intro concat_triples) (simp add: mod_eq_0_iff_dvd)
    moreover have "take 3 p = take 3 (butlast p)" using that by (simp add: butlast_conv_take)
    ultimately show ?thesis
      using that append_butlast_last_id [of p] by (cases "p = []") (auto simp flip: append_assoc)
  qed
  ultimately show ?thesis by (auto simp: country_spec_def)
qed

lemma map_rate_raw [simp]: "map (rate_raw \<circ> encoded_rate_of) p = p"
  by (simp add: encoded_rate_of_def comp_def)

lemma encode_decode_spec: "encode_decoded (decode_spec st eid p) \<in> {None, Some p}"
  using encode_country_spec [of p]
  by (auto simp: decode_spec_def ssid_spec_def tim_spec_def split: list.split)

lemma implements_bind_to_u32 [implements_rules]:
  "(n < 2 ^ 32 \<Longrightarrow> implements (f (of_nat n)) v) \<Longrightarrow> implements (bindR (to_u32 n) f) v"
  by (cases "n < 2 ^ 32") (auto simp: to_u32_def implements_def bindR_Inl_iff bindR_Inr_iff)

section \<open>Specification of the checksum\<close>

definition crc32_value :: "u8 list \<Rightarrow> u32" where
  "crc32_value bytes = NOT (foldl crc_byte (NOT 0) bytes)"

lemma yields_crc32_loop: "yields (crc32_loop len index bytes crc) (\<lambda>v. v = NOT (foldl crc_byte crc bytes))"
proof (induction bytes arbitrary: index crc)
  case Nil
  have "crc32_loop len index [] crc = ret (NOT crc)" by auto
  then show ?case by (simp add: yields_ret)
next
  case (Cons b bs)
  have "crc32_loop len index (b # bs) crc =
      bindR (if index mod 64 = 0 then ctl_charge (min 64 (len - index)) else ret ())
        (\<lambda>_. crc32_loop len (Suc index) bs (crc_byte crc b))"
    by (auto simp: fun_eq_iff)
  moreover have "yields (if index mod 64 = 0 then ctl_charge (min 64 (len - index)) else ret ()) (\<lambda>_. True)"
    by (auto intro: yields_rules yieldsI dest: ctl_charge_error)
  ultimately show ?case
    by (simp only:) (rule yields_bind, assumption, simp add: Cons.IH)
qed

lemma implements_crc32: "implements (crc32 bytes) (Some (crc32_value bytes))"
  unfolding crc32_def crc32_value_def by (intro yields_implements yields_crc32_loop)

lemma yields_copy_work_loop: "yields (copy_work_loop bytes chunk) (\<lambda>_. True)"
proof (induction "bytes - chunk" arbitrary: chunk rule: less_induct)
  case less
  then have IH: "chunk < bytes \<Longrightarrow> yields (copy_work_loop bytes (chunk + 256)) (\<lambda>_. True)" by simp
  show ?case
    by (subst copy_work_loop_unfold) (intro yields_rules IH TrueI)
qed

lemma implements_copy_work: "implements (copy_work bytes) (Some ())"
  using yields_copy_work_loop unfolding copy_work_def by (intro yields_implements) (simp add: yields_def)

end
