(* ===== verification/Ieee80211_Repeats.thy ===== *)
theory Ieee80211_Repeats
  imports Ieee80211_Decode
begin

text \<open>
  The summary of repeated information elements, \<open>summarize_repeats\<close> of
  \<open>crates/ieee80211/src/lib.rs\<close>: two passes over the elements with counting slots, and its
  equality with a specification that names no slots.
\<close>

section \<open>Repeated elements\<close>

text \<open>
  Slots 0 to 254 are plain identifiers, slots 255 to 510 are extension identifiers. The two passes
  over the elements differ in how they treat a missing extension identifier: the first returns
  \<open>EmptyExtensionElement\<close>, the second unwraps.
\<close>

definition element_slot :: "element_key \<Rightarrow> u32 \<Rightarrow> ie_error + nat" where
  "element_slot key offset =
     (if key_id key = 255
      then case key_extension_id key of
             None \<Rightarrow> Inl (EmptyExtensionElement offset)
           | Some x \<Rightarrow> Inr (255 + unat x)
      else Inr (unat (key_id key)))"

definition slot_key :: "nat \<Rightarrow> element_key" where
  "slot_key slot =
     (if slot < 255 then ElementKey (of_nat slot) None
      else ElementKey 255 (Some (of_nat (slot - 255))))"

definition is_singleton_id :: "u8 \<Rightarrow> bool" where
  "is_singleton_id i \<longleftrightarrow> i \<in> {0, 1, 3, 5, 7, 50}"

fun count_slots ::
    "information_element list \<Rightarrow> nat list \<Rightarrow> (control, ie_error, nat list) rsm" where
  "count_slots [] counts c = ret counts c"
| "count_slots (e # es) counts c =
     bindR (ctl_charge 1) (\<lambda>_.
       case element_slot (element_key_of e) (ie_offset e) of
         Inl err \<Rightarrow> fail err
       | Inr slot \<Rightarrow>
           bindR (ok_or (nth_get counts slot) Panic) (\<lambda>n.
             bindR (ok_or (checked_add n 1) (IeLimitExceeded ''element count'')) (\<lambda>n'.
               count_slots es (counts[slot := n'])))) c"

definition repeated_new :: "element_key \<Rightarrow> repeated_element" where
  "repeated_new key =
     \<lparr>rep_key = key, rep_indices = [], payloads_identical = True,
      violates_singleton_cardinality = is_singleton_id (key_id key), contradictory = False\<rparr>"

text \<open>\<open>for (slot, count) in counts.iter().copied().enumerate()\<close>\<close>

fun build_repeats ::
    "nat \<Rightarrow> nat list \<Rightarrow> repeated_element list \<Rightarrow> nat list \<Rightarrow> repeated_element list \<times> nat list" where
  "build_repeats slot [] repeated slot_to_repeat = (repeated, slot_to_repeat)"
| "build_repeats slot (count # counts) repeated slot_to_repeat =
     (if count < 2 then build_repeats (Suc slot) counts repeated slot_to_repeat
      else build_repeats (Suc slot) counts (repeated @ [repeated_new (slot_key slot)])
             (slot_to_repeat[slot := length repeated]))"

definition record_repeat ::
    "information_element list \<Rightarrow> information_element \<Rightarrow> nat \<Rightarrow> repeated_element
       \<Rightarrow> (control, ie_error, repeated_element) rsm" where
  "record_repeat es e index grp =
     bindR (case rep_indices grp of
              [] \<Rightarrow> ret grp
            | first_index # _ \<Rightarrow>
                bindR (ok_or (nth_get es (unat first_index)) Panic) (\<lambda>first.
                  bindR (ctl_charge (max (length (ie_payload first)) (length (ie_payload e)))) (\<lambda>_.
                    ret (if ie_payload first \<noteq> ie_payload e
                         then grp\<lparr>payloads_identical := False\<rparr> else grp))))
       (\<lambda>g. bindR (to_u32 index) (\<lambda>i. ret (g\<lparr>rep_indices := rep_indices g @ [i]\<rparr>)))"

fun group_repeats ::
    "information_element list \<Rightarrow> nat list \<Rightarrow> nat \<Rightarrow> information_element list \<Rightarrow> repeated_element list
       \<Rightarrow> (control, ie_error, repeated_element list) rsm" where
  "group_repeats all slot_to_repeat index [] repeated c = ret repeated c"
| "group_repeats all slot_to_repeat index (e # es) repeated c =
     bindR (ctl_charge 1) (\<lambda>_.
       case element_slot (element_key_of e) (ie_offset e) of
         Inl _ \<Rightarrow> fail Panic
       | Inr slot \<Rightarrow>
           bindR (ok_or (nth_get slot_to_repeat slot) Panic) (\<lambda>ri.
             if ri = usize_MAX then group_repeats all slot_to_repeat (Suc index) es repeated
             else bindR (ok_or (nth_get repeated ri) Panic) (\<lambda>grp.
               bindR (record_repeat all e index grp) (\<lambda>grp'.
                 group_repeats all slot_to_repeat (Suc index) es (repeated[ri := grp']))))) c"

definition mark_contradictory :: "repeated_element \<Rightarrow> repeated_element" where
  "mark_contradictory g =
     g\<lparr>contradictory := violates_singleton_cardinality g \<and> \<not> payloads_identical g\<rparr>"

definition summarize_repeats ::
    "rust_layout \<Rightarrow> information_element list \<Rightarrow> (control, ie_error, repeated_element list) rsm" where
  "summarize_repeats ly es =
     bindR (ctl_allocate (511 * size_usize * 2)) (\<lambda>_.
       bindR (count_slots es (replicate 511 0)) (\<lambda>counts.
         bindR (ctl_allocate (length (filter (\<lambda>n. 2 \<le> n) counts) * size_RepeatedElement ly)) (\<lambda>_.
           bindR (ctl_allocate (sum_list (filter (\<lambda>n. 2 \<le> n) counts) * size_u32)) (\<lambda>_.
             (case build_repeats 0 counts [] (replicate 511 usize_MAX) of
                (repeated, slot_to_repeat) \<Rightarrow>
                  bindR (group_repeats es slot_to_repeat 0 es repeated) (\<lambda>repeated'.
                    ret (map mark_contradictory repeated')))))))"

section \<open>Specification\<close>

text \<open>Only the extension identifier 255 carries an extension octet.\<close>

definition key_wf :: "element_key \<Rightarrow> bool" where
  "key_wf k \<longleftrightarrow> (key_id k = 255 \<longleftrightarrow> key_extension_id k \<noteq> None)"

definition slot_of :: "element_key \<Rightarrow> nat" where
  "slot_of k = (if key_id k = 255 then 255 + unat (the (key_extension_id k)) else unat (key_id k))"

text \<open>The reference: which positions carry a key, and what the summary of a prefix says of it.\<close>

definition positions_upto :: "information_element list \<Rightarrow> nat \<Rightarrow> element_key \<Rightarrow> nat list" where
  "positions_upto es n k = filter (\<lambda>i. element_key_of (es ! i) = k) [0..<n]"

definition repeat_upto :: "information_element list \<Rightarrow> nat \<Rightarrow> element_key \<Rightarrow> repeated_element" where
  "repeat_upto es n k =
     (let ps = positions_upto es n k
      in \<lparr>rep_key = k, rep_indices = map of_nat ps,
          payloads_identical = (\<forall>i \<in> set ps. ie_payload (es ! i) = ie_payload (es ! hd ps)),
          violates_singleton_cardinality = is_singleton_id (key_id k), contradictory = False\<rparr>)"

definition repeats_spec :: "information_element list \<Rightarrow> repeated_element list" where
  "repeats_spec es =
     map (\<lambda>k. mark_contradictory (repeat_upto es (length es) k))
       (filter (\<lambda>k. 2 \<le> length (positions_upto es (length es) k)) (map slot_key [0..<511]))"

section \<open>The two passes compute the specification\<close>

subsection \<open>Keys and slots\<close>

lemma u8_lt: "unat (w :: u8) < 256"
  using unsigned_less [of w] by simp

lemma u8_lt_255: "w \<noteq> 255 \<Longrightarrow> unat (w :: u8) < 255"
proof -
  assume "w \<noteq> 255"
  then have "unat w \<noteq> 255" using word_unat_eq_iff [of w 255] by simp
  then show ?thesis using u8_lt [of w] by simp
qed


lemma element_slot_wf: "key_wf k \<Longrightarrow> element_slot k off = Inr (slot_of k)"
  by (cases k) (auto simp: key_wf_def element_slot_def slot_of_def split: option.splits)

lemma slot_of_lt: "slot_of k < 511"
  using u8_lt [of "the (key_extension_id k)"] u8_lt_255 [of "key_id k"] by (cases "key_id k = 255") (simp_all add: slot_of_def)

lemma slot_key_slot_of: "key_wf k \<Longrightarrow> slot_key (slot_of k) = k"
  using u8_lt_255 [of "key_id k"] by (cases k) (auto simp: key_wf_def slot_key_def slot_of_def)

lemma unat_of_nat_u8: "s < 256 \<Longrightarrow> unat (of_nat s :: u8) = s"
  by (simp add: unat_of_nat)

lemma slot_of_slot_key: "s < 511 \<Longrightarrow> slot_of (slot_key s) = s"
  using unat_of_nat_u8 [of s] unat_of_nat_u8 [of "s - 255"]
  by (auto simp: slot_key_def slot_of_def simp del: of_nat_diff)

lemma key_wf_slot_key: "s < 511 \<Longrightarrow> key_wf (slot_key s)"
  using unat_of_nat_u8 [of s] by (auto simp: slot_key_def key_wf_def)

lemma slot_key_eq_iff: "s < 511 \<Longrightarrow> key_wf k \<Longrightarrow> slot_key s = k \<longleftrightarrow> s = slot_of k"
  using slot_of_slot_key slot_key_slot_of by auto

subsection \<open>Counting\<close>

lemma positions_upto_Suc:
  "positions_upto es (Suc n) k =
     positions_upto es n k @ (if element_key_of (es ! n) = k then [n] else [])"
  by (simp add: positions_upto_def)

lemma length_positions_upto:
  "length (positions_upto es (length es) k) = length (filter (\<lambda>e. element_key_of e = k) es)"
  by (simp add: positions_upto_def length_filter_conv_card cong: conj_cong)

lemma yields_count_slots:
  assumes "\<And>e. e \<in> set es \<Longrightarrow> key_wf (element_key_of e)" "length counts = 511"
  shows "yields (count_slots es counts) (\<lambda>cs. length cs = 511 \<and>
    (\<forall>s < 511. cs ! s = counts ! s + length (filter (\<lambda>e. slot_of (element_key_of e) = s) es)))"
  using assms
proof (induction es arbitrary: counts)
  case Nil
  have "count_slots [] counts = ret counts" by (rule ext) simp
  with Nil show ?case by (auto intro: yields_ret)
next
  case (Cons e es)
  let ?s = "slot_of (element_key_of e)"
  have slot: "element_slot (element_key_of e) (ie_offset e) = Inr ?s"
    using Cons.prems(1) by (intro element_slot_wf) simp
  have unfold: "count_slots (e # es) counts = bindR (ctl_charge 1) (\<lambda>_.
      bindR (ok_or (nth_get counts ?s) Panic) (\<lambda>n.
        bindR (ok_or (checked_add n 1) (IeLimitExceeded ''element count'')) (\<lambda>n'.
          count_slots es (counts[?s := n']))))"
    by (rule ext) (simp only: count_slots.simps slot sum.case)
  have IH: "yields (count_slots es (counts[?s := counts ! ?s + 1])) (\<lambda>cs. length cs = 511 \<and>
      (\<forall>s < 511. cs ! s = counts[?s := counts ! ?s + 1] ! s +
         length (filter (\<lambda>e. slot_of (element_key_of e) = s) es)))"
    using Cons by simp
  have rest: "yields (count_slots es (counts[?s := counts ! ?s + 1])) (\<lambda>cs. length cs = 511 \<and>
      (\<forall>s < 511. cs ! s = counts ! s + length (filter (\<lambda>e. slot_of (element_key_of e) = s) (e # es))))"
    by (rule yields_mono [OF IH]) (use Cons.prems(2) slot_of_lt in \<open>auto simp: nth_list_update\<close>)
  show ?case
    unfolding unfold
  proof (intro yields_rules)
    fix n n' assume "nth_get counts ?s = Some n" "checked_add n 1 = Some n'"
    then have "n' = counts ! ?s + 1" by (auto simp: checked_add_def split: if_splits)
    then show "yields (count_slots es (counts[?s := n'])) (\<lambda>cs. length cs = 511 \<and>
        (\<forall>s < 511. cs ! s = counts ! s + length (filter (\<lambda>e. slot_of (element_key_of e) = s) (e # es))))"
      using rest by (simp only:)
  qed (use Cons.prems(2) slot_of_lt [of "element_key_of e"] in simp_all)
qed

text \<open>The slots that are counted at least twice, in ascending order.\<close>

definition repeated_slots :: "nat \<Rightarrow> nat list \<Rightarrow> nat list" where
  "repeated_slots slot counts = filter (\<lambda>s. 2 \<le> counts ! (s - slot)) [slot..<slot + length counts]"

lemma repeated_slots_Cons:
  "repeated_slots slot (n # ns) =
     (if 2 \<le> n then slot # repeated_slots (Suc slot) ns else repeated_slots (Suc slot) ns)"
proof -
  have "filter (\<lambda>s. 2 \<le> (n # ns) ! (s - slot)) [Suc slot..<Suc slot + length ns] =
      repeated_slots (Suc slot) ns"
    unfolding repeated_slots_def by (rule filter_cong) (auto simp: nth_Cons' Suc_diff_le)
  then show ?thesis by (simp add: repeated_slots_def upt_conv_Cons del: upt_Suc)
qed

lemma repeated_slots_Nil [simp]: "repeated_slots slot [] = []"
  by (simp add: repeated_slots_def)

lemma set_repeated_slots:
  "s \<in> set (repeated_slots slot ns) \<longleftrightarrow> slot \<le> s \<and> s < slot + length ns \<and> 2 \<le> ns ! (s - slot)"
  by (auto simp: repeated_slots_def)

lemma distinct_repeated_slots: "distinct (repeated_slots slot ns)"
  by (simp add: repeated_slots_def)

lemma build_repeats_groups:
  "fst (build_repeats slot counts rep str) = rep @ map (repeated_new \<circ> slot_key) (repeated_slots slot counts)"
  by (induction counts arbitrary: slot rep str) (auto simp: repeated_slots_Cons)

lemma build_repeats_length: "length (snd (build_repeats slot counts rep str)) = length str"
  by (induction counts arbitrary: slot rep str) auto

lemma build_repeats_frame:
  "s \<notin> set (repeated_slots slot counts) \<Longrightarrow> snd (build_repeats slot counts rep str) ! s = str ! s"
  by (induction counts arbitrary: slot rep str) (auto simp: repeated_slots_Cons split: if_splits)

lemma build_repeats_slot:
  "j < length (repeated_slots slot counts) \<Longrightarrow> slot + length counts \<le> length str \<Longrightarrow>
     snd (build_repeats slot counts rep str) ! (repeated_slots slot counts ! j) = length rep + j"
proof (induction counts arbitrary: slot rep str j)
  case (Cons n ns)
  have "slot \<notin> set (repeated_slots (Suc slot) ns)" by (simp add: set_repeated_slots)
  with Cons show ?case
    by (cases j) (auto simp: repeated_slots_Cons build_repeats_frame split: if_splits)
qed simp

subsection \<open>Grouping\<close>

definition repeats_inv :: "information_element list \<Rightarrow> nat list \<Rightarrow> nat \<Rightarrow> repeated_element list \<Rightarrow> bool" where
  "repeats_inv es sel n R \<longleftrightarrow>
     R = map (\<lambda>s. repeat_upto es n (slot_key s)) sel \<and>
     (\<forall>s \<in> set sel. \<forall>p \<in> set (positions_upto es n (slot_key s)). p < 2 ^ 32)"

lemma repeat_upto_0: "repeat_upto es 0 k = repeated_new k"
  by (simp add: repeat_upto_def positions_upto_def repeated_new_def)

lemma repeat_upto_other: "element_key_of (es ! n) \<noteq> k \<Longrightarrow> repeat_upto es (Suc n) k = repeat_upto es n k"
  by (simp add: repeat_upto_def positions_upto_Suc)

lemma yields_record_repeat:
  assumes "n < length es" "\<forall>p \<in> set (positions_upto es n k). p < 2 ^ 32" "element_key_of (es ! n) = k"
  shows "yields (record_repeat es (es ! n) n (repeat_upto es n k))
    (\<lambda>g. g = repeat_upto es (Suc n) k \<and> n < 2 ^ 32)"
proof (cases "positions_upto es n k")
  case Nil
  then have "rep_indices (repeat_upto es n k) = []" by (simp add: repeat_upto_def)
  then have "record_repeat es (es ! n) n (repeat_upto es n k) =
      bindR (to_u32 n) (\<lambda>i. ret ((repeat_upto es n k)\<lparr>rep_indices := [] @ [i]\<rparr>))"
    by (simp add: record_repeat_def fun_eq_iff)
  then show ?thesis
    by (simp only:) (intro yields_rules, simp add: repeat_upto_def positions_upto_Suc assms Nil)
next
  case (Cons p ps)
  then have "p \<in> set (positions_upto es n k)" by simp
  then have p: "p < n" and "p < 2 ^ 32" using assms(2) by (auto simp: positions_upto_def)
  then have first: "unat (of_nat p :: u32) = p" by (simp add: unat_of_nat)
  have ind: "rep_indices (repeat_upto es n k) = of_nat p # map of_nat ps"
    by (simp add: repeat_upto_def Cons)
  let ?g = "(repeat_upto es n k)\<lparr>payloads_identical :=
      payloads_identical (repeat_upto es n k) \<and> ie_payload (es ! p) = ie_payload (es ! n)\<rparr>"
  have step: "?g\<lparr>rep_indices := rep_indices ?g @ [of_nat n]\<rparr> = repeat_upto es (Suc n) k"
    by (auto simp: repeat_upto_def positions_upto_Suc assms Cons)
  show ?thesis
    unfolding record_repeat_def ind list.case first
  proof (rule yields_bind [where Q' = "\<lambda>g. g = ?g"])
    show "yields (bindR (ok_or (nth_get es p) Panic) (\<lambda>first.
        bindR (ctl_charge (max (length (ie_payload first)) (length (ie_payload (es ! n))))) (\<lambda>_.
          ret (if ie_payload first \<noteq> ie_payload (es ! n)
               then (repeat_upto es n k)\<lparr>payloads_identical := False\<rparr> else repeat_upto es n k))))
        (\<lambda>g. g = ?g)"
      using p assms(1) by (intro yields_rules) simp_all
  qed (use step in \<open>intro yields_rules, simp\<close>)
qed

lemma repeats_inv_skip:
  assumes "repeats_inv es sel n R" "\<And>s. s \<in> set sel \<Longrightarrow> slot_key s \<noteq> element_key_of (es ! n)"
  shows "repeats_inv es sel (Suc n) R"
  using assms by (fastforce simp: repeats_inv_def positions_upto_Suc repeat_upto_other)

lemma repeats_inv_record:
  assumes inv: "repeats_inv es sel n R" and sel: "distinct (map slot_key sel)" "j < length sel"
    and key: "slot_key (sel ! j) = element_key_of (es ! n)" and n: "n < 2 ^ 32"
  shows "repeats_inv es sel (Suc n) (R[j := repeat_upto es (Suc n) (element_key_of (es ! n))])"
proof -
  have other: "element_key_of (es ! n) \<noteq> slot_key (sel ! i)" if "i < length sel" "i \<noteq> j" for i
    using that sel key by (metis (no_types) length_map nth_eq_iff_index_eq nth_map)
  have "R[j := repeat_upto es (Suc n) (element_key_of (es ! n))] =
      map (\<lambda>s. repeat_upto es (Suc n) (slot_key s)) sel"
  proof (rule nth_equalityI)
    fix i assume "i < length (R[j := repeat_upto es (Suc n) (element_key_of (es ! n))])"
    with inv have "i < length sel" by (simp add: repeats_inv_def)
    with inv key other [of i] show "R[j := repeat_upto es (Suc n) (element_key_of (es ! n))] ! i =
        map (\<lambda>s. repeat_upto es (Suc n) (slot_key s)) sel ! i"
      by (cases "i = j") (simp_all add: repeats_inv_def repeat_upto_other)
  qed (use inv in \<open>simp add: repeats_inv_def\<close>)
  with inv n show ?thesis by (auto simp: repeats_inv_def positions_upto_Suc split: if_splits)
qed

text \<open>One pass keeps the invariant: every selected slot holds the summary of the prefix read so far.\<close>

lemma yields_group_repeats:
  assumes "all = pre @ es" "\<And>e. e \<in> set es \<Longrightarrow> key_wf (element_key_of e)"
    and str: "length str = 511" "\<And>j. j < length sel \<Longrightarrow> str ! (sel ! j) = j"
      "\<And>s. s < 511 \<Longrightarrow> s \<notin> set sel \<Longrightarrow> str ! s = usize_MAX"
    and sel: "distinct sel" "length sel \<le> 511" "set sel \<subseteq> {..<511}"
    and "repeats_inv all sel (length pre) R"
  shows "yields (group_repeats all str (length pre) es R) (repeats_inv all sel (length all))"
  using assms(1,2,9)
proof (induction es arbitrary: pre R)
  case Nil
  have "group_repeats all str (length pre) [] R = ret R" by (rule ext) simp
  with Nil show ?case by (auto intro: yields_ret)
next
  case (Cons e es)
  let ?s = "slot_of (element_key_of e)" and ?n = "length pre"
  have wf: "key_wf (element_key_of e)" using Cons.prems(2) by simp
  have slot: "element_slot (element_key_of e) (ie_offset e) = Inr ?s"
    using wf by (rule element_slot_wf)
  have e: "all ! ?n = e" "?n < length all" using Cons.prems(1) by (auto simp: nth_append)
  have IH: "yields (group_repeats all str (Suc ?n) es R') (repeats_inv all sel (length all))"
    if "repeats_inv all sel (Suc ?n) R'" for R'
    using Cons.IH [of "pre @ [e]" R'] Cons.prems that by simp
  have unfold: "group_repeats all str ?n (e # es) R = bindR (ctl_charge 1) (\<lambda>_.
      bindR (ok_or (nth_get str ?s) Panic) (\<lambda>ri.
        if ri = usize_MAX then group_repeats all str (Suc ?n) es R
        else bindR (ok_or (nth_get R ri) Panic) (\<lambda>grp.
          bindR (record_repeat all e ?n grp) (\<lambda>grp'.
            group_repeats all str (Suc ?n) es (R[ri := grp'])))))"
    by (rule ext) (simp only: group_repeats.simps slot sum.case)
  show ?case
  proof (cases "?s \<in> set sel")
    case False
    then have "str ! ?s = usize_MAX" using str(3) slot_of_lt by blast
    moreover have "repeats_inv all sel (Suc ?n) R"
      using Cons.prems(3) False sel(3) slot_key_eq_iff [OF _ wf] e
      by (intro repeats_inv_skip) auto
    ultimately show ?thesis
      unfolding unfold using str(1) slot_of_lt [of "element_key_of e"] IH
      by (intro yields_rules) simp_all
  next
    case True
    then obtain j where j: "j < length sel" "sel ! j = ?s" by (auto simp: in_set_conv_nth)
    have strj: "str ! ?s = j" "j \<noteq> usize_MAX" using j str(2) sel(2) by (force simp: usize_MAX_def)+
    have key: "slot_key ?s = element_key_of e" using wf by (rule slot_key_slot_of)
    have "inj_on slot_key (set sel)"
      using sel(3) slot_of_slot_key by (intro inj_on_inverseI [where g = slot_of]) auto
    then have step: "repeats_inv all sel (Suc ?n) (R[j := repeat_upto all (Suc ?n) (element_key_of e)])"
      if "?n < 2 ^ 32"
      using repeats_inv_record [OF Cons.prems(3) _ j(1)] sel(1) j(2) key e that by (simp add: distinct_map)
    have Rj: "R ! j = repeat_upto all ?n (element_key_of e)" "j < length R"
      and small: "\<forall>p \<in> set (positions_upto all ?n (element_key_of e)). p < 2 ^ 32"
      using j key Cons.prems(3) True by (auto simp: repeats_inv_def)
    note rec = yields_record_repeat [OF e(2) small, unfolded e(1), OF refl]
    show ?thesis
      unfolding unfold using str(1) slot_of_lt [of "element_key_of e"] strj Rj step
      by (intro yields_rules) (auto intro!: yields_bind [OF rec] IH)
  qed
qed

lemma repeated_slots_positions:
  assumes "length counts = 511" "\<And>e. e \<in> set es \<Longrightarrow> key_wf (element_key_of e)"
    and "\<And>s. s < 511 \<Longrightarrow> counts ! s = length (filter (\<lambda>e. slot_of (element_key_of e) = s) es)"
  shows "map slot_key (repeated_slots 0 counts) =
    filter (\<lambda>k. 2 \<le> length (positions_upto es (length es) k)) (map slot_key [0..<511])"
proof -
  have "counts ! s = length (positions_upto es (length es) (slot_key s))" if "s < 511" for s
  proof -
    have "filter (\<lambda>e. slot_of (element_key_of e) = s) es = filter (\<lambda>e. element_key_of e = slot_key s) es"
      using assms(2) slot_of_slot_key [OF that] slot_key_slot_of by (intro filter_cong) metis+
    then show ?thesis by (simp add: assms(3) [OF that] length_positions_upto)
  qed
  then have "repeated_slots 0 counts =
      filter (\<lambda>s. 2 \<le> length (positions_upto es (length es) (slot_key s))) [0..<511]"
    unfolding repeated_slots_def assms(1) by (intro filter_cong) auto
  then show ?thesis by (simp add: filter_map comp_def del: upt_Suc)
qed

lemma yields_summarize_repeats:
  assumes "\<And>e. e \<in> set es \<Longrightarrow> key_wf (element_key_of e)"
  shows "yields (summarize_repeats ly es) (\<lambda>rep. rep = repeats_spec es)"
  unfolding summarize_repeats_def
proof (intro yields_rules yields_bind [OF yields_count_slots [OF assms]])
  fix counts assume "length counts = 511 \<and> (\<forall>s < 511. counts ! s = replicate 511 0 ! s +
      length (filter (\<lambda>e. slot_of (element_key_of e) = s) es))"
  then have len: "length counts = 511"
    and counts: "\<And>s. s < 511 \<Longrightarrow> counts ! s = length (filter (\<lambda>e. slot_of (element_key_of e) = s) es)"
    by auto
  let ?sel = "repeated_slots 0 counts" and ?b = "build_repeats 0 counts [] (replicate 511 usize_MAX)"
  have group: "yields (group_repeats es (snd ?b) 0 es (fst ?b)) (repeats_inv es ?sel (length es))"
  proof (rule yields_group_repeats [where pre = "[]", simplified])
    show "length ?sel \<le> 511"
      using len by (auto simp: repeated_slots_def intro: order_trans [OF length_filter_le])
    fix j assume j: "j < length ?sel"
    then show "snd ?b ! (?sel ! j) = j"
      using len build_repeats_slot [OF j] by simp
  qed (use assms len in \<open>simp_all add: build_repeats_length build_repeats_frame build_repeats_groups
        distinct_repeated_slots repeats_inv_def repeat_upto_0
        positions_upto_def subset_eq set_repeated_slots\<close>)
  have spec: "map mark_contradictory R = repeats_spec es" if "repeats_inv es ?sel (length es) R" for R
    using conjunct1 [OF that [unfolded repeats_inv_def]] unfolding repeats_spec_def
    by (simp only: repeated_slots_positions [OF len assms counts, symmetric] map_map comp_def)
  show "yields (case ?b of (repeated, slot_to_repeat) \<Rightarrow>
      bindR (group_repeats es slot_to_repeat 0 es repeated) (\<lambda>repeated'.
        ret (map mark_contradictory repeated'))) (\<lambda>rep. rep = repeats_spec es)"
    unfolding case_prod_unfold
    by (rule yields_bind [OF group]) (auto intro!: yields_ret spec)
qed simp_all

section \<open>Price\<close>

lemma ctl_det_count_slots: "ctl_det L (count_slots es counts)"
proof (induction es arbitrary: counts)
  case Nil
  have "count_slots [] counts = ret counts" by (rule ext) simp
  then show ?case by (simp add: ctl_det_ret)
next
  case (Cons e es)
  have "count_slots (e # es) counts =
      bindR (ctl_charge 1) (\<lambda>_.
       case element_slot (element_key_of e) (ie_offset e) of
         Inl err \<Rightarrow> fail err
       | Inr slot \<Rightarrow>
           bindR (ok_or (nth_get counts slot) Panic) (\<lambda>n.
             bindR (ok_or (checked_add n 1) (IeLimitExceeded ''element count'')) (\<lambda>n'.
               count_slots es (counts[slot := n']))))"
    by (rule ext) (rule count_slots.simps)
  then show ?case
    by (auto intro!: ctl_det_bind ctl_det_rules Cons.IH split: sum.split)
qed

lemma ctl_det_record_repeat: "ctl_det L (record_repeat es e index grp)"
  unfolding record_repeat_def
  by (intro ctl_det_bind ctl_det_rules) (auto intro!: ctl_det_bind ctl_det_rules split: list.split)

lemma ctl_det_group_repeats: "ctl_det L (group_repeats all str index es R)"
proof (induction es arbitrary: index R)
  case Nil
  have "group_repeats all str index [] R = ret R" by (rule ext) simp
  then show ?case by (simp add: ctl_det_ret)
next
  case (Cons e es)
  have "group_repeats all str index (e # es) R =
     bindR (ctl_charge 1) (\<lambda>_.
       case element_slot (element_key_of e) (ie_offset e) of
         Inl _ \<Rightarrow> fail Panic
       | Inr slot \<Rightarrow>
           bindR (ok_or (nth_get str slot) Panic) (\<lambda>ri.
             if ri = usize_MAX then group_repeats all str (Suc index) es R
             else bindR (ok_or (nth_get R ri) Panic) (\<lambda>grp.
               bindR (record_repeat all e index grp) (\<lambda>grp'.
                 group_repeats all str (Suc index) es (R[ri := grp'])))))"
    by (rule ext) (rule group_repeats.simps)
  then show ?case
    by (auto intro!: ctl_det_bind ctl_det_rules ctl_det_if ctl_det_record_repeat Cons.IH split: sum.split)
qed

lemma ctl_det_summarize_repeats [ctl_det_rules]: "ctl_det L (summarize_repeats ly es)"
  unfolding summarize_repeats_def case_prod_unfold
  by (intro ctl_det_bind ctl_det_rules ctl_det_count_slots ctl_det_group_repeats)

end
