(* ===== verification/Ieee80211_Parse.thy ===== *)
theory Ieee80211_Parse
  imports Ieee80211_Repeats
begin

text \<open>
  The management-frame parser \<open>parse_controlled\<close> of \<open>crates/ieee80211/src/lib.rs\<close> with its
  preflight pass, and the public entry points \<open>parse\<close>, \<open>parse_with\<close> and \<open>parse_with_usage\<close>.
\<close>

section \<open>Definitions\<close>

fun subtype_of_raw :: "u8 \<Rightarrow> management_subtype option" where
  "subtype_of_raw v =
     (if v = 0 then Some AssociationRequest
      else if v = 1 then Some AssociationResponse
      else if v = 2 then Some ReassociationRequest
      else if v = 3 then Some ReassociationResponse
      else if v = 4 then Some ProbeRequest
      else if v = 5 then Some ProbeResponse
      else if v = 8 then Some Beacon
      else None)"

fun fixed_len :: "management_subtype \<Rightarrow> nat" where
  "fixed_len AssociationRequest = ASSOCIATION_REQUEST_FIXED_LEN"
| "fixed_len AssociationResponse = ASSOCIATION_RESPONSE_FIXED_LEN"
| "fixed_len ReassociationRequest = REASSOCIATION_REQUEST_FIXED_LEN"
| "fixed_len ReassociationResponse = REASSOCIATION_RESPONSE_FIXED_LEN"
| "fixed_len ProbeRequest = 0"
| "fixed_len ProbeResponse = RESPONSE_FIXED_LEN"
| "fixed_len Beacon = RESPONSE_FIXED_LEN"

text \<open>The length of the MPDU without its frame check sequence, which is validated when present.\<close>

definition mac_length :: "u8 list \<Rightarrow> input_framing \<Rightarrow> (control, ie_error, nat) rsm" where
  "mac_length input fr =
     (case fr of
        FcsAbsent \<Rightarrow> ret (length input)
      | FcsPresentAndValidate \<Rightarrow>
          bindR (ok_or (checked_sub (length input) 4) (Truncated ''FCS'')) (\<lambda>mac_len.
            bindR (ok_or (read_u32 input mac_len) (Truncated ''FCS'')) (\<lambda>actual.
              bindR (crc32 (take mac_len input)) (\<lambda>expected.
                bindR (guardR (actual = expected) (InvalidFcs expected actual)) (\<lambda>_.
                  ret mac_len)))))"

definition address_at :: "u8 list \<Rightarrow> nat \<Rightarrow> (control, ie_error, mac_address) rsm" where
  "address_at input offset =
     bindR (ok_or (slice_get input offset (offset + 6)) Panic) (\<lambda>bs. ret (MacAddress bs))"

definition read_fixed ::
    "u8 list \<Rightarrow> management_subtype \<Rightarrow> (control, ie_error, response_fixed_fields option) rsm" where
  "read_fixed input st =
     (if st = ProbeResponse \<or> st = Beacon
      then bindR (ok_or (read_u64 input HEADER_LEN) (Truncated ''timestamp'')) (\<lambda>ts.
             bindR (ok_or (read_u16 input (HEADER_LEN + 8)) (Truncated ''beacon interval'')) (\<lambda>bi.
               bindR (ok_or (read_u16 input (HEADER_LEN + 10)) (Truncated ''capability'')) (\<lambda>ci.
                 ret (Some \<lparr>timestamp = ts, beacon_interval_tu = bi, capability_information = ci\<rparr>))))
      else ret None)"

function preflight_loop ::
    "u8 list \<Rightarrow> nat \<Rightarrow> nat \<Rightarrow> nat \<Rightarrow> nat \<Rightarrow> (control, ie_error, nat) rsm" where
  "preflight_loop input mac_len cursor count tot c =
     (if cursor < mac_len then
        bindR (ctl_charge 1) (\<lambda>_.
          bindR (ok_or (checked_add count 1) (IeLimitExceeded ''element count'')) (\<lambda>count'. \<lambda>c.
            bindR (guardR (count' \<le> max_elements (ctl_limits c)) (IeLimitExceeded ''element count'')) (\<lambda>_.
              bindR (ok_or (checked_add cursor 2) (IeLimitExceeded ''offset'')) (\<lambda>header_end.
                if mac_len < header_end
                then bindR (to_u32 cursor) (\<lambda>o'. fail (TruncatedInformationElement o' 0))
                else bindR (ok_or (nth_get input (cursor + 1)) Panic) (\<lambda>len.
                  bindR (ok_or (checked_add header_end (unat len)) (IeLimitExceeded ''offset'')) (\<lambda>payload_end.
                    if mac_len < payload_end
                    then bindR (to_u32 cursor) (\<lambda>o'. fail (TruncatedInformationElement o' len))
                    else bindR (ok_or (nth_get input cursor) Panic) (\<lambda>eid.
                      if eid = 255 \<and> len = 0
                      then bindR (to_u32 cursor) (\<lambda>o'. fail (EmptyExtensionElement o'))
                      else bindR (ok_or (checked_add tot (unat len)) (IeLimitExceeded ''IE payload bytes'')) (\<lambda>tot'. \<lambda>c.
                        bindR (guardR (tot' \<le> max_ie_payload_bytes (ctl_limits c)) (IeLimitExceeded ''IE payload bytes'')) (\<lambda>_.
                          bindR (ctl_charge (unat len)) (\<lambda>_.
                            preflight_loop input mac_len payload_end count' tot')) c)))))) c)) c
      else ret count c)"
  by pat_completeness auto
termination
  by (relation "measure (\<lambda>(input, mac_len, cursor, count, tot, c). mac_len - cursor)")
    (auto split: if_splits option.splits)

declare preflight_loop.simps [simp del]

definition preflight_elements :: "u8 list \<Rightarrow> nat \<Rightarrow> nat \<Rightarrow> (control, ie_error, nat) rsm" where
  "preflight_elements input cursor mac_len = preflight_loop input mac_len cursor 0 0"

text \<open>The body of the element loop after the bounds checks: copy, decode, record the offsets.\<close>

definition read_element ::
    "rust_layout \<Rightarrow> u8 list \<Rightarrow> management_subtype \<Rightarrow> nat \<Rightarrow> nat \<Rightarrow> nat \<Rightarrow> u8
       \<Rightarrow> (control, ie_error, information_element) rsm" where
  "read_element ly input st cursor header_end payload_end eid =
     bindR (ok_or (slice_get input header_end payload_end) Panic) (\<lambda>payload.
       if eid = 255 \<and> payload = []
       then bindR (to_u32 cursor) (\<lambda>o'. fail (EmptyExtensionElement o'))
       else bindR (if eid = 255 then bindR (ok_or (nth_get payload 0) Panic) (\<lambda>x. ret (Some x))
                   else ret None) (\<lambda>ext.
         bindR (ctl_allocate (length payload)) (\<lambda>_.
           bindR (decode_element ly eid payload st) (\<lambda>decoded.
             bindR (to_u32 cursor) (\<lambda>o'.
               bindR (to_u32 header_end) (\<lambda>po.
                 ret \<lparr>ie_id = eid, ie_extension_id = ext, ie_offset = o', ie_payload_offset = po,
                      ie_payload = payload, ie_decoded = decoded\<rparr>))))))"

function elements_loop ::
    "rust_layout \<Rightarrow> u8 list \<Rightarrow> management_subtype \<Rightarrow> nat \<Rightarrow> nat \<Rightarrow> nat \<Rightarrow> information_element list
       \<Rightarrow> (control, ie_error, information_element list) rsm" where
  "elements_loop ly input st mac_len cursor tot es c =
     (if cursor < mac_len then
        bindR (ctl_charge 1) (\<lambda>_ c.
          bindR (guardR (length es < max_elements (ctl_limits c)) (IeLimitExceeded ''element count'')) (\<lambda>_.
            bindR (ok_or (checked_add cursor 2) (IeLimitExceeded ''offset'')) (\<lambda>header_end.
              if mac_len < header_end
              then bindR (to_u32 cursor) (\<lambda>o'. fail (TruncatedInformationElement o' 0))
              else bindR (ok_or (nth_get input cursor) Panic) (\<lambda>eid.
                bindR (ok_or (nth_get input (cursor + 1)) Panic) (\<lambda>len.
                  bindR (ok_or (checked_add header_end (unat len)) (IeLimitExceeded ''offset'')) (\<lambda>payload_end.
                    if mac_len < payload_end
                    then bindR (to_u32 cursor) (\<lambda>o'. fail (TruncatedInformationElement o' len))
                    else bindR (ok_or (checked_add tot (unat len)) (IeLimitExceeded ''IE payload bytes'')) (\<lambda>tot'. \<lambda>c.
                      bindR (guardR (tot' \<le> max_ie_payload_bytes (ctl_limits c)) (IeLimitExceeded ''IE payload bytes'')) (\<lambda>_.
                        bindR (ctl_charge (unat len)) (\<lambda>_.
                          bindR (read_element ly input st cursor header_end payload_end eid) (\<lambda>e.
                            elements_loop ly input st mac_len payload_end tot' (es @ [e])))) c)))))) c) c
      else ret es c)"
  by pat_completeness auto
termination
  by (relation "measure (\<lambda>(ly, input, st, mac_len, cursor, tot, es, c). mac_len - cursor)")
    (auto split: if_splits option.splits)

declare elements_loop.simps [simp del]

text \<open>The checks on frame control: protocol version, type, subtype and DS flags.\<close>

definition frame_subtype :: "u16 \<Rightarrow> (control, ie_error, management_subtype) rsm" where
  "frame_subtype fc =
     (let protocol = ucast (fc AND 0b11);
          frame_type = ucast (drop_bit 2 fc AND 0b11);
          subtype_raw = ucast (drop_bit 4 fc AND 0x0f);
          ds_flags = ucast (drop_bit 8 fc AND 0x03)
      in bindR (guardR (protocol = 0) (UnsupportedProtocolVersion protocol)) (\<lambda>_.
           bindR (guardR (frame_type = 0) (UnsupportedFrameType frame_type)) (\<lambda>_.
             bindR (ok_or (subtype_of_raw subtype_raw) (UnsupportedManagementSubtype subtype_raw)) (\<lambda>st.
               bindR (guardR (ds_flags = 0) (InvalidManagementDsFlags ds_flags)) (\<lambda>_.
                 ret st)))))"

text \<open>The part of \<open>parse_controlled\<close> after the checks on frame control.\<close>

definition parse_body ::
    "rust_layout \<Rightarrow> u8 list \<Rightarrow> input_framing \<Rightarrow> nat \<Rightarrow> u16 \<Rightarrow> management_subtype
       \<Rightarrow> (control, ie_error, management_frame) rsm" where
  "parse_body ly input fr mac_len fc st =
     bindR (ok_or (checked_add HEADER_LEN (fixed_len st)) (IeLimitExceeded ''offset'')) (\<lambda>elements_offset.
     bindR (guardR (elements_offset \<le> mac_len) (Truncated ''management fixed fields'')) (\<lambda>_.
     bindR (ok_or (read_u16 input 22) (Truncated ''sequence control'')) (\<lambda>sequence_control.
     bindR (read_fixed input st) (\<lambda>fx.
     bindR (preflight_elements input elements_offset mac_len) (\<lambda>element_count.
     bindR (ok_or (checked_mul element_count (size_InformationElement ly))
          (IeLimitExceeded ''allocation bytes'')) (\<lambda>n.
     bindR (ctl_allocate n) (\<lambda>_.
     bindR (elements_loop ly input st mac_len elements_offset 0 []) (\<lambda>es.
     bindR (summarize_repeats ly es) (\<lambda>rep.
     bindR (ctl_allocate (length input)) (\<lambda>_.
     bindR (copy_work (length input)) (\<lambda>_.
     bindR (ok_or (read_u16 input 2) (Truncated ''duration'')) (\<lambda>dur.
     bindR (address_at input 4) (\<lambda>a1.
     bindR (address_at input 10) (\<lambda>a2.
     bindR (address_at input 16) (\<lambda>a3.
     ret \<lparr>schema_version = 1, framing = fr, raw_mpdu = input, subtype = st, frame_control = fc,
          duration_id = dur,
          addresses = \<lparr>receiver = a1, transmitter = a2, bssid_field = a3\<rparr>,
          sequence_number = drop_bit 4 sequence_control,
          fragment_number = ucast (sequence_control AND 0x0f),
          fixed = fx, elements = es, repeated_elements = rep\<rparr>)))))))))))))))"

definition parse_controlled ::
    "rust_layout \<Rightarrow> u8 list \<Rightarrow> input_framing \<Rightarrow> (control, ie_error, management_frame) rsm" where
  "parse_controlled ly input fr =
     bindR (ctl_charge 1) (\<lambda>_ c.
     bindR (guardR (length input \<le> max_frame_bytes (ctl_limits c)) (IeLimitExceeded ''frame bytes'')) (\<lambda>_.
     bindR (mac_length input fr) (\<lambda>mac_len.
     bindR (guardR (HEADER_LEN \<le> mac_len) (Truncated ''management header'')) (\<lambda>_.
     bindR (ctl_charge HEADER_LEN) (\<lambda>_.
     bindR (ok_or (read_u16 input 0) (Truncated ''frame control'')) (\<lambda>fc.
     bindR (frame_subtype fc) (\<lambda>st.
     parse_body ly input fr mac_len fc st)))))) c)"

definition parse_with_usage ::
    "rust_layout \<Rightarrow> u8 list \<Rightarrow> input_framing \<Rightarrow> parse_limits \<Rightarrow> (nat \<Rightarrow> bool)
       \<Rightarrow> ie_error + (management_frame \<times> ie_resource_usage)" where
  "parse_with_usage ly input fr lim canc =
     (case parse_controlled ly input fr (control_new lim canc) of
        (Inl e, _) \<Rightarrow> Inl e
      | (Inr f, c) \<Rightarrow> Inr (f, ctl_usage c))"

definition parse_with ::
    "rust_layout \<Rightarrow> u8 list \<Rightarrow> input_framing \<Rightarrow> parse_limits \<Rightarrow> (nat \<Rightarrow> bool)
       \<Rightarrow> ie_error + management_frame" where
  "parse_with ly input fr lim canc = map_sum (\<lambda>e. e) fst (parse_with_usage ly input fr lim canc)"

definition ie_never_cancel :: "nat \<Rightarrow> bool" where
  "ie_never_cancel n = False"

definition parse :: "rust_layout \<Rightarrow> u8 list \<Rightarrow> input_framing \<Rightarrow> ie_error + management_frame" where
  "parse ly input fr = parse_with ly input fr parse_limits_default ie_never_cancel"

section \<open>Specification of the element walk\<close>

function tlvs :: "u8 list \<Rightarrow> (u8 \<times> u8 list) list option" where
  "tlvs [] = Some []"
| "tlvs [b] = None"
| "tlvs (eid # len # rest) =
     (if length rest < unat len \<or> (eid = 255 \<and> len = 0) then None
      else map_option (Cons (eid, take (unat len) rest)) (tlvs (drop (unat len) rest)))"
  by pat_completeness auto
termination by (relation "measure length") auto

lemma tlvs_step:
  assumes "cursor < mac_len" "mac_len \<le> length input"
  shows "tlvs (drop cursor (take mac_len input)) =
    (if mac_len < cursor + 2 \<or> mac_len < cursor + 2 + unat (input ! (cursor + 1)) \<or>
        (input ! cursor = 255 \<and> input ! (cursor + 1) = 0) then None
     else map_option
            (Cons (input ! cursor, take (unat (input ! (cursor + 1))) (drop (cursor + 2) input)))
            (tlvs (drop (cursor + 2 + unat (input ! (cursor + 1))) (take mac_len input))))"
proof -
  let ?mac = "take mac_len input"
  have d: "drop cursor ?mac = input ! cursor # drop (Suc cursor) ?mac"
    using assms Cons_nth_drop_Suc [of cursor ?mac] by simp
  show ?thesis
  proof (cases "mac_len < cursor + 2")
    case True
    then have "drop (Suc cursor) ?mac = []" by simp
    with d True show ?thesis by simp
  next
    case False
    then have "drop (Suc cursor) ?mac = input ! (cursor + 1) # drop (cursor + 2) ?mac"
      using assms Cons_nth_drop_Suc [of "Suc cursor" ?mac] by simp
    moreover have "take (unat (input ! (cursor + 1))) (drop (cursor + 2) ?mac) =
        take (unat (input ! (cursor + 1))) (drop (cursor + 2) input)"
      if "cursor + 2 + unat (input ! (cursor + 1)) \<le> mac_len"
      using that by (simp add: drop_take min_def)
    ultimately show ?thesis using d False assms by (auto simp: add.commute)
  qed
qed

lemma preflight_loop_unfold:
  "preflight_loop input mac_len cursor count tot =
     (if cursor < mac_len then
        bindR (ctl_charge 1) (\<lambda>_.
          bindR (ok_or (checked_add count 1) (IeLimitExceeded ''element count'')) (\<lambda>count'. \<lambda>c.
            bindR (guardR (count' \<le> max_elements (ctl_limits c)) (IeLimitExceeded ''element count'')) (\<lambda>_.
              bindR (ok_or (checked_add cursor 2) (IeLimitExceeded ''offset'')) (\<lambda>header_end.
                if mac_len < header_end
                then bindR (to_u32 cursor) (\<lambda>o'. fail (TruncatedInformationElement o' 0))
                else bindR (ok_or (nth_get input (cursor + 1)) Panic) (\<lambda>len.
                  bindR (ok_or (checked_add header_end (unat len)) (IeLimitExceeded ''offset'')) (\<lambda>payload_end.
                    if mac_len < payload_end
                    then bindR (to_u32 cursor) (\<lambda>o'. fail (TruncatedInformationElement o' len))
                    else bindR (ok_or (nth_get input cursor) Panic) (\<lambda>eid.
                      if eid = 255 \<and> len = 0
                      then bindR (to_u32 cursor) (\<lambda>o'. fail (EmptyExtensionElement o'))
                      else bindR (ok_or (checked_add tot (unat len)) (IeLimitExceeded ''IE payload bytes'')) (\<lambda>tot'. \<lambda>c.
                        bindR (guardR (tot' \<le> max_ie_payload_bytes (ctl_limits c)) (IeLimitExceeded ''IE payload bytes'')) (\<lambda>_.
                          bindR (ctl_charge (unat len)) (\<lambda>_.
                            preflight_loop input mac_len payload_end count' tot')) c)))))) c))
      else ret count)"
  by (rule ext) (subst preflight_loop.simps, simp)

lemma implements_preflight_loop:
  assumes "mac_len \<le> length input"
  shows "implements (preflight_loop input mac_len cursor count tot)
    (map_option (\<lambda>ts. count + length ts) (tlvs (drop cursor (take mac_len input))))"
proof (induction "mac_len - cursor" arbitrary: cursor count tot rule: less_induct)
  case less
  show ?case
  proof (cases "cursor < mac_len")
    case False
    then show ?thesis
      by (subst preflight_loop_unfold) (simp add: implements_ret)
  next
    case True
    let ?next = "cursor + 2 + unat (input ! (cursor + 1))"
    have IH: "implements (preflight_loop input mac_len ?next (count + 1) tot')
      (map_option (\<lambda>ts. count + 1 + length ts) (tlvs (drop ?next (take mac_len input))))" for tot'
      using True by (intro less) simp
    have "implements (preflight_loop input mac_len cursor count tot) None"
      if "mac_len < cursor + 2 \<or> mac_len < ?next \<or> (input ! cursor = 255 \<and> input ! (cursor + 1) = 0)"
      using that True assms
      by (subst preflight_loop_unfold, simp only: if_True, intro implements_rules)
        (auto simp: checked_add_def intro: implements_fail split: if_splits)
    moreover have "implements (preflight_loop input mac_len cursor count tot)
        (map_option (\<lambda>ts. count + 1 + length ts) (tlvs (drop ?next (take mac_len input))))"
      if "\<not> (mac_len < cursor + 2 \<or> mac_len < ?next \<or> (input ! cursor = 255 \<and> input ! (cursor + 1) = 0))"
      using that True assms IH
      by (subst preflight_loop_unfold, simp only: if_True, intro implements_rules)
        (auto simp: checked_add_def intro: implements_fail split: if_splits)
    ultimately show ?thesis
      using True assms by (simp add: tlvs_step option.map_comp comp_def)
  qed
qed

text \<open>The element that a TLV at a given offset stands for.\<close>

definition element_spec :: "management_subtype \<Rightarrow> nat \<Rightarrow> u8 \<Rightarrow> u8 list \<Rightarrow> information_element" where
  "element_spec st off eid p =
     \<lparr>ie_id = eid, ie_extension_id = (if eid = 255 then Some (hd p) else None), ie_offset = of_nat off,
      ie_payload_offset = of_nat (off + 2), ie_payload = p, ie_decoded = decode_spec st eid p\<rparr>"

fun place :: "management_subtype \<Rightarrow> nat \<Rightarrow> (u8 \<times> u8 list) list \<Rightarrow> information_element list" where
  "place st off [] = []"
| "place st off ((eid, p) # ts) = element_spec st off eid p # place st (off + 2 + length p) ts"

lemma implements_read_element:
  assumes "cursor + 2 \<le> payload_end" "payload_end \<le> length input"
    and "eid = 255 \<Longrightarrow> cursor + 2 < payload_end"
  shows "implements (read_element ly input st cursor (cursor + 2) payload_end eid)
    (Some (element_spec st cursor eid (take (payload_end - (cursor + 2)) (drop (cursor + 2) input))))"
proof -
  let ?p = "take (payload_end - (cursor + 2)) (drop (cursor + 2) input)"
  have p: "slice_get input (cursor + 2) payload_end = Some ?p" using assms by simp
  have ne: "eid = 255 \<Longrightarrow> ?p \<noteq> []" using assms by auto
  have hd: "?p \<noteq> [] \<Longrightarrow> ?p ! 0 = hd ?p" by (rule hd_conv_nth [symmetric])
  have ext: "implements (if eid = 255 then bindR (ok_or (nth_get ?p 0) Panic) (\<lambda>x. ret (Some x))
      else ret None) (Some (if eid = 255 then Some (hd ?p) else None))"
    using ne hd by (auto intro!: implements_rules)
  show ?thesis
    unfolding read_element_def p bindR_ok_or_Some
    by (intro implements_rules implements_bind_eq [OF ext]
        implements_bind_eq [OF implements_decode_element])
      (use ne in \<open>auto simp: element_spec_def intro: implements_ret\<close>)
qed

lemma elements_loop_unfold:
  "elements_loop ly input st mac_len cursor tot es =
     (if cursor < mac_len then
        bindR (ctl_charge 1) (\<lambda>_ c.
          bindR (guardR (length es < max_elements (ctl_limits c)) (IeLimitExceeded ''element count'')) (\<lambda>_.
            bindR (ok_or (checked_add cursor 2) (IeLimitExceeded ''offset'')) (\<lambda>header_end.
              if mac_len < header_end
              then bindR (to_u32 cursor) (\<lambda>o'. fail (TruncatedInformationElement o' 0))
              else bindR (ok_or (nth_get input cursor) Panic) (\<lambda>eid.
                bindR (ok_or (nth_get input (cursor + 1)) Panic) (\<lambda>len.
                  bindR (ok_or (checked_add header_end (unat len)) (IeLimitExceeded ''offset'')) (\<lambda>payload_end.
                    if mac_len < payload_end
                    then bindR (to_u32 cursor) (\<lambda>o'. fail (TruncatedInformationElement o' len))
                    else bindR (ok_or (checked_add tot (unat len)) (IeLimitExceeded ''IE payload bytes'')) (\<lambda>tot'. \<lambda>c.
                      bindR (guardR (tot' \<le> max_ie_payload_bytes (ctl_limits c)) (IeLimitExceeded ''IE payload bytes'')) (\<lambda>_.
                        bindR (ctl_charge (unat len)) (\<lambda>_.
                          bindR (read_element ly input st cursor header_end payload_end eid) (\<lambda>e.
                            elements_loop ly input st mac_len payload_end tot' (es @ [e])))) c)))))) c)
      else ret es)"
  by (rule ext) (subst elements_loop.simps, simp)

lemma read_element_empty_extension:
  "header_end \<le> length input \<Longrightarrow> implements (read_element ly input st cursor header_end header_end 255) None"
  unfolding read_element_def by (intro implements_rules) (auto intro: implements_rules)

lemma implements_elements_loop:
  assumes "mac_len \<le> length input"
  shows "implements (elements_loop ly input st mac_len cursor tot es)
    (map_option (\<lambda>ts. es @ place st cursor ts) (tlvs (drop cursor (take mac_len input))))"
proof (induction "mac_len - cursor" arbitrary: cursor tot es rule: less_induct)
  case less
  show ?case
  proof (cases "cursor < mac_len")
    case False
    then show ?thesis
      by (subst elements_loop_unfold) (simp add: implements_ret)
  next
    case True
    let ?n = "unat (input ! (cursor + 1))"
    let ?next = "cursor + 2 + ?n"
    let ?p = "take ?n (drop (cursor + 2) input)"
    have IH: "implements (elements_loop ly input st mac_len ?next tot' es')
      (map_option (\<lambda>ts. es' @ place st ?next ts) (tlvs (drop ?next (take mac_len input))))" for tot' es'
      using True by (intro less) simp
    have "implements (elements_loop ly input st mac_len cursor tot es) None"
      if "mac_len < cursor + 2 \<or> mac_len < ?next"
      using that True assms
      by (subst elements_loop_unfold, simp only: if_True, intro implements_rules)
        (auto simp: checked_add_def intro: implements_fail split: if_splits)
    moreover have "implements (elements_loop ly input st mac_len cursor tot es) None"
      if "?next \<le> mac_len" "input ! cursor = 255" "input ! (cursor + 1) = 0"
      using that True assms
      by (subst elements_loop_unfold, simp only: if_True, intro implements_rules)
        (auto simp: checked_add_def intro: implements_fail split: if_splits
         intro!: implements_bind_eq [OF read_element_empty_extension])
    moreover have "implements (elements_loop ly input st mac_len cursor tot es)
        (map_option (\<lambda>ts. (es @ [element_spec st cursor (input ! cursor) ?p]) @ place st ?next ts)
           (tlvs (drop ?next (take mac_len input))))"
      if ok: "?next \<le> mac_len" "\<not> (input ! cursor = 255 \<and> input ! (cursor + 1) = 0)"
    proof -
      have rd: "implements (read_element ly input st cursor (cursor + 2) ?next (input ! cursor))
          (Some (element_spec st cursor (input ! cursor) ?p))"
        using implements_read_element [of cursor ?next input "input ! cursor" ly st] ok assms 
        by (auto simp: unat_gt_0)
      show ?thesis
        using ok True assms
        by (subst elements_loop_unfold, simp only: if_True, intro implements_rules)
          (auto simp: checked_add_def intro: implements_fail split: if_splits
            intro!: implements_bind_eq [OF rd [simplified]]
              IH [of _ "es @ [element_spec st cursor (input ! cursor) ?p]", simplified])
    qed
    ultimately show ?thesis
      using True assms
      by (cases "?next \<le> mac_len") (auto simp: tlvs_step option.map_comp comp_def)
  qed
qed

section \<open>Specification of the parser\<close>

definition mac_spec :: "u8 list \<Rightarrow> input_framing \<Rightarrow> u8 list option" where
  "mac_spec input fr =
     (case fr of
        FcsAbsent \<Rightarrow> Some input
      | FcsPresentAndValidate \<Rightarrow>
          (let n = length input - 4
           in if 4 \<le> length input \<and> from_le_bytes (drop n input) = crc32_value (take n input)
              then Some (take n input) else None))"

definition fixed_spec :: "u8 list \<Rightarrow> management_subtype \<Rightarrow> response_fixed_fields option" where
  "fixed_spec mac st =
     (if st \<in> {ProbeResponse, Beacon}
      then Some \<lparr>timestamp = from_le_bytes (take 8 (drop 24 mac)),
                 beacon_interval_tu = from_le_bytes (take 2 (drop 32 mac)),
                 capability_information = from_le_bytes (take 2 (drop 34 mac))\<rparr>
      else None)"

text \<open>Version 0, type 0 (management), a known subtype, and neither of the DS flags.\<close>

definition subtype_spec :: "u16 \<Rightarrow> management_subtype option" where
  "subtype_spec fc =
     (if take_bit 4 fc = 0 \<and> take_bit 2 (drop_bit 8 fc) = 0
      then subtype_of_raw (ucast (take_bit 4 (drop_bit 4 fc))) else None)"

definition frame_of ::
    "u8 list \<Rightarrow> input_framing \<Rightarrow> u8 list \<Rightarrow> management_subtype \<Rightarrow> (u8 \<times> u8 list) list \<Rightarrow> management_frame" where
  "frame_of input fr mac st ts =
     (let es = place st (24 + fixed_len st) ts; sc = from_le_bytes (take 2 (drop 22 mac)) :: u16
      in \<lparr>schema_version = 1, framing = fr, raw_mpdu = input, subtype = st,
          frame_control = from_le_bytes (take 2 mac),
          duration_id = from_le_bytes (take 2 (drop 2 mac)),
          addresses = \<lparr>receiver = MacAddress (take 6 (drop 4 mac)),
                       transmitter = MacAddress (take 6 (drop 10 mac)),
                       bssid_field = MacAddress (take 6 (drop 16 mac))\<rparr>,
          sequence_number = drop_bit 4 sc, fragment_number = ucast (take_bit 4 sc),
          fixed = fixed_spec mac st, elements = es, repeated_elements = repeats_spec es\<rparr>)"

definition body_spec :: "u8 list \<Rightarrow> input_framing \<Rightarrow> u8 list \<Rightarrow> management_subtype \<Rightarrow> management_frame option" where
  "body_spec input fr mac st =
     (if length mac < 24 + fixed_len st then None
      else map_option (frame_of input fr mac st) (tlvs (drop (24 + fixed_len st) mac)))"

definition frame_spec :: "u8 list \<Rightarrow> input_framing \<Rightarrow> management_frame option" where
  "frame_spec input fr =
     Option.bind (mac_spec input fr) (\<lambda>mac.
       if length mac < 24 then None
       else Option.bind (subtype_spec (from_le_bytes (take 2 mac))) (body_spec input fr mac))"

lemma implements_mac_length:
  assumes "length input \<le> usize_MAX"
  shows "implements (mac_length input fr) (map_option length (mac_spec input fr))"
proof (cases fr)
  case FcsAbsent
  then show ?thesis by (simp add: mac_length_def mac_spec_def implements_ret)
next
  case FcsPresentAndValidate
  let ?n = "length input - 4"
  have rd: "read_u32 input ?n = Some (from_le_bytes (drop ?n input))"
    if "4 \<le> length input"
    using that assms by (auto simp: read_u32_def checked_add_def)
  show ?thesis
    unfolding mac_length_def FcsPresentAndValidate input_framing.case
    by (intro implements_rules implements_bind_eq [OF implements_crc32])
      (use rd in \<open>auto simp: mac_spec_def FcsPresentAndValidate Let_def checked_sub_def
        intro: implements_ret split: if_splits\<close>)
qed

lemma frame_control_bits:
  fixes fc :: u16
  shows "(ucast (fc AND 3) :: u8) = 0 \<longleftrightarrow> take_bit 2 fc = 0"
    and "(ucast (drop_bit 2 fc AND 3) :: u8) = 0 \<longleftrightarrow> take_bit 2 (drop_bit 2 fc) = 0"
    and "(ucast (drop_bit 8 fc AND 3) :: u8) = 0 \<longleftrightarrow> take_bit 2 (drop_bit 8 fc) = 0"
    and "drop_bit 4 fc AND 15 = take_bit 4 (drop_bit 4 fc)"
    and "take_bit 4 fc = 0 \<longleftrightarrow> take_bit 2 fc = 0 \<and> take_bit 2 (drop_bit 2 fc) = 0"
proof -
  have mask: "w AND 3 = take_bit 2 w" "w AND 15 = take_bit 4 w" for w :: u16
    by (simp_all add: take_bit_eq_mask mask_eq_exp_minus_1)
  have zero: "(ucast (take_bit 2 w) :: u8) = 0 \<longleftrightarrow> take_bit 2 w = 0" for w :: u16
    by (auto simp: bit_eq_iff bit_simps)
  show "(ucast (fc AND 3) :: u8) = 0 \<longleftrightarrow> take_bit 2 fc = 0"
    "(ucast (drop_bit 2 fc AND 3) :: u8) = 0 \<longleftrightarrow> take_bit 2 (drop_bit 2 fc) = 0"
    "(ucast (drop_bit 8 fc AND 3) :: u8) = 0 \<longleftrightarrow> take_bit 2 (drop_bit 8 fc) = 0"
    "drop_bit 4 fc AND 15 = take_bit 4 (drop_bit 4 fc)"
    by (simp_all add: mask zero)
  show "take_bit 4 fc = 0 \<longleftrightarrow> take_bit 2 fc = 0 \<and> take_bit 2 (drop_bit 2 fc) = 0"
  proof -
    have "take_bit 4 fc = 0" if "take_bit 2 fc = 0" "take_bit 2 (drop_bit 2 fc) = 0"
    proof (rule bit_word_eqI)
      fix n
      have "\<not> bit (take_bit 2 fc) n" "\<not> bit (take_bit 2 (drop_bit 2 fc)) (n - 2)" by (simp_all add: that)
      moreover have "\<not> n < 2 \<Longrightarrow> Suc (Suc (n - 2)) = n" by simp
      ultimately show "bit (take_bit 4 fc) n = bit 0 n" by (cases "n < 2") (auto simp: bit_simps)
    qed
    moreover have "take_bit 4 fc = 0 \<Longrightarrow> take_bit 2 fc = 0"
      by (auto simp: bit_eq_iff [where ?'a = u16] bit_simps)
    moreover have "take_bit 4 fc = 0 \<Longrightarrow> take_bit 2 (drop_bit 2 fc) = 0"
      by (simp add: take_bit_drop_bit)
    ultimately show ?thesis by blast
  qed
qed

lemma implements_frame_subtype: "implements (frame_subtype fc) (subtype_spec fc)"
  unfolding frame_subtype_def Let_def subtype_spec_def
  by (intro implements_rules) (auto simp: frame_control_bits intro: implements_ret)

lemma mac_spec_prefix: "mac_spec input fr = Some mac \<Longrightarrow> mac = take (length mac) input"
  by (auto simp: mac_spec_def Let_def split: input_framing.splits if_splits)

lemma key_wf_place: "e \<in> set (place st off ts) \<Longrightarrow> key_wf (element_key_of e)"
  by (induction st off ts rule: place.induct) (auto simp: element_spec_def element_key_of_def key_wf_def split: if_splits)

lemma length_place [simp]: "length (place st off ts) = length ts"
  by (induction st off ts rule: place.induct) auto

lemma implements_summarize_repeats:
  "(\<And>e. e \<in> set es \<Longrightarrow> key_wf (element_key_of e)) \<Longrightarrow>
     implements (summarize_repeats ly es) (Some (repeats_spec es))"
  by (intro yields_implements yields_summarize_repeats)

lemma implements_address_at:
  "off + 6 \<le> length input \<Longrightarrow> implements (address_at input off) (Some (MacAddress (take 6 (drop off input))))"
  unfolding address_at_def by (intro implements_rules) (auto intro: implements_ret)

lemma implements_read_fixed:
  assumes "36 \<le> length input \<or> st \<notin> {ProbeResponse, Beacon}"
  shows "implements (read_fixed input st) (Some (fixed_spec input st))"
  using assms unfolding read_fixed_def fixed_spec_def HEADER_LEN_def
  by (intro implements_rules)
    (auto simp: read_u64_def read_u16_def checked_add_def usize_MAX_def intro: implements_ret)

lemma implements_preflight_elements:
  "mac_len \<le> length input \<Longrightarrow>
   implements (preflight_elements input cursor mac_len) (map_option length (tlvs (drop cursor (take mac_len input))))"
  unfolding preflight_elements_def using implements_preflight_loop [of mac_len input cursor 0 0] by simp

lemma take_drop_prefix: "n + k \<le> m \<Longrightarrow> take k (drop n (take m xs)) = take k (drop n xs)"
  by (simp add: drop_take min_def)

lemma fixed_spec_prefix: 
  "24 + fixed_len st \<le> mac_len \<Longrightarrow> fixed_spec (take mac_len input) st = fixed_spec input st"
  by (cases st) (simp_all add: fixed_spec_def take_drop_prefix length_constants)

lemma read_u16_prefix:
  assumes "off + 2 \<le> mac_len" "mac_len \<le> length input" "off + 2 \<le> usize_MAX"
  shows "read_u16 input off = Some (from_le_bytes (take 2 (drop off (take mac_len input))))"
  unfolding take_drop_prefix [OF assms(1)] using assms by (simp add: read_u16_def checked_add_def)

lemma implements_parse_body:
  assumes n: "24 \<le> mac_len" "mac_len \<le> length input" and fc: "fc = from_le_bytes (take 2 (take mac_len input))"
  shows "implements (parse_body ly input fr mac_len fc st) (body_spec input fr (take mac_len input) st)"
proof -
  let ?mac = "take mac_len input" and ?off = "24 + fixed_len st"
  have off: "checked_add HEADER_LEN (fixed_len st) = Some ?off"
    by (cases st) (simp_all add: checked_add_def length_constants usize_MAX_def)
  have reads: "read_u16 input 22 = Some (from_le_bytes (take 2 (drop 22 ?mac)))"
    "read_u16 input 2 = Some (from_le_bytes (take 2 (drop 2 ?mac)))"
    using n by (intro read_u16_prefix; simp add: usize_MAX_def)+
  have addr: "implements (address_at input a) (Some (MacAddress (take 6 (drop a ?mac))))" if "a + 6 \<le> 24" for a
    using implements_address_at [of a input] take_drop_prefix [of a 6 mac_len input] that n by simp
  have nibble: "w AND 15 = take_bit 4 w" for w :: u16
    by (simp add: take_bit_eq_mask mask_eq_exp_minus_1)
  show ?thesis
  proof (cases "?off \<le> mac_len")
    case False
    then show ?thesis
      unfolding parse_body_def off bindR_ok_or_Some body_spec_def using n
      by (intro implements_rules) auto
  next
    case True
    have fixed: "implements (read_fixed input st) (Some (fixed_spec ?mac st))"
      using implements_read_fixed [of input st] fixed_spec_prefix [OF True, of input] True n
      by (cases st) (auto simp: length_constants)
    show ?thesis
    proof (cases "tlvs (drop ?off ?mac)")
      case None
      then show ?thesis
        using implements_preflight_elements [OF n(2), of ?off]
        unfolding parse_body_def off reads bindR_ok_or_Some body_spec_def
        by (intro implements_bind_guard [OF True] implements_bind_Some [OF fixed]) 
          (auto intro: implements_bind_None)
    next
      case (Some ts)
      let ?es = "place st ?off ts"
      have pre: "implements (preflight_elements input ?off mac_len) (Some (length ts))"
        using implements_preflight_elements [OF n(2), of ?off] Some by simp
      have es: "implements (elements_loop ly input st mac_len ?off 0 []) (Some ?es)"
        using implements_elements_loop [OF n(2), of ly st ?off 0 "[]"] Some by simp
      have rep: "implements (summarize_repeats ly ?es) (Some (repeats_spec ?es))"
        by (intro implements_summarize_repeats key_wf_place)
      have spec: "body_spec input fr ?mac st = Some (frame_of input fr ?mac st ts)"
        using True Some n by (simp add: body_spec_def)
      show ?thesis
        unfolding parse_body_def off reads bindR_ok_or_Some spec
        apply (intro implements_bind_guard [OF True] implements_bind_Some [OF fixed]
          implements_bind_Some [OF pre] implements_bind_ok_or implements_bind_allocate
          implements_bind_Some [OF es] implements_bind_Some [OF rep] implements_bind_Some [OF implements_copy_work]
          implements_bind_Some [OF addr])
           apply (auto simp: frame_of_def Let_def fc nibble intro: implements_ret)
        done
    qed
  qed
qed

lemma implements_parse_controlled:
  assumes "length input \<le> usize_MAX"
  shows "implements (parse_controlled ly input fr) (frame_spec input fr)"
proof (cases "mac_spec input fr")
  case None
  then have spec: "frame_spec input fr = None" by (simp add: frame_spec_def)
  show ?thesis
    unfolding parse_controlled_def spec
    by (intro implements_rules implements_bind_None)
      (use implements_mac_length [OF assms, of fr] None in simp_all)
next
  case (Some mac)
  let ?n = "length mac"
  have mac: "mac = take ?n input" using mac_spec_prefix [OF Some] .
  then have n: "?n \<le> length input" by (metis length_take min.bounded_iff order_refl)
  have len: "implements (mac_length input fr) (Some ?n)"
    using implements_mac_length [OF assms, of fr] Some by simp
  have rd: "24 \<le> ?n \<Longrightarrow> read_u16 input 0 = Some (from_le_bytes (take 2 mac))"
    using read_u16_prefix [of 0 ?n input] n mac by (simp add: usize_MAX_def)
  show ?thesis
    unfolding parse_controlled_def
    apply (intro implements_rules implements_bind_Some [OF len] implements_bind_eq [OF implements_frame_subtype])
    using Some rd implements_parse_body [of ?n input _ ly fr] n mac 
    apply (auto simp: frame_spec_def HEADER_LEN_def)
    done
qed

section \<open>Price\<close>

lemma ctl_det_mac_length [ctl_det_rules]: "ctl_det L (mac_length input fr)"
  unfolding mac_length_def by (cases fr) (auto intro!: ctl_det_bind ctl_det_rules)

lemma ctl_det_frame_subtype [ctl_det_rules]: "ctl_det L (frame_subtype fc)"
  unfolding frame_subtype_def Let_def by (intro ctl_det_bind ctl_det_rules)

lemma ctl_det_read_fixed [ctl_det_rules]: "ctl_det L (read_fixed input st)"
  unfolding read_fixed_def by (intro ctl_det_if ctl_det_bind ctl_det_rules)

lemma ctl_det_address_at [ctl_det_rules]: "ctl_det L (address_at input off)"
  unfolding address_at_def by (intro ctl_det_bind ctl_det_rules)

lemma ctl_det_read_element [ctl_det_rules]: "ctl_det L (read_element ly input st cursor h p eid)"
  unfolding read_element_def by (intro ctl_det_if ctl_det_bind ctl_det_rules)

lemma ctl_det_preflight_loop: "ctl_det L (preflight_loop input mac_len cursor count tot)"
proof (induction "mac_len - cursor" arbitrary: cursor count tot rule: less_induct)
  case less
  have IH: "ctl_det L (preflight_loop input mac_len e count' tot')"
    if "cursor < mac_len" "checked_add cursor 2 = Some h" "checked_add h n = Some e" for h n e count' tot'
    using that by (intro less) (auto split: if_splits simp: checked_add_def)
  show ?case
    by (subst preflight_loop_unfold)
      (intro ctl_det_if ctl_det_bind_ok_or ctl_det_bind ctl_det_rules; (erule (2) IH)?)
qed

lemma ctl_det_elements_loop: "ctl_det L (elements_loop ly input st mac_len cursor tot es)"
proof (induction "mac_len - cursor" arbitrary: cursor tot es rule: less_induct)
  case less
  have IH: "ctl_det L (elements_loop ly input st mac_len e tot' es')"
    if "cursor < mac_len" "checked_add cursor 2 = Some h" "checked_add h n = Some e" for h n e tot' es'
    using that by (intro less) (auto split: if_splits simp: checked_add_def)
  show ?case
    by (subst elements_loop_unfold)
      (intro ctl_det_if ctl_det_bind_ok_or ctl_det_bind ctl_det_rules; (erule (2) IH)?)
qed

lemma ctl_det_parse_body [ctl_det_rules]: "ctl_det L (parse_body ly input fr mac_len fc st)"
  unfolding parse_body_def preflight_elements_def
  by (intro ctl_det_bind ctl_det_rules ctl_det_preflight_loop ctl_det_elements_loop)

lemma ctl_det_parse_controlled: "ctl_det L (parse_controlled ly input fr)"
  unfolding parse_controlled_def by (intro ctl_det_bind ctl_det_rules)

section \<open>Properties\<close>

lemma parse_with_frame_spec:
  assumes "parse_with ly input fr lim canc = Inr f" "length input \<le> usize_MAX"
  shows "frame_spec input fr = Some f"
proof -
  from assms(1) obtain t where "parse_controlled ly input fr (control_new lim canc) = (Inr f, t)"
    by (auto simp: parse_with_def parse_with_usage_def split: prod.splits sum.splits)
  then show ?thesis by (rule implementsD(1) [OF implements_parse_controlled [OF assms(2)]])
qed

text \<open>
  Claim C2. The metered parser implements its specification for every input that fits in memory,
  every limit and every cancellation hook: a returned frame is the frame the specification assigns
  to the input and the reported usage respects the limits; a frame the specification accepts is
  refused only for want of resources; and no index or slice of the parser is ever out of range.
\<close>

theorem parse_refines_spec:
  assumes "length input \<le> usize_MAX"
  shows "case parse_with_usage ly input fr lim canc of
      Inr (f, u) \<Rightarrow> frame_spec input fr = Some f \<and>
        work_units u \<le> max_work_units lim \<and> allocation_bytes u \<le> max_allocation_bytes lim
    | Inl e \<Rightarrow> e \<noteq> Panic \<and> (frame_spec input fr = None \<or> resource_error e)"
proof -
  let ?c = "control_new lim canc"
  obtain r t where run: "parse_controlled ly input fr ?c = (r, t)" by fastforce
  show ?thesis
  proof (cases r)
    case (Inl e)
    with run implementsD(2) [OF implements_parse_controlled [OF assms], of ly fr ?c e t]
    show ?thesis by (simp add: parse_with_usage_def)
  next
    case (Inr f)
    with run have ok: "parse_controlled ly input fr ?c = (Inr f, t)" by simp
    have "frame_spec input fr = Some f"
      using implementsD(1) [OF implements_parse_controlled [OF assms] ok] .
    moreover have "ctl_limits t = lim" "ctl_ok t"
      using ctl_det_spends [OF ctl_det_parse_controlled _ _ ok, of lim] by simp_all
    ultimately show ?thesis
      by (simp add: parse_with_usage_def ok ctl_usage_def ctl_ok_def work_cap_def allocation_cap_def)
  qed
qed

theorem parse_refines_spec_witness:
  "length (replicate 24 0 :: u8 list) \<le> usize_MAX \<and>
   (case parse_with_usage \<lparr>size_InformationElement = 72, size_ElementChange = 48,
        size_ElementOccurrence = 24, size_EncodedRate = 3, size_RepeatedElement = 40\<rparr>
        (replicate 24 0) FcsAbsent parse_limits_default ie_never_cancel of
      Inr (f, u) \<Rightarrow> frame_spec (replicate 24 0) FcsAbsent = Some f \<and>
        work_units u \<le> max_work_units parse_limits_default \<and>
        allocation_bytes u \<le> max_allocation_bytes parse_limits_default
    | Inl e \<Rightarrow> e \<noteq> Panic \<and> (frame_spec (replicate 24 0) FcsAbsent = None \<or> resource_error e))"
  by (intro conjI parse_refines_spec) (simp_all add: usize_MAX_def)

end
