(* ===== verification/Ieee80211_Limits.thy ===== *)
theory Ieee80211_Limits
  imports Ieee80211_Parse
begin

text \<open>
  How much work and allocation the parser of \<open>crates/ieee80211/src/lib.rs\<close> needs: for every function
  an amount that is enough (\<open>solvent\<close>), and the completeness of \<open>parse_with\<close>, that a frame accepted by
  the specification is returned when the limits grant these amounts.
\<close>

section \<open>What each function spends\<close>

lemma solvent_crc32_loop:
  "len = index + length bytes \<Longrightarrow>
     solvent L (crc32_loop len index bytes crc) (length bytes - (64 - index mod 64) mod 64) 0"
proof (induction bytes arbitrary: index crc)
  case Nil
  have "crc32_loop len index [] crc = ret (NOT crc)" by auto
  then show ?case by (simp add: solvent_ret)
next
  case (Cons b bs)
  have unfold: "crc32_loop len index (b # bs) crc =
      bindR (if index mod 64 = 0 then ctl_charge (min 64 (len - index)) else ret ())
        (\<lambda>_. crc32_loop len (Suc index) bs (crc_byte crc b))"
    by (auto simp: fun_eq_iff)
  have IH: "solvent L (crc32_loop len (Suc index) bs (crc_byte crc b))
      (length bs - (64 - Suc index mod 64) mod 64) 0"
    using Cons by simp
  show ?case
  proof (cases "index mod 64 = 0")
    case True
    then have "Suc index mod 64 = 1" by (simp add: mod_Suc)
    with IH True Cons.prems show ?thesis
      unfolding unfold by (auto intro!: solvent_bind_charge simp: min_def)
  next
    case False
    then have "length (b # bs) - (64 - index mod 64) mod 64 = length bs - (64 - Suc index mod 64) mod 64"
      by (auto simp: mod_Suc)
    with IH False show ?thesis
      unfolding unfold by (simp add: bindR_ok_or_Some)
  qed
qed

lemma solvent_crc32: "length bytes \<le> w \<Longrightarrow> solvent L (crc32 bytes) w a"
  unfolding crc32_def by (rule solvent_mono [OF solvent_crc32_loop]) simp_all

lemma solvent_copy_work_loop: "solvent L (copy_work_loop bytes chunk) (bytes - chunk) 0"
proof (induction "bytes - chunk" arbitrary: chunk rule: less_induct)
  case less
  then have IH: "chunk < bytes \<Longrightarrow> solvent L (copy_work_loop bytes (chunk + 256)) (bytes - (chunk + 256)) 0" by simp
  show ?case
    by (subst copy_work_loop_unfold) (auto intro!: solvent_rules solvent_mono [OF IH] simp: min_def)
qed

lemma solvent_copy_work: "n \<le> w \<Longrightarrow> solvent L (copy_work n) w a"
  unfolding copy_work_def by (rule solvent_mono [OF solvent_copy_work_loop]) simp_all

lemma solvent_decode_rates:
  assumes "1 \<le> w" "length p * size_EncodedRate ly \<le> a"
  shows "solvent L (decode_rates ly p) w a"
  unfolding decode_rates_def
  by (rule solvent_representable, intro solvent_rules)
    (use assms in \<open>auto simp: checked_mul_def split: if_splits\<close>)

lemma solvent_decode_country:
  assumes "1 \<le> w" "length p \<le> a"
  shows "solvent L (decode_country p) w a"
  using assms unfolding decode_country_def Let_def
  by (auto intro!: solvent_rules split: option.split prod.split if_splits)

definition decode_allocation :: "rust_layout \<Rightarrow> nat \<Rightarrow> nat" where
  "decode_allocation ly n = n * (size_EncodedRate ly + 1)"

lemma solvent_decode_element:
  "solvent L (decode_element ly eid p st) (length p + 2) (decode_allocation ly (length p))"
  unfolding decode_element_def decode_allocation_def
  by (intro solvent_rules solvent_bind [OF solvent_decode_rates] solvent_decode_country)
    (auto simp: checked_sub_def split: if_splits)

lemma solvent_bind_to_u32 [solvent_rules]:
  "n < 2 ^ 32 \<Longrightarrow> solvent L (f (of_nat n)) w a \<Longrightarrow> solvent L (bindR (to_u32 n) f) w a"
  by (auto simp: to_u32_def intro!: solventI dest: solventD)

lemma solvent_read_element:
  assumes "cursor < 2 ^ 32" "header_end < 2 ^ 32" "n = payload_end - header_end"
  shows "solvent L (read_element ly input st cursor header_end payload_end eid)
    (n + 3) (n + decode_allocation ly n)"
proof -
  have ext: "solvent L (if eid = 255 then bindR (ok_or (nth_get p 0) Panic) (\<lambda>x. ret (Some x)) else ret None) 0 0"
    for p by (intro solvent_rules) simp
  have "solvent L (read_element ly input st cursor header_end payload_end eid)
      (length p + 3) (length p + decode_allocation ly (length p))"
    if "slice_get input header_end payload_end = Some p" for p
    unfolding read_element_def that bindR_ok_or_Some
    by (intro solvent_rules solvent_bind [OF ext] solvent_bind [OF solvent_decode_element])
      (use assms in \<open>simp_all add: resource_error_def\<close>)
  moreover have "solvent L (read_element ly input st cursor header_end payload_end eid) w a"
    if "slice_get input header_end payload_end = None" for w a
    unfolding read_element_def that by (intro solvent_rules) simp_all
  ultimately show ?thesis
    using assms(3) by (cases "slice_get input header_end payload_end") auto
qed

text \<open>The payload bytes of a list of TLVs.\<close>

definition payload_bytes :: "(u8 \<times> u8 list) list \<Rightarrow> nat" where
  "payload_bytes ts = sum_list (map (\<lambda>(_, p). length p) ts)"

lemma solvent_preflight_loop:
  assumes "mac_len \<le> length input" "length input \<le> usize_MAX" "mac_len < 2 ^ 32"
    and "tlvs (drop cursor (take mac_len input)) = Some ts"
    and "count + length ts \<le> max_elements L" "count + length ts \<le> usize_MAX"
    and "tot + payload_bytes ts \<le> max_ie_payload_bytes L" "tot + payload_bytes ts \<le> usize_MAX"
  shows "solvent L (preflight_loop input mac_len cursor count tot) (length ts + payload_bytes ts) 0"
  using assms(4-8)
proof (induction "mac_len - cursor" arbitrary: cursor count tot ts rule: less_induct)
  case less
  show ?case
  proof (cases "cursor < mac_len")
    case False
    then show ?thesis by (subst preflight_loop_unfold) (simp add: solvent_ret)
  next
    case True
    let ?n = "unat (input ! (cursor + 1))"
    let ?next = "cursor + 2 + ?n"
    from less.prems(1) True assms(1) obtain ts' where ok: "?next \<le> mac_len" "\<not> (input ! cursor = 255 \<and> input ! (cursor + 1) = 0)"
      and ts: "ts = (input ! cursor, take ?n (drop (cursor + 2) input)) # ts'"
        "tlvs (drop ?next (take mac_len input)) = Some ts'"
      by (auto simp: tlvs_step split: if_splits)
    have len: "payload_bytes ts = ?n + payload_bytes ts'"
      using ts(1) ok(1) assms(1) by (simp add: payload_bytes_def)
    have IH: "solvent L (preflight_loop input mac_len ?next (count + 1) (tot + ?n)) (length ts' + payload_bytes ts') 0"
      using less.prems ts len True by (intro less.hyps) auto
    show ?thesis
      using True ok IH len ts(1) less.prems assms(1,2)
      by (subst preflight_loop_unfold, simp only: if_True, intro solvent_rules)
        (auto simp: checked_add_def split: if_splits)
  qed
qed

text \<open>What the element loop spends on a list of TLVs.\<close>

definition elements_work :: "(u8 \<times> u8 list) list \<Rightarrow> nat" where
  "elements_work ts = 4 * length ts + 2 * payload_bytes ts"

definition elements_allocation :: "rust_layout \<Rightarrow> (u8 \<times> u8 list) list \<Rightarrow> nat" where
  "elements_allocation ly ts = payload_bytes ts + decode_allocation ly (payload_bytes ts)"

lemma solvent_elements_loop:
  assumes "mac_len \<le> length input" "length input \<le> usize_MAX" "mac_len < 2 ^ 32"
    and "tlvs (drop cursor (take mac_len input)) = Some ts"
    and "length es + length ts \<le> max_elements L"
    and "tot + payload_bytes ts \<le> max_ie_payload_bytes L" "tot + payload_bytes ts \<le> usize_MAX"
  shows "solvent L (elements_loop ly input st mac_len cursor tot es)
    (elements_work ts) (elements_allocation ly ts)"
  using assms(4-7)
proof (induction "mac_len - cursor" arbitrary: cursor tot es ts rule: less_induct)
  case less
  show ?case
  proof (cases "cursor < mac_len")
    case False
    then show ?thesis by (subst elements_loop_unfold) (simp add: solvent_ret)
  next
    case True
    let ?n = "unat (input ! (cursor + 1))"
    let ?next = "cursor + 2 + ?n"
    from less.prems(1) True assms(1) obtain ts' where ok: "?next \<le> mac_len"
      and ts: "ts = (input ! cursor, take ?n (drop (cursor + 2) input)) # ts'"
        "tlvs (drop ?next (take mac_len input)) = Some ts'"
      by (auto simp: tlvs_step split: if_splits)
    have len: "payload_bytes ts = ?n + payload_bytes ts'"
      using ts(1) ok(1) assms(1) by (simp add: payload_bytes_def)
    have IH: "solvent L (elements_loop ly input st mac_len ?next (tot + ?n) (es @ [e]))
        (elements_work ts') (elements_allocation ly ts')" for e
      using less.prems ts len True by (intro less.hyps) auto
    have rd: "solvent L (read_element ly input st cursor (cursor + 2) ?next eid)
        (?n + 3) (?n + decode_allocation ly ?n)" for eid
      using ok True assms(3) by (intro solvent_read_element) auto
    have alloc: "elements_allocation ly ts - (?n + decode_allocation ly ?n) = elements_allocation ly ts'"
      "?n + decode_allocation ly ?n \<le> elements_allocation ly ts"
      "elements_work ts - 1 - ?n - (?n + 3) = elements_work ts'"
      "?n + 4 + ?n \<le> elements_work ts"
      using len ts(1) by (auto simp: elements_allocation_def decode_allocation_def elements_work_def algebra_simps)
    have step: "solvent L (bindR (read_element ly input st cursor (cursor + 2) ?next eid)
        (\<lambda>e. elements_loop ly input st mac_len ?next (tot + ?n) (es @ [e])))
        (elements_work ts - 1 - ?n) (elements_allocation ly ts)" for eid
      using alloc by (intro solvent_bind [OF rd]) (use IH in auto)
    have eqs: "checked_add cursor 2 = Some (cursor + 2)" "nth_get input cursor = Some (input ! cursor)"
      "nth_get input (cursor + 1) = Some (input ! (cursor + 1))"
      "checked_add (cursor + 2) ?n = Some ?next" "checked_add tot ?n = Some (tot + ?n)"
      "(mac_len < cursor + 2) = False" "(mac_len < ?next) = False" "(cursor < mac_len) = True"
      using True ok assms(1,2) less.prems(4) len by (auto simp: checked_add_def)
    have "1 \<le> elements_work ts" "?n \<le> elements_work ts - 1" "length es < max_elements L"
      "tot + ?n \<le> max_ie_payload_bytes L"
      using alloc(4) less.prems(2,3) ts(1) len by auto
    then show ?thesis
      by (subst elements_loop_unfold, unfold eqs bindR_ok_or_Some if_True if_False,
          intro solvent_bind_charge solvent_guard_limits step) simp_all
  qed
qed

lemma solvent_count_slots:
  "(\<And>n. n \<in> set counts \<Longrightarrow> n + length es \<le> usize_MAX) \<Longrightarrow>
     solvent L (count_slots es counts) (length es) 0"
proof (induction es arbitrary: counts)
  case Nil
  have "count_slots [] counts = ret counts" by (rule ext) simp
  then show ?case by (simp add: solvent_ret)
next
  case (Cons e es)
  have unfold: "count_slots (e # es) counts =
      bindR (ctl_charge 1) (\<lambda>_.
       case element_slot (element_key_of e) (ie_offset e) of
         Inl err \<Rightarrow> fail err
       | Inr slot \<Rightarrow>
           bindR (ok_or (nth_get counts slot) Panic) (\<lambda>n.
             bindR (ok_or (checked_add n 1) (IeLimitExceeded ''element count'')) (\<lambda>n'.
               count_slots es (counts[slot := n']))))"
    by (rule ext) (rule count_slots.simps)
  have IH: "solvent L (count_slots es (counts[slot := counts ! slot + 1])) (length es) 0"
    if "slot < length counts" for slot
  proof (rule Cons.IH)
    fix n assume "n \<in> set (counts[slot := counts ! slot + 1])"
    then have "n \<in> set counts \<or> n = counts ! slot + 1" using set_update_subset_insert by fastforce
    moreover have "counts ! slot \<in> set counts" using that by simp
    ultimately show "n + length es \<le> usize_MAX" using Cons.prems by fastforce
  qed
  have slot: "solvent L (bindR (ok_or (nth_get counts slot) Panic) (\<lambda>n.
             bindR (ok_or (checked_add n 1) (IeLimitExceeded ''element count'')) (\<lambda>n'.
               count_slots es (counts[slot := n'])))) (length es) 0" for slot
    using IH [of slot] Cons.prems [of "counts ! slot"]
    by (intro solvent_rules) (auto simp: checked_add_def split: if_splits)
  show ?case
    unfolding unfold
    by (intro solvent_rules)
      (auto simp: element_slot_def resource_error_def intro: solvent_fail slot [simplified] split: option.splits sum.splits)
qed

lemma count_slots_sum:
  "count_slots es counts c = (Inr cs, t) \<Longrightarrow> sum_list cs = sum_list counts + length es"
proof (induction es arbitrary: counts c)
  case (Cons e es)
  then show ?case
    by (auto simp: bindR_Inr_iff checked_add_def sum_list_update split: sum.splits option.splits if_splits
        dest!: Cons.IH)
qed simp

lemma sum_list_filter_le: "sum_list (filter P ns) \<le> sum_list (ns :: nat list)"
  by (induction ns) auto

lemma length_filter_ge2_le: "length (filter (\<lambda>n. 2 \<le> n) ns) \<le> sum_list (ns :: nat list)"
  by (induction ns) auto

lemma solvent_record_repeat:
  assumes "\<And>e. e \<in> set all \<Longrightarrow> length (ie_payload e) \<le> 255" "length (ie_payload e) \<le> 255" "index < 2 ^ 32"
  shows "solvent L (record_repeat all e index grp) 255 0"
proof -
  have "solvent L (case rep_indices grp of
              [] \<Rightarrow> ret grp
            | first_index # _ \<Rightarrow>
                bindR (ok_or (nth_get all (unat first_index)) Panic) (\<lambda>first.
                  bindR (ctl_charge (max (length (ie_payload first)) (length (ie_payload e)))) (\<lambda>_.
                    ret (if ie_payload first \<noteq> ie_payload e
                         then grp\<lparr>payloads_identical := False\<rparr> else grp)))) 255 0"
    using assms by (auto intro!: solvent_rules split: list.split)
  then show ?thesis
    unfolding record_repeat_def by (rule solvent_bind) (use assms(3) in \<open>auto intro!: solvent_rules\<close>)
qed

lemma solvent_group_repeats:
  assumes "\<And>e. e \<in> set all \<Longrightarrow> length (ie_payload e) \<le> 255" "\<And>e. e \<in> set es \<Longrightarrow> length (ie_payload e) \<le> 255"
    and "index + length es \<le> 2 ^ 32"
  shows "solvent L (group_repeats all str index es R) (256 * length es) 0"
  using assms(2,3)
proof (induction es arbitrary: index R)
  case Nil
  have "group_repeats all str index [] R = ret R" by (rule ext) simp
  then show ?case by (simp add: solvent_ret)
next
  case (Cons e es)
  have unfold: "group_repeats all str index (e # es) R =
     bindR (ctl_charge 1) (\<lambda>_.
       case element_slot (element_key_of e) (ie_offset e) of
         Inl _ \<Rightarrow> fail Panic
       | Inr slot \<Rightarrow>
           bindR (ok_or (nth_get str slot) Panic) (\<lambda>ri.
             if ri = usize_MAX then group_repeats all str (Suc index) es R
             else bindR (ok_or (nth_get R ri) Panic) (\<lambda>grp.
               bindR (record_repeat all e index grp) (\<lambda>grp'.
                 group_repeats all str (Suc index) es (R[ri := grp'])))))"
    by (rule ext) (rule group_repeats.simps)
  have rec: "solvent L (record_repeat all e index grp) 255 0" for grp
    using assms(1) Cons.prems by (intro solvent_record_repeat) auto
  have IH: "solvent L (group_repeats all str (Suc index) es R') (256 * length es) 0" for R'
    using Cons by simp
  have slot: "solvent L (bindR (ok_or (nth_get str slot) Panic) (\<lambda>ri.
             if ri = usize_MAX then group_repeats all str (Suc index) es R
             else bindR (ok_or (nth_get R ri) Panic) (\<lambda>grp.
               bindR (record_repeat all e index grp) (\<lambda>grp'.
                 group_repeats all str (Suc index) es (R[ri := grp']))))) (255 + 256 * length es) 0" for slot
    by (intro solvent_rules solvent_bind [OF rec] solvent_mono [OF IH]) simp_all
  show ?case
    unfolding unfold
    by (intro solvent_rules) (use slot in \<open>auto intro: solvent_fail split: sum.split\<close>)
qed

lemma solvent_summarize_repeats:
  assumes "\<And>e. e \<in> set es \<Longrightarrow> length (ie_payload e) \<le> 255" "length es \<le> 2 ^ 32"
  shows "solvent L (summarize_repeats ly es) (257 * length es + 3)
    (8176 + length es * (size_RepeatedElement ly + 4))"
proof -
  let ?k = "length es"
  have group: "solvent L (bindR (group_repeats es str 0 es R) (\<lambda>R'. ret (map mark_contradictory R'))) (256 * ?k) a" for str R a
    using assms by (intro solvent_bind [OF solvent_group_repeats]) (auto intro: solvent_rules)
  have rest: "solvent L
       (bindR (ctl_allocate (length (filter (\<lambda>n. 2 \<le> n) counts) * size_RepeatedElement ly)) (\<lambda>_.
           bindR (ctl_allocate (sum_list (filter (\<lambda>n. 2 \<le> n) counts) * size_u32)) (\<lambda>_.
             (case build_repeats 0 counts [] (replicate 511 usize_MAX) of
                (repeated, slot_to_repeat) \<Rightarrow>
                  bindR (group_repeats es slot_to_repeat 0 es repeated) (\<lambda>repeated'.
                    ret (map mark_contradictory repeated'))))))
        (256 * ?k + 2) (?k * (size_RepeatedElement ly + 4))"
    if "sum_list counts = ?k" for counts
  proof -
    have "length (filter (\<lambda>n. 2 \<le> n) counts) * size_RepeatedElement ly \<le> ?k * size_RepeatedElement ly"
      "sum_list (filter (\<lambda>n. 2 \<le> n) counts) * size_u32 \<le> ?k * 4"
      using that length_filter_ge2_le [of counts] sum_list_filter_le [of "\<lambda>n. 2 \<le> n" counts]
      by (simp_all add: size_u32_def)
    then have "length (filter (\<lambda>n. 2 \<le> n) counts) * size_RepeatedElement ly +
        sum_list (filter (\<lambda>n. 2 \<le> n) counts) * size_u32 \<le> ?k * (size_RepeatedElement ly + 4)"
      unfolding distrib_left by (rule add_mono)
    then show ?thesis
      unfolding case_prod_unfold
      by (intro solvent_rules solvent_mono [OF group [where a = 0]]) linarith+
  qed
  show ?thesis
    unfolding summarize_repeats_def size_usize_def
  proof (rule solvent_bind_allocate, simp, simp, rule solvent_bind [OF solvent_count_slots])
    fix n :: nat assume "n \<in> set (replicate 511 0)"
    with assms(2) show "n + ?k \<le> usize_MAX" by (auto simp: usize_MAX_def)
  next
    fix c counts t assume "count_slots es (replicate 511 0) c = (Inr counts, t)"
    then have "sum_list counts = ?k" by (auto dest: count_slots_sum)
    from solvent_mono [OF rest [OF this]] show "solvent L
       (bindR (ctl_allocate (length (filter (\<lambda>n. 2 \<le> n) counts) * size_RepeatedElement ly)) (\<lambda>_.
           bindR (ctl_allocate (sum_list (filter (\<lambda>n. 2 \<le> n) counts) * size_u32)) (\<lambda>_.
             (case build_repeats 0 counts [] (replicate 511 usize_MAX) of
                (repeated, slot_to_repeat) \<Rightarrow>
                  bindR (group_repeats es slot_to_repeat 0 es repeated) (\<lambda>repeated'.
                    ret (map mark_contradictory repeated'))))))
       (257 * ?k + 3 - 1 - ?k) (8176 + ?k * (size_RepeatedElement ly + 4) - 511 * 8 * 2 - 0)" by simp
  qed simp_all
qed

lemma tlvs_payload_le: "tlvs bs = Some ts \<Longrightarrow> t \<in> set ts \<Longrightarrow> length (snd t) \<le> 255"
proof (induction bs arbitrary: ts rule: tlvs.induct)
  case (3 eid len rest)
  have "unat len \<le> 255" using u8_lt [of len] by simp
  with 3 show ?case by (auto split: if_splits)
qed auto

lemma tlvs_length: "tlvs bs = Some ts \<Longrightarrow> length bs = 2 * length ts + payload_bytes ts"
  by (induction bs arbitrary: ts rule: tlvs.induct) (auto simp: payload_bytes_def split: if_splits)

lemma map_payload_place: "map ie_payload (place st off ts) = map snd ts"
  by (induction st off ts rule: place.induct) (auto simp: element_spec_def)

lemma payload_bytes_map: "payload_bytes ts = sum_list (map length (map snd ts))"
  by (simp add: payload_bytes_def comp_def case_prod_unfold)

lemma place_payload_le:
  assumes "tlvs bs = Some ts" "e \<in> set (place st off ts)"
  shows "length (ie_payload e) \<le> 255"
proof -
  from assms(2) have "ie_payload e \<in> set (map snd ts)" by (metis image_eqI list.set_map map_payload_place)
  then show ?thesis using tlvs_payload_le [OF assms(1)] by auto
qed

definition body_work :: "nat \<Rightarrow> (u8 \<times> u8 list) list \<Rightarrow> nat" where
  "body_work n ts = n + 262 * length ts + 3 * payload_bytes ts + 5"

definition body_allocation :: "rust_layout \<Rightarrow> nat \<Rightarrow> (u8 \<times> u8 list) list \<Rightarrow> nat" where
  "body_allocation ly n ts =
     length ts * (size_InformationElement ly + size_RepeatedElement ly + 4) +
     payload_bytes ts * (size_EncodedRate ly + 2) + 8176 + n"

lemma solvent_read_fixed: "solvent L (read_fixed input st) 0 0"
  unfolding read_fixed_def by (intro solvent_rules) (simp_all add: resource_error_def)

lemma solvent_address_at: "solvent L (address_at input off) 0 0"
  unfolding address_at_def by (intro solvent_rules) simp_all

lemma solvent_parse_body:
  assumes n: "mac_len \<le> length input" "length input < 2 ^ 32"
    and ts: "tlvs (drop (24 + fixed_len st) (take mac_len input)) = Some ts"
    and lim: "length ts \<le> max_elements L" "payload_bytes ts \<le> max_ie_payload_bytes L"
  shows "solvent L (parse_body ly input fr mac_len fc st)
    (body_work (length input) ts) (body_allocation ly (length input) ts)"
proof (rule solvent_representable)
  let ?off = "24 + fixed_len st" and ?k = "length ts" and ?es = "place st (24 + fixed_len st) ts"
  assume rep: "body_allocation ly (length input) ts \<le> usize_MAX"
  have k: "2 * ?k + payload_bytes ts \<le> length input"
    using tlvs_length [OF ts] n(1) by simp
  have off: "checked_add HEADER_LEN (fixed_len st) = Some ?off"
    by (cases st) (simp_all add: checked_add_def length_constants usize_MAX_def)
  have small: "?k \<le> usize_MAX" "payload_bytes ts \<le> usize_MAX" "length input \<le> usize_MAX" "?k \<le> 2 ^ 32"
    "mac_len < 2 ^ 32"
    using k n by (auto simp: usize_MAX_def)
  have pre: "solvent L (preflight_elements input ?off mac_len) (?k + payload_bytes ts) 0"
    unfolding preflight_elements_def using small n ts lim by (intro solvent_preflight_loop) auto
  have loop: "solvent L (elements_loop ly input st mac_len ?off 0 []) (elements_work ts) (elements_allocation ly ts)"
    using small n ts lim by (intro solvent_elements_loop) auto
  have ipre: "implements (preflight_elements input ?off mac_len) (Some ?k)"
    using implements_preflight_elements [OF n(1), of ?off] ts by simp
  have iloop: "implements (elements_loop ly input st mac_len ?off 0 []) (Some ?es)"
    using implements_elements_loop [OF n(1), of ly st ?off 0 "[]"] ts by simp
  have irep: "implements (summarize_repeats ly ?es) (Some (repeats_spec ?es))"
    by (intro implements_summarize_repeats key_wf_place)
  have sum: "solvent L (summarize_repeats ly ?es) (257 * ?k + 3) (8176 + ?k * (size_RepeatedElement ly + 4))"
    using solvent_summarize_repeats [of ?es] place_payload_le [OF ts] small by simp
  have work: "body_work (length input) ts =
      (?k + payload_bytes ts) + 1 + elements_work ts + (257 * ?k + 3) + 1 + length input"
    by (simp add: body_work_def elements_work_def)
  have alloc: "body_allocation ly (length input) ts =
      ?k * size_InformationElement ly + elements_allocation ly ts +
      (8176 + ?k * (size_RepeatedElement ly + 4)) + length input"
    by (simp add: body_allocation_def elements_allocation_def decode_allocation_def algebra_simps)
  have mul: "checked_mul ?k (size_InformationElement ly) = Some (?k * size_InformationElement ly)"
    using rep alloc by (simp add: checked_mul_def)
  show "solvent L (parse_body ly input fr mac_len fc st)
    (body_work (length input) ts) (body_allocation ly (length input) ts)"
    unfolding parse_body_def off bindR_ok_or_Some work alloc
    by (intro solvent_rules solvent_bind [OF solvent_read_fixed]
       solvent_bind_value [OF pre ipre] solvent_bind_value [OF loop iloop] solvent_bind_value [OF sum irep]
       solvent_bind_value [OF solvent_copy_work [OF order_refl, where a = 0] implements_copy_work] solvent_bind [OF solvent_address_at])
      (simp_all add: resource_error_def mul)
qed

lemma solvent_mac_length:
  assumes "length input \<le> w"
  shows "solvent L (mac_length input fr) w a"
proof (cases fr)
  case FcsPresentAndValidate
  have crc: "solvent L (crc32 (take n input)) w a" for n
    using assms by (intro solvent_crc32) simp
  show ?thesis
    unfolding mac_length_def FcsPresentAndValidate input_framing.case
    by (intro solvent_rules solvent_bind [OF crc]) (simp_all add: resource_error_def)
qed (simp add: mac_length_def solvent_ret)

lemma solvent_frame_subtype: "solvent L (frame_subtype fc) 0 0"
  unfolding frame_subtype_def Let_def by (intro solvent_rules) (simp_all add: resource_error_def)

lemma solvent_parse_controlled:
  assumes spec: "mac_spec input fr = Some mac" "subtype_spec (from_le_bytes (take 2 mac)) = Some st"
      "tlvs (drop (24 + fixed_len st) mac) = Some ts"
    and n: "length input < 2 ^ 32" "24 \<le> length mac"
    and lim: "length input \<le> max_frame_bytes L" "length ts \<le> max_elements L"
      "payload_bytes ts \<le> max_ie_payload_bytes L"
  shows "solvent L (parse_controlled ly input fr)
    (length input + 25 + body_work (length input) ts) (body_allocation ly (length input) ts)"
proof -
  let ?n = "length mac"
  have mac: "mac = take ?n input" using mac_spec_prefix [OF spec(1)] .
  then have n': "?n \<le> length input" by (metis length_take min.bounded_iff order_refl)
  have usize: "length input \<le> usize_MAX" using n(1) by (simp add: usize_MAX_def)
  have imac: "implements (mac_length input fr) (Some ?n)"
    using implements_mac_length [OF usize, of fr] spec(1) by simp
  have rd: "read_u16 input 0 = Some (from_le_bytes (take 2 mac))"
    using read_u16_prefix [of 0 ?n input] n' n mac by (simp add: usize_MAX_def)
  have isub: "implements (frame_subtype (from_le_bytes (take 2 mac))) (Some st)"
    using implements_frame_subtype [of "from_le_bytes (take 2 mac)"] spec(2) by simp
  have body: "solvent L (parse_body ly input fr ?n fc st) (body_work (length input) ts) (body_allocation ly (length input) ts)" for fc
    using spec(3) mac n' n lim by (intro solvent_parse_body) auto
  show ?thesis
    unfolding parse_controlled_def HEADER_LEN_def
    by (intro solvent_rules solvent_bind_value [OF solvent_mac_length [OF order_refl, where a = 0] imac]
        solvent_bind_value [OF solvent_frame_subtype])
      (use rd isub body lim n in \<open>auto simp: resource_error_def\<close>)
qed

section \<open>Completeness\<close>

definition frame_payload_bytes :: "management_frame \<Rightarrow> nat" where
  "frame_payload_bytes f = sum_list (map (length \<circ> ie_payload) (elements f))"

definition parse_work :: "u8 list \<Rightarrow> management_frame \<Rightarrow> nat" where
  "parse_work input f =
     2 * length input + 262 * length (elements f) + 3 * frame_payload_bytes f + 30"

definition parse_allocation :: "rust_layout \<Rightarrow> u8 list \<Rightarrow> management_frame \<Rightarrow> nat" where
  "parse_allocation ly input f =
     length (elements f) * (size_InformationElement ly + size_RepeatedElement ly + 4) +
     frame_payload_bytes f * (size_EncodedRate ly + 2) + 8176 + length input"

definition admits :: "parse_limits \<Rightarrow> u8 list \<Rightarrow> management_frame \<Rightarrow> bool" where
  "admits lim input f \<longleftrightarrow>
     length input < 2 ^ 32 \<and> length input \<le> max_frame_bytes lim \<and>
     length (elements f) \<le> max_elements lim \<and> frame_payload_bytes f \<le> max_ie_payload_bytes lim"

definition fits :: "rust_layout \<Rightarrow> parse_limits \<Rightarrow> u8 list \<Rightarrow> management_frame \<Rightarrow> bool" where
  "fits ly lim input f \<longleftrightarrow>
     admits lim input f \<and> parse_work input f \<le> max_work_units lim \<and>
     parse_allocation ly input f \<le> max_allocation_bytes lim \<and> max_allocation_bytes lim \<le> usize_MAX"

lemma solvent_parse_frame:
  assumes spec: "frame_spec input fr = Some f" and admits: "admits lim input f"
  shows "solvent lim (parse_controlled ly input fr) (parse_work input f) (parse_allocation ly input f)"
    and "parse_work input f + 100 \<le> usize_MAX"
proof -
  from spec obtain mac st ts where parts: "mac_spec input fr = Some mac"
      "subtype_spec (from_le_bytes (take 2 mac)) = Some st" "tlvs (drop (24 + fixed_len st) mac) = Some ts"
    and len: "24 \<le> length mac" and f: "f = frame_of input fr mac st ts"
    by (auto simp: frame_spec_def body_spec_def Option.bind_eq_Some_conv split: if_splits)
  have k: "length (elements f) = length ts" by (simp add: f frame_of_def Let_def)
  have pb: "frame_payload_bytes f = payload_bytes ts"
    by (simp add: f frame_of_def Let_def frame_payload_bytes_def payload_bytes_map map_payload_place flip: map_map)
  have "2 * length ts + payload_bytes ts \<le> length input"
    using tlvs_length [OF parts(3)] mac_spec_prefix [OF parts(1)]
    by (metis diff_le_self length_drop length_take min.bounded_iff order_trans order_refl)
  then show "parse_work input f + 100 \<le> usize_MAX"
    using admits by (simp add: parse_work_def admits_def k pb usize_MAX_def)
  have work: "parse_work input f = length input + 25 + body_work (length input) ts"
    by (simp add: parse_work_def body_work_def k pb)
  have alloc: "parse_allocation ly input f = body_allocation ly (length input) ts"
    by (simp add: parse_allocation_def body_allocation_def k pb)
  show "solvent lim (parse_controlled ly input fr) (parse_work input f) (parse_allocation ly input f)"
    unfolding work alloc
    using admits k pb by (intro solvent_parse_controlled [OF parts _ len]) (auto simp: admits_def)
qed

lemma parse_controlled_returns:
  assumes spec: "frame_spec input fr = Some f" and fits: "fits ly lim input f"
  shows "\<exists>t. parse_controlled ly input fr (control_new lim ie_never_cancel) = (Inr f, t)"
proof (rule solvent_implements)
  have admits: "admits lim input f" using fits by (simp add: fits_def)
  show "solvent lim (parse_controlled ly input fr) (parse_work input f) (parse_allocation ly input f)"
    by (rule solvent_parse_frame [OF spec admits])
  show "implements (parse_controlled ly input fr) (Some f)"
    using implements_parse_controlled [of input ly fr] spec admits by (simp add: admits_def usize_MAX_def)
  show "funded lim (parse_work input f) (parse_allocation ly input f) (control_new lim ie_never_cancel)"
    using fits solvent_parse_frame(2) [OF spec admits]
    by (simp add: fits_def funded_def control_new_def ie_never_cancel_def work_cap_def allocation_cap_def)
qed

text \<open>The sizes on one target, and a beacon with an SSID and one supported rate.\<close>

definition sample_layout :: rust_layout where
  "sample_layout = \<lparr>size_InformationElement = 72, size_ElementChange = 48,
     size_ElementOccurrence = 24, size_EncodedRate = 3, size_RepeatedElement = 40\<rparr>"

definition sample_beacon :: "u8 list" where
  "sample_beacon = [0x80, 0] @ replicate 34 0 @ [0, 2, 104, 105, 1, 1, 0x82]"

definition sample_frame :: management_frame where
  "sample_frame = frame_of sample_beacon FcsAbsent sample_beacon Beacon [(0, [104, 105]), (1, [0x82])]"

lemma sample_beacon_parts:
  "take 2 sample_beacon = [0x80, 0]" "length sample_beacon = 43"
  "drop 36 sample_beacon = [0, 2, 104, 105, 1, 1, 0x82]"
  by (simp_all add: sample_beacon_def)

lemma subtype_spec_beacon: "subtype_spec 128 = Some Beacon"
  by (simp add: subtype_spec_def)

lemma sample_spec: "frame_spec sample_beacon FcsAbsent = Some sample_frame"
  by (simp add: frame_spec_def mac_spec_def sample_beacon_parts subtype_spec_beacon body_spec_def
      length_constants sample_frame_def)

lemma sample_elements: "elements sample_frame = place Beacon 36 [(0, [104, 105]), (1, [0x82])]"
  by (simp add: sample_frame_def frame_of_def Let_def length_constants)

lemma sample_fits: "fits sample_layout parse_limits_default sample_beacon sample_frame"
proof -
  have "length (elements sample_frame) = 2" "frame_payload_bytes sample_frame = 3"
    by (simp_all add: sample_elements frame_payload_bytes_def element_spec_def)
  then show ?thesis
    by (simp add: fits_def admits_def parse_work_def parse_allocation_def sample_beacon_parts parse_limits_default_def usize_MAX_def sample_layout_def)
qed

text \<open>
  Claim C31. The parser is complete: a frame the specification accepts is returned whenever it fits
  the limits, that is when they admit its size, its number of elements and its payload bytes, and
  grant amounts of work and allocation that are linear in those three numbers.
\<close>

theorem parse_complete:
  assumes "frame_spec input fr = Some f" "fits ly lim input f"
  shows "parse_with ly input fr lim ie_never_cancel = Inr f"
  using parse_controlled_returns [OF assms] by (auto simp: parse_with_def parse_with_usage_def)

theorem parse_complete_witness:
  "frame_spec sample_beacon FcsAbsent = Some sample_frame \<and>
   parse_with sample_layout sample_beacon FcsAbsent parse_limits_default ie_never_cancel = Inr sample_frame"
  using parse_complete [OF sample_spec sample_fits] sample_spec by simp

end
