(* ===== verification/Ieee80211_Frames.thy ===== *)
theory Ieee80211_Frames
  imports Ieee80211_Limits
begin

text \<open>
  What a returned frame says of the octets it was parsed from: the information elements tile the
  frame body without loss, and the frame check sequence of \<open>crates/ieee80211/src/lib.rs\<close> detects
  single-octet corruption.
\<close>

section \<open>The elements tile the frame\<close>

text \<open>The octets of an element as they stand in the frame.\<close>

definition encode_tlv :: "information_element \<Rightarrow> u8 list" where
  "encode_tlv e = ie_id e # of_nat (length (ie_payload e)) # ie_payload e"

definition element_faithful :: "information_element \<Rightarrow> bool" where
  "element_faithful e \<longleftrightarrow>
     ie_extension_id e = (if ie_id e = 255 then Some (hd (ie_payload e)) else None) \<and>
     (ie_id e = 255 \<longrightarrow> ie_payload e \<noteq> []) \<and>
     encode_decoded (ie_decoded e) \<in> {None, Some (ie_payload e)}"

lemma tlvs_concat:
  "tlvs bs = Some ts \<Longrightarrow> concat (map encode_tlv (place st off ts)) = bs"
proof (induction bs arbitrary: ts off rule: tlvs.induct)
  case (3 eid len rest)
  from 3(2) obtain ts' where ok: "unat len \<le> length rest" "\<not> (eid = 255 \<and> len = 0)"
    and ts: "ts = (eid, take (unat len) rest) # ts'" "tlvs (drop (unat len) rest) = Some ts'"
    by (auto split: if_splits)
  with 3(1) [OF _ ts(2)] show ?case by (simp add: encode_tlv_def element_spec_def)
qed auto

lemma place_faithful:
  "tlvs bs = Some ts \<Longrightarrow> e \<in> set (place st off ts) \<Longrightarrow> element_faithful e"
proof (induction bs arbitrary: ts off rule: tlvs.induct)
  case (3 eid len rest)
  from 3(2) obtain ts' where ok: "unat len \<le> length rest" "\<not> (eid = 255 \<and> len = 0)"
    and ts: "ts = (eid, take (unat len) rest) # ts'" "tlvs (drop (unat len) rest) = Some ts'"
    by (auto split: if_splits)
  have "eid = 255 \<Longrightarrow> take (unat len) rest \<noteq> []" using ok by (auto simp: unat_eq_0)
  then have "element_faithful (element_spec st off eid (take (unat len) rest))"
    using encode_decode_spec [of st eid "take (unat len) rest"]
    by (simp add: element_faithful_def element_spec_def)
  with 3(1) [OF _ ts(2)] 3(3) ok ts(1) show ?case by auto
qed auto

lemma place_nth_offset:
  "k < length ts \<Longrightarrow>
     ie_offset (place st off ts ! k) =
       of_nat (off + length (concat (map encode_tlv (take k (place st off ts))))) \<and>
     ie_payload_offset (place st off ts ! k) =
       of_nat (off + length (concat (map encode_tlv (take k (place st off ts)))) + 2)"
proof (induction st off ts arbitrary: k rule: place.induct)
  case (2 st off eid p ts)
  then show ?case
    by (cases k) (simp_all add: element_spec_def encode_tlv_def algebra_simps)
qed simp

definition mac_of :: "u8 list \<Rightarrow> input_framing \<Rightarrow> u8 list" where
  "mac_of input fr = (case fr of FcsAbsent \<Rightarrow> input | FcsPresentAndValidate \<Rightarrow> take (length input - 4) input)"

lemma elements_tile:
  assumes spec: "frame_spec input fr = Some f" and len32: "length input < 2 ^ 32"
  shows "let off = 24 + fixed_len (subtype f); es = elements f in
      drop off (mac_of input fr) = concat (map encode_tlv es) \<and>
      (\<forall>k < length es. element_faithful (es ! k) \<and>
         unat (ie_offset (es ! k)) = off + length (concat (map encode_tlv (take k es))) \<and>
         unat (ie_payload_offset (es ! k)) = unat (ie_offset (es ! k)) + 2)"
proof -
  from spec obtain mac st ts where mac: "mac_spec input fr = Some mac" and ts: "tlvs (drop (24 + fixed_len st) mac) = Some ts"
    and len: "24 + fixed_len st \<le> length mac" and f: "f = frame_of input fr mac st ts"
    by (auto simp: frame_spec_def body_spec_def Option.bind_eq_Some_conv split: if_splits)
  let ?off = "24 + fixed_len st" and ?es = "place st (24 + fixed_len st) ts"
  have m: "mac = mac_of input fr" using mac by (auto simp: mac_of_def mac_spec_def Let_def split: input_framing.splits if_splits)
  have es: "elements f = ?es" "subtype f = st" by (simp_all add: f frame_of_def Let_def)
  have tile: "concat (map encode_tlv ?es) = drop ?off mac" by (rule tlvs_concat [OF ts])
  have "unat (ie_offset (?es ! k)) = ?off + length (concat (map encode_tlv (take k ?es))) \<and>
      unat (ie_payload_offset (?es ! k)) = unat (ie_offset (?es ! k)) + 2" if k: "k < length ?es" for k
  proof -
    have "length (concat (map encode_tlv (take k ?es))) + length (encode_tlv (?es ! k)) \<le>
        length (concat (map encode_tlv ?es))"
      using arg_cong [OF id_take_nth_drop [OF k], of "\<lambda>es. length (concat (map encode_tlv es))"]
      by (simp del: take_all append_take_drop_id)
    then have "?off + length (concat (map encode_tlv (take k ?es))) + 2 \<le> length input"
      using tile len m by (auto simp: encode_tlv_def mac_of_def split: input_framing.splits)
    with len32 have "?off + length (concat (map encode_tlv (take k ?es))) + 2 < 2 ^ 32" by simp
    with place_nth_offset [of k ts st ?off] k show ?thesis
      by (simp add: unat_of_nat del: of_nat_add of_nat_Suc)
  qed
  moreover have "element_faithful (?es ! k)" if "k < length ?es" for k
    using place_faithful [OF ts] nth_mem [OF that] .
  ultimately show ?thesis using tile m es by (auto simp: Let_def)
qed

text \<open>
  Claim C34. The elements of a returned frame tile its body: their identifiers, lengths and payloads
  concatenate to exactly the octets between the fixed fields and the frame check sequence, each
  recorded offset points at its element and its payload, and a decoded value is lossless (it
  determines the payload octets).
\<close>

theorem elements_tile_frame:
  assumes "parse_with ly input fr lim canc = Inr f" "length input < 2 ^ 32"
  shows "let off = 24 + fixed_len (subtype f); es = elements f in
      drop off (mac_of input fr) = concat (map encode_tlv es) \<and>
      (\<forall>k < length es. element_faithful (es ! k) \<and>
         unat (ie_offset (es ! k)) = off + length (concat (map encode_tlv (take k es))) \<and>
         unat (ie_payload_offset (es ! k)) = unat (ie_offset (es ! k)) + 2)"
proof (rule elements_tile)
  show "frame_spec input fr = Some f"
    using assms by (intro parse_with_frame_spec) (auto simp: usize_MAX_def)
qed (rule assms(2))

theorem elements_tile_frame_witness:
  "let off = 24 + fixed_len (subtype sample_frame); es = elements sample_frame in
   parse_with sample_layout sample_beacon FcsAbsent parse_limits_default ie_never_cancel = Inr sample_frame \<and>
   drop off (mac_of sample_beacon FcsAbsent) = concat (map encode_tlv es) \<and>
   (\<forall>k < length es. element_faithful (es ! k) \<and>
      unat (ie_offset (es ! k)) = off + length (concat (map encode_tlv (take k es))) \<and>
      unat (ie_payload_offset (es ! k)) = unat (ie_offset (es ! k)) + 2)"
proof -
  have "parse_with sample_layout sample_beacon FcsAbsent parse_limits_default ie_never_cancel = Inr sample_frame"
    using parse_controlled_returns [OF sample_spec sample_fits] by (auto simp: parse_with_def parse_with_usage_def)
  then show ?thesis
    using elements_tile_frame [of sample_layout sample_beacon FcsAbsent parse_limits_default ie_never_cancel sample_frame]
    by (simp add: Let_def sample_beacon_parts)
qed

section \<open>The frame check sequence\<close>

lemma crc_shift_inj:
  assumes "crc_shift a = crc_shift b"
  shows "a = b"
proof -
  have low: "x AND 1 \<noteq> 0 \<longleftrightarrow> bit x 0" for x :: u32
    by (simp add: and_one_eq bit_0 odd_iff_mod_2_eq_one)
  have top: "bit (crc_shift x) 31 \<longleftrightarrow> bit x 0" for x
    using low [of x] by (auto simp: crc_shift_def bit_simps dest: bit_imp_le_length)
  then have lsb: "bit a 0 = bit b 0" using assms by metis
  then have "drop_bit 1 a = drop_bit 1 b"
    using assms low by (auto simp: crc_shift_def xor_right_cancel split: if_splits)
  then have "bit a (Suc n) = bit b (Suc n)" for n by (metis bit_drop_bit_eq comp_apply plus_1_eq_Suc)
  with lsb show ?thesis by (intro bit_word_eqI) (metis not0_implies_Suc)
qed

lemma crc_byte_eq_iff: "crc_byte a x = crc_byte b y \<longleftrightarrow> a XOR ucast x = b XOR ucast y"
proof -
  have "inj (crc_shift ^^ 8)"
    using crc_shift_inj by (intro inj_fn injI)
  then show ?thesis unfolding crc_byte_def by (simp add: inj_eq)
qed

lemma crc_byte_inj_state: "crc_byte a x = crc_byte b x \<Longrightarrow> a = b"
  by (simp add: crc_byte_eq_iff xor_right_cancel)

lemma crc_byte_inj_byte: "crc_byte a x = crc_byte a y \<Longrightarrow> x = y"
proof (rule bit_word_eqI)
  fix n assume "crc_byte a x = crc_byte a y" "n < LENGTH(8)"
  then have "bit (ucast x :: u32) n = bit (ucast y :: u32) n" "n < 8"
    by (simp_all add: crc_byte_eq_iff xor_left_cancel)
  then show "bit x n = bit y n" by (simp add: bit_simps)
qed

lemma foldl_crc_inj: "foldl crc_byte a bs = foldl crc_byte b bs \<Longrightarrow> a = b"
  by (induction bs arbitrary: a b) (auto dest: crc_byte_inj_state)

lemma crc32_value_update:
  assumes "i < length bs" "b \<noteq> bs ! i"
  shows "crc32_value (bs[i := b]) \<noteq> crc32_value bs"
proof
  assume "crc32_value (bs[i := b]) = crc32_value bs"
  then have "foldl crc_byte (- 1) (bs[i := b]) = foldl crc_byte (- 1) bs"
    by (simp add: crc32_value_def)
  then have "foldl crc_byte (- 1) (take i bs @ b # drop (Suc i) bs) =
      foldl crc_byte (- 1) (take i bs @ bs ! i # drop (Suc i) bs)"
    using assms(1) by (simp add: upd_conv_take_nth_drop id_take_nth_drop [symmetric])
  then have "b = bs ! i" by (auto dest!: foldl_crc_inj crc_byte_inj_byte)
  with assms(2) show False by simp
qed

lemma mac_spec_append:
  "mac_spec (bytes @ to_le_bytes 4 (crc32_value bytes)) FcsPresentAndValidate = Some bytes"
  by (simp add: mac_spec_def Let_def from_le_bytes_to_le_bytes)

lemma mac_spec_corrupt:
  assumes "mac_spec input FcsPresentAndValidate \<noteq> None" "i < length input" "b \<noteq> input ! i"
  shows "mac_spec (input[i := b]) FcsPresentAndValidate = None"
proof -
  let ?n = "length input - 4"
  from assms(1) have ok: "4 \<le> length input" "from_le_bytes (drop ?n input) = crc32_value (take ?n input)"
    by (auto simp: mac_spec_def Let_def split: if_splits)
  have "from_le_bytes (drop ?n (input[i := b])) \<noteq> crc32_value (take ?n (input[i := b]))"
  proof (cases "i < ?n")
    case True
    with ok assms crc32_value_update [of i "take ?n input" b] show ?thesis
      by (simp add: take_update_swap)
  next
    case False
    then have "drop ?n (input[i := b]) ! (i - ?n) = b" "drop ?n input ! (i - ?n) = input ! i"
      using assms(2) by simp_all
    then have "drop ?n (input[i := b]) \<noteq> drop ?n input" using assms(3) by metis
    moreover have "to_le_bytes 4 (from_le_bytes bs :: u32) = bs" if "length bs = 4" for bs
      using to_le_bytes_from_le_bytes [of bs, where ?'a = 32] that by simp
    ultimately have "(from_le_bytes (drop ?n (input[i := b])) :: u32) \<noteq> from_le_bytes (drop ?n input)"
      using ok(1) by (metis diff_diff_cancel length_drop length_list_update)
    with False ok show ?thesis by simp
  qed
  then show ?thesis using assms(2) by (simp add: mac_spec_def Let_def)
qed

lemma mac_length_error:
  assumes "mac_length input FcsPresentAndValidate c = (Inl e, t)" "4 \<le> length input" "length input \<le> usize_MAX"
  shows "resource_error e \<or> (\<exists>x y. e = InvalidFcs x y)"
  using assms
  by (auto simp: mac_length_def bindR_Inl_iff checked_sub_def read_u32_def checked_add_def
      dest: implementsD(2) [OF implements_crc32] split: if_splits option.splits)

lemma parse_controlled_bad_fcs:
  assumes "mac_spec input FcsPresentAndValidate = None" "4 \<le> length input" "length input \<le> usize_MAX"
    and "parse_controlled ly input FcsPresentAndValidate c = (r, t)"
  shows "\<exists>e. r = Inl e \<and> (resource_error e \<or> (\<exists>x y. e = InvalidFcs x y))"
proof -
  have "mac_length input FcsPresentAndValidate c \<noteq> (Inr n, t)" for n c t
    using implementsD(1) [OF implements_mac_length [OF assms(3)]] assms(1) by fastforce
  then have run: "bindR (mac_length input FcsPresentAndValidate) k c = (r', t') \<Longrightarrow>
      \<exists>e. r' = Inl e \<and> (resource_error e \<or> (\<exists>x y. e = InvalidFcs x y))" for k c and t' and r' :: "ie_error + management_frame"
    by (cases r') (auto simp: bindR_Inl_iff bindR_Inr_iff dest: mac_length_error [OF _ assms(2,3)])
  obtain r1 s where charge: "ctl_charge 1 c = (r1, s)" by fastforce
  show ?thesis
    using assms(4) charge unfolding parse_controlled_def
    by (cases r1) (auto simp: bindR_Inr bindR_Inl split: if_splits dest: run ctl_charge_error)
qed

text \<open>
  Claim C35. The frame check sequence detects every single-octet corruption: when one octet of an
  accepted frame, in its body or in the sequence itself, is replaced by another value, the parser
  returns no frame; it reports an invalid frame check sequence or a resource limit.
\<close>

theorem fcs_detects_corruption:
  assumes "parse_with ly input FcsPresentAndValidate lim canc = Inr f" "length input \<le> usize_MAX"
    and "i < length input" "b \<noteq> input ! i"
  shows "\<exists>e. parse_with ly (input[i := b]) FcsPresentAndValidate lim' canc' = Inl e \<and>
    (resource_error e \<or> (\<exists>x y. e = InvalidFcs x y))"
proof -
  let ?in = "input[i := b]" and ?c = "control_new lim' canc'"
  have "frame_spec input FcsPresentAndValidate = Some f" by (rule parse_with_frame_spec [OF assms(1,2)])
  then have "mac_spec input FcsPresentAndValidate \<noteq> None" by (auto simp: frame_spec_def Option.bind_eq_Some_conv)
  moreover from this have len: "4 \<le> length input" by (auto simp: mac_spec_def Let_def split: if_splits)
  ultimately have bad: "mac_spec ?in FcsPresentAndValidate = None" using mac_spec_corrupt assms(3,4) by blast
  obtain r t where run: "parse_controlled ly ?in FcsPresentAndValidate ?c = (r, t)" by fastforce
  from parse_controlled_bad_fcs [OF bad _ _ run] assms(2) len
  show ?thesis by (auto simp: parse_with_def parse_with_usage_def run)
qed

theorem fcs_detects_corruption_witness:
  "let mac = [0x40] @ replicate 23 0; input = mac @ to_le_bytes 4 (crc32_value mac)
   in parse_with sample_layout input FcsPresentAndValidate parse_limits_default ie_never_cancel =
        Inr (frame_of input FcsPresentAndValidate mac ProbeRequest []) \<and>
      (\<exists>e. parse_with sample_layout (input[2 := 1]) FcsPresentAndValidate parse_limits_default ie_never_cancel = Inl e \<and>
        (resource_error e \<or> (\<exists>x y. e = InvalidFcs x y)))"
proof -
  define mac :: "u8 list" where "mac = [0x40] @ replicate 23 0"
  define input where "input = mac @ to_le_bytes 4 (crc32_value mac)"
  define f where "f = frame_of input FcsPresentAndValidate mac ProbeRequest []"
  have mac: "take 2 mac = [0x40, 0]" "length mac = 24" "drop 24 mac = []" "mac ! 2 = 0"
    by (simp_all add: mac_def numeral_2_eq_2)
  have len: "length input = 28" "input ! 2 = 0" using mac by (simp_all add: input_def nth_append)
  have sub: "subtype_spec 64 = Some ProbeRequest"
    by (simp add: subtype_spec_def)
  have "mac_spec input FcsPresentAndValidate = Some mac" by (simp add: input_def mac_spec_append)
  then have spec: "frame_spec input FcsPresentAndValidate = Some f"
    by (simp add: frame_spec_def mac sub body_spec_def f_def)
  have "elements f = []" by (simp add: f_def frame_of_def Let_def)
  then have "fits sample_layout parse_limits_default input f"
    using len by (simp add: fits_def admits_def parse_work_def parse_allocation_def parse_limits_default_def usize_MAX_def frame_payload_bytes_def sample_layout_def)
  from parse_controlled_returns [OF spec this]
  have ok: "parse_with sample_layout input FcsPresentAndValidate parse_limits_default ie_never_cancel = Inr f"
    by (auto simp: parse_with_def parse_with_usage_def)
  show ?thesis
    using fcs_detects_corruption [OF ok, of 2 1] ok len
    unfolding Let_def mac_def [symmetric] input_def [symmetric] f_def [symmetric]
    by (simp add: usize_MAX_def)
qed

end
