(* ===== verification/Ieee80211_Codec.thy ===== *)
theory Ieee80211_Codec
  imports Ieee80211_Limits
begin

text \<open>
  The canonical byte form of a management frame: \<open>canonical_bytes\<close> and \<open>from_canonical_bytes\<close> of
  \<open>ManagementFrame\<close> in \<open>crates/ieee80211/src/lib.rs\<close>. The form is a magic number, a version, the
  framing, the length and the octets of the MPDU; decoding parses the MPDU again.
\<close>

section \<open>Definitions\<close>

definition CANONICAL_MAGIC :: "u8 list" where
  "CANONICAL_MAGIC = [0x4b, 0x59, 0x31, 0x31, 0x49, 0x45, 0]"

definition CANONICAL_VERSION :: u16 where "CANONICAL_VERSION = 1"

fun framing_byte :: "input_framing \<Rightarrow> u8" where
  "framing_byte FcsAbsent = 0"
| "framing_byte FcsPresentAndValidate = 1"

definition framing_of_byte :: "u8 \<Rightarrow> input_framing option" where
  "framing_of_byte b =
     (if b = 0 then Some FcsAbsent else if b = 1 then Some FcsPresentAndValidate else None)"

text \<open>The length of the canonical form, added up with overflow checks.\<close>

definition canonical_length :: "nat \<Rightarrow> nat option" where
  "canonical_length n =
     Option.bind (checked_add (length CANONICAL_MAGIC) 2) (\<lambda>a.
       Option.bind (checked_add a 1) (\<lambda>a.
         Option.bind (checked_add a 4) (\<lambda>a. checked_add a n)))"

text \<open>The copy of the MPDU in chunks of 256 octets charges like \<open>copy_work\<close>.\<close>

definition canonical_bytes_controlled ::
    "management_frame \<Rightarrow> (control, ie_error, u8 list) rsm" where
  "canonical_bytes_controlled f = (\<lambda>c.
     bindR (guardR (length (raw_mpdu f) \<le> max_frame_bytes (ctl_limits c)) (IeLimitExceeded ''frame bytes'')) (\<lambda>_.
     bindR (ok_or (canonical_length (length (raw_mpdu f))) (IeLimitExceeded ''canonical bytes'')) (\<lambda>len c.
     bindR (guardR (len \<le> max_canonical_bytes (ctl_limits c)) (IeLimitExceeded ''canonical bytes'')) (\<lambda>_.
     bindR (ctl_allocate len) (\<lambda>_.
     bindR (ctl_charge 14) (\<lambda>_.
     bindR (to_u32 (length (raw_mpdu f))) (\<lambda>n.
     bindR (copy_work (length (raw_mpdu f))) (\<lambda>_.
     ret (CANONICAL_MAGIC @ to_le_bytes 2 CANONICAL_VERSION @ [framing_byte (framing f)] @
          to_le_bytes 4 n @ raw_mpdu f)))))) c)) c)"

definition canonical_bytes_with_usage ::
    "management_frame \<Rightarrow> parse_limits \<Rightarrow> (nat \<Rightarrow> bool) \<Rightarrow> ie_error + (u8 list \<times> ie_resource_usage)" where
  "canonical_bytes_with_usage f lim canc =
     (case canonical_bytes_controlled f (control_new lim canc) of
        (Inl e, _) \<Rightarrow> Inl e
      | (Inr bs, c) \<Rightarrow> Inr (bs, ctl_usage c))"

definition canonical_bytes_with ::
    "management_frame \<Rightarrow> parse_limits \<Rightarrow> (nat \<Rightarrow> bool) \<Rightarrow> ie_error + u8 list" where
  "canonical_bytes_with f lim canc = map_sum (\<lambda>e. e) fst (canonical_bytes_with_usage f lim canc)"

definition canonical_bytes :: "management_frame \<Rightarrow> ie_error + u8 list" where
  "canonical_bytes f = canonical_bytes_with f parse_limits_default ie_never_cancel"

definition from_canonical_controlled ::
    "rust_layout \<Rightarrow> u8 list \<Rightarrow> (control, ie_error, management_frame) rsm" where
  "from_canonical_controlled ly bytes = (\<lambda>c.
     bindR (guardR (length bytes \<le> max_canonical_bytes (ctl_limits c)) (IeLimitExceeded ''canonical bytes'')) (\<lambda>_.
     bindR (ctl_charge 14) (\<lambda>_.
     bindR (guardR (\<not> (length bytes < 14 \<or> slice_get bytes 0 7 \<noteq> Some CANONICAL_MAGIC)) CanonicalMagic) (\<lambda>_.
     bindR (ok_or (read_u16 bytes 7) CanonicalLength) (\<lambda>version.
     bindR (guardR (version = CANONICAL_VERSION) (CanonicalVersion version)) (\<lambda>_.
     bindR (ok_or (nth_get bytes 9) Panic) (\<lambda>b.
     bindR (ok_or (framing_of_byte b) (CanonicalFraming b)) (\<lambda>fr.
     bindR (ok_or (read_u32 bytes 10) CanonicalLength) (\<lambda>declared.
     bindR (ok_or (checked_add 14 (unat declared)) CanonicalLength) (\<lambda>total.
     bindR (guardR (total = length bytes) CanonicalLength) (\<lambda>_.
     bindR (ok_or (slice_get bytes 14 (length bytes)) Panic) (\<lambda>mpdu.
     parse_controlled ly mpdu fr))))))))))) c)"

definition from_canonical_bytes_with_usage ::
    "rust_layout \<Rightarrow> u8 list \<Rightarrow> parse_limits \<Rightarrow> (nat \<Rightarrow> bool)
       \<Rightarrow> ie_error + (management_frame \<times> ie_resource_usage)" where
  "from_canonical_bytes_with_usage ly bytes lim canc =
     (case from_canonical_controlled ly bytes (control_new lim canc) of
        (Inl e, _) \<Rightarrow> Inl e
      | (Inr f, c) \<Rightarrow> Inr (f, ctl_usage c))"

definition from_canonical_bytes_with ::
    "rust_layout \<Rightarrow> u8 list \<Rightarrow> parse_limits \<Rightarrow> (nat \<Rightarrow> bool) \<Rightarrow> ie_error + management_frame" where
  "from_canonical_bytes_with ly bytes lim canc =
     map_sum (\<lambda>e. e) fst (from_canonical_bytes_with_usage ly bytes lim canc)"

definition from_canonical_bytes :: "rust_layout \<Rightarrow> u8 list \<Rightarrow> ie_error + management_frame" where
  "from_canonical_bytes ly bytes = from_canonical_bytes_with ly bytes parse_limits_default ie_never_cancel"

section \<open>Specification\<close>

definition canonical_form :: "management_frame \<Rightarrow> u8 list" where
  "canonical_form f =
     CANONICAL_MAGIC @ to_le_bytes 2 CANONICAL_VERSION @ [framing_byte (framing f)] @
     to_le_bytes 4 (of_nat (length (raw_mpdu f)) :: u32) @ raw_mpdu f"

definition canonical_spec :: "u8 list \<Rightarrow> management_frame option" where
  "canonical_spec bytes =
     (if 14 \<le> length bytes \<and> take 7 bytes = CANONICAL_MAGIC \<and>
         from_le_bytes (take 2 (drop 7 bytes)) = CANONICAL_VERSION \<and>
         14 + unat (from_le_bytes (take 4 (drop 10 bytes)) :: u32) = length bytes
      then Option.bind (framing_of_byte (bytes ! 9)) (frame_spec (drop 14 bytes)) else None)"

lemma implements_canonical_bytes:
  "implements (canonical_bytes_controlled f) (Some (canonical_form f))"
  unfolding canonical_bytes_controlled_def
  by (intro implements_rules implements_bind_Some [OF implements_copy_work])
    (simp_all add: canonical_form_def implements_ret)

lemma implements_from_canonical:
  assumes "length bytes \<le> usize_MAX"
  shows "implements (from_canonical_controlled ly bytes) (canonical_spec bytes)"
proof -
  have parse: "implements (parse_controlled ly (drop 14 bytes) fr) (frame_spec (drop 14 bytes) fr)" for fr
    using assms by (intro implements_parse_controlled) simp
  show ?thesis
    unfolding from_canonical_controlled_def
    by (intro implements_rules)
      (use assms parse in \<open>auto simp: canonical_spec_def read_u16_def read_u32_def checked_add_def split: if_splits\<close>)
qed

lemma frame_spec_raw: "frame_spec input fr = Some f \<Longrightarrow> raw_mpdu f = input \<and> framing f = fr"
  by (auto simp: frame_spec_def body_spec_def frame_of_def Let_def Option.bind_eq_Some_conv split: if_splits)

lemma framing_of_framing_byte [simp]: "framing_of_byte (framing_byte fr) = Some fr"
  by (cases fr) (simp_all add: framing_of_byte_def)

lemma framing_byte_of_byte: "framing_of_byte b = Some fr \<Longrightarrow> framing_byte fr = b"
  by (auto simp: framing_of_byte_def split: if_splits)

lemma canonical_form_parts:
  "length (canonical_form f) = 14 + length (raw_mpdu f)"
  "take 7 (canonical_form f) = CANONICAL_MAGIC"
  "take 2 (drop 7 (canonical_form f)) = to_le_bytes 2 CANONICAL_VERSION"
  "canonical_form f ! 9 = framing_byte (framing f)"
  "take 4 (drop 10 (canonical_form f)) = to_le_bytes 4 (of_nat (length (raw_mpdu f)) :: u32)"
  "drop 14 (canonical_form f) = raw_mpdu f"
  by (simp_all add: canonical_form_def CANONICAL_MAGIC_def to_le_bytes_def nth_append upt_rec)

lemma canonical_spec_form:
  assumes "length (raw_mpdu f) < 2 ^ 32"
  shows "canonical_spec (canonical_form f) = frame_spec (raw_mpdu f) (framing f)"
  using assms by (simp add: canonical_spec_def canonical_form_parts from_le_bytes_to_le_bytes unat_of_nat)

lemma canonical_form_spec:
  assumes "canonical_spec bytes = Some f"
  shows "canonical_form f = bytes"
proof -
  from assms obtain fr where len: "14 \<le> length bytes" and magic: "take 7 bytes = CANONICAL_MAGIC"
    and version: "from_le_bytes (take 2 (drop 7 bytes)) = CANONICAL_VERSION"
    and total: "14 + unat (from_le_bytes (take 4 (drop 10 bytes)) :: u32) = length bytes"
    and fr: "framing_of_byte (bytes ! 9) = Some fr" and f: "frame_spec (drop 14 bytes) fr = Some f"
    by (auto simp: canonical_spec_def Option.bind_eq_Some_conv split: if_splits)
  have parts: "to_le_bytes 2 CANONICAL_VERSION = take 2 (drop 7 bytes)"
    using to_le_bytes_from_le_bytes [of "take 2 (drop 7 bytes)", where ?'a = 16] len version by simp
  have "(of_nat (length (drop 14 bytes)) :: u32) = from_le_bytes (take 4 (drop 10 bytes))"
  proof -
    have "length (drop 14 bytes) = unat (from_le_bytes (take 4 (drop 10 bytes)) :: u32)"
      using total by simp
    then show ?thesis by (simp del: length_drop)
  qed
  then have declared: "to_le_bytes 4 (of_nat (length (drop 14 bytes)) :: u32) = take 4 (drop 10 bytes)"
    using to_le_bytes_from_le_bytes [of "take 4 (drop 10 bytes)", where ?'a = 32] len by simp
  have "canonical_form f = take 7 bytes @ take 2 (drop 7 bytes) @ [bytes ! 9] @ take 4 (drop 10 bytes) @ drop 14 bytes"
    using frame_spec_raw [OF f] framing_byte_of_byte [OF fr] magic parts declared
    by (simp add: canonical_form_def)
  also have "[bytes ! 9] = take 1 (drop 9 bytes)" using len by (simp add: take_Suc_conv_app_nth)
  also have "take 7 bytes @ take 2 (drop 7 bytes) @ take 1 (drop 9 bytes) @ take 4 (drop 10 bytes) @ drop 14 bytes = bytes"
  proof -
    have "take 9 bytes = take 7 bytes @ take 2 (drop 7 bytes)" "take 10 bytes = take 9 bytes @ take 1 (drop 9 bytes)"
      "take 14 bytes = take 10 bytes @ take 4 (drop 10 bytes)"
      using take_add [of 7 2 bytes] take_add [of 9 1 bytes] take_add [of 10 4 bytes] by simp_all
    then show ?thesis by (metis append_assoc append_take_drop_id)
  qed
  finally show ?thesis .
qed

section \<open>Enough resources\<close>

lemma canonical_length_eq: "14 + n \<le> usize_MAX \<Longrightarrow> canonical_length n = Some (14 + n)"
  by (simp add: canonical_length_def CANONICAL_MAGIC_def checked_add_def)

lemma solvent_canonical_bytes:
  assumes "length (raw_mpdu f) < 2 ^ 32" "length (raw_mpdu f) \<le> max_frame_bytes L"
    "14 + length (raw_mpdu f) \<le> max_canonical_bytes L"
  shows "solvent L (canonical_bytes_controlled f) (15 + length (raw_mpdu f)) (14 + length (raw_mpdu f))"
proof -
  have len: "canonical_length (length (raw_mpdu f)) = Some (14 + length (raw_mpdu f))"
    using assms(1) by (intro canonical_length_eq) (simp add: usize_MAX_def)
  show ?thesis
    unfolding canonical_bytes_controlled_def len bindR_ok_or_Some
    by (intro solvent_rules solvent_bind_value [OF solvent_copy_work [OF order_refl, where a = 0] implements_copy_work])
      (use assms in simp_all)
qed

lemma solvent_from_canonical:
  assumes "\<And>fr. canonical_spec bytes \<noteq> None \<Longrightarrow> framing_of_byte (bytes ! 9) = Some fr \<Longrightarrow>
      solvent L (parse_controlled ly (drop 14 bytes) fr) w a"
    and "length bytes \<le> max_canonical_bytes L" "length bytes \<le> usize_MAX" "canonical_spec bytes \<noteq> None"
  shows "solvent L (from_canonical_controlled ly bytes) (14 + w) a"
  unfolding from_canonical_controlled_def
  by (intro solvent_rules) (use assms in \<open>auto simp: resource_error_def\<close>)

section \<open>Properties\<close>

lemma canonical_bytes_returns:
  assumes "length (raw_mpdu f) < 2 ^ 32" "length (raw_mpdu f) \<le> max_frame_bytes lim"
    "14 + length (raw_mpdu f) \<le> max_canonical_bytes lim" "15 + length (raw_mpdu f) \<le> max_work_units lim"
    "14 + length (raw_mpdu f) \<le> max_allocation_bytes lim"
  shows "canonical_bytes_with f lim ie_never_cancel = Inr (canonical_form f)"
proof -
  have "funded lim (15 + length (raw_mpdu f)) (14 + length (raw_mpdu f)) (control_new lim ie_never_cancel)"
    using assms by (simp add: funded_def control_new_def ie_never_cancel_def work_cap_def allocation_cap_def usize_MAX_def)
  from solvent_implements [OF solvent_canonical_bytes implements_canonical_bytes this] assms
  show ?thesis by (auto simp: canonical_bytes_with_def canonical_bytes_with_usage_def)
qed

lemma from_canonical_bytes_returns:
  assumes spec: "frame_spec (raw_mpdu f) (framing f) = Some f" and fits: "fits ly lim (raw_mpdu f) f"
    and lim: "14 + length (raw_mpdu f) \<le> max_canonical_bytes lim" "14 + parse_work (raw_mpdu f) f \<le> max_work_units lim"
  shows "from_canonical_bytes_with ly (canonical_form f) lim ie_never_cancel = Inr f"
proof -
  let ?bs = "canonical_form f" and ?w = "14 + parse_work (raw_mpdu f) f" and ?a = "parse_allocation ly (raw_mpdu f) f"
  have admits: "admits lim (raw_mpdu f) f" using fits by (simp add: fits_def)
  then have len: "length (raw_mpdu f) < 2 ^ 32" by (simp add: admits_def)
  have cs: "canonical_spec ?bs = Some f" using canonical_spec_form [OF len] spec by simp
  have "solvent lim (from_canonical_controlled ly ?bs) ?w ?a"
    using solvent_parse_frame(1) [OF spec admits] cs len lim
    by (intro solvent_from_canonical) (auto simp: canonical_form_parts usize_MAX_def)
  moreover have "implements (from_canonical_controlled ly ?bs) (Some f)"
    using implements_from_canonical [of ?bs ly] cs len by (simp add: canonical_form_parts usize_MAX_def)
  moreover have "funded lim ?w ?a (control_new lim ie_never_cancel)"
    using fits lim solvent_parse_frame(2) [OF spec admits]
    by (simp add: fits_def funded_def control_new_def ie_never_cancel_def work_cap_def allocation_cap_def)
  ultimately obtain t where "from_canonical_controlled ly ?bs (control_new lim ie_never_cancel) = (Inr f, t)"
    using solvent_implements [of lim "from_canonical_controlled ly ?bs"] by metis
  then show ?thesis by (simp add: from_canonical_bytes_with_def from_canonical_bytes_with_usage_def)
qed

lemma sample_raw: "raw_mpdu sample_frame = sample_beacon" "framing sample_frame = FcsAbsent"
  using frame_spec_raw [OF sample_spec] by simp_all

lemma sample_room:
  "14 + length sample_beacon \<le> max_canonical_bytes parse_limits_default"
  "14 + parse_work sample_beacon sample_frame \<le> max_work_units parse_limits_default"
  by (simp_all add: sample_beacon_parts parse_work_def sample_elements frame_payload_bytes_def
      element_spec_def parse_limits_default_def)

text \<open>
  Claim C24. The canonical form round-trips: a parsed frame that fits the limits, with room for the
  14 header octets, is encoded, and decoding the result gives back the same frame.
\<close>

theorem canonical_roundtrip:
  assumes "parse_with ly input fr lim ie_never_cancel = Inr f" "fits ly lim input f"
    and "14 + length input \<le> max_canonical_bytes lim" "14 + parse_work input f \<le> max_work_units lim"
  shows "\<exists>bs. canonical_bytes_with f lim ie_never_cancel = Inr bs \<and>
    from_canonical_bytes_with ly bs lim ie_never_cancel = Inr f"
proof -
  have spec: "frame_spec input fr = Some f"
    using assms(1,2) by (intro parse_with_frame_spec) (auto simp: fits_def admits_def usize_MAX_def)
  then have raw: "raw_mpdu f = input" "framing f = fr" using frame_spec_raw by auto
  have "canonical_bytes_with f lim ie_never_cancel = Inr (canonical_form f)"
    using assms(2-4) raw
    by (intro canonical_bytes_returns) (auto simp: fits_def admits_def parse_work_def parse_allocation_def)
  moreover have "from_canonical_bytes_with ly (canonical_form f) lim ie_never_cancel = Inr f"
    using assms(2-4) raw spec by (intro from_canonical_bytes_returns) auto
  ultimately show ?thesis by blast
qed

theorem canonical_roundtrip_witness:
  "parse_with sample_layout sample_beacon FcsAbsent parse_limits_default ie_never_cancel = Inr sample_frame \<and>
   (\<exists>bs. canonical_bytes_with sample_frame parse_limits_default ie_never_cancel = Inr bs \<and>
     from_canonical_bytes_with sample_layout bs parse_limits_default ie_never_cancel = Inr sample_frame)"
proof -
  have "parse_with sample_layout sample_beacon FcsAbsent parse_limits_default ie_never_cancel = Inr sample_frame"
    using parse_controlled_returns [OF sample_spec sample_fits] by (auto simp: parse_with_def parse_with_usage_def)
  then show ?thesis
    using canonical_roundtrip [OF _ sample_fits, of FcsAbsent] sample_room by simp
qed

text \<open>
  Claim C25. The encoding is canonical: bytes that decode to a frame are the bytes that frame encodes
  to, so two different byte strings never decode to the same frame, whatever the limits of the two
  calls.
\<close>

theorem canonical_unique:
  assumes "from_canonical_bytes_with ly bs lim canc = Inr f" "length bs \<le> usize_MAX"
  shows "case canonical_bytes_with f lim' canc' of Inr bs' \<Rightarrow> bs' = bs | Inl e \<Rightarrow> resource_error e"
proof -
  from assms(1) obtain t where "from_canonical_controlled ly bs (control_new lim canc) = (Inr f, t)"
    by (auto simp: from_canonical_bytes_with_def from_canonical_bytes_with_usage_def split: prod.splits sum.splits)
  then have "canonical_spec bs = Some f" by (rule implementsD(1) [OF implements_from_canonical [OF assms(2)]])
  then have form: "canonical_form f = bs" by (rule canonical_form_spec)
  obtain r t where run: "canonical_bytes_controlled f (control_new lim' canc') = (r, t)" by fastforce
  with implementsD [OF implements_canonical_bytes [of f], of "control_new lim' canc'"] form show ?thesis
    by (cases r) (auto simp: canonical_bytes_with_def canonical_bytes_with_usage_def)
qed

theorem canonical_unique_witness:
  "from_canonical_bytes_with sample_layout (canonical_form sample_frame) parse_limits_default ie_never_cancel =
     Inr sample_frame \<and>
   (case canonical_bytes_with sample_frame parse_limits_default ie_never_cancel of
      Inr bs' \<Rightarrow> bs' = canonical_form sample_frame | Inl e \<Rightarrow> resource_error e)"
proof -
  have "from_canonical_bytes_with sample_layout (canonical_form sample_frame) parse_limits_default
      ie_never_cancel = Inr sample_frame"
    using sample_spec sample_fits sample_room sample_raw by (intro from_canonical_bytes_returns) simp_all
  then show ?thesis
    using canonical_unique [of sample_layout "canonical_form sample_frame" parse_limits_default ie_never_cancel sample_frame]
    by (simp add: canonical_form_parts sample_raw sample_beacon_parts usize_MAX_def)
qed
end
