(* ===== verification/Ieee80211_Explorer.thy ===== *)
theory Ieee80211_Explorer
  imports Ieee80211_Frames "HOL-Library.Multiset"
begin

text \<open>
  The explorer view of a parsed frame and the comparison of two frames by their information
  elements (\<open>InformationElementExplorer\<close>, \<open>diff_information_elements\<close> and its heap sort in
  \<open>crates/ieee80211/src/lib.rs\<close>). An index expression that would panic is \<open>None\<close> in the view and
  \<open>Panic\<close> in the metered functions.
\<close>

section \<open>The explorer\<close>

datatype standards_element_reference = Ieee80211ElementIdentifier u8 "u8 option"

record explorer_element =
  xe_frame :: management_frame
  xe_index :: nat

record explorer_element_iter =
  xi_frame :: management_frame
  xi_next_index :: nat

record element_warnings =
  warn_malformed :: "element_problem option"
  warn_repetition :: "repeated_element option"

definition explorer_elements :: "management_frame \<Rightarrow> explorer_element_iter" where
  "explorer_elements frame = \<lparr>xi_frame = frame, xi_next_index = 0\<rparr>"

definition iter_next :: "explorer_element_iter \<Rightarrow> explorer_element option \<times> explorer_element_iter" where
  "iter_next it =
     (if xi_next_index it \<ge> length (elements (xi_frame it)) then (None, it)
      else (Some \<lparr>xe_frame = xi_frame it, xe_index = xi_next_index it\<rparr>,
            it\<lparr>xi_next_index := xi_next_index it + 1\<rparr>))"

definition iter_size_hint :: "explorer_element_iter \<Rightarrow> nat \<times> nat option" where
  "iter_size_hint it =
     (let remaining = length (elements (xi_frame it)) - xi_next_index it in (remaining, Some remaining))"

definition xe_element :: "explorer_element \<Rightarrow> information_element option" where
  "xe_element x = nth_get (elements (xe_frame x)) (xe_index x)"

definition standards_reference :: "explorer_element \<Rightarrow> standards_element_reference option" where
  "standards_reference x =
     map_option (\<lambda>e. Ieee80211ElementIdentifier (ie_id e) (ie_extension_id e)) (xe_element x)"

definition raw_bytes :: "explorer_element \<Rightarrow> u8 list option" where
  "raw_bytes x =
     Option.bind (xe_element x) (\<lambda>e.
       slice_get (raw_mpdu (xe_frame x)) (unat (ie_offset e))
         (unat (ie_payload_offset e) + length (ie_payload e)))"

definition raw_payload :: "explorer_element \<Rightarrow> u8 list option" where
  "raw_payload x = map_option ie_payload (xe_element x)"

definition xe_decoded :: "explorer_element \<Rightarrow> element_decode option" where
  "xe_decoded x = map_option ie_decoded (xe_element x)"

definition is_unrecognized_by_decoder :: "explorer_element \<Rightarrow> bool option" where
  "is_unrecognized_by_decoder x = map_option (\<lambda>d. d = UnknownElement) (xe_decoded x)"

text \<open>\<open>slice::binary_search_by_key\<close>: the interval that may hold the key is halved until it is empty.\<close>

function binary_search_key :: "element_key \<Rightarrow> repeated_element list \<Rightarrow> nat \<Rightarrow> nat \<Rightarrow> nat option" where
  "binary_search_key key rs lo hi =
     (if lo < hi then
        let mid = lo + (hi - lo) div 2 in
        case nth_get rs mid of
          None \<Rightarrow> None
        | Some r \<Rightarrow>
            if rep_key r = key then Some mid
            else if rep_key r < key then binary_search_key key rs (mid + 1) hi
            else binary_search_key key rs lo mid
      else None)"
  by pat_completeness auto

termination
  by (relation "measure (\<lambda>(key, rs, lo, hi). hi - lo)") auto

declare binary_search_key.simps [simp del]

definition element_warnings_of :: "explorer_element \<Rightarrow> element_warnings option" where
  "element_warnings_of x =
     map_option (\<lambda>e.
       \<lparr>warn_malformed = (case ie_decoded e of Malformed problem \<Rightarrow> Some problem | _ \<Rightarrow> None),
        warn_repetition =
          (let rs = repeated_elements (xe_frame x)
           in map_option (\<lambda>i. rs ! i) (binary_search_key (element_key_of e) rs 0 (length rs)))\<rparr>)
       (xe_element x)"

definition is_contradictory :: "element_warnings \<Rightarrow> bool" where
  "is_contradictory w = (case warn_repetition w of None \<Rightarrow> False | Some r \<Rightarrow> contradictory r)"

definition has_warning :: "element_warnings \<Rightarrow> bool" where
  "has_warning w =
     (warn_malformed w \<noteq> None \<or>
      (case warn_repetition w of None \<Rightarrow> False | Some r \<Rightarrow> violates_singleton_cardinality r))"

section \<open>Occurrences and their heap sort\<close>

record element_occurrence =
  occ_key :: element_key
  occ_occurrence :: nat
  occ_index :: nat

datatype rust_ordering = OrdLess | OrdEqual | OrdGreater

definition cmp :: "'a::linorder \<Rightarrow> 'a \<Rightarrow> rust_ordering" where
  "cmp a b = (if a < b then OrdLess else if a = b then OrdEqual else OrdGreater)"

definition occurrence_order :: "element_occurrence \<Rightarrow> element_occurrence \<Rightarrow> rust_ordering" where
  "occurrence_order left right =
     (case cmp (occ_key left) (occ_key right) of
        OrdEqual \<Rightarrow> cmp (occ_occurrence left) (occ_occurrence right)
      | other \<Rightarrow> other)"

definition swap_at :: "'a list \<Rightarrow> nat \<Rightarrow> nat \<Rightarrow> 'a list option" where
  "swap_at xs i j = (if i < length xs \<and> j < length xs then Some (xs[i := xs ! j, j := xs ! i]) else None)"

text \<open>The child with the greater key, where there are two.\<close>

definition largest_child :: "element_occurrence list \<Rightarrow> nat \<Rightarrow> nat \<Rightarrow> (control, ie_error, nat) rsm" where
  "largest_child occurrences child heap_len =
     (if child + 1 < heap_len then
        bindR (ctl_charge 1) (\<lambda>_.
        bindR (ok_or (nth_get occurrences child) Panic) (\<lambda>a.
        bindR (ok_or (nth_get occurrences (child + 1)) Panic) (\<lambda>b.
        ret (if occurrence_order a b = OrdLess then child + 1 else child))))
      else ret child)"

lemma largest_child_range:
  "largest_child occs child h c = (Inr k, t) \<Longrightarrow> k = child \<or> k = child + 1 \<and> child + 1 < h"
  by (auto simp: largest_child_def bindR_Inr_iff split: if_splits option.splits)

function sift_occurrence_heap ::
    "element_occurrence list \<Rightarrow> nat \<Rightarrow> nat \<Rightarrow> (control, ie_error, element_occurrence list) rsm" where
  "sift_occurrence_heap occurrences root heap_len c =
     bindR (ok_or (Option.bind (checked_mul root 2) (\<lambda>value. checked_add value 1))
              (IeLimitExceeded ''work units'')) (\<lambda>child.
     if child \<ge> heap_len then ret occurrences
     else
       bindR (largest_child occurrences child heap_len) (\<lambda>largest.
       bindR (ctl_charge 1) (\<lambda>_.
       bindR (ok_or (nth_get occurrences root) Panic) (\<lambda>a.
       bindR (ok_or (nth_get occurrences largest) Panic) (\<lambda>b.
       if occurrence_order a b \<noteq> OrdLess then ret occurrences
       else
         bindR (ctl_charge 1) (\<lambda>_.
         bindR (ok_or (swap_at occurrences root largest) Panic) (\<lambda>occurrences'.
         sift_occurrence_heap occurrences' largest heap_len))))))) c"
  by pat_completeness auto

termination
  by (relation "measure (\<lambda>(occurrences, root, heap_len, c). heap_len - root)")
    (auto simp: Option.bind_eq_Some_conv dest!: largest_child_range split: if_splits option.splits)

declare sift_occurrence_heap.simps [simp del]

text \<open>\<open>for root in (0..occurrences.len() / 2).rev()\<close>\<close>

fun build_occurrence_heap :: "nat \<Rightarrow> element_occurrence list \<Rightarrow> (control, ie_error, element_occurrence list) rsm" where
  "build_occurrence_heap 0 occurrences = ret occurrences"
| "build_occurrence_heap (Suc root) occurrences =
     bindR (sift_occurrence_heap occurrences root (length occurrences)) (build_occurrence_heap root)"

text \<open>\<open>for end in (1..occurrences.len()).rev()\<close>\<close>

fun drain_occurrence_heap :: "nat \<Rightarrow> element_occurrence list \<Rightarrow> (control, ie_error, element_occurrence list) rsm" where
  "drain_occurrence_heap 0 occurrences = ret occurrences"
| "drain_occurrence_heap (Suc k) occurrences =
     bindR (ctl_charge 1) (\<lambda>_.
     bindR (ok_or (swap_at occurrences 0 (Suc k)) Panic) (\<lambda>occurrences'.
     bindR (sift_occurrence_heap occurrences' 0 (Suc k)) (drain_occurrence_heap k)))"

definition heap_sort_occurrences ::
    "element_occurrence list \<Rightarrow> (control, ie_error, element_occurrence list) rsm" where
  "heap_sort_occurrences occurrences =
     bindR (build_occurrence_heap (length occurrences div 2) occurrences) (\<lambda>heap.
     drain_occurrence_heap (length heap - 1) heap)"

section \<open>The difference of two frames\<close>

fun index_loop ::
    "information_element list \<Rightarrow> nat \<Rightarrow> nat \<Rightarrow> nat list \<Rightarrow> element_occurrence list
       \<Rightarrow> (control, ie_error, element_occurrence list) rsm" where
  "index_loop [] index total_payload counts occurrences = ret occurrences"
| "index_loop (element # rest) index total_payload counts occurrences =
     bindR (ctl_charge 1) (\<lambda>_.
     bindR (ok_or (checked_add total_payload (length (ie_payload element)))
              (IeLimitExceeded ''IE payload bytes'')) (\<lambda>tot c.
     bindR (guardR (tot \<le> max_ie_payload_bytes (ctl_limits c)) (IeLimitExceeded ''IE payload bytes'')) (\<lambda>_.
     case element_slot (element_key_of element) (ie_offset element) of
       Inl e \<Rightarrow> fail e
     | Inr slot \<Rightarrow>
         bindR (ok_or (nth_get counts slot) Panic) (\<lambda>occurrence.
         bindR (ok_or (checked_add occurrence 1) (IeLimitExceeded ''element count'')) (\<lambda>n.
         index_loop rest (index + 1) tot (counts[slot := n])
           (occurrences @ [\<lparr>occ_key = element_key_of element, occ_occurrence = occurrence,
                            occ_index = index\<rparr>])))) c))"

definition index_occurrences ::
    "rust_layout \<Rightarrow> management_frame \<Rightarrow> (control, ie_error, element_occurrence list) rsm" where
  "index_occurrences ly frame c =
     bindR (guardR (length (raw_mpdu frame) \<le> max_frame_bytes (ctl_limits c)) (IeLimitExceeded ''frame bytes'')) (\<lambda>_ c.
     bindR (guardR (length (elements frame) \<le> max_elements (ctl_limits c)) (IeLimitExceeded ''element count'')) (\<lambda>_.
     bindR (ok_or (checked_mul (length (elements frame)) (size_ElementOccurrence ly))
              (IeLimitExceeded ''allocation bytes'')) (\<lambda>n.
     bindR (ctl_allocate n) (\<lambda>_.
     bindR (index_loop (elements frame) 0 0 (replicate 511 0) []) heap_sort_occurrences))) c) c"

fun sequence_loop ::
    "(information_element \<times> information_element) list \<Rightarrow> (control, ie_error, bool) rsm" where
  "sequence_loop [] = ret False"
| "sequence_loop ((before, after) # rest) =
     bindR (ctl_charge (max (max (length (ie_payload before)) (length (ie_payload after))) 1)) (\<lambda>_.
     if ie_id before \<noteq> ie_id after \<or> ie_payload before \<noteq> ie_payload after then ret True
     else sequence_loop rest)"

definition ordered_ie_sequence_changed ::
    "management_frame \<Rightarrow> management_frame \<Rightarrow> (control, ie_error, bool) rsm" where
  "ordered_ie_sequence_changed before after =
     (if length (elements before) \<noteq> length (elements after) then ret True
      else sequence_loop (zip (elements before) (elements after)))"

datatype element_change_kind = Added | Removed | Modified

record element_change =
  change_kind :: element_change_kind
  change_occurrence :: nat
  change_before :: "explorer_element option"
  change_after :: "explorer_element option"

record information_element_diff =
  diff_changes :: "element_change list"
  diff_subtype_changed :: bool
  diff_wire_ie_sequence_changed :: bool

definition diff_is_empty :: "information_element_diff \<Rightarrow> bool" where
  "diff_is_empty d \<longleftrightarrow> diff_changes d = []"

definition removed_change :: "management_frame \<Rightarrow> element_occurrence \<Rightarrow> element_change" where
  "removed_change before o' =
     \<lparr>change_kind = Removed, change_occurrence = occ_occurrence o',
      change_before = Some \<lparr>xe_frame = before, xe_index = occ_index o'\<rparr>, change_after = None\<rparr>"

definition added_change :: "management_frame \<Rightarrow> element_occurrence \<Rightarrow> element_change" where
  "added_change after o' =
     \<lparr>change_kind = Added, change_occurrence = occ_occurrence o',
      change_before = None, change_after = Some \<lparr>xe_frame = after, xe_index = occ_index o'\<rparr>\<rparr>"

definition modified_change ::
    "management_frame \<Rightarrow> management_frame \<Rightarrow> element_occurrence \<Rightarrow> element_occurrence \<Rightarrow> element_change" where
  "modified_change before after b a =
     \<lparr>change_kind = Modified, change_occurrence = occ_occurrence b,
      change_before = Some \<lparr>xe_frame = before, xe_index = occ_index b\<rparr>,
      change_after = Some \<lparr>xe_frame = after, xe_index = occ_index a\<rparr>\<rparr>"

text \<open>The two remaining lists stand for the two indices into the occurrences.\<close>

function diff_loop ::
    "management_frame \<Rightarrow> management_frame \<Rightarrow> element_occurrence list \<Rightarrow> element_occurrence list
       \<Rightarrow> element_change list \<Rightarrow> (control, ie_error, element_change list) rsm" where
  "diff_loop before after [] [] changes = ret changes"
| "diff_loop before after (b # bs) [] changes =
     bindR (ctl_charge 1) (\<lambda>_. diff_loop before after bs [] (changes @ [removed_change before b]))"
| "diff_loop before after [] (a # as) changes =
     bindR (ctl_charge 1) (\<lambda>_. diff_loop before after [] as (changes @ [added_change after a]))"
| "diff_loop before after (b # bs) (a # as) changes =
     bindR (ctl_charge 1) (\<lambda>_.
     case occurrence_order b a of
       OrdLess \<Rightarrow> diff_loop before after bs (a # as) (changes @ [removed_change before b])
     | OrdGreater \<Rightarrow> diff_loop before after (b # bs) as (changes @ [added_change after a])
     | OrdEqual \<Rightarrow>
         bindR (ok_or (nth_get (elements before) (occ_index b)) Panic) (\<lambda>be.
         bindR (ok_or (nth_get (elements after) (occ_index a)) Panic) (\<lambda>ae.
         bindR (ctl_charge (max (max (length (ie_payload be)) (length (ie_payload ae))) 1)) (\<lambda>_.
         diff_loop before after bs as
           (if ie_payload be \<noteq> ie_payload ae then changes @ [modified_change before after b a] else changes)))))"
  by pat_completeness auto

termination
  by (relation "measure (\<lambda>(before, after, bs, as, changes). length bs + length as)") auto

definition diff_controlled ::
    "rust_layout \<Rightarrow> management_frame \<Rightarrow> management_frame \<Rightarrow> (control, ie_error, information_element_diff) rsm" where
  "diff_controlled ly before after =
     bindR (index_occurrences ly before) (\<lambda>before_occurrences.
     bindR (index_occurrences ly after) (\<lambda>after_occurrences.
     bindR (ordered_ie_sequence_changed before after) (\<lambda>wire_ie_sequence_changed.
     bindR (ok_or (checked_add (length before_occurrences) (length after_occurrences))
              (IeLimitExceeded ''element count'')) (\<lambda>max_changes.
     bindR (ok_or (checked_mul max_changes (size_ElementChange ly))
              (IeLimitExceeded ''allocation bytes'')) (\<lambda>n.
     bindR (ctl_allocate n) (\<lambda>_.
     bindR (diff_loop before after before_occurrences after_occurrences []) (\<lambda>changes.
     ret \<lparr>diff_changes = changes, diff_subtype_changed = (subtype before \<noteq> subtype after),
          diff_wire_ie_sequence_changed = wire_ie_sequence_changed\<rparr>)))))))"

definition diff_information_elements_with_usage ::
    "rust_layout \<Rightarrow> management_frame \<Rightarrow> management_frame \<Rightarrow> parse_limits \<Rightarrow> (nat \<Rightarrow> bool)
       \<Rightarrow> ie_error + information_element_diff \<times> ie_resource_usage" where
  "diff_information_elements_with_usage ly before after limits canc =
     (case diff_controlled ly before after (control_new limits canc) of
        (Inl e, _) \<Rightarrow> Inl e
      | (Inr d, c) \<Rightarrow> Inr (d, ctl_usage c))"

definition diff_information_elements ::
    "rust_layout \<Rightarrow> management_frame \<Rightarrow> management_frame \<Rightarrow> ie_error + information_element_diff" where
  "diff_information_elements ly before after =
     map_sum id fst (diff_information_elements_with_usage ly before after parse_limits_default ie_never_cancel)"


section \<open>The heap sort sorts\<close>

definition occ_rank :: "element_occurrence \<Rightarrow> element_key \<times> nat" where
  "occ_rank o' = (occ_key o', occ_occurrence o')"

lemma occurrence_order_iff:
  "occurrence_order a b = OrdLess \<longleftrightarrow> occ_rank a < occ_rank b"
  "occurrence_order a b = OrdEqual \<longleftrightarrow> occ_rank a = occ_rank b"
  "occurrence_order a b = OrdGreater \<longleftrightarrow> occ_rank b < occ_rank a"
  by (auto simp: occurrence_order_def occ_rank_def cmp_def less_prod_def' split: rust_ordering.splits if_splits)

abbreviation rank_at :: "element_occurrence list \<Rightarrow> nat \<Rightarrow> element_key \<times> nat" where
  "rank_at xs i \<equiv> occ_rank (xs ! i)"

abbreviation parent_of :: "nat \<Rightarrow> nat" where
  "parent_of j \<equiv> (j - 1) div 2"

text \<open>
  The positions from \<open>l\<close> below \<open>h\<close> form a heap, except that the children of \<open>r\<close> may exceed it; those
  are then bounded by the parent of \<open>r\<close>.
\<close>

definition heap_except :: "element_occurrence list \<Rightarrow> nat \<Rightarrow> nat \<Rightarrow> nat \<Rightarrow> bool" where
  "heap_except xs l h r \<longleftrightarrow>
     (\<forall>j. 0 < j \<longrightarrow> j < h \<longrightarrow> l \<le> parent_of j \<longrightarrow> parent_of j \<noteq> r \<longrightarrow> rank_at xs j \<le> rank_at xs (parent_of j)) \<and>
     (\<forall>j. 0 < j \<longrightarrow> j < h \<longrightarrow> parent_of j = r \<longrightarrow> 0 < r \<longrightarrow> l \<le> parent_of r \<longrightarrow>
        rank_at xs j \<le> rank_at xs (parent_of r))"

definition is_heap :: "element_occurrence list \<Rightarrow> nat \<Rightarrow> nat \<Rightarrow> bool" where
  "is_heap xs l h \<longleftrightarrow>
     (\<forall>j. 0 < j \<longrightarrow> j < h \<longrightarrow> l \<le> parent_of j \<longrightarrow> rank_at xs j \<le> rank_at xs (parent_of j))"

lemma parent_of_iff: "0 < j \<Longrightarrow> parent_of j = r \<longleftrightarrow> j = 2 * r + 1 \<or> j = 2 * r + 2"
  by linarith

lemma heap_except_swap:
  assumes he: "heap_except xs l h r" and lr: "l \<le> r" and k: "k = 2 * r + 1 \<or> k = 2 * r + 2" "k < h" "h \<le> length xs"
    and less: "rank_at xs r < rank_at xs k"
    and max: "\<And>j. 0 < j \<Longrightarrow> j < h \<Longrightarrow> parent_of j = r \<Longrightarrow> rank_at xs j \<le> rank_at xs k"
  shows "heap_except (xs[r := xs ! k, k := xs ! r]) l h k"
proof -
  let ?ys = "xs[r := xs ! k, k := xs ! r]"
  have rk: "r < k" "r < length xs" "k < length xs" "parent_of k = r" "0 < k" using k by auto
  have ys: "rank_at ?ys i = (if i = k then rank_at xs r else if i = r then rank_at xs k else rank_at xs i)" for i
    using rk by (simp add: nth_list_update)
  have H: "\<And>j. 0 < j \<Longrightarrow> j < h \<Longrightarrow> l \<le> parent_of j \<Longrightarrow> parent_of j \<noteq> r \<Longrightarrow> rank_at xs j \<le> rank_at xs (parent_of j)"
    and S: "\<And>j. 0 < j \<Longrightarrow> j < h \<Longrightarrow> parent_of j = r \<Longrightarrow> 0 < r \<Longrightarrow> l \<le> parent_of r \<Longrightarrow> rank_at xs j \<le> rank_at xs (parent_of r)"
    using he unfolding heap_except_def by blast+
  show ?thesis
    unfolding heap_except_def
  proof (intro conjI allI impI)
    fix j assume j: "0 < j" "j < h" "l \<le> parent_of j" "parent_of j \<noteq> k"
    consider "j = k" | "j = r" | "j \<noteq> k" "j \<noteq> r" "parent_of j = r" | "j \<noteq> k" "j \<noteq> r" "parent_of j \<noteq> r" by blast
    then show "rank_at ?ys j \<le> rank_at ?ys (parent_of j)"
    proof cases
      case 1
      then show ?thesis using less rk by (simp add: ys)
    next
      case 2
      then have "parent_of r \<noteq> r" "parent_of r \<noteq> k" using j rk by linarith+
      then show ?thesis using S [of k] 2 j rk k(2) by (simp add: ys)
    next
      case 3
      then show ?thesis using max [of j] j rk(1) unfolding ys by simp
    next
      case 4
      then show ?thesis using H [of j] j unfolding ys by simp
    qed
  next
    fix j assume j: "0 < j" "j < h" "parent_of j = k" "0 < k" "l \<le> parent_of k"
    then have "j \<noteq> k" "j \<noteq> r" using rk by linarith+
    then show "rank_at ?ys j \<le> rank_at ?ys (parent_of k)"
      using H [of j] j lr rk by (simp add: ys)
  qed
qed

lemma heap_except_done:
  "heap_except xs l h r \<Longrightarrow>
     (\<And>j. 0 < j \<Longrightarrow> j < h \<Longrightarrow> parent_of j = r \<Longrightarrow> rank_at xs j \<le> rank_at xs r) \<Longrightarrow> is_heap xs l h"
  unfolding heap_except_def is_heap_def by metis

lemma yields_largest_child:
  assumes "child < h" "h \<le> length xs"
  shows "yields (largest_child xs child h) (\<lambda>k. (k = child \<or> k = child + 1) \<and> k < h \<and>
    rank_at xs child \<le> rank_at xs k \<and> (child + 1 < h \<longrightarrow> rank_at xs (child + 1) \<le> rank_at xs k))"
  using assms unfolding largest_child_def
  by (intro yields_rules) (auto simp: occurrence_order_iff intro!: yields_rules)

text \<open>What sifting leaves alone: the multiset below the heap length, and everything from there on.\<close>

definition rearranged :: "nat \<Rightarrow> 'a list \<Rightarrow> 'a list \<Rightarrow> bool" where
  "rearranged h xs ys \<longleftrightarrow> mset (take h ys) = mset (take h xs) \<and> drop h ys = drop h xs"

lemma rearranged_refl [simp]: "rearranged h xs xs"
  by (simp add: rearranged_def)

lemma rearranged_trans: "rearranged h xs ys \<Longrightarrow> rearranged h ys zs \<Longrightarrow> rearranged h xs zs"
  by (simp add: rearranged_def)

lemma rearranged_length:
  assumes "rearranged h xs ys"
  shows "length ys = length xs" "mset ys = mset xs"
proof -
  have "mset (take h ys @ drop h ys) = mset (take h xs @ drop h xs)"
    using assms unfolding rearranged_def mset_append by simp
  then show "mset ys = mset xs" by simp
  then show "length ys = length xs" by (metis size_mset)
qed

lemma rearranged_swap:
  "i < h \<Longrightarrow> j < h \<Longrightarrow> h \<le> length xs \<Longrightarrow> rearranged h xs (xs[i := xs ! j, j := xs ! i])"
  using mset_swap [of j "take h xs" i] by (simp add: rearranged_def take_update_swap)

lemma sift_unfold:
  "sift_occurrence_heap xs root h =
     bindR (ok_or (Option.bind (checked_mul root 2) (\<lambda>value. checked_add value 1))
              (IeLimitExceeded ''work units'')) (\<lambda>child.
     if child \<ge> h then ret xs
     else
       bindR (largest_child xs child h) (\<lambda>largest.
       bindR (ctl_charge 1) (\<lambda>_.
       bindR (ok_or (nth_get xs root) Panic) (\<lambda>a.
       bindR (ok_or (nth_get xs largest) Panic) (\<lambda>b.
       if occurrence_order a b \<noteq> OrdLess then ret xs
       else
         bindR (ctl_charge 1) (\<lambda>_.
         bindR (ok_or (swap_at xs root largest) Panic) (\<lambda>xs'.
         sift_occurrence_heap xs' largest h)))))))"
  by (rule ext) (rule sift_occurrence_heap.simps)


lemma yields_sift:
  assumes "heap_except xs l h r" "l \<le> r" "r < h" "h \<le> length xs"
  shows "yields (sift_occurrence_heap xs r h) (\<lambda>ys. is_heap ys l h \<and> rearranged h xs ys)"
  using assms
proof (induction "h - r" arbitrary: xs r rule: less_induct)
  case less
  let ?child = "2 * r + 1"
  have len: "r < length xs" using less.prems by simp
  show ?case
  proof (cases "h \<le> ?child")
    case True
    have "is_heap xs l h"
      by (rule heap_except_done [OF less.prems(1)]) (use True in \<open>auto simp: parent_of_iff\<close>)
    with True show ?thesis
      by (subst sift_unfold) (auto simp: Option.bind_eq_Some_conv mult.commute intro!: yields_rules)
  next
    case False
    have step: "yields (if occurrence_order (xs ! r) (xs ! k) \<noteq> OrdLess then ret xs
         else bindR (ctl_charge 1) (\<lambda>_. bindR (ok_or (swap_at xs r k) Panic) (\<lambda>xs'. sift_occurrence_heap xs' k h)))
         (\<lambda>ys. is_heap ys l h \<and> rearranged h xs ys)"
      if k: "k = ?child \<or> k = ?child + 1" "k < h" "rank_at xs ?child \<le> rank_at xs k"
        "?child + 1 < h \<longrightarrow> rank_at xs (?child + 1) \<le> rank_at xs k" for k
    proof -
      have max: "rank_at xs j \<le> rank_at xs k" if "0 < j" "j < h" "parent_of j = r" for j
        using that k(3,4) parent_of_iff [OF that(1), of r] by auto
      have sw: "swap_at xs r k = Some (xs[r := xs ! k, k := xs ! r])"
        using k(2) less.prems by (simp add: swap_at_def)
      have stop: "is_heap xs l h" if "\<not> rank_at xs r < rank_at xs k"
        by (rule heap_except_done [OF less.prems(1)], drule max) (use that in auto)
      have go: "yields (sift_occurrence_heap (xs[r := xs ! k, k := xs ! r]) k h) (\<lambda>ys. is_heap ys l h \<and> rearranged h xs ys)"
        if "rank_at xs r < rank_at xs k"
      proof (rule yields_mono [OF less.hyps])
        show "heap_except (xs[r := xs ! k, k := xs ! r]) l h k"
          by (rule heap_except_swap [OF less.prems(1,2) _ k(2) less.prems(4) that max]) (use k(1) in auto)
        show "h - k < h - r" "l \<le> k" "k < h" "h \<le> length (xs[r := xs ! k, k := xs ! r])"
          using k less.prems by auto
        fix ys assume "is_heap ys l h \<and> rearranged h (xs[r := xs ! k, k := xs ! r]) ys"
        then show "is_heap ys l h \<and> rearranged h xs ys"
          using rearranged_trans [OF rearranged_swap [of r h k xs]] k(2) less.prems by blast
      qed
      show ?thesis
        using stop go by (auto simp: occurrence_order_iff sw intro!: yields_rules)
    qed
    have kids: "yields (largest_child xs ?child h) (\<lambda>k. (k = ?child \<or> k = ?child + 1) \<and> k < h \<and>
        rank_at xs ?child \<le> rank_at xs k \<and> (?child + 1 < h \<longrightarrow> rank_at xs (?child + 1) \<le> rank_at xs k))"
      using False less.prems by (intro yields_largest_child) auto
    show ?thesis
    proof (subst sift_unfold, rule yields_bind_ok_or)
      fix child assume "Option.bind (checked_mul r 2) (\<lambda>value. checked_add value 1) = Some child"
      then have child: "child = ?child" by (auto simp: Option.bind_eq_Some_conv mult.commute)
      show "yields (if h \<le> child then ret xs
          else bindR (largest_child xs child h) (\<lambda>largest. bindR (ctl_charge 1) (\<lambda>_.
            bindR (ok_or (nth_get xs r) Panic) (\<lambda>a. bindR (ok_or (nth_get xs largest) Panic) (\<lambda>b.
            if occurrence_order a b \<noteq> OrdLess then ret xs
            else bindR (ctl_charge 1) (\<lambda>_. bindR (ok_or (swap_at xs r largest) Panic)
              (\<lambda>xs'. sift_occurrence_heap xs' largest h))))))) (\<lambda>ys. is_heap ys l h \<and> rearranged h xs ys)"
        unfolding child if_not_P [OF False]
      proof (rule yields_bind [OF kids], rule yields_bind_charge, rule yields_bind_ok_or, goal_cases)
        case (2 k a)
        then show ?case
          using less.prems(4) step [of k] by (intro yields_bind_ok_or) auto
      qed (use len in auto)
    qed simp
  qed
qed

lemma yields_build_heap:
  assumes "is_heap xs root (length xs)" "2 * root \<le> length xs"
  shows "yields (build_occurrence_heap root xs) (\<lambda>ys. is_heap ys 0 (length xs) \<and> rearranged (length xs) xs ys)"
  using assms
proof (induction root arbitrary: xs)
  case 0
  then show ?case by (auto intro!: yields_rules)
next
  case (Suc root)
  have he: "heap_except xs root (length xs) root"
    using Suc.prems(1) unfolding heap_except_def is_heap_def by (auto simp: le_Suc_eq)
  show ?case
    unfolding build_occurrence_heap.simps
  proof (rule yields_bind [OF yields_sift [OF he]])
    fix ys assume ys: "is_heap ys root (length xs) \<and> rearranged (length xs) xs ys"
    then have len: "length ys = length xs" using rearranged_length by blast
    with ys Suc.prems(2) Suc.IH [of ys] show "yields (build_occurrence_heap root ys)
        (\<lambda>ys. is_heap ys 0 (length xs) \<and> rearranged (length xs) xs ys)"
      by (auto elim!: yields_mono intro: rearranged_trans)
  qed (use Suc.prems in auto)
qed

lemma heap_root_max: "is_heap xs 0 h \<Longrightarrow> j < h \<Longrightarrow> rank_at xs j \<le> rank_at xs 0"
proof (induction j rule: less_induct)
  case (less j)
  show ?case
  proof (cases "j = 0")
    case False
    then have "rank_at xs j \<le> rank_at xs (parent_of j)" using less.prems by (simp add: is_heap_def)
    also have "\<dots> \<le> rank_at xs 0" using less False by (intro less.IH) linarith+
    finally show ?thesis .
  qed simp
qed

text \<open>The part already sorted, above a heap of smaller elements.\<close>

definition drained :: "nat \<Rightarrow> element_occurrence list \<Rightarrow> bool" where
  "drained h xs \<longleftrightarrow> is_heap xs 0 h \<and> sorted (map occ_rank (drop h xs)) \<and>
     (\<forall>i < h. \<forall>x \<in> set (drop h xs). rank_at xs i \<le> occ_rank x)"

lemma drained_step:
  assumes dr: "drained (Suc (Suc k)) xs" and k: "Suc k < length xs"
    and ys: "is_heap ys 0 (Suc k)" "rearranged (Suc k) (xs[0 := xs ! Suc k, Suc k := xs ! 0]) ys"
  shows "drained (Suc k) ys"
proof -
  let ?h = "Suc k"
  let ?zs = "xs[0 := xs ! ?h, ?h := xs ! 0]"
  have dz: "drop ?h ys = xs ! 0 # drop (Suc ?h) xs"
    using ys(2) k by (simp add: rearranged_def drop_update_cancel Cons_nth_drop_Suc [symmetric, of ?h ?zs])
  have max: "rank_at xs j \<le> rank_at xs 0" if "j < Suc ?h" for j
    using heap_root_max [of xs "Suc ?h" j] dr that by (simp add: drained_def)
  have low: "occ_rank x \<le> rank_at xs 0" if "x \<in> set (take ?h ys)" for x
  proof -
    have "x \<in> set (take ?h ?zs)" using that ys(2) by (metis rearranged_def set_mset_mset)
    then obtain i where "i < ?h" "x = ?zs ! i" using k by (auto simp: in_set_conv_nth)
    moreover have "xs \<noteq> []" using k by auto
    ultimately show ?thesis using max k by (cases i) (auto simp: nth_list_update)
  qed
  have top: "rank_at xs 0 \<le> occ_rank x" if "x \<in> set (drop (Suc ?h) xs)" for x
    using dr that by (auto simp: drained_def)
  have mem: "ys ! i \<in> set (take ?h ys)" if "i < ?h" for i
    using that k rearranged_length(1) [OF ys(2)] by (auto simp: in_set_conv_nth intro!: exI [of _ i])
  show ?thesis
    unfolding drained_def dz
  proof (intro conjI allI impI ballI)
    show "sorted (map occ_rank (xs ! 0 # drop (Suc ?h) xs))" using dr top by (auto simp: drained_def)
    fix i x assume "i < ?h" "x \<in> set (xs ! 0 # drop (Suc ?h) xs)"
    then show "rank_at ys i \<le> occ_rank x" using low [OF mem] top order_trans by fastforce
  qed (rule ys(1))
qed

lemma yields_drain_heap:
  assumes "drained (Suc k) xs" "k < length xs"
  shows "yields (drain_occurrence_heap k xs) (\<lambda>ys. sorted (map occ_rank ys) \<and> mset ys = mset xs)"
  using assms
proof (induction k arbitrary: xs)
  case 0
  then obtain x rest where xs: "xs = x # rest" by (cases xs) auto
  with 0 have "sorted (map occ_rank xs)" by (auto simp: drained_def)
  then show ?case by (auto intro!: yields_rules)
next
  case (Suc k)
  let ?zs = "xs[0 := xs ! Suc k, Suc k := xs ! 0]"
  have sw: "swap_at xs 0 (Suc k) = Some ?zs" using Suc.prems(2) by (auto simp: swap_at_def)
  have he: "heap_except ?zs 0 (Suc k) 0"
    using Suc.prems unfolding heap_except_def drained_def is_heap_def
    by (auto simp: nth_list_update)
  show ?case
    unfolding drain_occurrence_heap.simps sw
  proof (intro yields_rules, simp, clarify)
    show "yields (bindR (sift_occurrence_heap ?zs 0 (Suc k)) (drain_occurrence_heap k))
        (\<lambda>ys. sorted (map occ_rank ys) \<and> mset ys = mset xs)"
    proof (rule yields_bind [OF yields_sift [OF he]])
      fix ys assume ys: "is_heap ys 0 (Suc k) \<and> rearranged (Suc k) ?zs ys"
      have "drained (Suc k) ys" using drained_step [OF Suc.prems] ys by blast
      moreover have "xs \<noteq> []" using Suc.prems(2) by auto
      then have "k < length ys" "mset ys = mset xs"
        using rearranged_length [of "Suc k" ?zs ys] ys Suc.prems(2) mset_swap [of "Suc k" xs 0] by auto
      ultimately show "yields (drain_occurrence_heap k ys) (\<lambda>ys. sorted (map occ_rank ys) \<and> mset ys = mset xs)"
        using Suc.IH [of ys] by simp
    qed (use Suc.prems(2) in auto)
  qed
qed

lemma yields_heap_sort:
  "yields (heap_sort_occurrences xs) (\<lambda>ys. sorted (map occ_rank ys) \<and> mset ys = mset xs)"
  unfolding heap_sort_occurrences_def
proof (rule yields_bind [OF yields_build_heap])
  show "is_heap xs (length xs div 2) (length xs)" unfolding is_heap_def by auto
  fix ys assume ys: "is_heap ys 0 (length xs) \<and> rearranged (length xs) xs ys"
  then have len: "length ys = length xs" "mset ys = mset xs" using rearranged_length by blast+
  show "yields (drain_occurrence_heap (length ys - 1) ys) (\<lambda>zs. sorted (map occ_rank zs) \<and> mset zs = mset xs)"
  proof (cases "ys = []")
    case True
    then show ?thesis using len(2) by (auto intro!: yields_rules)
  next
    case False
    then have "Suc (length ys - 1) = length ys" by simp
    then show ?thesis
      using ys len False yields_drain_heap [of "length ys - 1" ys] by (simp add: drained_def)
  qed
qed simp

end
