(* ===== verification/Ieee80211_Diff.thy ===== *)
theory Ieee80211_Diff
  imports Ieee80211_Explorer
begin

text \<open>
  What the comparison of two frames returns: the changes of the multiset of occurrences, in the order
  of keys and occurrence numbers (\<open>diff_information_elements\<close> of \<open>crates/ieee80211/src/lib.rs\<close>).
\<close>

section \<open>The occurrences of a frame\<close>

definition occ_at :: "information_element list \<Rightarrow> nat \<Rightarrow> element_occurrence" where
  "occ_at es i = \<lparr>occ_key = element_key_of (es ! i),
     occ_occurrence = length (positions_upto es i (element_key_of (es ! i))), occ_index = i\<rparr>"

definition keys_wf :: "management_frame \<Rightarrow> bool" where
  "keys_wf frame \<longleftrightarrow> (\<forall>e \<in> set (elements frame). key_wf (element_key_of e))"

lemma implements_index_loop:
  assumes wf: "\<And>e. e \<in> set all \<Longrightarrow> key_wf (element_key_of e)"
  shows "all = pre @ es \<Longrightarrow> length counts = 511 \<Longrightarrow>
    \<forall>k. key_wf k \<longrightarrow> counts ! slot_of k = length (positions_upto all (length pre) k) \<Longrightarrow>
    implements (index_loop es (length pre) tot counts (map (occ_at all) [0..<length pre]))
      (Some (map (occ_at all) [0..<length all]))"
proof (induction es arbitrary: pre tot counts)
  case Nil
  then show ?case by (simp add: implements_ret)
next
  case (Cons e es)
  let ?k = "element_key_of e" let ?s = "slot_of ?k"
  have e: "all ! length pre = e" "key_wf ?k" using Cons.prems(1) wf by simp_all
  have slot: "element_slot ?k (ie_offset e) = Inr ?s" by (rule element_slot_wf [OF e(2)])
  have cnt: "nth_get counts ?s = Some (length (positions_upto all (length pre) ?k))"
    using Cons.prems(2,3) e slot_of_lt [of ?k] by simp
  have next_counts: "\<forall>k. key_wf k \<longrightarrow>
      counts[?s := length (positions_upto all (length pre) ?k) + 1] ! slot_of k =
        length (positions_upto all (length (pre @ [e])) k)"
    using Cons.prems(2,3) e slot_of_lt slot_key_slot_of
    by (auto simp: positions_upto_Suc nth_list_update) (metis slot_key_slot_of)
  have occ: "\<lparr>occ_key = ?k, occ_occurrence = length (positions_upto all (length pre) ?k), occ_index = length pre\<rparr> =
      occ_at all (length pre)" using e by (simp add: occ_at_def)
  have IH: "implements (index_loop es (length pre + 1) tot'
      (counts[?s := length (positions_upto all (length pre) ?k) + 1])
      (map (occ_at all) [0..<length pre] @ [occ_at all (length pre)])) (Some (map (occ_at all) [0..<length all]))" for tot'
    using Cons.IH [of "pre @ [e]" "counts[?s := length (positions_upto all (length pre) ?k) + 1]" tot']
      Cons.prems(1,2) next_counts by simp
  show ?case
    unfolding index_loop.simps slot cnt sum.case bindR_ok_or_Some occ
    by (intro implements_bind_charge implements_bind_ok_or implements_guard_limits) (use IH in auto)
qed

lemma positions_upto_length_le: "i \<le> j \<Longrightarrow> length (positions_upto es i k) \<le> length (positions_upto es j k)"
  using upt_add_eq_append [of 0 i "j - i"] by (simp add: positions_upto_def)

lemma occ_rank_inj: "inj_on (\<lambda>i. occ_rank (occ_at es i)) {0..<n}"
proof (rule inj_onI)
  have less: False if "i < j" "occ_rank (occ_at es i) = occ_rank (occ_at es j)" for i j
  proof -
    have "length (positions_upto es (Suc i) (element_key_of (es ! j))) \<le> length (positions_upto es j (element_key_of (es ! j)))"
      using that(1) by (intro positions_upto_length_le) simp
    moreover from that(2) have key: "element_key_of (es ! i) = element_key_of (es ! j)"
      by (simp add: occ_rank_def occ_at_def)
    moreover from that(2) have "length (positions_upto es i (element_key_of (es ! j))) =
        length (positions_upto es j (element_key_of (es ! j)))"
      by (auto simp: occ_rank_def occ_at_def)
    ultimately show False by (simp add: positions_upto_Suc)
  qed
  fix i j assume "occ_rank (occ_at es i) = occ_rank (occ_at es j)"
  then show "i = j" using less [of i j] less [of j i] by (metis linorder_neqE_nat)
qed

definition occurrences_of :: "management_frame \<Rightarrow> element_occurrence list" where
  "occurrences_of frame = sort_key occ_rank (map (occ_at (elements frame)) [0..<length (elements frame)])"

lemma implements_index_occurrences:
  assumes "keys_wf frame"
  shows "implements (index_occurrences ly frame) (Some (occurrences_of frame))"
proof -
  let ?os = "map (occ_at (elements frame)) [0..<length (elements frame)]"
  have loop: "implements (index_loop (elements frame) 0 0 (replicate 511 0) []) (Some ?os)"
    using assms implements_index_loop [of "elements frame" "[]" "elements frame" "replicate 511 0" 0]
    by (auto simp: keys_wf_def positions_upto_def slot_of_lt)
  have inj: "inj_on occ_rank (set ?os)"
    using occ_rank_inj [of "elements frame" "length (elements frame)"] by (auto simp: inj_on_def)
  have "implements (heap_sort_occurrences ?os) (Some (occurrences_of frame))"
    unfolding occurrences_of_def
    by (rule yields_implements, rule yields_mono [OF yields_heap_sort], rule sym, rule sort_key_inj_key_eq [OF _ inj])
      simp_all
  then show ?thesis
    unfolding index_occurrences_def
    by (intro implements_guard_limits implements_bind_ok_or implements_bind_allocate implements_bind_Some [OF loop]) auto
qed


section \<open>The changes\<close>

text \<open>The specification: what happened to occurrence \<open>n\<close> of key \<open>k\<close>, read off the positions of the key.\<close>

abbreviation key_positions :: "management_frame \<Rightarrow> element_key \<Rightarrow> nat list" where
  "key_positions frame \<equiv> positions_upto (elements frame) (length (elements frame))"

definition change_at ::
    "management_frame \<Rightarrow> management_frame \<Rightarrow> element_key \<times> nat \<Rightarrow> element_change option" where
  "change_at before after r =
     (case (nth_get (key_positions before (fst r)) (snd r), nth_get (key_positions after (fst r)) (snd r)) of
        (None, None) \<Rightarrow> None
      | (Some i, None) \<Rightarrow> Some (removed_change before \<lparr>occ_key = fst r, occ_occurrence = snd r, occ_index = i\<rparr>)
      | (None, Some j) \<Rightarrow> Some (added_change after \<lparr>occ_key = fst r, occ_occurrence = snd r, occ_index = j\<rparr>)
      | (Some i, Some j) \<Rightarrow>
          if ie_payload (elements before ! i) = ie_payload (elements after ! j) then None
          else Some (modified_change before after
                 \<lparr>occ_key = fst r, occ_occurrence = snd r, occ_index = i\<rparr>
                 \<lparr>occ_key = fst r, occ_occurrence = snd r, occ_index = j\<rparr>))"

definition occurrence_ranks :: "management_frame \<Rightarrow> (element_key \<times> nat) set" where
  "occurrence_ranks frame = {(k, n). n < length (key_positions frame k)}"

definition diff_spec :: "management_frame \<Rightarrow> management_frame \<Rightarrow> element_change list" where
  "diff_spec before after =
     List.map_filter (change_at before after)
       (sorted_list_of_set (occurrence_ranks before \<union> occurrence_ranks after))"

text \<open>The same comparison on lists of occurrences.\<close>

definition occ_find :: "element_occurrence list \<Rightarrow> element_key \<times> nat \<Rightarrow> element_occurrence option" where
  "occ_find os r = find (\<lambda>o'. occ_rank o' = r) os"

definition change_of ::
    "management_frame \<Rightarrow> management_frame \<Rightarrow> element_occurrence option \<Rightarrow> element_occurrence option \<Rightarrow> element_change option" where
  "change_of before after b a =
     (case (b, a) of
        (None, None) \<Rightarrow> None
      | (Some b, None) \<Rightarrow> Some (removed_change before b)
      | (None, Some a) \<Rightarrow> Some (added_change after a)
      | (Some b, Some a) \<Rightarrow>
          if ie_payload (elements before ! occ_index b) = ie_payload (elements after ! occ_index a) then None
          else Some (modified_change before after b a))"

definition merged_changes ::
    "management_frame \<Rightarrow> management_frame \<Rightarrow> element_occurrence list \<Rightarrow> element_occurrence list \<Rightarrow> element_change list" where
  "merged_changes before after bs as =
     List.map_filter (\<lambda>r. change_of before after (occ_find bs r) (occ_find as r))
       (sorted_list_of_set (occ_rank ` set bs \<union> occ_rank ` set as))"

lemma sorted_list_of_set_Cons:
  "finite A \<Longrightarrow> (\<And>y. y \<in> A \<Longrightarrow> x < y) \<Longrightarrow> sorted_list_of_set (insert x A) = x # sorted_list_of_set (A :: 'a::linorder set)"
  by (subst sorted_list_of_set.sorted_key_list_of_set_insert) (auto simp: insort_is_Cons less_imp_le)

lemma occ_find_Cons: "occ_find (b # bs) r = (if occ_rank b = r then Some b else occ_find bs r)"
  by (simp add: occ_find_def)

lemma occ_find_Nil [simp]: "occ_find [] r = None"
  by (simp add: occ_find_def)

lemma occ_find_absent: "(\<And>o'. o' \<in> set os \<Longrightarrow> r < occ_rank o') \<Longrightarrow> occ_find os r = None"
  by (auto simp: occ_find_def find_None_iff)

abbreviation ascending :: "element_occurrence list \<Rightarrow> bool" where
  "ascending os \<equiv> sorted_wrt (\<lambda>a b. occ_rank a < occ_rank b) os"

lemma map_filter_above:
  assumes "\<And>r. r \<in> A \<Longrightarrow> f r = g r" "finite A"
  shows "List.map_filter f (sorted_list_of_set A) = List.map_filter g (sorted_list_of_set (A :: (element_key \<times> nat) set))"
  using assms by (auto simp: List.map_filter_def intro!: map_cong filter_cong)

text \<open>The least rank is settled first; the rest is a smaller comparison.\<close>

lemma merged_changes_step:
  assumes "\<And>o'. o' \<in> set bs \<union> set as \<Longrightarrow> r < occ_rank o'"
    and "\<And>q. q \<noteq> r \<Longrightarrow> occ_find bs' q = occ_find bs q" "\<And>q. q \<noteq> r \<Longrightarrow> occ_find as' q = occ_find as q"
    and "occ_rank ` set bs' \<union> occ_rank ` set as' = insert r (occ_rank ` set bs \<union> occ_rank ` set as)"
  shows "merged_changes before after bs' as' =
    (case change_of before after (occ_find bs' r) (occ_find as' r) of None \<Rightarrow> [] | Some c \<Rightarrow> [c]) @
      merged_changes before after bs as"
proof -
  let ?A = "occ_rank ` set bs \<union> occ_rank ` set as"
  have "sorted_list_of_set (insert r ?A) = r # sorted_list_of_set ?A"
    using assms(1) by (intro sorted_list_of_set_Cons) auto
  moreover have "List.map_filter (\<lambda>q. change_of before after (occ_find bs' q) (occ_find as' q)) (sorted_list_of_set ?A) =
      List.map_filter (\<lambda>q. change_of before after (occ_find bs q) (occ_find as q)) (sorted_list_of_set ?A)"
  proof (rule map_filter_above)
    fix q assume "q \<in> ?A"
    then have "q \<noteq> r" using assms(1) by fastforce
    then show "change_of before after (occ_find bs' q) (occ_find as' q) = change_of before after (occ_find bs q) (occ_find as q)"
      using assms(2,3) by simp
  qed simp
  ultimately show ?thesis
    unfolding merged_changes_def assms(4) by (simp add: List.map_filter_simps split: option.splits)
qed

lemma implements_diff_loop:
  assumes "ascending bs" "ascending as"
    and "\<And>o'. o' \<in> set bs \<Longrightarrow> occ_index o' < length (elements before)"
    and "\<And>o'. o' \<in> set as \<Longrightarrow> occ_index o' < length (elements after)"
  shows "implements (diff_loop before after bs as changes) (Some (changes @ merged_changes before after bs as))"
  using assms
proof (induction "length bs + length as" arbitrary: bs as changes rule: less_induct)
  case less
  show ?case
  proof (cases bs; cases as)
    assume "bs = []" "as = []"
    then show ?thesis by (simp add: merged_changes_def List.map_filter_simps implements_ret)
  next
    fix b bs' assume bs: "bs = b # bs'" and as: "as = []"
    have "merged_changes before after bs [] = removed_change before b # merged_changes before after bs' []"
      using less.prems unfolding bs
      by (subst merged_changes_step [where r = "occ_rank b" and bs = bs' and as = "[]"])
        (auto simp: occ_find_Cons change_of_def)
    then show ?thesis
      using less.hyps [of bs' "[]" "changes @ [removed_change before b]"] less.prems unfolding as by (auto simp: bs intro!: implements_bind_charge)
  next
    fix a as' assume as: "as = a # as'" and bs: "bs = []"
    have "merged_changes before after [] as = added_change after a # merged_changes before after [] as'"
      using less.prems unfolding as
      by (subst merged_changes_step [where r = "occ_rank a" and bs = "[]" and as = as'])
        (auto simp: occ_find_Cons change_of_def)
    then show ?thesis
      using less.hyps [of "[]" as' "changes @ [added_change after a]"] less.prems unfolding bs by (auto simp: as intro!: implements_bind_charge)
  next
    fix b bs' a as' assume bs: "bs = b # bs'" and as: "as = a # as'"
    have low: "\<And>o'. o' \<in> set bs' \<Longrightarrow> occ_rank b < occ_rank o'" "\<And>o'. o' \<in> set as' \<Longrightarrow> occ_rank a < occ_rank o'"
      using less.prems(1,2) by (simp_all add: bs as)
    show ?thesis
    proof (cases "occurrence_order b a")
      case OrdLess
      then have lt: "occ_rank b < occ_rank a" by (simp add: occurrence_order_iff)
      have above: "occ_rank b < occ_rank o'" if "o' \<in> set as" for o'
        using that lt low(2) [of o'] by (auto simp: as)
      have gone: "occ_find as (occ_rank b) = None" by (rule occ_find_absent [OF above])
      have "merged_changes before after bs as = removed_change before b # merged_changes before after bs' as"
        using lt gone low above unfolding bs
        by (subst merged_changes_step [where r = "occ_rank b" and bs = bs' and as = as])
          (auto simp: occ_find_Cons change_of_def)
      then show ?thesis
        using less.hyps [of bs' as "changes @ [removed_change before b]"] less.prems OrdLess
        by (auto simp: bs as intro!: implements_bind_charge)
    next
      case OrdGreater
      then have lt: "occ_rank a < occ_rank b" by (simp add: occurrence_order_iff)
      have above: "occ_rank a < occ_rank o'" if "o' \<in> set bs" for o'
        using that lt low(1) [of o'] by (auto simp: bs)
      have gone: "occ_find bs (occ_rank a) = None" by (rule occ_find_absent [OF above])
      have "merged_changes before after bs as = added_change after a # merged_changes before after bs as'"
        using lt gone low above unfolding as
        by (subst merged_changes_step [where r = "occ_rank a" and bs = bs and as = as'])
          (auto simp: occ_find_Cons change_of_def)
      then show ?thesis
        using less.hyps [of bs as' "changes @ [added_change after a]"] less.prems OrdGreater
        by (auto simp: bs as intro!: implements_bind_charge)
    next
      case OrdEqual
      then have eq: "occ_rank a = occ_rank b" by (simp add: occurrence_order_iff)
      have "merged_changes before after bs as =
          (if ie_payload (elements before ! occ_index b) = ie_payload (elements after ! occ_index a) then []
           else [modified_change before after b a]) @ merged_changes before after bs' as'"
        using low eq unfolding bs as
        by (subst merged_changes_step [where r = "occ_rank b" and bs = bs' and as = as'])
          (auto simp: occ_find_Cons change_of_def)
      moreover have get: "nth_get (elements before) (occ_index b) = Some (elements before ! occ_index b)"
        "nth_get (elements after) (occ_index a) = Some (elements after ! occ_index a)"
        using less.prems(3) [of b] less.prems(4) [of a] by (simp_all add: bs as)
      moreover have IH: "implements (diff_loop before after bs' as' changes')
          (Some (changes' @ merged_changes before after bs' as'))" for changes'
        using less.prems by (intro less.hyps) (auto simp: bs as)
      ultimately show ?thesis
        using IH [of changes] IH [of "changes @ [modified_change before after b a]"]
        unfolding bs as diff_loop.simps OrdEqual rust_ordering.case get bindR_ok_or_Some
        by (intro implements_bind_charge) simp
    qed
  qed
qed

section \<open>The occurrences are the positions\<close>

lemma nth_filter_upt:
  "n < length (filter P [0..<N]) \<Longrightarrow>
     filter P [0..<N] ! n < N \<and> P (filter P [0..<N] ! n) \<and> length (filter P [0..<filter P [0..<N] ! n]) = n"
proof (induction N)
  case (Suc N)
  then show ?case by (cases "n < length (filter P [0..<N])") (auto simp: nth_append less_Suc_eq split: if_splits)
qed simp

lemma filter_upt_nth:
  assumes "i < N" "P i"
  shows "length (filter P [0..<i]) < length (filter P [0..<N]) \<and> filter P [0..<N] ! length (filter P [0..<i]) = i"
proof -
  have "[0..<N] = [0..<i] @ i # [Suc i..<N]" using assms(1) by (metis le0 upt_add_eq_append upt_conv_Cons less_imp_le le_add_diff_inverse)
  with assms(2) show ?thesis by (simp add: nth_append)
qed

lemma set_occurrences_of: "set (occurrences_of f) = occ_at (elements f) ` {..<length (elements f)}"
  by (auto simp: occurrences_of_def)

lemma inj_occurrences_of: "inj_on occ_rank (set (occurrences_of f))"
  using occ_rank_inj [of "elements f" "length (elements f)"]
  by (fastforce simp: set_occurrences_of inj_on_def)

lemma ascending_occurrences_of: "ascending (occurrences_of f)"
proof -
  have "inj_on (occ_at (elements f)) {0..<length (elements f)}" by (auto simp: inj_on_def occ_at_def)
  then have "distinct (occurrences_of f)" by (simp add: occurrences_of_def distinct_map)
  then have "distinct (map occ_rank (occurrences_of f))" using inj_occurrences_of by (simp add: distinct_map)
  moreover have "sorted (map occ_rank (occurrences_of f))" by (simp add: occurrences_of_def)
  ultimately have "sorted_wrt (<) (map occ_rank (occurrences_of f))" using strict_sorted_iff by blast
  then show ?thesis by (simp add: sorted_wrt_map)
qed

lemma occ_find_mem: "inj_on occ_rank (set os) \<Longrightarrow> o' \<in> set os \<Longrightarrow> occ_find os (occ_rank o') = Some o'"
  by (induction os) (auto simp: occ_find_Cons inj_on_def)

lemma occ_find_occurrences_of:
  "occ_find (occurrences_of f) (k, n) =
     map_option (\<lambda>i. \<lparr>occ_key = k, occ_occurrence = n, occ_index = i\<rparr>) (nth_get (key_positions f k) n)"
proof (cases "n < length (key_positions f k)")
  case True
  define i where "i = key_positions f k ! n"
  have i: "i < length (elements f)" "element_key_of (elements f ! i) = k" "length (positions_upto (elements f) i k) = n"
    using nth_filter_upt [OF True [unfolded positions_upto_def]] by (simp_all add: i_def positions_upto_def)
  then have at: "occ_at (elements f) i = \<lparr>occ_key = k, occ_occurrence = n, occ_index = i\<rparr>" by (simp add: occ_at_def)
  moreover have "occ_at (elements f) i \<in> set (occurrences_of f)" using i(1) by (simp add: set_occurrences_of)
  ultimately have "occ_find (occurrences_of f) (k, n) = Some \<lparr>occ_key = k, occ_occurrence = n, occ_index = i\<rparr>"
    using occ_find_mem [OF inj_occurrences_of, of "occ_at (elements f) i" f] by (simp add: occ_rank_def)
  with True show ?thesis by (simp add: nth_get_def i_def)
next
  case False
  have "occ_rank o' \<noteq> (k, n)" if "o' \<in> set (occurrences_of f)" for o'
    using that False filter_upt_nth [of _ "length (elements f)" "\<lambda>i. element_key_of (elements f ! i) = k"]
    by (auto simp: set_occurrences_of occ_rank_def occ_at_def positions_upto_def)
  then have "occ_find (occurrences_of f) (k, n) = None" by (auto simp: occ_find_def find_None_iff)
  with False show ?thesis by (simp add: nth_get_def)
qed

lemma occurrence_ranks_eq: "occ_rank ` set (occurrences_of f) = occurrence_ranks f"
proof -
  have "r \<in> occ_rank ` set (occurrences_of f) \<longleftrightarrow> occ_find (occurrences_of f) r \<noteq> None" for r
    by (auto simp: occ_find_def find_None_iff image_iff)
  then have "(k, n) \<in> occ_rank ` set (occurrences_of f) \<longleftrightarrow> (k, n) \<in> occurrence_ranks f" for k n
    by (simp add: occ_find_occurrences_of occurrence_ranks_def nth_get_def)
  then show ?thesis by auto
qed

lemma finite_occurrence_ranks [simp]: "finite (occurrence_ranks f)"
  by (simp flip: occurrence_ranks_eq)

lemma card_occurrence_ranks: "card (occurrence_ranks f) \<le> length (elements f)"
proof -
  have "card (occurrence_ranks f) \<le> card (set (occurrences_of f))"
    unfolding occurrence_ranks_eq [symmetric] by (simp add: card_image_le)
  also have "\<dots> \<le> length (occurrences_of f)" by (rule card_length)
  finally show ?thesis by (simp add: occurrences_of_def)
qed

lemma merged_changes_occurrences_of:
  "merged_changes before after (occurrences_of before) (occurrences_of after) = diff_spec before after"
proof -
  have "change_of before after (occ_find (occurrences_of before) r) (occ_find (occurrences_of after) r) =
      change_at before after r" for r
    by (cases r) (auto simp: occ_find_occurrences_of change_of_def change_at_def split: option.split)
  then show ?thesis by (simp add: merged_changes_def diff_spec_def occurrence_ranks_eq)
qed

section \<open>The whole comparison\<close>

abbreviation wire_sequence :: "management_frame \<Rightarrow> (u8 \<times> u8 list) list" where
  "wire_sequence f \<equiv> map (\<lambda>e. (ie_id e, ie_payload e)) (elements f)"

lemma implements_sequence_loop:
  "length xs = length ys \<Longrightarrow> implements (sequence_loop (zip xs ys))
     (Some (map (\<lambda>e. (ie_id e, ie_payload e)) xs \<noteq> map (\<lambda>e. (ie_id e, ie_payload e)) ys))"
proof (induction xs ys rule: list_induct2)
  case (Cons x xs y ys)
  then show ?case by (auto intro!: implements_rules)
qed (simp add: implements_ret)

lemma implements_sequence_changed:
  "implements (ordered_ie_sequence_changed before after) (Some (wire_sequence before \<noteq> wire_sequence after))"
proof (cases "length (elements before) = length (elements after)")
  case True
  then have "ordered_ie_sequence_changed before after = sequence_loop (zip (elements before) (elements after))"
    by (simp add: ordered_ie_sequence_changed_def)
  with implements_sequence_loop [OF True] show ?thesis by (simp only:)
next
  case False
  then have "wire_sequence before \<noteq> wire_sequence after" by (auto dest: map_eq_imp_length_eq)
  moreover have "ordered_ie_sequence_changed before after = ret True"
    using False by (simp add: ordered_ie_sequence_changed_def)
  ultimately show ?thesis using implements_ret [of True] by (simp only: simp_thms)
qed

definition diff_result :: "management_frame \<Rightarrow> management_frame \<Rightarrow> information_element_diff" where
  "diff_result before after =
     \<lparr>diff_changes = diff_spec before after, diff_subtype_changed = (subtype before \<noteq> subtype after),
      diff_wire_ie_sequence_changed = (wire_sequence before \<noteq> wire_sequence after)\<rparr>"

lemma implements_diff_controlled:
  assumes "keys_wf before" "keys_wf after"
  shows "implements (diff_controlled ly before after) (Some (diff_result before after))"
proof -
  have "implements (diff_loop before after (occurrences_of before) (occurrences_of after) [])
      (Some ([] @ merged_changes before after (occurrences_of before) (occurrences_of after)))"
    by (intro implements_diff_loop ascending_occurrences_of) (auto simp: set_occurrences_of occ_at_def)
  then have loop: "implements (diff_loop before after (occurrences_of before) (occurrences_of after) [])
      (Some (diff_spec before after))"
    by (simp add: merged_changes_occurrences_of)
  show ?thesis
    unfolding diff_controlled_def diff_result_def
    by (intro implements_bind_Some [OF implements_index_occurrences] implements_bind_Some [OF implements_sequence_changed]
        implements_bind_ok_or implements_bind_allocate implements_bind_Some [OF loop] implements_ret assms) auto
qed

lemma length_diff_spec: "length (diff_spec before after) \<le> length (elements before) + length (elements after)"
proof -
  have "length (diff_spec before after) \<le> card (occurrence_ranks before \<union> occurrence_ranks after)"
    by (simp add: diff_spec_def List.map_filter_def)
      (metis length_filter_le sorted_list_of_set.length_sorted_key_list_of_set)
  also have "\<dots> \<le> card (occurrence_ranks before) + card (occurrence_ranks after)" by (rule card_Un_le)
  finally show ?thesis using card_occurrence_ranks [of before] card_occurrence_ranks [of after] by linarith
qed

text \<open>The payloads of a key, in the order of the frame.\<close>

definition payloads_of_key :: "management_frame \<Rightarrow> element_key \<Rightarrow> u8 list list" where
  "payloads_of_key f k = map ie_payload (filter (\<lambda>e. element_key_of e = k) (elements f))"

lemma payloads_of_key_positions: "payloads_of_key f k = map (\<lambda>i. ie_payload (elements f ! i)) (key_positions f k)"
proof -
  have "filter (\<lambda>e. element_key_of e = k) (elements f) =
      map ((!) (elements f)) (filter (\<lambda>i. element_key_of (elements f ! i) = k) [0..<length (elements f)])"
    by (subst (1) map_nth [symmetric]) (simp add: filter_map comp_def)
  then show ?thesis by (simp add: payloads_of_key_def positions_upto_def)
qed

lemma nth_get_ext: "(\<And>n. nth_get xs n = nth_get ys n) \<Longrightarrow> xs = ys"
proof (rule nth_equalityI)
  assume eq: "\<And>n. nth_get xs n = nth_get ys n"
  then show "length xs = length ys" by (metis nth_get_None_iff order_antisym order_refl)
  with eq show "xs ! i = ys ! i" if "i < length xs" for i using that by (metis nth_get_def option.inject)
qed

lemma diff_spec_Nil_iff: "diff_spec before after = [] \<longleftrightarrow> payloads_of_key before = payloads_of_key after"
proof -
  have "diff_spec before after = [] \<longleftrightarrow> (\<forall>r. change_at before after r = None)"
  proof -
    have "change_at before after r = None" if "r \<notin> occurrence_ranks before \<union> occurrence_ranks after" for r
      using that by (cases r) (auto simp: occurrence_ranks_def change_at_def nth_get_def)
    then show ?thesis by (auto simp: diff_spec_def List.map_filter_def filter_empty_conv)
  qed
  also have "\<dots> \<longleftrightarrow> (\<forall>k n. nth_get (payloads_of_key before k) n = nth_get (payloads_of_key after k) n)"
    by (auto simp: change_at_def payloads_of_key_positions nth_get_def split: if_splits)
  also have "\<dots> \<longleftrightarrow> (\<forall>k. payloads_of_key before k = payloads_of_key after k)"
    by (metis nth_get_ext)
  finally show ?thesis by (auto simp: fun_eq_iff)
qed

end
