(* ===== verification/Ieee80211_Diff_Limits.thy ===== *)
theory Ieee80211_Diff_Limits
  imports Ieee80211_Diff
begin

text \<open>
  The cost of comparing two frames (heap sorts included), the completeness of the comparison within
  the default limits of \<open>crates/ieee80211/src/lib.rs\<close>, and its exactness.
\<close>

section \<open>What a comparison costs\<close>

text \<open>How many levels below \<open>r\<close> a heap of \<open>h\<close> elements has; each costs at most three units.\<close>

function sift_levels :: "nat \<Rightarrow> nat \<Rightarrow> nat" where
  "sift_levels r h = (if 2 * r + 1 < h then Suc (sift_levels (2 * r + 1) h) else 0)"
  by pat_completeness auto

termination
  by (relation "measure (\<lambda>(r, h). h - r)") auto

declare sift_levels.simps [simp del]

lemma sift_levels_mono: "r' \<le> r \<Longrightarrow> h \<le> h' \<Longrightarrow> sift_levels r h \<le> sift_levels r' h'"
proof (induction r h arbitrary: r' rule: sift_levels.induct)
  case (1 r h)
  then show ?case by (subst (1 2) sift_levels.simps) auto
qed

lemma solvent_largest_child: "solvent L (largest_child xs child h) 1 0"
  unfolding largest_child_def by (intro solvent_rules) simp_all

lemma solvent_sift:
  "h \<le> length xs \<Longrightarrow> 2 * h \<le> usize_MAX \<Longrightarrow> r < h \<Longrightarrow> solvent L (sift_occurrence_heap xs r h) (3 * sift_levels r h) 0"
proof (induction "h - r" arbitrary: xs r rule: less_induct)
  case less
  have child: "Option.bind (checked_mul r 2) (\<lambda>value. checked_add value 1) = Some (2 * r + 1)"
    using less.prems by (simp add: checked_mul_def checked_add_def mult.commute)
  show ?case
  proof (cases "h \<le> 2 * r + 1")
    case True
    then show ?thesis
      by (subst sift_unfold, unfold child bindR_ok_or_Some if_P) (rule solvent_ret)
  next
    case False
    have lev: "sift_levels r h = Suc (sift_levels (2 * r + 1) h)"
      using False by (subst sift_levels.simps) simp
    have IH: "solvent L (sift_occurrence_heap ys k h) (3 * sift_levels (2 * r + 1) h) 0"
      if "2 * r + 1 \<le> k" "k < h" "length ys = length xs" for k ys
      using less.hyps [of k ys] less.prems that sift_levels_mono [of "2 * r + 1" k h h]
      by (intro solvent_mono [OF less.hyps]) auto
    have step: "solvent L (bindR (ctl_charge 1) (\<lambda>_. bindR (ok_or (nth_get xs r) Panic) (\<lambda>a.
        bindR (ok_or (nth_get xs k) Panic) (\<lambda>b. if occurrence_order a b \<noteq> OrdLess then ret xs
         else bindR (ctl_charge 1) (\<lambda>_. bindR (ok_or (swap_at xs r k) Panic) (\<lambda>xs'. sift_occurrence_heap xs' k h))))))
        (3 * sift_levels r h - 1) 0" if "2 * r + 1 \<le> k" "k < h" for k
      using that unfolding lev
      by (intro solvent_rules) (auto simp: swap_at_def split: if_splits intro!: solvent_mono [OF IH])
    show ?thesis
    proof (subst sift_unfold, unfold child bindR_ok_or_Some if_not_P [OF False], rule solvent_bind [OF solvent_largest_child])
      fix c k t assume "largest_child xs (2 * r + 1) h c = (Inr k, t)"
      then have "2 * r + 1 \<le> k" "k < h" using largest_child_range False by fastforce+
      from step [OF this] show "solvent L (bindR (ctl_charge 1) (\<lambda>_. bindR (ok_or (nth_get xs r) Panic) (\<lambda>a.
        bindR (ok_or (nth_get xs k) Panic) (\<lambda>b. if occurrence_order a b \<noteq> OrdLess then ret xs
         else bindR (ctl_charge 1) (\<lambda>_. bindR (ok_or (swap_at xs r k) Panic) (\<lambda>xs'. sift_occurrence_heap xs' k h))))))
        (3 * sift_levels r h - 1) (0 - 0)" by simp
    qed (use lev in auto)
  qed
qed

lemma sift_length: "sift_occurrence_heap xs r h c = (Inr ys, t) \<Longrightarrow> length ys = length xs"
proof (induction "h - r" arbitrary: xs r c rule: less_induct)
  case less
  show ?case
  proof (cases "ys = xs")
    case False
    have run: "sift_occurrence_heap xs r h c = (Inr ys, t)" by (rule less.prems)
    obtain k c' xs' where "swap_at xs r k = Some xs'" "sift_occurrence_heap xs' k h c' = (Inr ys, t)"
      "k = 2 * r + 1 \<or> k = 2 * r + 1 + 1 \<and> 2 * r + 1 + 1 < h" "2 * r + 1 < h"
      using False run [unfolded sift_occurrence_heap.simps [of xs r h c]]
      by (auto simp: bindR_Inr_iff Option.bind_eq_Some_conv mult.commute dest!: largest_child_range split: if_splits option.splits)
    then show ?thesis using less.hyps [of k xs' c'] by (auto simp: swap_at_def split: if_splits)
  qed simp
qed

definition build_cost :: "nat \<Rightarrow> nat \<Rightarrow> nat" where
  "build_cost k n = 3 * sum_list (map (\<lambda>r. sift_levels r n) [0..<k])"

definition drain_cost :: "nat \<Rightarrow> nat" where
  "drain_cost k = sum_list (map (\<lambda>e. 1 + 3 * sift_levels 0 (Suc e)) [0..<k])"

lemma build_cost_step: "build_cost (Suc k) n - 3 * sift_levels k n = build_cost k n"
  by (simp add: build_cost_def)

lemma solvent_build_heap:
  "2 * k \<le> length xs \<Longrightarrow> 2 * length xs \<le> usize_MAX \<Longrightarrow> solvent L (build_occurrence_heap k xs) (build_cost k (length xs)) 0"
proof (induction k arbitrary: xs)
  case (Suc k)
  show ?case
    unfolding build_occurrence_heap.simps
  proof (rule solvent_bind [OF solvent_sift])
    fix c ys t assume "sift_occurrence_heap xs k (length xs) c = (Inr ys, t)"
    then have "length ys = length xs" by (rule sift_length)
    with Suc.IH [of ys] Suc.prems
    show "solvent L (build_occurrence_heap k ys) (build_cost (Suc k) (length xs) - 3 * sift_levels k (length xs)) (0 - 0)"
      by (simp add: build_cost_step)
  qed (use Suc.prems in \<open>auto simp: build_cost_def\<close>)
qed (simp add: solvent_ret)

lemma solvent_drain_heap:
  "k < length xs \<or> k = 0 \<Longrightarrow> 2 * length xs \<le> usize_MAX \<Longrightarrow> solvent L (drain_occurrence_heap k xs) (drain_cost k) 0"
proof (induction k arbitrary: xs)
  case (Suc k)
  have cost: "drain_cost (Suc k) = drain_cost k + (1 + 3 * sift_levels 0 (Suc k))" by (simp add: drain_cost_def)
  have IH: "solvent L (drain_occurrence_heap k ys) (drain_cost k) 0" if "length ys = length xs" for ys
    using Suc that by auto
  have "solvent L (bindR (sift_occurrence_heap ys 0 (Suc k)) (drain_occurrence_heap k)) (drain_cost k + 3 * sift_levels 0 (Suc k)) 0"
    if "length ys = length xs" for ys
    using Suc.prems that by (intro solvent_bind [OF solvent_sift]) (auto dest!: sift_length intro!: IH)
  then show ?case
    unfolding drain_occurrence_heap.simps cost
    by (intro solvent_rules) (auto simp: swap_at_def split: if_splits)
qed (simp add: solvent_ret)

lemma build_length: "build_occurrence_heap k xs c = (Inr ys, t) \<Longrightarrow> length ys = length xs"
  by (induction k arbitrary: xs c) (auto simp: bindR_Inr_iff dest!: sift_length)

definition sort_cost :: "nat \<Rightarrow> nat" where
  "sort_cost n = build_cost (n div 2) n + drain_cost (n - 1)"

lemma last_index: "length xs - 1 < length xs \<or> length xs - 1 = 0"
  by linarith

lemma solvent_heap_sort:
  assumes "2 * length xs \<le> usize_MAX"
  shows "solvent L (heap_sort_occurrences xs) (sort_cost (length xs)) 0"
  unfolding heap_sort_occurrences_def
proof (rule solvent_bind [OF solvent_build_heap])
  fix c ys t assume "build_occurrence_heap (length xs div 2) xs c = (Inr ys, t)"
  then have "length ys = length xs" by (rule build_length)
  with assms show "solvent L (drain_occurrence_heap (length ys - 1) ys)
      (sort_cost (length xs) - build_cost (length xs div 2) (length xs)) (0 - 0)"
    using solvent_drain_heap [OF last_index, of ys L] by (simp add: sort_cost_def)
qed (use assms in \<open>auto simp: sort_cost_def\<close>)

lemma sum_list_map_mono_length:
  fixes f g :: "nat \<Rightarrow> nat"
  assumes "k \<le> k'" "\<And>r. r < k \<Longrightarrow> f r \<le> g r"
  shows "sum_list (map f [0..<k]) \<le> sum_list (map g [0..<k'])"
proof -
  have "sum_list (map f [0..<k]) \<le> sum_list (map g [0..<k])" using assms(2) by (intro sum_list_mono) auto
  also have "[0..<k'] = [0..<k] @ [k..<k']" using assms(1) upt_add_eq_append [of 0 k "k' - k"] by simp
  then have "sum_list (map g [0..<k]) \<le> sum_list (map g [0..<k'])" by simp
  finally show ?thesis .
qed

text \<open>Level by level: all nodes of a level cost at most what its leftmost node costs.\<close>

lemma levels_block:
  assumes "a \<le> b" "b \<le> c"
  shows "sum_list (map (\<lambda>r. sift_levels r n) [a..<c]) \<le> (b - a) * sift_levels a n + sum_list (map (\<lambda>r. sift_levels r n) [b..<c])"
proof -
  have "sum_list (map (\<lambda>r. sift_levels r n) [a..<b]) \<le> sum_list (map (\<lambda>_. sift_levels a n) [a..<b])"
    by (intro sum_list_mono sift_levels_mono) auto
  moreover have "[a..<c] = [a..<b] @ [b..<c]" using assms upt_add_eq_append [of a b "c - b"] by simp
  ultimately show ?thesis by (simp add: sum_list_triv)
qed

lemma build_levels_1024: "sum_list (map (\<lambda>r. sift_levels r 1024) [0..<512]) \<le> 1525"
proof -
  define S where "S a = sum_list (map (\<lambda>r. sift_levels r 1024) [a..<512])" for a
  have block: "S a \<le> (b - a) * sift_levels a 1024 + S b" if "a \<le> b" "b \<le> 512" for a b
    unfolding S_def by (rule levels_block [OF that])
  have "S 512 = 0" by (simp add: S_def)
  moreover  have "sift_levels 0 1024 = 10" "sift_levels 1 1024 = 9" "sift_levels 3 1024 = 8" "sift_levels 7 1024 = 7"
    "sift_levels 15 1024 = 6" "sift_levels 31 1024 = 5" "sift_levels 63 1024 = 4" "sift_levels 127 1024 = 3"
    "sift_levels 255 1024 = 2" "sift_levels 511 1024 = 1"
    by (simp_all add: sift_levels.simps)
  ultimately have "S 0 \<le> 1525"
    using block [of 0 1] block [of 1 3] block [of 3 7] block [of 7 15] block [of 15 31] block [of 31 63]
      block [of 63 127] block [of 127 255] block [of 255 511] block [of 511 512]
    by simp
  then show ?thesis by (simp only: S_def)
qed

lemma sort_cost_le:
  assumes "n \<le> 1024"
  shows "sort_cost n \<le> 33219"
proof -
  have "build_cost (n div 2) n \<le> 3 * sum_list (map (\<lambda>r. sift_levels r 1024) [0..<512])"
    unfolding build_cost_def using assms by (intro mult_le_mono2 sum_list_map_mono_length) (auto intro: sift_levels_mono)
  moreover have "sift_levels 0 1023 = 9" by (simp add: sift_levels.simps)
  then have "drain_cost (n - 1) \<le> sum_list (map (\<lambda>_. 28) [0..<1023])"
    unfolding drain_cost_def using assms sift_levels_mono [of 0 0 _ 1023] by (intro sum_list_map_mono_length) force+
  moreover have "sum_list (map (\<lambda>_. 28) [0..<1023]) = (28644 :: nat)" unfolding sum_list_triv by simp
  ultimately show ?thesis using build_levels_1024 by (simp add: sort_cost_def)
qed

lemma sift_levels_log: "h \<le> (r + 1) * 2 ^ k \<Longrightarrow> sift_levels r h \<le> k"
proof (induction k arbitrary: r)
  case (Suc k)
  then show ?case by (subst sift_levels.simps) (auto simp: algebra_simps)
qed (simp add: sift_levels.simps)

lemma sort_cost_log:
  assumes "n \<le> 2 ^ k"
  shows "sort_cost n \<le> n * (1 + 5 * k)"
proof -
  have "build_cost (n div 2) n \<le> 3 * sum_list (map (\<lambda>_. k) [0..<n div 2])"
    unfolding build_cost_def using assms
    by (intro mult_le_mono2 sum_list_map_mono_length sift_levels_log) (auto intro: order_trans)
  also have "\<dots> = (3 * (n div 2)) * k" unfolding sum_list_triv by simp
  also have "\<dots> \<le> (2 * n) * k" by (rule mult_le_mono1) linarith
  finally have "build_cost (n div 2) n \<le> 2 * (n * k)" by simp
  moreover have "drain_cost (n - 1) \<le> sum_list (map (\<lambda>_. 1 + 3 * k) [0..<n])"
    unfolding drain_cost_def using assms sift_levels_log [of _ 0 k]
    by (intro sum_list_map_mono_length) (auto simp: add_mono)
  moreover have "sum_list (map (\<lambda>_. 1 + 3 * k) [0..<n]) = n + 3 * (n * k)"
    unfolding sum_list_triv by (simp add: algebra_simps)
  ultimately show ?thesis by (simp add: sort_cost_def algebra_simps)
qed

section \<open>The comparison within the default limits\<close>

definition payload_total :: "information_element list \<Rightarrow> nat" where
  "payload_total es = sum_list (map (length \<circ> ie_payload) es)"

lemma solvent_index_loop:
  assumes "\<And>n. n \<in> set counts \<Longrightarrow> n + length es \<le> usize_MAX"
    and "tot + payload_total es \<le> max_ie_payload_bytes L" "tot + payload_total es \<le> usize_MAX"
  shows "solvent L (index_loop es index tot counts occs) (length es) 0"
  using assms
proof (induction es arbitrary: index tot counts occs)
  case (Cons e es)
  have IH: "solvent L (index_loop es (index + 1) (tot + length (ie_payload e)) (counts[slot := counts ! slot + 1]) occs') (length es) 0"
    if "slot < length counts" for slot occs'
  proof (rule Cons.IH)
    fix n assume "n \<in> set (counts[slot := counts ! slot + 1])"
    then have "n \<in> set counts \<or> n = counts ! slot + 1" using set_update_subset_insert by fastforce
    moreover have "counts ! slot \<in> set counts" using that by simp
    ultimately show "n + length es \<le> usize_MAX" using Cons.prems(1) by fastforce
  qed (use Cons.prems in \<open>auto simp: payload_total_def\<close>)
  have add: "checked_add tot (length (ie_payload e)) = Some (tot + length (ie_payload e))"
    using Cons.prems(3) by (simp add: checked_add_def payload_total_def)
  have slot: "solvent L (bindR (ok_or (nth_get counts slot) Panic) (\<lambda>occurrence.
         bindR (ok_or (checked_add occurrence 1) (IeLimitExceeded ''element count'')) (\<lambda>n.
         index_loop es (index + 1) (tot + length (ie_payload e)) (counts[slot := n])
           (occs @ [\<lparr>occ_key = element_key_of e, occ_occurrence = occurrence, occ_index = index\<rparr>])))) (length es) 0" for slot
    using IH [of slot] Cons.prems(1) [of "counts ! slot"]
    by (intro solvent_rules) (auto simp: checked_add_def split: if_splits)
  show ?case
    unfolding index_loop.simps add bindR_ok_or_Some
    by (intro solvent_bind_charge solvent_guard_limits)
      (use Cons.prems(2) slot in \<open>auto simp: element_slot_def payload_total_def resource_error_def
         intro: solvent_fail split: option.split sum.split\<close>)
qed (simp add: solvent_ret)

lemma index_loop_length: "index_loop es index tot counts occs c = (Inr os, t) \<Longrightarrow> length os = length occs + length es"
  by (induction es arbitrary: index tot counts occs c) (auto simp: bindR_Inr_iff split: sum.splits if_splits option.splits)

lemma solvent_index_occurrences:
  assumes "length (raw_mpdu f) \<le> max_frame_bytes L" "length (elements f) \<le> max_elements L"
    and "payload_total (elements f) \<le> max_ie_payload_bytes L" "payload_total (elements f) \<le> usize_MAX"
    and "2 * length (elements f) \<le> usize_MAX" "length (elements f) * size_ElementOccurrence ly \<le> usize_MAX"
  shows "solvent L (index_occurrences ly f) (1 + length (elements f) + sort_cost (length (elements f)))
    (length (elements f) * size_ElementOccurrence ly)"
proof -
  let ?n = "length (elements f)"
  have mul: "checked_mul ?n (size_ElementOccurrence ly) = Some (?n * size_ElementOccurrence ly)"
    using assms(6) by (simp add: checked_mul_def)
  have "solvent L (bindR (index_loop (elements f) 0 0 (replicate 511 0) []) heap_sort_occurrences) (?n + sort_cost ?n) 0"
  proof (rule solvent_bind [OF solvent_index_loop])
    fix c os t assume "index_loop (elements f) 0 0 (replicate 511 0) [] c = (Inr os, t)"
    then have "length os = ?n" by (auto dest: index_loop_length)
    with solvent_heap_sort [of os L] assms(5) show "solvent L (heap_sort_occurrences os) (?n + sort_cost ?n - ?n) (0 - 0)"
      by simp
  qed (use assms in auto)
  then show ?thesis
    unfolding index_occurrences_def mul bindR_ok_or_Some
    by (intro solvent_guard_limits solvent_bind_allocate) (use assms in auto)
qed

lemma solvent_sequence_loop:
  "solvent L (sequence_loop (zip xs ys)) (payload_total xs + payload_total ys + length xs) a"
proof (induction xs arbitrary: ys)
  case (Cons x xs)
  show ?case
  proof (cases ys)
    case (Cons y ys')
    show ?thesis
      unfolding Cons zip_Cons_Cons sequence_loop.simps
      by (intro solvent_bind_charge solvent_if solvent_ret solvent_mono [OF Cons.IH [of ys']])
        (auto simp: payload_total_def)
  qed (simp add: solvent_ret)
qed (simp add: solvent_ret)

lemma solvent_diff_loop:
  "solvent L (diff_loop before after bs as changes)
     (length bs + length as + sum_list (map (\<lambda>o'. length (ie_payload (elements before ! occ_index o'))) bs) +
      sum_list (map (\<lambda>o'. length (ie_payload (elements after ! occ_index o'))) as)) 0"
proof (induction "length bs + length as" arbitrary: bs as changes rule: less_induct)
  case less
  let ?c = "\<lambda>bs as. length bs + length as + sum_list (map (\<lambda>o'. length (ie_payload (elements before ! occ_index o'))) bs) +
      sum_list (map (\<lambda>o'. length (ie_payload (elements after ! occ_index o'))) as)"
  have IH: "solvent L (diff_loop before after bs' as' changes') w 0"
    if "length bs' + length as' < length bs + length as" "?c bs' as' \<le> w" for bs' as' changes' w
    by (rule solvent_mono [OF less.hyps [OF that(1)] that(2)]) simp
  show ?case
  proof (cases bs; cases as)
    fix b bs' a as' assume bs: "bs = b # bs'" and as: "as = a # as'"
    have "solvent L (case occurrence_order b a of
         OrdLess \<Rightarrow> diff_loop before after bs' (a # as') (changes @ [removed_change before b])
       | OrdGreater \<Rightarrow> diff_loop before after (b # bs') as' (changes @ [added_change after a])
       | OrdEqual \<Rightarrow>
           bindR (ok_or (nth_get (elements before) (occ_index b)) Panic) (\<lambda>be.
           bindR (ok_or (nth_get (elements after) (occ_index a)) Panic) (\<lambda>ae.
           bindR (ctl_charge (max (max (length (ie_payload be)) (length (ie_payload ae))) 1)) (\<lambda>_.
           diff_loop before after bs' as'
             (if ie_payload be \<noteq> ie_payload ae then changes @ [modified_change before after b a] else changes)))))
        (?c bs as - 1) 0"
      unfolding bs as
      by (cases "occurrence_order b a") (auto intro!: solvent_rules IH simp: bs as)
    then show ?thesis by (auto simp: bs as intro!: solvent_bind_charge)
  qed (auto intro!: solvent_rules IH)
qed

lemma occurrences_payload:
  "sum_list (map (\<lambda>o'. length (ie_payload (elements f ! occ_index o'))) (occurrences_of f)) = payload_total (elements f)"
proof -
  have "sum_list (map (\<lambda>o'. length (ie_payload (elements f ! occ_index o'))) (occurrences_of f)) =
      sum_list (map (\<lambda>o'. length (ie_payload (elements f ! occ_index o'))) (map (occ_at (elements f)) [0..<length (elements f)]))"
    unfolding occurrences_of_def sum_mset_sum_list [symmetric] mset_map mset_sort ..
  also have "\<dots> = sum_list (map (\<lambda>e. length (ie_payload e)) (map ((!) (elements f)) [0..<length (elements f)]))"
    by (simp add: comp_def occ_at_def)
  finally show ?thesis by (simp add: map_nth payload_total_def comp_def)
qed

lemma length_occurrences_of [simp]: "length (occurrences_of f) = length (elements f)"
  by (simp add: occurrences_of_def)

text \<open>The work and the allocation that always suffice for a comparison.\<close>

definition diff_work :: "management_frame \<Rightarrow> management_frame \<Rightarrow> nat" where
  "diff_work before after =
     (let n = length (elements before); m = length (elements after);
          p = payload_total (elements before); q = payload_total (elements after)
      in (1 + n + sort_cost n) + (1 + m + sort_cost m) + (p + q + n) + 1 + (n + m + p + q))"

definition diff_allocation :: "rust_layout \<Rightarrow> management_frame \<Rightarrow> management_frame \<Rightarrow> nat" where
  "diff_allocation ly before after =
     (length (elements before) + length (elements after)) * (size_ElementOccurrence ly + size_ElementChange ly)"

definition comparable :: "parse_limits \<Rightarrow> management_frame \<Rightarrow> bool" where
  "comparable L f \<longleftrightarrow> keys_wf f \<and> length (raw_mpdu f) \<le> max_frame_bytes L \<and> length (elements f) \<le> max_elements L \<and>
     payload_total (elements f) \<le> max_ie_payload_bytes L"

lemma solvent_diff_controlled:
  assumes "comparable L before" "comparable L after"
    and rep: "diff_work before after \<le> usize_MAX" "diff_allocation ly before after \<le> usize_MAX"
  shows "solvent L (diff_controlled ly before after) (diff_work before after) (diff_allocation ly before after)"
proof -
  let ?n = "length (elements before)" and ?m = "length (elements after)"
  let ?p = "payload_total (elements before)" and ?q = "payload_total (elements after)"
  let ?so = "size_ElementOccurrence ly" and ?sc = "size_ElementChange ly"
  have alloc: "diff_allocation ly before after = ?n * ?so + ?m * ?so + (?n + ?m) * ?sc"
    by (simp add: diff_allocation_def algebra_simps)
  have work: "diff_work before after =
      (1 + ?n + sort_cost ?n) + (1 + ?m + sort_cost ?m) + (?p + ?q + ?n) + 1 + (?n + ?m + ?p + ?q)"
    by (simp add: diff_work_def Let_def)
  have wf: "keys_wf before" "keys_wf after" using assms by (simp_all add: comparable_def)
  have small: "2 * ?n \<le> usize_MAX" "2 * ?m \<le> usize_MAX" "?p \<le> usize_MAX" "?q \<le> usize_MAX" "?n + ?m \<le> usize_MAX"
    "?n * ?so \<le> usize_MAX" "?m * ?so \<le> usize_MAX" "(?n + ?m) * ?sc \<le> usize_MAX"
    using rep unfolding alloc work by linarith+
  have ib: "solvent L (index_occurrences ly before) (1 + ?n + sort_cost ?n) (?n * ?so)"
    and ia: "solvent L (index_occurrences ly after) (1 + ?m + sort_cost ?m) (?m * ?so)"
    using assms small unfolding comparable_def by (intro solvent_index_occurrences; simp)+
  have sq: "solvent L (ordered_ie_sequence_changed before after) (?p + ?q + ?n) 0"
    unfolding ordered_ie_sequence_changed_def by (intro solvent_if solvent_ret solvent_sequence_loop)
  have lp: "solvent L (diff_loop before after (occurrences_of before) (occurrences_of after) []) (?n + ?m + ?p + ?q) 0"
    using solvent_diff_loop [of L before after "occurrences_of before" "occurrences_of after" "[]"]
    by (simp add: occurrences_payload)
  have eqs: "checked_add ?n ?m = Some (?n + ?m)" "checked_mul (?n + ?m) ?sc = Some ((?n + ?m) * ?sc)"
    using small by (simp_all add: checked_add_def checked_mul_def)
  show ?thesis
    unfolding diff_controlled_def work alloc
    apply (rule solvent_bind_value [OF ib implements_index_occurrences [OF wf(1)]], simp, simp)
    apply (rule solvent_bind_value [OF ia implements_index_occurrences [OF wf(2)]], simp, simp)
    apply (rule solvent_bind_value [OF sq implements_sequence_changed], simp, simp)
    apply (unfold length_occurrences_of eqs bindR_ok_or_Some)
    apply (rule solvent_bind_allocate, simp, simp)
    by (rule solvent_bind [OF lp]) (auto intro: solvent_ret)
qed

lemma diff_returns:
  assumes "comparable L before" "comparable L after"
    and "diff_work before after \<le> max_work_units L" "diff_work before after \<le> usize_MAX"
    and "diff_allocation ly before after \<le> max_allocation_bytes L" "diff_allocation ly before after \<le> usize_MAX"
  shows "\<exists>t. diff_controlled ly before after (control_new L ie_never_cancel) = (Inr (diff_result before after), t) \<and>
    work t \<le> diff_work before after \<and> allocation t \<le> diff_allocation ly before after"
proof -
  let ?c = "control_new L ie_never_cancel"
  have solv: "solvent L (diff_controlled ly before after) (diff_work before after) (diff_allocation ly before after)"
    using assms by (intro solvent_diff_controlled)
  have impl: "implements (diff_controlled ly before after) (Some (diff_result before after))"
    using assms by (intro implements_diff_controlled) (simp_all add: comparable_def)
  have fund: "funded L (diff_work before after) (diff_allocation ly before after) ?c"
    using assms by (simp add: funded_def control_new_def ie_never_cancel_def work_cap_def allocation_cap_def)
  from solvent_implements [OF solv impl fund] obtain t
    where run: "diff_controlled ly before after ?c = (Inr (diff_result before after), t)" by blast
  with solventD(2) [OF solv fund] show ?thesis by (auto simp: spends_def control_new_def)
qed

lemma diff_default_affordable:
  assumes "comparable parse_limits_default before" "comparable parse_limits_default after"
  shows "diff_work before after \<le> 117233"
  using assms sort_cost_le [of "length (elements before)"] sort_cost_le [of "length (elements after)"]
  by (simp add: diff_work_def Let_def comparable_def parse_limits_default_def)

lemma frame_spec_parts:
  assumes "frame_spec input fr = Some f"
  shows "keys_wf f" "raw_mpdu f = input" "repeated_elements f = repeats_spec (elements f)"
  using assms key_wf_place
  by (auto simp: keys_wf_def frame_spec_def body_spec_def frame_of_def Let_def Option.bind_eq_Some_conv split: if_splits)

text \<open>The sample beacon with its two elements in the other order.\<close>

definition turned_beacon :: "u8 list" where
  "turned_beacon = [0x80, 0] @ replicate 34 0 @ [1, 1, 0x82, 0, 2, 104, 105]"

definition turned_frame :: management_frame where
  "turned_frame = frame_of turned_beacon FcsAbsent turned_beacon Beacon [(1, [0x82]), (0, [104, 105])]"

lemma turned_spec: "frame_spec turned_beacon FcsAbsent = Some turned_frame"
proof -
  have "take 2 turned_beacon = [0x80, 0]" "length turned_beacon = 43"
    "drop 36 turned_beacon = [1, 1, 0x82, 0, 2, 104, 105]"
    by (simp_all add: turned_beacon_def)
  then show ?thesis
    by (simp add: frame_spec_def mac_spec_def subtype_spec_beacon body_spec_def length_constants turned_frame_def)
qed

lemma turned_elements: "elements turned_frame = place Beacon 36 [(1, [0x82]), (0, [104, 105])]"
  by (simp add: turned_frame_def frame_of_def Let_def length_constants)

lemma turned_admits: "admits parse_limits_default turned_beacon turned_frame"
  by (simp add: admits_def turned_elements frame_payload_bytes_def element_spec_def turned_beacon_def parse_limits_default_def)

lemma turned_fits: "fits sample_layout parse_limits_default turned_beacon turned_frame"
  by (simp add: fits_def turned_admits)
    (simp add: turned_elements frame_payload_bytes_def element_spec_def turned_beacon_def parse_limits_default_def parse_work_def
      parse_allocation_def usize_MAX_def sample_layout_def)

lemma samples_parsed:
  "parse_with sample_layout sample_beacon FcsAbsent parse_limits_default ie_never_cancel = Inr sample_frame"
  "parse_with sample_layout turned_beacon FcsAbsent parse_limits_default ie_never_cancel = Inr turned_frame"
  using parse_controlled_returns [OF sample_spec sample_fits] parse_controlled_returns [OF turned_spec turned_fits]
  by (auto simp: parse_with_def parse_with_usage_def)

text \<open>
  Claim C20. The comparison of two parsed frames is exact. When it returns, its changes are those of
  the specification, which reads what happened to occurrence \<open>n\<close> of key \<open>k\<close> off the positions of \<open>k\<close>
  in the two frames, in ascending order of keys and occurrences; there are at most as many as the
  frames have elements (the capacity reserved for them); the list is empty exactly when every key has
  the same payloads in the same order; and the two flags compare the subtypes and the sequences of
  identifiers and payloads. When it does not return, a limit or the cancellation is the reason.
\<close>

theorem diff_exact:
  assumes "parse_with ly1 input1 fr1 lim1 canc1 = Inr before" "length input1 \<le> usize_MAX"
    and "parse_with ly2 input2 fr2 lim2 canc2 = Inr after" "length input2 \<le> usize_MAX"
  shows "case diff_information_elements_with_usage ly before after lim canc of
      Inl e \<Rightarrow> resource_error e
    | Inr (d, _) \<Rightarrow>
        diff_changes d = diff_spec before after \<and>
        length (diff_changes d) \<le> length (elements before) + length (elements after) \<and>
        (diff_is_empty d \<longleftrightarrow> payloads_of_key before = payloads_of_key after) \<and>
        (diff_subtype_changed d \<longleftrightarrow> subtype before \<noteq> subtype after) \<and>
        (diff_wire_ie_sequence_changed d \<longleftrightarrow> wire_sequence before \<noteq> wire_sequence after)"
proof -
  have "keys_wf before" "keys_wf after"
    using parse_with_frame_spec [OF assms(1,2)] parse_with_frame_spec [OF assms(3,4)] frame_spec_parts(1) by auto
  then have impl: "implements (diff_controlled ly before after) (Some (diff_result before after))"
    by (rule implements_diff_controlled)
  obtain r t where run: "diff_controlled ly before after (control_new lim canc) = (r, t)" by fastforce
  show ?thesis
  proof (cases r)
    case (Inl e)
    then show ?thesis
      using implementsD(2) [OF impl] run by (auto simp: diff_information_elements_with_usage_def)
  next
    case (Inr d)
    then have "d = diff_result before after" using implementsD(1) [OF impl] run by auto
    then show ?thesis
      using Inr run length_diff_spec [of before after] diff_spec_Nil_iff [of before after]
      by (simp add: diff_information_elements_with_usage_def diff_result_def diff_is_empty_def)
  qed
qed

theorem diff_exact_witness:
  "case diff_information_elements_with_usage sample_layout sample_frame turned_frame parse_limits_default ie_never_cancel of
      Inl e \<Rightarrow> resource_error e
    | Inr (d, _) \<Rightarrow>
        diff_changes d = diff_spec sample_frame turned_frame \<and>
        length (diff_changes d) \<le> length (elements sample_frame) + length (elements turned_frame) \<and>
        (diff_is_empty d \<longleftrightarrow> payloads_of_key sample_frame = payloads_of_key turned_frame) \<and>
        (diff_subtype_changed d \<longleftrightarrow> subtype sample_frame \<noteq> subtype turned_frame) \<and>
        (diff_wire_ie_sequence_changed d \<longleftrightarrow> wire_sequence sample_frame \<noteq> wire_sequence turned_frame)"
  by (rule diff_exact [OF samples_parsed(1) _ samples_parsed(2)])
    (simp_all add: sample_beacon_def turned_beacon_def usize_MAX_def)

text \<open>
  Claim C32. The default limits are enough. Two frames that the default limits admit are always
  compared, whatever their elements, provided an occurrence takes at most 24 and a change at most 48
  bytes in memory. The usage that the comparison reports grows with the number of elements times its
  logarithm (the heap sorts) and linearly with the payloads, stays below 117233 of the 128000 units of
  work, and allocates no more than one occurrence and one change for every element.
\<close>

theorem default_diff_returns:
  assumes "frame_spec input1 fr1 = Some before" "admits parse_limits_default input1 before"
    and "frame_spec input2 fr2 = Some after" "admits parse_limits_default input2 after"
    and "size_ElementOccurrence ly \<le> 24" "size_ElementChange ly \<le> 48"
    and "length (elements before) \<le> 2 ^ k" "length (elements after) \<le> 2 ^ k"
  shows "\<exists>u. diff_information_elements_with_usage ly before after parse_limits_default ie_never_cancel =
        Inr (diff_result before after, u) \<and>
      work_units u \<le> 3 + (length (elements before) + length (elements after)) * (4 + 5 * k) +
        2 * (\<Sum>e\<leftarrow>elements before @ elements after. length (ie_payload e)) \<and>
      work_units u \<le> 117233 \<and>
      allocation_bytes u \<le> (length (elements before) + length (elements after)) *
        (size_ElementOccurrence ly + size_ElementChange ly)"
proof -
  let ?n = "length (elements before)" and ?m = "length (elements after)"
  have cmp: "comparable parse_limits_default before" "comparable parse_limits_default after"
    using assms frame_spec_parts by (auto simp: comparable_def admits_def payload_total_def frame_payload_bytes_def)
  have alloc: "(?n + ?m) * (size_ElementOccurrence ly + size_ElementChange ly) \<le> 2048 * 72"
    using assms(2,4,5,6) by (intro mult_le_mono) (auto simp: admits_def parse_limits_default_def)
  have bound: "diff_work before after \<le> 117233" by (rule diff_default_affordable [OF cmp])
  have "diff_work before after \<le> 3 + (?n + ?m) * (4 + 5 * k) +
      2 * (payload_total (elements before) + payload_total (elements after))"
    using sort_cost_log [OF assms(7)] sort_cost_log [OF assms(8)] by (simp add: diff_work_def Let_def algebra_simps)
  moreover have "(\<Sum>e\<leftarrow>elements before @ elements after. length (ie_payload e)) =
      payload_total (elements before) + payload_total (elements after)"
    by (simp add: payload_total_def comp_def)
  moreover obtain t where run: "diff_controlled ly before after (control_new parse_limits_default ie_never_cancel) =
      (Inr (diff_result before after), t)" "work t \<le> diff_work before after" "allocation t \<le> diff_allocation ly before after"
    using diff_returns [OF cmp, of ly] bound alloc
    by (auto simp: diff_allocation_def parse_limits_default_def usize_MAX_def)
  ultimately show ?thesis using bound
    by (simp add: diff_information_elements_with_usage_def ctl_usage_def diff_allocation_def)
qed

theorem default_diff_returns_witness:
  "\<exists>u. diff_information_elements_with_usage sample_layout sample_frame turned_frame parse_limits_default ie_never_cancel =
     Inr (diff_result sample_frame turned_frame, u) \<and> work_units u \<le> 51"
proof -
  have "length (elements sample_frame) = 2" "length (elements turned_frame) = 2"
    "(\<Sum>e\<leftarrow>elements sample_frame @ elements turned_frame. length (ie_payload e)) = 6"
    by (simp_all add: sample_elements turned_elements element_spec_def)
  then show ?thesis
    using default_diff_returns [OF sample_spec _ turned_spec turned_admits, of sample_layout 1] sample_fits
    by (auto simp: fits_def sample_layout_def)
qed

end
