(* ===== verification/Ieee80211_Views.thy ===== *)
theory Ieee80211_Views
  imports Ieee80211_Diff_Limits
begin

text \<open>
  The explorer of \<open>crates/ieee80211/src/lib.rs\<close> on parsed frames: the iterator, the raw octets of
  an element and its warnings.
\<close>

section \<open>The view is faithful\<close>

text \<open>Running the iterator to its end.\<close>

function iter_collect :: "explorer_element_iter \<Rightarrow> explorer_element list" where
  "iter_collect it =
     (case iter_next it of (None, _) \<Rightarrow> [] | (Some x, it') \<Rightarrow> x # iter_collect it')"
  by pat_completeness auto

termination
  by (relation "measure (\<lambda>it. length (elements (xi_frame it)) - xi_next_index it)")
    (auto simp: iter_next_def split: if_splits)

declare iter_collect.simps [simp del]

lemma iter_collect_eq:
  "iter_collect it =
     map (\<lambda>i. \<lparr>xe_frame = xi_frame it, xe_index = i\<rparr>) [xi_next_index it..<length (elements (xi_frame it))]"
proof (induction it rule: iter_collect.induct)
  case (1 it)
  show ?case
  proof (cases "xi_next_index it < length (elements (xi_frame it))")
    case True
    with 1 [OF _ refl] show ?thesis
      by (subst iter_collect.simps) (simp add: iter_next_def upt_conv_Cons)
  qed (subst iter_collect.simps, simp add: iter_next_def)
qed

lemma binary_search_key_correct:
  assumes "sorted_wrt (<) (map rep_key rs)" "hi \<le> length rs"
  shows "case binary_search_key key rs lo hi of
      None \<Rightarrow> \<forall>i. lo \<le> i \<longrightarrow> i < hi \<longrightarrow> rep_key (rs ! i) \<noteq> key
    | Some i \<Rightarrow> i < length rs \<and> rep_key (rs ! i) = key"
  using assms(2)
proof (induction "hi - lo" arbitrary: lo hi rule: less_induct)
  case less
  have mono: "rep_key (rs ! i) < rep_key (rs ! j)" if "i < j" "j < length rs" for i j
    using sorted_wrt_nth_less [OF assms(1), of i j] that by simp
  show ?case
  proof (cases "lo < hi")
    case True
    define mid where "mid = lo + (hi - lo) div 2"
    have mid: "lo \<le> mid" "mid < hi" "mid < length rs" using True less.prems by (auto simp: mid_def)
    have step: "binary_search_key key rs lo hi =
        (if rep_key (rs ! mid) = key then Some mid
         else if rep_key (rs ! mid) < key then binary_search_key key rs (mid + 1) hi
         else binary_search_key key rs lo mid)"
      using True mid by (subst binary_search_key.simps) (simp add: mid_def [symmetric] nth_get_def Let_def)
    have left: "rep_key (rs ! i) \<noteq> key" if "rep_key (rs ! mid) < key" "i \<le> mid" for i
      using that mono [of i mid] mid by (cases "i = mid") auto
    have right: "rep_key (rs ! i) \<noteq> key" if "\<not> rep_key (rs ! mid) \<le> key" "mid \<le> i" "i < hi" for i
      using that mono [of mid i] mid less.prems by (cases "i = mid") auto
    show ?thesis
    proof (cases "rep_key (rs ! mid)" key rule: linorder_cases)
      case less
      have "case binary_search_key key rs (mid + 1) hi of None \<Rightarrow> \<forall>i. mid + 1 \<le> i \<longrightarrow> i < hi \<longrightarrow> rep_key (rs ! i) \<noteq> key
          | Some i \<Rightarrow> i < length rs \<and> rep_key (rs ! i) = key"
        using mid less.prems by (intro less.hyps) auto
      moreover have "i \<le> mid \<or> mid + 1 \<le> i" for i by linarith
      ultimately show ?thesis using less left unfolding step by (auto split: option.splits)
    next
      case equal
      then show ?thesis using mid unfolding step by simp
    next
      case greater
      have "case binary_search_key key rs lo mid of None \<Rightarrow> \<forall>i. lo \<le> i \<longrightarrow> i < mid \<longrightarrow> rep_key (rs ! i) \<noteq> key
          | Some i \<Rightarrow> i < length rs \<and> rep_key (rs ! i) = key"
        using mid less.prems by (intro less.hyps) auto
      moreover have "binary_search_key key rs lo hi = binary_search_key key rs lo mid" using greater step by auto
      ultimately show ?thesis using greater right by (force simp: not_le split: option.splits)
    qed
  qed (subst binary_search_key.simps, simp)
qed

lemma slot_key_less: "s < t \<Longrightarrow> t < 511 \<Longrightarrow> slot_key s < slot_key t"
  by (auto simp: slot_key_def less_element_key_def key_rank_def less_prod_def' unat_of_nat_u8 unat_of_nat simp del: of_nat_diff)

lemma repeats_spec_sorted: "sorted_wrt (<) (map rep_key (repeats_spec es))"
proof -
  have keys: "map rep_key (repeats_spec es) =
      filter (\<lambda>k. 2 \<le> length (positions_upto es (length es) k)) (map slot_key [0..<511])"
    by (simp add: repeats_spec_def comp_def mark_contradictory_def repeat_upto_def Let_def)
  have "sorted_wrt (<) (map slot_key [0..<511])"
    by (auto simp: sorted_wrt_iff_nth_less intro: slot_key_less)
  then show ?thesis unfolding keys by (rule sorted_wrt_filter)
qed

lemma repeats_spec_find:
  assumes "key_wf key"
  shows "map_option (\<lambda>i. repeats_spec es ! i) (binary_search_key key (repeats_spec es) 0 (length (repeats_spec es))) =
    (if 2 \<le> length (positions_upto es (length es) key)
     then Some (mark_contradictory (repeat_upto es (length es) key)) else None)"
proof -
  have mem: "r \<in> set (repeats_spec es) \<Longrightarrow> rep_key r = key \<Longrightarrow>
      r = mark_contradictory (repeat_upto es (length es) key) \<and> 2 \<le> length (positions_upto es (length es) key)" for r
  proof -
    assume "r \<in> set (repeats_spec es)" "rep_key r = key"
    then obtain k where "r = mark_contradictory (repeat_upto es (length es) k)" "2 \<le> length (positions_upto es (length es) k)"
      unfolding repeats_spec_def set_map set_filter by blast
    moreover from this \<open>rep_key r = key\<close> have "k = key" by (simp add: mark_contradictory_def repeat_upto_def Let_def)
    ultimately show ?thesis by blast
  qed
  have ex: "mark_contradictory (repeat_upto es (length es) key) \<in> set (repeats_spec es)"
    if "2 \<le> length (positions_upto es (length es) key)"
  proof -
    have "key \<in> set (map slot_key [0..<511])"
      unfolding set_map by (rule image_eqI [of _ _ "slot_of key"]) (use slot_key_slot_of [OF assms] slot_of_lt [of key] in simp_all)
    with that show ?thesis unfolding repeats_spec_def set_map set_filter by blast
  qed
  have key: "rep_key (mark_contradictory (repeat_upto es (length es) key)) = key"
    by (simp add: mark_contradictory_def repeat_upto_def Let_def)
  note search = binary_search_key_correct [OF repeats_spec_sorted [of es] order_refl, where key = key and lo = 0]
  show ?thesis
  proof (cases "binary_search_key key (repeats_spec es) 0 (length (repeats_spec es))")
    case None
    with search have "rep_key r \<noteq> key" if "r \<in> set (repeats_spec es)" for r
      using that by (auto simp: in_set_conv_nth)
    with ex key have "\<not> 2 \<le> length (positions_upto es (length es) key)" by blast
    with None show ?thesis by simp
  next
    case (Some i)
    with search have "repeats_spec es ! i \<in> set (repeats_spec es)" "rep_key (repeats_spec es ! i) = key" by auto
    from mem [OF this] Some show ?thesis by simp
  qed
qed

lemma take_drop_take: "s + n \<le> m \<Longrightarrow> take n (drop s (take m xs)) = take n (drop s xs)"
  by (simp add: drop_take min_def)

lemma raw_bytes_tile:
  assumes spec: "frame_spec input fr = Some f" and len: "length input < 2 ^ 32" and k: "k < length (elements f)"
  shows "raw_bytes \<lparr>xe_frame = f, xe_index = k\<rparr> = Some (encode_tlv (elements f ! k))"
proof -
  let ?es = "elements f" and ?mac = "mac_of input fr" and ?off = "24 + fixed_len (subtype f)"
  let ?s = "?off + length (concat (map encode_tlv (take k ?es)))" and ?n = "2 + length (ie_payload (?es ! k))"
  note tile = elements_tile [OF spec len, unfolded Let_def]
  then have off: "unat (ie_offset (?es ! k)) = ?s" "unat (ie_payload_offset (?es ! k)) = ?s + 2"
    and body: "drop ?off ?mac = concat (map encode_tlv ?es)"
    using k by simp_all
  have split: "?es = take k ?es @ ?es ! k # drop (Suc k) ?es" using k by (rule id_take_nth_drop)
  have "drop ?s ?mac = drop (length (concat (map encode_tlv (take k ?es)))) (concat (map encode_tlv ?es))"
    unfolding body [symmetric] by (simp add: add.commute)
  also have "concat (map encode_tlv ?es) =
      concat (map encode_tlv (take k ?es)) @ encode_tlv (?es ! k) @ concat (map encode_tlv (drop (Suc k) ?es))"
    by (subst split) simp
  finally have rest: "drop ?s ?mac = encode_tlv (?es ! k) @ concat (map encode_tlv (drop (Suc k) ?es))" by simp
  have tlv: "length (encode_tlv (?es ! k)) = ?n" by (simp add: encode_tlv_def)
  then have "?n \<le> length (drop ?s ?mac)" unfolding rest by simp
  then have le: "?s + ?n \<le> length ?mac" by simp
  have "?mac = take (case fr of FcsAbsent \<Rightarrow> length input | FcsPresentAndValidate \<Rightarrow> length input - 4) input"
    by (simp add: mac_of_def split: input_framing.split)
  then obtain m where m: "?mac = take m input" by blast
  have "?s + ?n \<le> m" using le unfolding m by simp
  then have "take ?n (drop ?s input) = take ?n (drop ?s ?mac)" unfolding m by (rule take_drop_take [symmetric])
  also have "\<dots> = encode_tlv (?es ! k)" unfolding rest using tlv by simp
  finally have "take ?n (drop ?s input) = encode_tlv (?es ! k)" .
  moreover have "length ?mac \<le> length input" using m by simp
  ultimately show ?thesis
    using frame_spec_parts(2) [OF spec] k off le by (simp add: raw_bytes_def xe_element_def nth_get_def slice_get_def)
qed

definition spec_warnings :: "management_frame \<Rightarrow> nat \<Rightarrow> element_warnings" where
  "spec_warnings f k =
     (let e = elements f ! k; key = element_key_of e; n = length (elements f)
      in \<lparr>warn_malformed = (case ie_decoded e of Malformed problem \<Rightarrow> Some problem | _ \<Rightarrow> None),
          warn_repetition =
            (if 2 \<le> length (key_positions f key) then Some (mark_contradictory (repeat_upto (elements f) n key)) else None)\<rparr>)"

text \<open>
  Claim C33. The explorer shows a parsed frame without loss: its iterator announces and yields one
  view per element, in the order of the frame; the raw octets of the views, identifier and length
  included, concatenate to exactly the part of the frame after the fixed fields; and the warnings of a
  view, found by binary search, report a repetition exactly when the key occurs twice or more, with
  the positions and the comparison of all its payloads.
\<close>

theorem explorer_faithful:
  assumes "parse_with ly input fr lim canc = Inr f" "length input < 2 ^ 32"
  shows "let views = iter_collect (explorer_elements f) in
    iter_size_hint (explorer_elements f) = (length views, Some (length views)) \<and>
    map xe_element views = map Some (elements f) \<and>
    map raw_bytes views = map (\<lambda>e. Some (encode_tlv e)) (elements f) \<and>
    concat (map (the \<circ> raw_bytes) views) = drop (24 + fixed_len (subtype f)) (mac_of input fr) \<and>
    map element_warnings_of views = map (\<lambda>k. Some (spec_warnings f k)) [0..<length (elements f)]"
proof -
  let ?es = "elements f" and ?view = "\<lambda>k. \<lparr>xe_frame = f, xe_index = k\<rparr>"
  have spec: "frame_spec input fr = Some f"
    using assms by (intro parse_with_frame_spec) (auto simp: usize_MAX_def)
  have views: "iter_collect (explorer_elements f) = map ?view [0..<length ?es]"
    by (simp add: iter_collect_eq explorer_elements_def)
  have el: "xe_element (?view k) = Some (?es ! k)" if "k < length ?es" for k
    using that by (simp add: xe_element_def nth_get_def)
  have raw: "map raw_bytes (iter_collect (explorer_elements f)) = map (\<lambda>e. Some (encode_tlv e)) ?es"
    unfolding views by (rule nth_equalityI) (simp_all add: raw_bytes_tile [OF spec assms(2)])
  moreover have "map xe_element (iter_collect (explorer_elements f)) = map Some ?es"
    unfolding views by (rule nth_equalityI) (simp_all add: el)
  moreover have "concat (map (the \<circ> raw_bytes) (iter_collect (explorer_elements f))) = concat (map encode_tlv ?es)"
    unfolding map_map [symmetric] raw by (simp add: comp_def)
  moreover have "element_warnings_of (?view k) = Some (spec_warnings f k)" if k: "k < length ?es" for k
  proof -
    have "key_wf (element_key_of (?es ! k))" using frame_spec_parts(1) [OF spec] k by (simp add: keys_wf_def)
    from repeats_spec_find [OF this, of ?es] show ?thesis
      unfolding element_warnings_of_def el [OF k] spec_warnings_def Let_def
      by (simp add: frame_spec_parts(3) [OF spec])
  qed
  then have "map element_warnings_of (iter_collect (explorer_elements f)) = map (\<lambda>k. Some (spec_warnings f k)) [0..<length ?es]"
    by (simp add: views)
  moreover have hint: "iter_size_hint (explorer_elements f) =
      (length (iter_collect (explorer_elements f)), Some (length (iter_collect (explorer_elements f))))"
    unfolding views by (simp add: iter_size_hint_def explorer_elements_def Let_def)
  ultimately show ?thesis
    using elements_tile [OF spec assms(2)] hint by (simp only: Let_def)
qed

theorem explorer_faithful_witness:
  "let f = sample_frame; views = iter_collect (explorer_elements f) in
    iter_size_hint (explorer_elements f) = (length views, Some (length views)) \<and>
    map xe_element views = map Some (elements f) \<and>
    map raw_bytes views = map (\<lambda>e. Some (encode_tlv e)) (elements f) \<and>
    concat (map (the \<circ> raw_bytes) views) = drop (24 + fixed_len (subtype f)) (mac_of sample_beacon FcsAbsent) \<and>
    map element_warnings_of views = map (\<lambda>k. Some (spec_warnings f k)) [0..<length (elements f)]"
proof -
  have "parse_with sample_layout sample_beacon FcsAbsent parse_limits_default ie_never_cancel = Inr sample_frame"
    using parse_controlled_returns [OF sample_spec sample_fits] by (auto simp: parse_with_def parse_with_usage_def)
  from explorer_faithful [OF this] show ?thesis unfolding Let_def by (simp add: sample_beacon_parts)
qed

end
