(* ===== verification/BTree_Map.thy ===== *)
theory BTree_Map
  imports Rust_Prelude
begin

text \<open>
  The ordered maps of the Rust standard library, \<open>BTreeMap\<close>, as association lists in ascending key
  order: iteration visits the entries in the order of the list. The contract the other components
  rely on is the locale \<open>ordered_map\<close>.
\<close>

section \<open>The contract\<close>

locale ordered_map =
  fixes get :: "'m \<Rightarrow> 'k::linorder \<Rightarrow> 'v option"
    and insert :: "'k \<Rightarrow> 'v \<Rightarrow> 'm \<Rightarrow> 'm"
    and remove :: "'k \<Rightarrow> 'm \<Rightarrow> 'm"
    and entries :: "'m \<Rightarrow> ('k \<times> 'v) list"
    and empty :: 'm
    and inv :: "'m \<Rightarrow> bool"
  assumes get_empty: "get empty = Map.empty"
    and get_insert: "inv m \<Longrightarrow> get (insert k v m) = (get m)(k \<mapsto> v)"
    and get_remove: "inv m \<Longrightarrow> get (remove k m) = (get m)(k := None)"
    and inv_empty: "inv empty"
    and inv_insert: "inv m \<Longrightarrow> inv (insert k v m)"
    and inv_remove: "inv m \<Longrightarrow> inv (remove k m)"
    and entries_sorted: "inv m \<Longrightarrow> sorted_wrt (<) (map fst (entries m))"
    and entries_get: "inv m \<Longrightarrow> map_of (entries m) = get m"
    and entries_inject: "inv m \<Longrightarrow> inv m' \<Longrightarrow> entries m = entries m' \<Longrightarrow> m = m'"
begin

lemma entries_distinct: "inv m \<Longrightarrow> distinct (map fst (entries m))"
  using entries_sorted strict_sorted_iff by blast

lemma entries_iff: "inv m \<Longrightarrow> (k, v) \<in> set (entries m) \<longleftrightarrow> get m k = Some v"
  using entries_distinct [of m] entries_get [of m] by (metis map_of_eq_Some_iff)

text \<open>A map is determined by its lookups: the order of the insertions leaves no trace.\<close>

lemma map_ext:
  assumes "inv m" "inv m'" "get m = get m'"
  shows "m = m'"
proof (rule entries_inject [OF assms(1,2)])
  have same: "set (entries m) = set (entries m')"
    using assms entries_iff by auto
  have sd: "sorted (map fst (entries n))" "distinct (map fst (entries n))" if "inv n" for n
    using entries_sorted [OF that] by (simp_all add: strict_sorted_iff)
  have "inj_on fst (set (entries m) \<union> set (entries m'))"
    using sd(2) [OF assms(1)] same by (simp add: distinct_map)
  then show "entries m = entries m'"
    using sd assms(1,2) same by (intro map_sorted_distinct_set_unique)
qed

lemma insert_commute:
  assumes "inv m" "k \<noteq> k'"
  shows "insert k v (insert k' v' m) = insert k' v' (insert k v m)"
  using assms by (intro map_ext) (simp_all add: inv_insert get_insert fun_upd_twist)

lemma insert_same:
  assumes "inv m" "get m k = Some v"
  shows "insert k v m = m"
  using assms by (intro map_ext) (auto simp: inv_insert get_insert fun_eq_iff)

end

section \<open>The association-list implementation\<close>

type_synonym ('k, 'v) btree_map = "('k \<times> 'v) list"

abbreviation bm_get :: "('k, 'v) btree_map \<Rightarrow> 'k \<Rightarrow> 'v option" where
  "bm_get \<equiv> map_of"

definition bm_values :: "('k, 'v) btree_map \<Rightarrow> 'v list" where
  "bm_values m = map snd m"

abbreviation bm_keys :: "('k, 'v) btree_map \<Rightarrow> 'k list" where
  "bm_keys m \<equiv> map fst m"

fun bm_insert :: "'k::linorder \<Rightarrow> 'v \<Rightarrow> ('k, 'v) btree_map \<Rightarrow> ('k, 'v) btree_map" where
  "bm_insert k v [] = [(k, v)]"
| "bm_insert k v ((a, b) # m) =
     (if k < a then (k, v) # (a, b) # m
      else if k = a then (k, v) # m
      else (a, b) # bm_insert k v m)"

fun bm_remove :: "'k::linorder \<Rightarrow> ('k, 'v) btree_map \<Rightarrow> ('k, 'v) btree_map" where
  "bm_remove k [] = []"
| "bm_remove k ((a, b) # m) = (if k = a then m else (a, b) # bm_remove k m)"

definition bm_inv :: "('k::linorder, 'v) btree_map \<Rightarrow> bool" where
  "bm_inv m \<longleftrightarrow> sorted_wrt (<) (map fst m)"

lemma bm_inv_simps [simp]:
  "bm_inv []" "bm_inv ((k, v) # m) \<longleftrightarrow> bm_inv m \<and> (\<forall>k' \<in> fst ` set m. k < k')"
  by (auto simp: bm_inv_def)

lemma fst_bm_insert [simp]: "fst ` set (bm_insert k v m) = Set.insert k (fst ` set m)"
  by (induction k v m rule: bm_insert.induct) auto

lemma fst_bm_remove: "bm_inv m \<Longrightarrow> fst ` set (bm_remove k m) = fst ` set m - {k}"
  by (induction k m rule: bm_remove.induct) auto

lemma bm_get_insert [simp]: "bm_get (bm_insert k v m) = (bm_get m)(k \<mapsto> v)"
  by (induction k v m rule: bm_insert.induct) auto

lemma bm_inv_insert [simp]: "bm_inv m \<Longrightarrow> bm_inv (bm_insert k v m)"
  by (induction k v m rule: bm_insert.induct) auto

lemma bm_inv_remove [simp]: "bm_inv m \<Longrightarrow> bm_inv (bm_remove k m)"
  by (induction k m rule: bm_remove.induct) (auto simp: fst_bm_remove)

lemma bm_get_above: "\<forall>k' \<in> fst ` set m. k < k' \<Longrightarrow> bm_get m (k::'k::linorder) = None"
  by (induction m) auto

lemma bm_get_remove [simp]: "bm_inv m \<Longrightarrow> bm_get (bm_remove k m) = (bm_get m)(k := None)"
  by (induction k m rule: bm_remove.induct) (auto simp: bm_get_above fun_upd_twist)

interpretation bm: ordered_map bm_get bm_insert bm_remove "\<lambda>m. m" "[]" bm_inv
proof unfold_locales
  fix m :: "('a, 'b) btree_map"
  assume "bm_inv m"
  then show "sorted_wrt (<) (map fst m)" by (simp add: bm_inv_def)
qed auto

lemma length_bm_insert: "bm_get m k = None \<Longrightarrow> length (bm_insert k v m) = Suc (length m)"
  by (induction k v m rule: bm_insert.induct) (auto split: if_splits)

lemma bm_values_simps [simp]:
  "bm_values [] = []" "bm_values ((k, v) # m) = v # bm_values m" "length (bm_values m) = length m"
  by (simp_all add: bm_values_def)

lemma bm_values_get: "bm_inv m \<Longrightarrow> v \<in> set (bm_values m) \<longleftrightarrow> (\<exists>k. bm_get m k = Some v)"
  using bm.entries_iff [of m] by (force simp: bm_values_def)

lemma set_bm_values_insert:
  "bm_get m k = None \<Longrightarrow> set (bm_values (bm_insert k v m)) = insert v (set (bm_values m))"
  by (induction k v m rule: bm_insert.induct) (auto split: if_splits)

lemma bm_insert_remove:
  assumes "bm_inv m" "bm_get m k = Some v"
  shows "bm_insert k v (bm_remove k m) = m"
  using assms by (intro bm.map_ext) (auto simp: fun_eq_iff)

lemma bm_remove_insert:
  assumes "bm_inv m" "bm_get m k = None"
  shows "bm_remove k (bm_insert k v m) = m"
  using assms by (intro bm.map_ext) (auto simp: fun_eq_iff)

lemma bm_insert_insert: "bm_inv m \<Longrightarrow> bm_insert k v (bm_insert k v' m) = bm_insert k v m"
  by (intro bm.map_ext) auto

lemma bm_ball_entries: "bm_inv m \<Longrightarrow> (\<forall>e \<in> set m. P e) \<longleftrightarrow> (\<forall>k v. bm_get m k = Some v \<longrightarrow> P (k, v))"
  using bm.entries_iff [of m] by auto

lemma length_bm_card: "bm_inv m \<Longrightarrow> length m = card (dom (bm_get m))"
  using bm.entries_distinct [of m] by (simp add: dom_map_of_conv_image_fst distinct_card flip: set_map)

lemma list_ex_values_iff: "bm_inv m \<Longrightarrow> list_ex P (bm_values m) \<longleftrightarrow> (\<exists>k v. bm_get m k = Some v \<and> P v)"
  unfolding list_ex_iff using bm_values_get [of m] by blast

end
