(* ===== verification/Domain_Identity.thy ===== *)
theory Domain_Identity
  imports Rust_Prelude "HOL-Library.List_Lexorder"
begin

text \<open>
  Identities, text and evidence of \<open>crates/domain\<close> (\<open>identity.rs\<close>, \<open>evidence.rs\<close>, and the map
  entities of \<open>project/entities.rs\<close> that operations carry). An identifier is the octets of its
  array; the derived \<open>Ord\<close> of the array is the lexicographic order of octet lists. A Rust \<open>str\<close> is
  the list of its UTF-8 octets where the code indexes bytes (the hexadecimal codec) and the list of
  its Unicode scalar values where it iterates over characters (\<open>Text\<close>).
\<close>

section \<open>Validation errors\<close>

datatype validation_error =
  NonFinite string
| OutOfRange string
| InvalidIdentity
| InvalidText
| InvalidCovariance
| ClockEpochMismatch
| ReversedTime
| UnsupportedSchema
| ResourceLimit string
| Inconsistent string

section \<open>Identifiers\<close>

type_synonym octets = "u8 list"

definition is_hex_digit :: "u8 \<Rightarrow> bool" where
  "is_hex_digit c \<longleftrightarrow> (0x30 \<le> c \<and> c \<le> 0x39) \<or> (0x61 \<le> c \<and> c \<le> 0x66)"

text \<open>\<open>u8::from_str_radix(pair, 16)\<close> on two octets that were checked to be lower-case digits.\<close>

definition hex_value :: "u8 \<Rightarrow> u8" where
  "hex_value c = (if c \<le> 0x39 then c - 0x30 else c - 0x61 + 10)"

fun hex_pairs :: "u8 list \<Rightarrow> octets" where
  "hex_pairs (a # b # rest) = (hex_value a * 16 + hex_value b) # hex_pairs rest"
| "hex_pairs _ = []"

definition decode_hex :: "nat \<Rightarrow> u8 list \<Rightarrow> validation_error + octets" where
  "decode_hex n s =
     (if length s \<noteq> n * 2 \<or> \<not> list_all is_hex_digit s then Inl InvalidIdentity
      else Inr (hex_pairs s))"

definition hex_digit :: "u8 \<Rightarrow> u8" where
  "hex_digit v = (if v < 10 then 0x30 + v else 0x61 + (v - 10))"

definition encode_hex :: "octets \<Rightarrow> u8 list" where
  "encode_hex bytes = concat (map (\<lambda>b. [hex_digit (drop_bit 4 b), hex_digit (b AND 0x0f)]) bytes)"

definition id_from_bytes :: "octets \<Rightarrow> validation_error + octets" where
  "id_from_bytes bytes = (if bytes = replicate 16 0 then Inl InvalidIdentity else Inr bytes)"

definition id_try_from :: "u8 list \<Rightarrow> validation_error + octets" where
  "id_try_from s = (case decode_hex 16 s of Inl e \<Rightarrow> Inl e | Inr bytes \<Rightarrow> id_from_bytes bytes)"

definition content_hash_try_from :: "u8 list \<Rightarrow> validation_error + octets" where
  "content_hash_try_from s = decode_hex 32 s"

type_synonym project_id = octets
type_synonym site_id = octets
type_synonym floor_id = octets
type_synonym frame_id = octets
type_synonym calibration_id = octets
type_synonym actor_id = octets
type_synonym device_id = octets
type_synonym operation_id = octets
type_synonym map_asset_id = octets
type_synonym content_hash = octets

section \<open>Text\<close>

text \<open>
  Unicode scalar values with the property \<open>White_Space\<close> (\<open>str::trim\<close>) and the category \<open>Cc\<close>
  (\<open>char::is_control\<close>), and the length of a scalar value in UTF-8 (\<open>str::len\<close>).
\<close>

type_synonym utext = "nat list"

definition char_is_whitespace :: "nat \<Rightarrow> bool" where
  "char_is_whitespace c \<longleftrightarrow>
     (9 \<le> c \<and> c \<le> 13) \<or> c = 32 \<or> c = 0x85 \<or> c = 0xa0 \<or> c = 0x1680 \<or>
     (0x2000 \<le> c \<and> c \<le> 0x200a) \<or> c = 0x2028 \<or> c = 0x2029 \<or> c = 0x202f \<or> c = 0x205f \<or> c = 0x3000"

definition char_is_control :: "nat \<Rightarrow> bool" where
  "char_is_control c \<longleftrightarrow> c \<le> 0x1f \<or> (0x7f \<le> c \<and> c \<le> 0x9f)"

definition utf8_len :: "nat \<Rightarrow> nat" where
  "utf8_len c = (if c < 0x80 then 1 else if c < 0x800 then 2 else if c < 0x10000 then 3 else 4)"

definition trim_is_empty :: "utext \<Rightarrow> bool" where
  "trim_is_empty s \<longleftrightarrow> list_all char_is_whitespace s"

definition text_new :: "utext \<Rightarrow> validation_error + utext" where
  "text_new s =
     (if trim_is_empty s \<or> sum_list (map utf8_len s) > 1024 \<or> list_ex char_is_control s
      then Inl InvalidText else Inr s)"

section \<open>Evidence\<close>

datatype unknown_reason =
  NotMeasured
| NotAdvertised
| NotObservable
| NotApplicable
| UnsupportedCapability
| PermissionDenied
| FilteredOut
| BelowDetectionThreshold
| FailedTest
| NoAssociation
| InvalidGeometry
| SolverFailure
| OutsideEvidenceSupport
| ClockUnavailable
| SourceDidNotProvide
| Redacted
| NotRetained

datatype 'a evidence = Known 'a | Unknown unknown_reason

fun as_known :: "'a evidence \<Rightarrow> 'a option" where
  "as_known (Known v) = Some v"
| "as_known (Unknown r) = None"

fun evidence_map :: "('a \<Rightarrow> 'b) \<Rightarrow> 'a evidence \<Rightarrow> 'b evidence" where
  "evidence_map f (Known v) = Known (f v)"
| "evidence_map f (Unknown r) = Unknown r"

record artifact_reference =
  art_sha256 :: content_hash
  art_media_type :: utext
  art_byte_length :: u64

section \<open>Map entities\<close>

datatype frame_kind =
  ImagePixels
| FloorLocalMeters
| BuildingLocalMeters
| ProjectedCrs utext
| ArSessionMeters
| SensorLocalMeters

record coordinate_frame =
  cf_id :: frame_id
  cf_name :: utext
  cf_kind :: frame_kind

record map_asset =
  ma_id :: map_asset_id
  ma_floor_id :: floor_id
  ma_name :: utext
  ma_image_frame :: coordinate_frame
  ma_width :: u32
  ma_height :: u32
  ma_source :: artifact_reference
  ma_provenance :: utext

definition map_asset_new :: "map_asset \<Rightarrow> validation_error + map_asset" where
  "map_asset_new d =
     (if cf_kind (ma_image_frame d) \<noteq> ImagePixels then Inl (Inconsistent ''map requires pixel frame'')
      else if art_byte_length (ma_source d) = 0 then Inl (OutOfRange ''empty source map'')
      else Inr d)"

text \<open>
  The transform of a calibration is floating-point data of which operations use only equality; it
  is the type parameter \<open>'t\<close>.
\<close>

record 't map_calibration =
  mc_id :: calibration_id
  mc_map_id :: map_asset_id
  mc_transform :: 't
  mc_provenance :: utext
  mc_method_version :: utext

section \<open>The hexadecimal codec\<close>

lemma u8_less_cases:
  fixes v :: u8
  assumes "unat v < n"
  shows "v \<in> word_of_nat ` {..<n}"
  using assms by (intro image_eqI [of _ _ "unat v"]) simp_all

lemma hex_digit_value:
  fixes v :: u8
  assumes "v < 16"
  shows "is_hex_digit (hex_digit v) \<and> hex_value (hex_digit v) = v"
proof -
  have "unat v < 16" using assms by (simp add: word_less_nat_alt)
  from u8_less_cases [OF this] show ?thesis
    by (auto simp: lessThan_nat_numeral lessThan_Suc is_hex_digit_def hex_digit_def hex_value_def)
qed

lemma hex_value_digit:
  fixes c :: u8
  assumes "is_hex_digit c"
  shows "hex_value c < 16 \<and> hex_digit (hex_value c) = c"
proof -
  have "unat c < 0x67" using assms by (auto simp: is_hex_digit_def word_le_nat_alt)
  from u8_less_cases [OF this] assms show ?thesis
    by (auto simp: lessThan_nat_numeral lessThan_Suc is_hex_digit_def hex_digit_def hex_value_def
        word_le_nat_alt [of _ 1])
qed

lemma low_nibble: "unat ((b::u8) AND 0x0f) = unat b mod 16"
proof -
  have "(0x0f::u8) = mask 4" by (simp add: mask_eq_exp_minus_1)
  then have "b AND 0x0f = take_bit 4 b" by (simp only: take_bit_eq_mask)
  then show ?thesis by (simp add: take_bit_eq_mod unat_mod)
qed

lemma high_nibble: "unat (drop_bit 4 (b::u8)) = unat b div 16"
  by (simp add: drop_bit_eq_div unat_div)

lemma unat_join: "unat a < 16 \<Longrightarrow> unat b < 16 \<Longrightarrow> unat ((a::u8) * 16 + b) = unat a * 16 + unat b"
  by (simp add: unat_word_ariths)

lemma nibbles:
  fixes b :: u8
  shows "drop_bit 4 b < 16" "b AND 0x0f < 16" "drop_bit 4 b * 16 + (b AND 0x0f) = b"
proof -
  have l: "unat b < 256" using unsigned_less [of b] by simp
  then show s: "drop_bit 4 b < 16" "b AND 0x0f < 16"
    by (simp_all add: word_less_nat_alt high_nibble low_nibble)
  show "drop_bit 4 b * 16 + (b AND 0x0f) = b"
    using s by (simp add: word_unat_eq_iff unat_join word_less_nat_alt high_nibble low_nibble)
qed

lemma nibbles_join:
  fixes a b :: u8
  assumes "a < 16" "b < 16"
  shows "drop_bit 4 (a * 16 + b) = a" "(a * 16 + b) AND 0x0f = b"
  using assms by (simp_all add: word_unat_eq_iff word_less_nat_alt high_nibble low_nibble unat_join)

lemma encode_hex_simps [simp]:
  "encode_hex [] = []"
  "encode_hex (b # bs) = hex_digit (drop_bit 4 b) # hex_digit (b AND 0x0f) # encode_hex bs"
  by (simp_all add: encode_hex_def)

lemma encode_hex_digits: "list_all is_hex_digit (encode_hex bs) \<and> length (encode_hex bs) = 2 * length bs"
  by (induction bs) (auto simp: hex_digit_value nibbles)

lemma hex_pairs_encode: "hex_pairs (encode_hex bs) = bs"
  by (induction bs) (auto simp: hex_digit_value nibbles)

lemma encode_hex_pairs:
  "even (length s) \<Longrightarrow> list_all is_hex_digit s \<Longrightarrow> encode_hex (hex_pairs s) = s"
  by (induction s rule: hex_pairs.induct) (auto simp: hex_value_digit nibbles_join)

lemma length_hex_pairs: "length (hex_pairs s) = length s div 2"
  by (induction s rule: hex_pairs.induct) auto

lemma hex_roundtrip:
  "decode_hex n s = Inr bytes \<longleftrightarrow> length bytes = n \<and> s = encode_hex bytes"
proof
  assume "decode_hex n s = Inr bytes"
  then have "length s = n * 2" "list_all is_hex_digit s" "bytes = hex_pairs s"
    by (auto simp: decode_hex_def split: if_splits)
  then show "length bytes = n \<and> s = encode_hex bytes"
    by (simp add: encode_hex_pairs length_hex_pairs)
next
  assume "length bytes = n \<and> s = encode_hex bytes"
  then show "decode_hex n s = Inr bytes"
    using encode_hex_digits [of bytes] by (simp add: decode_hex_def hex_pairs_encode)
qed

section \<open>Properties\<close>

text \<open>
  Claim C40. The textual forms of identities and of content hashes are canonical. A text is accepted as
  an identity exactly when it is the print, 32 lower-case hexadecimal digits, of 16 octets that are not
  all zero, and is read as those octets; a text is accepted as a content hash exactly when it is the
  print of 32 octets, whatever they are.
\<close>

theorem identity_text_canonical:
  "(id_try_from s = Inr bytes \<longleftrightarrow> length bytes = 16 \<and> set bytes \<noteq> {0} \<and> s = encode_hex bytes) \<and>
   (content_hash_try_from s = Inr hash \<longleftrightarrow> length hash = 32 \<and> s = encode_hex hash)"
proof -
  have zero: "bytes = replicate 16 0 \<longleftrightarrow> length bytes = 16 \<and> set bytes = {0}"
    by (auto intro: replicate_eqI)
  have "id_try_from s = Inr bytes \<longleftrightarrow> decode_hex 16 s = Inr bytes \<and> bytes \<noteq> replicate 16 0"
    by (cases "decode_hex 16 s") (auto simp: id_try_from_def id_from_bytes_def)
  then show ?thesis
    unfolding content_hash_try_from_def hex_roundtrip zero by blast
qed

end
