(* ===== verification/Operation_Types.thy ===== *)
theory Operation_Types
  imports Resource_Budget BTree_Map Domain_Identity "HOL-Library.Option_ord"
begin

text \<open>
  Data of the crate \<open>kyberia-operation-log\<close> (\<open>crates/operation-log/src/lib.rs\<close>): versioned
  envelopes, typed mutations and priors, references, the error enumerations, the size limits of the
  format and the translation of budget errors. The wire forms of an operation extend one another
  field by field, so they are an extensible record: the unsigned wire form, the wire form with its
  content hash, and the operation with its retained canonical bytes.
\<close>

section \<open>Versions, times and depths\<close>

datatype operation_schema_version = V1 | V2 | V3

type_synonym logical_timestamp = u64
type_synonym project_version = u64
type_synonym causal_depth = u64

section \<open>Errors\<close>

text \<open>
  \<open>OE_Panic\<close> is not a value of the source: it stands for the panics of an indexing expression and
  of the decrement of a zero counter, which the model makes visible.
\<close>

datatype operation_error =
  OE_InvalidValue validation_error
| OE_InvalidLogicalTimestamp
| OE_InvalidCausality
| OE_InvalidInverse
| OE_TypedPriorRequired
| OE_NonReversibleTarget
| OE_VersionMismatch
| OE_UnsupportedSchema
| OE_MalformedEncoding
| OE_CanonicalEncoding
| OE_NonCanonicalEncoding
| OE_HashMismatch
| OE_EmptyOperationSet
| OE_WrongProject
| OE_MissingParent
| OE_MissingTarget
| OE_CyclicCausality
| OE_TamperedDuplicate
| OE_InvalidResolution
| OE_ResourceLimit string
| OE_Cancelled
| OE_Panic

definition logical_timestamp_new :: "u64 \<Rightarrow> operation_error + logical_timestamp" where
  "logical_timestamp_new value =
     (if value = 0 then Inl OE_InvalidLogicalTimestamp else Inr value)"

section \<open>Limits\<close>

definition MAX_PARENTS :: nat where "MAX_PARENTS = 8"
definition MAX_OPERATION_COUNT :: nat where "MAX_OPERATION_COUNT = 100000"
definition MAX_OPERATION_CANONICAL_BYTES :: nat where "MAX_OPERATION_CANONICAL_BYTES = 32 * 1024"
definition MAX_OPERATION_WIRE_BYTES :: nat where "MAX_OPERATION_WIRE_BYTES = 48 * 1024"
definition MAX_REFERENCED_ARTIFACT_BYTES :: u64 where
  "MAX_REFERENCED_ARTIFACT_BYTES = 64 * 1024 * 1024"
definition MAX_CONFLICTS :: nat where "MAX_CONFLICTS = 8192"
definition MAX_ANCESTRY_WORK :: nat where "MAX_ANCESTRY_WORK = 2000000"
definition MAX_MERGE_FRONTIER :: nat where "MAX_MERGE_FRONTIER = MAX_CONFLICTS"
definition ESTIMATED_STRUCTURAL_ENTRY_BYTES :: nat where "ESTIMATED_STRUCTURAL_ENTRY_BYTES = 128"
definition ORDERING_NODE_BYTES :: nat where "ORDERING_NODE_BYTES = 512"
definition ORDERING_EDGE_BYTES :: nat where "ORDERING_EDGE_BYTES = 64"
definition DEFAULT_MERGE_OPERATION_BYTES :: nat where
  "DEFAULT_MERGE_OPERATION_BYTES = 256 * 1024 * 1024"
definition DEFAULT_MERGE_WORKING_BYTES :: nat where
  "DEFAULT_MERGE_WORKING_BYTES = 512 * 1024 * 1024"

definition estimated_structural_bytes :: "nat \<Rightarrow> nat" where
  "estimated_structural_bytes entries = saturating_mul entries ESTIMATED_STRUCTURAL_ENTRY_BYTES"

definition default_operation_budget_with_ancestry :: "nat \<Rightarrow> resource_budget" where
  "default_operation_budget_with_ancestry ancestry_work =
     resource_budget_new (resource_limits_new ancestry_work
       usize_MAX usize_MAX usize_MAX usize_MAX usize_MAX)"

definition default_operation_budget :: resource_budget where
  "default_operation_budget = default_operation_budget_with_ancestry MAX_ANCESTRY_WORK"

definition budget_error_label :: "budget_kind \<Rightarrow> string" where
  "budget_error_label kind =
     (case kind of OperationAncestryWork \<Rightarrow> ''ancestry_work'' | k \<Rightarrow> budget_label k)"

fun operation_budget_error :: "resource_budget_error \<Rightarrow> operation_error" where
  "operation_budget_error Cancelled = OE_Cancelled"
| "operation_budget_error (LimitExceeded limit) =
     OE_ResourceLimit (budget_error_label (rle_kind limit))"

section \<open>Immutable references\<close>

record immutable_reference =
  ir_hash :: content_hash
  ir_media_type :: utext
  ir_byte_length :: u64

definition immutable_reference_new ::
    "content_hash \<Rightarrow> utext \<Rightarrow> u64 \<Rightarrow> operation_error + immutable_reference" where
  "immutable_reference_new hash media_type byte_length =
     (if byte_length = 0 \<or> byte_length > MAX_REFERENCED_ARTIFACT_BYTES
      then Inl (OE_ResourceLimit ''referenced_artifact'')
      else Inr \<lparr>ir_hash = hash, ir_media_type = media_type, ir_byte_length = byte_length\<rparr>)"

section \<open>Field keys\<close>

text \<open>The derived \<open>Ord\<close> compares the variants in their order and then the identifier.\<close>

datatype field_key =
  FK_ProjectName
| FK_SiteName site_id
| FK_MapCalibration map_asset_id
| FK_MapAsset map_asset_id
| FK_FloorEvidence floor_id

fun field_key_rank :: "field_key \<Rightarrow> nat \<times> octets" where
  "field_key_rank FK_ProjectName = (0, [])"
| "field_key_rank (FK_SiteName i) = (1, i)"
| "field_key_rank (FK_MapCalibration i) = (2, i)"
| "field_key_rank (FK_MapAsset i) = (3, i)"
| "field_key_rank (FK_FloorEvidence i) = (4, i)"

lemma field_key_rank_inject [simp]: "field_key_rank a = field_key_rank b \<longleftrightarrow> a = b"
  by (cases a; cases b) simp_all

instantiation field_key :: linorder
begin

definition less_eq_field_key :: "field_key \<Rightarrow> field_key \<Rightarrow> bool" where
  "a \<le> b \<longleftrightarrow> field_key_rank a \<le> field_key_rank b"

definition less_field_key :: "field_key \<Rightarrow> field_key \<Rightarrow> bool" where
  "a < b \<longleftrightarrow> field_key_rank a < field_key_rank b"

instance
  by standard (auto simp: less_eq_field_key_def less_field_key_def
      simp flip: field_key_rank_inject)

end

section \<open>Mutations and priors\<close>

datatype 't mutation =
  SetProjectName utext
| SetSiteName site_id utext
| ActivateCalibration map_asset_id calibration_id
| BindFloorEvidence floor_id immutable_reference
| ImportMap map_asset
| RemoveMap map_asset_id
| CalibrateMap "'t map_calibration"
| RemoveCalibration calibration_id map_asset_id "calibration_id evidence"

fun mutation_field_key :: "'t mutation \<Rightarrow> field_key" where
  "mutation_field_key (SetProjectName name) = FK_ProjectName"
| "mutation_field_key (SetSiteName site name) = FK_SiteName site"
| "mutation_field_key (ActivateCalibration m c) = FK_MapCalibration m"
| "mutation_field_key (BindFloorEvidence f r) = FK_FloorEvidence f"
| "mutation_field_key (ImportMap m) = FK_MapAsset (ma_id m)"
| "mutation_field_key (RemoveMap m) = FK_MapAsset m"
| "mutation_field_key (CalibrateMap c) = FK_MapCalibration (mc_map_id c)"
| "mutation_field_key (RemoveCalibration c m a) = FK_MapCalibration m"

fun mutation_is_pre_v3 :: "'t mutation \<Rightarrow> bool" where
  "mutation_is_pre_v3 (SetProjectName name) = True"
| "mutation_is_pre_v3 (SetSiteName site name) = True"
| "mutation_is_pre_v3 (ActivateCalibration m c) = True"
| "mutation_is_pre_v3 (BindFloorEvidence f r) = True"
| "mutation_is_pre_v3 _ = False"

datatype inverse_prior =
  Prior_ProjectName utext
| Prior_SiteName site_id utext
| Prior_MapCalibration map_asset_id "calibration_id evidence"
| Prior_MapAbsent map_asset_id
| Prior_CalibrationAbsent calibration_id map_asset_id "calibration_id evidence"

fun prior_is_pre_v3 :: "inverse_prior \<Rightarrow> bool" where
  "prior_is_pre_v3 (Prior_ProjectName name) = True"
| "prior_is_pre_v3 (Prior_SiteName site name) = True"
| "prior_is_pre_v3 (Prior_MapCalibration m c) = True"
| "prior_is_pre_v3 _ = False"

fun prior_field_key :: "inverse_prior \<Rightarrow> field_key" where
  "prior_field_key (Prior_ProjectName name) = FK_ProjectName"
| "prior_field_key (Prior_SiteName site name) = FK_SiteName site"
| "prior_field_key (Prior_MapCalibration m c) = FK_MapCalibration m"
| "prior_field_key (Prior_MapAbsent m) = FK_MapAsset m"
| "prior_field_key (Prior_CalibrationAbsent c m a) = FK_MapCalibration m"

text \<open>\<open>matches!(evidence, Known(_) | Unknown(NotMeasured))\<close>\<close>

fun known_or_not_measured :: "'a evidence \<Rightarrow> bool" where
  "known_or_not_measured (Known v) = True"
| "known_or_not_measured (Unknown r) \<longleftrightarrow> r = NotMeasured"

fun prior_matches :: "'t mutation \<Rightarrow> inverse_prior \<Rightarrow> bool" where
  "prior_matches (SetProjectName name) (Prior_ProjectName name') = True"
| "prior_matches (SetSiteName site name) (Prior_SiteName prior_site name') \<longleftrightarrow> site = prior_site"
| "prior_matches (ActivateCalibration m c) (Prior_MapCalibration prior_map calibration) \<longleftrightarrow>
     m = prior_map \<and> known_or_not_measured calibration"
| "prior_matches (ImportMap m) (Prior_MapAbsent map_id) \<longleftrightarrow> ma_id m = map_id"
| "prior_matches (CalibrateMap cal) (Prior_CalibrationAbsent calibration_id map_id active) \<longleftrightarrow>
     mc_id cal = calibration_id \<and> mc_map_id cal = map_id \<and> known_or_not_measured active"
| "prior_matches _ _ = False"

definition validate_for :: "inverse_prior \<Rightarrow> 't mutation \<Rightarrow> operation_error + unit" where
  "validate_for prior m = (if prior_matches m prior then Inr () else Inl OE_InvalidInverse)"

datatype 't resolution_value =
  RV_Mutation "'t mutation"
| RV_Calibration map_asset_id "calibration_id evidence"

fun resolution_field_key :: "'t resolution_value \<Rightarrow> field_key" where
  "resolution_field_key (RV_Mutation m) = mutation_field_key m"
| "resolution_field_key (RV_Calibration m c) = FK_MapCalibration m"

fun validate_for_resolution ::
    "inverse_prior \<Rightarrow> 't resolution_value \<Rightarrow> operation_error + unit" where
  "validate_for_resolution prior (RV_Mutation m) = validate_for prior m"
| "validate_for_resolution prior (RV_Calibration map_id selected) =
     (if \<not> known_or_not_measured selected then Inl OE_InvalidInverse
      else case prior of
        Prior_MapCalibration prior_map_id calibration \<Rightarrow>
          if map_id = prior_map_id \<and> known_or_not_measured calibration then Inr ()
          else Inl OE_InvalidInverse
      | _ \<Rightarrow> Inl OE_InvalidInverse)"

fun as_mutation :: "inverse_prior \<Rightarrow> operation_error + 't mutation" where
  "as_mutation (Prior_ProjectName name) = Inr (SetProjectName name)"
| "as_mutation (Prior_SiteName site name) = Inr (SetSiteName site name)"
| "as_mutation (Prior_MapCalibration map_id (Known calibration_id)) =
     Inr (ActivateCalibration map_id calibration_id)"
| "as_mutation (Prior_MapCalibration map_id (Unknown reason)) = Inl OE_TypedPriorRequired"
| "as_mutation (Prior_MapAbsent map_id) = Inr (RemoveMap map_id)"
| "as_mutation (Prior_CalibrationAbsent calibration_id map_id active) =
     Inr (RemoveCalibration calibration_id map_id active)"

section \<open>References, payloads and inverses\<close>

datatype non_reversible_reason = FloorEvidenceBinding

record operation_reference =
  ref_operation_id :: operation_id
  ref_content_hash :: content_hash

datatype toggle_direction = Toggle_Undo | Toggle_Redo

datatype 't inverse_metadata =
  Inv_Apply "'t mutation"
| Inv_ApplyV2 inverse_prior
| Inv_NonReversible non_reversible_reason
| Inv_Toggle operation_reference toggle_direction

datatype 't operation_payload =
  Apply "'t mutation"
| Undo operation_reference
| Redo operation_reference
| Resolve operation_reference operation_reference "'t mutation"
| ResolveV2 operation_reference operation_reference "'t resolution_value"

section \<open>Operations and their wire forms\<close>

record 't unsigned_operation_wire =
  schema_version :: operation_schema_version
  operation_id :: operation_id
  op_project_id :: project_id
  actor_id :: actor_id
  device_id :: device_id
  logical_time :: logical_timestamp
  causal_depth :: causal_depth
  parents :: "operation_id list"
  payload :: "'t operation_payload"
  inverse_of :: "'t inverse_metadata"

record 't operation_wire = "'t unsigned_operation_wire" +
  content_hash :: content_hash

record 't operation = "'t operation_wire" +
  canonical :: octets

type_synonym sort_key = "logical_timestamp \<times> actor_id \<times> device_id \<times> operation_id"

definition sort_key :: "'t operation \<Rightarrow> sort_key" where
  "sort_key op = (logical_time op, actor_id op, device_id op, operation_id op)"

definition target_reference :: "'t operation \<Rightarrow> operation_reference option" where
  "target_reference op =
     (case payload op of
        Apply m \<Rightarrow> None
      | Undo target \<Rightarrow> Some target
      | Redo target \<Rightarrow> Some target
      | Resolve l r m \<Rightarrow> None
      | ResolveV2 l r v \<Rightarrow> None)"

definition resolution_references ::
    "'t operation \<Rightarrow> (operation_reference \<times> operation_reference) option" where
  "resolution_references op =
     (case payload op of
        Resolve l r m \<Rightarrow> Some (l, r)
      | ResolveV2 l r v \<Rightarrow> Some (l, r)
      | _ \<Rightarrow> None)"

definition reference_of :: "'t operation \<Rightarrow> operation_reference" where
  "reference_of op = \<lparr>ref_operation_id = operation_id op, ref_content_hash = content_hash op\<rparr>"

definition is_apply :: "'t operation_payload \<Rightarrow> bool" where
  "is_apply p = (case p of Apply m \<Rightarrow> True | _ \<Rightarrow> False)"

definition is_non_reversible :: "'t inverse_metadata \<Rightarrow> bool" where
  "is_non_reversible i = (case i of Inv_NonReversible r \<Rightarrow> True | _ \<Rightarrow> False)"

section \<open>Priors restore what they were recorded for\<close>

lemma prior_matches_field_key: "prior_matches m p \<Longrightarrow> mutation_field_key m = prior_field_key p"
  by (induction m p rule: prior_matches.induct) auto

lemma as_mutation_field_key: "as_mutation p = Inr m \<Longrightarrow> mutation_field_key m = prior_field_key p"
  by (induction p rule: as_mutation.induct) auto

end
