(* ===== verification/Operation_Codec.thy ===== *)
theory Operation_Codec
  imports Operation_Types
begin

text \<open>
  Construction, validation, hashing and the byte form of operations (\<open>impl Operation\<close>,
  \<open>validate_parent_list\<close>, \<open>validate_payload_inverse\<close> of \<open>crates/operation-log/src/lib.rs\<close>).

  The JSON encoder and decoder (\<open>serde_json\<close> with the derived implementations) and SHA-256
  (\<open>sha2\<close>) are third-party code: they are the fields of a parameter record \<open>wire_format\<close>.
  \<open>wire_writes\<close> are the buffers \<open>serde_json::to_writer\<close> hands to its writer, with a flag telling
  whether the serializer then finished; \<open>wire_parse\<close> is \<open>serde_json::from_slice\<close> before the two
  conversions the source attaches to the fields \<open>logical_time\<close> and \<open>parents\<close>.
\<close>

record 't wire_format =
  unsigned_to_vec :: "'t unsigned_operation_wire \<Rightarrow> octets option"
  wire_to_vec :: "'t operation_wire \<Rightarrow> octets option"
  wire_writes :: "'t operation_wire \<Rightarrow> octets list \<times> bool"
  wire_parse :: "octets \<Rightarrow> 't operation_wire option"
  sha256 :: "octets \<Rightarrow> octets"

section \<open>Validation\<close>

fun any_adjacent :: "('a \<Rightarrow> 'a \<Rightarrow> bool) \<Rightarrow> 'a list \<Rightarrow> bool" where
  "any_adjacent P (a # b # xs) \<longleftrightarrow> P a b \<or> any_adjacent P (b # xs)"
| "any_adjacent P _ = False"

definition validate_parent_list :: "operation_id list \<Rightarrow> operation_error + unit" where
  "validate_parent_list ps =
     (if length ps > MAX_PARENTS then Inl (OE_ResourceLimit ''operation_parents'')
      else if any_adjacent (\<lambda>a b. a \<ge> b) ps then Inl OE_InvalidCausality
      else Inr ())"

definition toggle_matches :: "'t operation_payload \<Rightarrow> 't inverse_metadata \<Rightarrow> bool" where
  "toggle_matches p i =
     (case (p, i) of
        (Undo target, Inv_Toggle inverse_target Toggle_Redo) \<Rightarrow> target = inverse_target
      | (Redo target, Inv_Toggle inverse_target Toggle_Undo) \<Rightarrow> target = inverse_target
      | _ \<Rightarrow> False)"

definition resolution_is_pre_v3 :: "'t resolution_value \<Rightarrow> bool" where
  "resolution_is_pre_v3 v = (case v of RV_Mutation m \<Rightarrow> mutation_is_pre_v3 m | _ \<Rightarrow> True)"

fun validate_payload_inverse ::
    "operation_schema_version \<Rightarrow> 't operation_payload \<Rightarrow> 't inverse_metadata
       \<Rightarrow> operation_error + unit" where
  "validate_payload_inverse V1 p i =
     (if (case (p, i) of
            (Apply m, Inv_Apply undo) \<Rightarrow>
              mutation_is_pre_v3 m \<and> mutation_is_pre_v3 undo \<and>
              mutation_field_key m = mutation_field_key undo
          | (Resolve l r m, Inv_Apply undo) \<Rightarrow>
              mutation_is_pre_v3 m \<and> mutation_is_pre_v3 undo \<and>
              mutation_field_key m = mutation_field_key undo
          | _ \<Rightarrow> toggle_matches p i)
      then Inr () else Inl OE_InvalidInverse)"
| "validate_payload_inverse V2 p i =
     (case (p, i) of
        (Apply m, Inv_ApplyV2 prior) \<Rightarrow>
          if \<not> mutation_is_pre_v3 m \<or> \<not> prior_is_pre_v3 prior then Inl OE_InvalidInverse
          else validate_for prior m
      | (Resolve l r m, Inv_ApplyV2 prior) \<Rightarrow>
          if \<not> mutation_is_pre_v3 m \<or> \<not> prior_is_pre_v3 prior then Inl OE_InvalidInverse
          else validate_for prior m
      | (ResolveV2 l r value, Inv_ApplyV2 prior) \<Rightarrow>
          if \<not> prior_is_pre_v3 prior \<or> \<not> resolution_is_pre_v3 value then Inl OE_InvalidInverse
          else validate_for_resolution prior value
      | (Apply (BindFloorEvidence f reference), Inv_NonReversible FloorEvidenceBinding) \<Rightarrow> Inr ()
      | _ \<Rightarrow> if toggle_matches p i then Inr () else Inl OE_InvalidInverse)"
| "validate_payload_inverse V3 p i =
     (case (p, i) of
        (Apply m, Inv_ApplyV2 prior) \<Rightarrow> validate_for prior m
      | (Apply (BindFloorEvidence f reference), Inv_NonReversible FloorEvidenceBinding) \<Rightarrow> Inr ()
      | _ \<Rightarrow> if toggle_matches p i then Inr () else Inl OE_InvalidInverse)"

section \<open>Construction\<close>

definition digest :: "'t wire_format \<Rightarrow> octets \<Rightarrow> content_hash" where
  "digest fmt bytes = sha256 fmt bytes"

definition wire_of :: "'t operation \<Rightarrow> 't operation_wire" where
  "wire_of op =
     \<lparr>schema_version = schema_version op, operation_id = operation_id op,
      op_project_id = op_project_id op, actor_id = actor_id op, device_id = device_id op,
      logical_time = logical_time op, causal_depth = causal_depth op, parents = parents op,
      payload = payload op, inverse_of = inverse_of op, content_hash = content_hash op\<rparr>"

definition unsigned_of :: "'t operation \<Rightarrow> 't unsigned_operation_wire" where
  "unsigned_of op =
     \<lparr>schema_version = schema_version op, operation_id = operation_id op,
      op_project_id = op_project_id op, actor_id = actor_id op, device_id = device_id op,
      logical_time = logical_time op, causal_depth = causal_depth op, parents = parents op,
      payload = payload op, inverse_of = inverse_of op\<rparr>"

definition try_parts ::
    "'t wire_format \<Rightarrow> operation_schema_version \<Rightarrow> operation_id \<Rightarrow> project_id \<Rightarrow> actor_id
       \<Rightarrow> device_id \<Rightarrow> logical_timestamp \<Rightarrow> causal_depth \<Rightarrow> operation_id list
       \<Rightarrow> 't operation_payload \<Rightarrow> 't inverse_metadata \<Rightarrow> content_hash option
       \<Rightarrow> operation_error + 't operation" where
  "try_parts fmt sv oid pid aid did time depth ps pay undo expected =
     (case validate_parent_list ps of Inl e \<Rightarrow> Inl e | Inr _ \<Rightarrow>
      case validate_payload_inverse sv pay undo of Inl e \<Rightarrow> Inl e | Inr _ \<Rightarrow>
      if (if ps = [] then depth \<noteq> 0 else depth = 0) then Inl OE_InvalidCausality else
      let unsigned =
        \<lparr>schema_version = sv, operation_id = oid, op_project_id = pid, actor_id = aid,
         device_id = did, logical_time = time, causal_depth = depth, parents = ps,
         payload = pay, inverse_of = undo\<rparr>
      in case unsigned_to_vec fmt unsigned of None \<Rightarrow> Inl OE_CanonicalEncoding | Some canon \<Rightarrow>
      if length canon > MAX_OPERATION_CANONICAL_BYTES
      then Inl (OE_ResourceLimit ''operation_canonical_bytes'') else
      let hash = digest fmt canon
      in if (case expected of None \<Rightarrow> False | Some h \<Rightarrow> h \<noteq> hash) then Inl OE_HashMismatch else
      let result =
        \<lparr>schema_version = sv, operation_id = oid, op_project_id = pid, actor_id = aid,
         device_id = did, logical_time = time, causal_depth = depth, parents = ps,
         payload = pay, inverse_of = undo, content_hash = hash, canonical = canon\<rparr>
      in case wire_to_vec fmt (wire_of result) of None \<Rightarrow> Inl OE_CanonicalEncoding | Some bytes \<Rightarrow>
      if length bytes > MAX_OPERATION_WIRE_BYTES
      then Inl (OE_ResourceLimit ''operation_wire_bytes'')
      else Inr result)"

definition try_apply where
  "try_apply fmt oid pid aid did time depth ps mutation undo =
     try_parts fmt V1 oid pid aid did time depth ps (Apply mutation) (Inv_Apply undo) None"

definition try_apply_v2 where
  "try_apply_v2 fmt oid pid aid did time depth ps mutation prior =
     try_parts fmt V2 oid pid aid did time depth ps (Apply mutation) (Inv_ApplyV2 prior) None"

definition try_apply_v3 where
  "try_apply_v3 fmt oid pid aid did time depth ps mutation prior =
     try_parts fmt V3 oid pid aid did time depth ps (Apply mutation) (Inv_ApplyV2 prior) None"

definition try_apply_v2_non_reversible where
  "try_apply_v2_non_reversible fmt oid pid aid did time depth ps mutation reason =
     try_parts fmt V2 oid pid aid did time depth ps (Apply mutation) (Inv_NonReversible reason) None"

definition try_undo where
  "try_undo fmt oid pid aid did time depth ps target =
     try_parts fmt V1 oid pid aid did time depth ps (Undo target) (Inv_Toggle target Toggle_Redo) None"

definition try_undo_v2 where
  "try_undo_v2 fmt oid pid aid did time depth ps target =
     try_parts fmt V2 oid pid aid did time depth ps (Undo target) (Inv_Toggle target Toggle_Redo) None"

definition try_undo_v3 where
  "try_undo_v3 fmt oid pid aid did time depth ps target =
     try_parts fmt V3 oid pid aid did time depth ps (Undo target) (Inv_Toggle target Toggle_Redo) None"

definition try_redo where
  "try_redo fmt oid pid aid did time depth ps target =
     try_parts fmt V1 oid pid aid did time depth ps (Redo target) (Inv_Toggle target Toggle_Undo) None"

definition try_redo_v2 where
  "try_redo_v2 fmt oid pid aid did time depth ps target =
     try_parts fmt V2 oid pid aid did time depth ps (Redo target) (Inv_Toggle target Toggle_Undo) None"

definition try_redo_v3 where
  "try_redo_v3 fmt oid pid aid did time depth ps target =
     try_parts fmt V3 oid pid aid did time depth ps (Redo target) (Inv_Toggle target Toggle_Undo) None"

definition try_resolve where
  "try_resolve fmt oid pid aid did time depth ps left right mutation undo =
     try_parts fmt V1 oid pid aid did time depth ps (Resolve left right mutation) (Inv_Apply undo) None"

definition try_resolve_v2 where
  "try_resolve_v2 fmt oid pid aid did time depth ps left right value prior =
     try_parts fmt V2 oid pid aid did time depth ps (ResolveV2 left right value) (Inv_ApplyV2 prior)
       None"

section \<open>Bytes\<close>

definition operation_try_from :: "'t wire_format \<Rightarrow> 't operation_wire \<Rightarrow> operation_error + 't operation" where
  "operation_try_from fmt w =
     try_parts fmt (schema_version w) (operation_id w) (op_project_id w) (actor_id w) (device_id w)
       (logical_time w) (causal_depth w) (parents w) (payload w) (inverse_of w)
       (Some (content_hash w))"

definition to_bytes :: "'t wire_format \<Rightarrow> 't operation \<Rightarrow> operation_error + octets" where
  "to_bytes fmt op =
     (case wire_to_vec fmt (wire_of op) of None \<Rightarrow> Inl OE_CanonicalEncoding | Some bytes \<Rightarrow>
      if length bytes > MAX_OPERATION_WIRE_BYTES
      then Inl (OE_ResourceLimit ''operation_wire_bytes'')
      else Inr bytes)"

text \<open>The visitor behind \<open>deserialize_with = "bounded_parents"\<close>, fed the elements of the sequence.\<close>

fun visit_parents :: "operation_id list \<Rightarrow> operation_id list \<Rightarrow> operation_id list option" where
  "visit_parents ps [] = Some ps"
| "visit_parents ps (parent # rest) =
     (if length ps \<ge> MAX_PARENTS then None else visit_parents (ps @ [parent]) rest)"

definition bounded_parents :: "operation_id list \<Rightarrow> operation_id list option" where
  "bounded_parents sequence = visit_parents [] sequence"

definition wire_from_slice :: "'t wire_format \<Rightarrow> octets \<Rightarrow> 't operation_wire option" where
  "wire_from_slice fmt bytes =
     (case wire_parse fmt bytes of None \<Rightarrow> None | Some w \<Rightarrow>
      case logical_timestamp_new (logical_time w) of Inl e \<Rightarrow> None | Inr time \<Rightarrow>
      case bounded_parents (parents w) of None \<Rightarrow> None | Some ps \<Rightarrow>
      Some (w\<lparr>logical_time := time, parents := ps\<rparr>))"

definition from_bytes :: "'t wire_format \<Rightarrow> octets \<Rightarrow> operation_error + 't operation" where
  "from_bytes fmt bytes =
     (if length bytes > MAX_OPERATION_WIRE_BYTES
      then Inl (OE_ResourceLimit ''operation_wire_bytes'') else
      case wire_from_slice fmt bytes of None \<Rightarrow> Inl OE_MalformedEncoding | Some wire \<Rightarrow>
      case operation_try_from fmt wire of Inl e \<Rightarrow> Inl e | Inr op \<Rightarrow>
      case to_bytes fmt op of Inl e \<Rightarrow> Inl e | Inr again \<Rightarrow>
      if again \<noteq> bytes then Inl OE_NonCanonicalEncoding else Inr op)"

record counting_writer =
  cw_length :: nat
  cw_limit_exceeded :: bool

datatype io_error = IoOther string

text \<open>\<open>Write::write\<close> of the counting writer; \<open>write_all\<close> calls it once per non-empty buffer.\<close>

definition counting_write :: "octets \<Rightarrow> (counting_writer, io_error, nat) rsm" where
  "counting_write bytes w =
     (case checked_add (cw_length w) (length bytes) of
        None \<Rightarrow> (Inl (IoOther ''operation wire length overflow''), w)
      | Some next \<Rightarrow>
          if next > MAX_OPERATION_WIRE_BYTES
          then (Inl (IoOther ''operation wire length limit''), w\<lparr>cw_limit_exceeded := True\<rparr>)
          else (Inr (length bytes), w\<lparr>cw_length := next\<rparr>))"

fun write_buffers :: "octets list \<Rightarrow> (counting_writer, io_error, unit) rsm" where
  "write_buffers [] = ret ()"
| "write_buffers (b # bs) =
     (if b = [] then write_buffers bs else bindR (counting_write b) (\<lambda>_. write_buffers bs))"

definition wire_bytes_len :: "'t wire_format \<Rightarrow> 't operation \<Rightarrow> operation_error + nat" where
  "wire_bytes_len fmt op =
     (let (buffers, finished) = wire_writes fmt (wire_of op)
      in case write_buffers buffers \<lparr>cw_length = 0, cw_limit_exceeded = False\<rparr> of
           (Inr _, w) \<Rightarrow> if finished then Inr (cw_length w) else Inl OE_CanonicalEncoding
         | (Inl e, w) \<Rightarrow>
             Inl (if cw_limit_exceeded w then OE_ResourceLimit ''operation_wire_bytes''
                  else OE_CanonicalEncoding))"

section \<open>Well-formed operations\<close>

definition operation_wf :: "'t wire_format \<Rightarrow> 't operation \<Rightarrow> bool" where
  "operation_wf fmt op \<longleftrightarrow>
     length (parents op) \<le> MAX_PARENTS \<and> sorted_wrt (<) (parents op) \<and>
     validate_payload_inverse (schema_version op) (payload op) (inverse_of op) = Inr () \<and>
     (parents op = [] \<longleftrightarrow> causal_depth op = 0) \<and>
     unsigned_to_vec fmt (unsigned_of op) = Some (canonical op) \<and>
     length (canonical op) \<le> MAX_OPERATION_CANONICAL_BYTES \<and>
     content_hash op = digest fmt (canonical op) \<and>
     (\<exists>bytes. wire_to_vec fmt (wire_of op) = Some bytes \<and> length bytes \<le> MAX_OPERATION_WIRE_BYTES)"

lemma any_adjacent_sorted: "any_adjacent (\<lambda>a b. a \<ge> b) xs \<longleftrightarrow> \<not> sorted_wrt (<) (xs :: 'a::linorder list)"
proof (induction "\<lambda>a b :: 'a. a \<ge> b" xs rule: any_adjacent.induct)
  case (1 a b xs)
  then show ?case by (auto simp: not_le intro: less_trans)
qed auto

lemma validate_parent_list_iff:
  "validate_parent_list ps = Inr () \<longleftrightarrow> length ps \<le> MAX_PARENTS \<and> sorted_wrt (<) ps"
  by (simp add: validate_parent_list_def any_adjacent_sorted)

lemma try_parts_Inr:
  "try_parts fmt sv oid pid aid did time depth ps pay undo expected = Inr op \<longleftrightarrow>
     unsigned_of op =
       \<lparr>schema_version = sv, operation_id = oid, op_project_id = pid, actor_id = aid,
        device_id = did, logical_time = time, causal_depth = depth, parents = ps,
        payload = pay, inverse_of = undo\<rparr> \<and>
     operation_wf fmt op \<and> (expected = None \<or> expected = Some (content_hash op))"
proof -
  define u where "u = \<lparr>schema_version = sv, operation_id = oid, op_project_id = pid, actor_id = aid,
        device_id = did, logical_time = time, causal_depth = depth, parents = ps,
        payload = pay, inverse_of = undo\<rparr>"
  show ?thesis
  proof (cases "validate_parent_list ps = Inr () \<and> validate_payload_inverse sv pay undo = Inr () \<and>
      (ps = [] \<longleftrightarrow> depth = 0)")
    case False
    have "\<not> (unsigned_of op = u \<and> operation_wf fmt op)"
      using False by (auto simp: u_def unsigned_of_def operation_wf_def validate_parent_list_iff)
    moreover have "try_parts fmt sv oid pid aid did time depth ps pay undo expected \<noteq> Inr op"
      using False by (auto simp: try_parts_def split: sum.splits if_splits)
    ultimately show ?thesis unfolding u_def by blast
  next
    case True
    define r where "r c = \<lparr>schema_version = sv, operation_id = oid, op_project_id = pid, actor_id = aid,
         device_id = did, logical_time = time, causal_depth = depth, parents = ps,
         payload = pay, inverse_of = undo, content_hash = digest fmt c, canonical = c\<rparr>" for c
    have op: "op = r (canonical op) \<longleftrightarrow> unsigned_of op = u \<and> content_hash op = digest fmt (canonical op)"
      by (cases op) (auto simp: r_def u_def unsigned_of_def)
    have sel: "content_hash (r c) = digest fmt c" "canonical (r c) = c" for c by (simp_all add: r_def)
    have "try_parts fmt sv oid pid aid did time depth ps pay undo expected = Inr op \<longleftrightarrow>
      unsigned_to_vec fmt u = Some (canonical op) \<and> length (canonical op) \<le> MAX_OPERATION_CANONICAL_BYTES \<and>
      op = r (canonical op) \<and> (expected = None \<or> expected = Some (content_hash op)) \<and>
      (\<exists>bytes. wire_to_vec fmt (wire_of op) = Some bytes \<and> length bytes \<le> MAX_OPERATION_WIRE_BYTES)"
      using True unfolding try_parts_def u_def [symmetric] r_def [symmetric] Let_def
      by (auto simp: sel split: option.splits if_splits) (metis sel(1))+
    also have "\<dots> \<longleftrightarrow> unsigned_of op = u \<and> operation_wf fmt op \<and>
        (expected = None \<or> expected = Some (content_hash op))"
      using True unfolding op operation_wf_def
      by (auto simp: u_def unsigned_of_def validate_parent_list_iff)
    finally show ?thesis unfolding u_def .
  qed
qed

lemma visit_parents_eq:
  "visit_parents acc ps = (if length acc + length ps \<le> MAX_PARENTS \<or> ps = [] then Some (acc @ ps) else None)"
  by (induction acc ps rule: visit_parents.induct) auto

lemma bounded_parents_eq: "bounded_parents ps = (if length ps \<le> MAX_PARENTS then Some ps else None)"
  by (auto simp: bounded_parents_def visit_parents_eq MAX_PARENTS_def)

lemma operation_try_from_wire_of:
  "operation_wf fmt op \<Longrightarrow> operation_try_from fmt (wire_of op) = Inr op"
  by (simp add: operation_try_from_def try_parts_Inr) (simp add: wire_of_def unsigned_of_def)

lemma to_bytes_wf: "operation_wf fmt op \<Longrightarrow> \<exists>bytes. to_bytes fmt op = Inr bytes"
  by (auto simp: operation_wf_def to_bytes_def)

lemma from_bytes_Inr:
  assumes "from_bytes fmt bytes = Inr op"
  shows "operation_wf fmt op" "to_bytes fmt op = Inr bytes" "logical_time op \<noteq> 0"
    "length bytes \<le> MAX_OPERATION_WIRE_BYTES"
proof -
  from assms obtain w where len: "length bytes \<le> MAX_OPERATION_WIRE_BYTES"
    and w: "wire_from_slice fmt bytes = Some w" and op: "operation_try_from fmt w = Inr op"
    and again: "to_bytes fmt op = Inr bytes"
    by (auto simp: from_bytes_def split: if_splits option.splits sum.splits)
  from w have "logical_time w \<noteq> 0"
    by (auto simp: wire_from_slice_def logical_timestamp_new_def split: option.splits sum.splits if_splits)
  moreover from op have "operation_wf fmt op" "logical_time op = logical_time w"
    by (auto simp: operation_try_from_def try_parts_Inr unsigned_of_def)
  ultimately show "operation_wf fmt op" "to_bytes fmt op = Inr bytes" "logical_time op \<noteq> 0"
    "length bytes \<le> MAX_OPERATION_WIRE_BYTES"
    using len again by simp_all
qed

lemma from_bytes_to_bytes:
  assumes "operation_wf fmt op" "logical_time op \<noteq> 0" "to_bytes fmt op = Inr bytes"
    and "\<And>w bs. wire_to_vec fmt w = Some bs \<Longrightarrow> wire_parse fmt bs = Some w"
  shows "from_bytes fmt bytes = Inr op"
proof -
  have vec: "wire_to_vec fmt (wire_of op) = Some bytes" and len: "length bytes \<le> MAX_OPERATION_WIRE_BYTES"
    using assms(3) by (auto simp: to_bytes_def split: option.splits if_splits)
  have "wire_from_slice fmt bytes = Some (wire_of op)"
    using assms(4) [OF vec] assms(1,2)
    by (simp add: wire_from_slice_def logical_timestamp_new_def bounded_parents_eq operation_wf_def)
      (simp add: wire_of_def)
  then show ?thesis
    using len assms(1,3) by (simp add: from_bytes_def operation_try_from_wire_of)
qed

section \<open>The counting writer\<close>

lemma write_buffers_eq:
  assumes "cw_length w \<le> MAX_OPERATION_WIRE_BYTES" "\<And>b. b \<in> set bs \<Longrightarrow> length b < 2 ^ 63"
  shows "if cw_length w + length (concat bs) \<le> MAX_OPERATION_WIRE_BYTES
         then write_buffers bs w = (Inr (), w\<lparr>cw_length := cw_length w + length (concat bs)\<rparr>)
         else \<exists>e t. write_buffers bs w = (Inl e, t) \<and> cw_limit_exceeded t"
  using assms
proof (induction bs arbitrary: w)
  case (Cons b bs)
  show ?case
  proof (cases "cw_length w + length b \<le> MAX_OPERATION_WIRE_BYTES")
    case True
    then have fits: "cw_length w + length b \<le> usize_MAX"
      by (simp add: MAX_OPERATION_WIRE_BYTES_def usize_MAX_def)
    show ?thesis
      using Cons.IH [of "w\<lparr>cw_length := cw_length w + length b\<rparr>"] Cons.prems(2) True fits
      by (auto simp: bindR_def counting_write_def checked_add_def add.assoc split: if_splits)
  next
    case False
    moreover have "length b < 2 ^ 63" using Cons.prems(2) by simp
    ultimately show ?thesis
      using Cons.prems(1)
      by (auto simp: bindR_def counting_write_def checked_add_def MAX_OPERATION_WIRE_BYTES_def
          usize_MAX_def)
  qed
qed simp

section \<open>A concrete format\<close>

text \<open>
  A wire format over a table of unsigned operations, in which an operation is encoded by its
  position and hashed by the identity: it shows that what the properties below ask of the encoder,
  the decoder and the hash can be met.
\<close>

fun position :: "'a \<Rightarrow> 'a list \<Rightarrow> nat option" where
  "position x [] = None"
| "position x (y # ys) = (if x = y then Some 0 else map_option Suc (position x ys))"

definition sign :: "'t unsigned_operation_wire \<Rightarrow> content_hash \<Rightarrow> 't operation_wire" where
  "sign u h =
     \<lparr>schema_version = schema_version u, operation_id = operation_id u,
      op_project_id = op_project_id u, actor_id = actor_id u, device_id = device_id u,
      logical_time = logical_time u, causal_depth = causal_depth u, parents = parents u,
      payload = payload u, inverse_of = inverse_of u, content_hash = h\<rparr>"

definition unsign :: "'t operation_wire \<Rightarrow> 't unsigned_operation_wire" where
  "unsign w =
     \<lparr>schema_version = schema_version w, operation_id = operation_id w,
      op_project_id = op_project_id w, actor_id = actor_id w, device_id = device_id w,
      logical_time = logical_time w, causal_depth = causal_depth w, parents = parents w,
      payload = payload w, inverse_of = inverse_of w\<rparr>"

definition table_encode :: "'t unsigned_operation_wire list \<Rightarrow> 't unsigned_operation_wire \<Rightarrow> octets option" where
  "table_encode us u = map_option (\<lambda>i. [word_of_nat i]) (position u us)"

definition table_wire_encode :: "'t unsigned_operation_wire list \<Rightarrow> 't operation_wire \<Rightarrow> octets option" where
  "table_wire_encode us w =
     (if table_encode us (unsign w) = Some (content_hash w) then Some (content_hash w) else None)"

fun table_parse :: "'t unsigned_operation_wire list \<Rightarrow> octets \<Rightarrow> 't operation_wire option" where
  "table_parse us [b] = (if unat b < length us then Some (sign (us ! unat b) [b]) else None)"
| "table_parse us _ = None"

definition table_format :: "'t unsigned_operation_wire list \<Rightarrow> 't wire_format" where
  "table_format us =
     \<lparr>unsigned_to_vec = table_encode us, wire_to_vec = table_wire_encode us,
      wire_writes = (\<lambda>w. case table_wire_encode us w of
         None \<Rightarrow> ([], False) | Some bs \<Rightarrow> (map (\<lambda>b. [b]) bs, True)),
      wire_parse = table_parse us, sha256 = id\<rparr>"

lemma position_Some: "position x ys = Some i \<Longrightarrow> i < length ys \<and> ys ! i = x"
  by (induction ys arbitrary: i) (auto split: if_splits)

lemma sign_unsign [simp]: "sign (unsign w) (content_hash w) = w"
  by (simp add: sign_def unsign_def)

lemma table_encode_Some:
  assumes "length us \<le> 256" "table_encode us u = Some bs"
  shows "\<exists>b. bs = [b] \<and> unat b < length us \<and> us ! unat b = u"
proof -
  from assms(2) obtain i where i: "position u us = Some i" "bs = [word_of_nat i]"
    by (auto simp: table_encode_def)
  with position_Some [OF i(1)] assms(1) show ?thesis
    by (auto simp: unat_of_nat)
qed

lemma table_format_parses:
  "length us \<le> 256 \<Longrightarrow> wire_to_vec (table_format us) w = Some bs \<Longrightarrow>
     wire_parse (table_format us) bs = Some w"
  using table_encode_Some [of us "unsign w" bs] sign_unsign [of w]
  by (auto simp del: sign_unsign simp add: table_format_def table_wire_encode_def split: if_splits)

definition sample_unsigned :: "unit unsigned_operation_wire" where
  "sample_unsigned =
     \<lparr>schema_version = V2, operation_id = replicate 16 1, op_project_id = replicate 16 2,
      actor_id = replicate 16 3, device_id = replicate 16 4, logical_time = 7, causal_depth = 0,
      parents = [], payload = Apply (ActivateCalibration (replicate 16 5) (replicate 16 6)),
      inverse_of = Inv_ApplyV2 (Prior_MapCalibration (replicate 16 5) (Unknown NotMeasured))\<rparr>"

definition sample_operation :: "unit operation" where
  "sample_operation =
     \<lparr>schema_version = V2, operation_id = replicate 16 1, op_project_id = replicate 16 2,
      actor_id = replicate 16 3, device_id = replicate 16 4, logical_time = 7, causal_depth = 0,
      parents = [], payload = Apply (ActivateCalibration (replicate 16 5) (replicate 16 6)),
      inverse_of = Inv_ApplyV2 (Prior_MapCalibration (replicate 16 5) (Unknown NotMeasured)),
      content_hash = [0], canonical = [0]\<rparr>"

abbreviation sample_format :: "unit wire_format" where
  "sample_format \<equiv> table_format [sample_unsigned]"

lemma sample_wire: "unsigned_of sample_operation = sample_unsigned"
  "wire_of sample_operation = sign sample_unsigned [0]"
  by (simp_all add: sample_unsigned_def sample_operation_def unsigned_of_def wire_of_def sign_def)

lemma sample_encoding:
  "unsigned_to_vec sample_format sample_unsigned = Some [0]"
  "wire_to_vec sample_format (wire_of sample_operation) = Some [0]"
  "wire_writes sample_format (wire_of sample_operation) = ([[0]], True)"
  by (simp_all add: table_format_def table_encode_def table_wire_encode_def sample_wire)
    (simp_all add: sign_def unsign_def)

lemma sample_operation_fields:
  "schema_version sample_operation = V2" "parents sample_operation = []"
  "causal_depth sample_operation = 0" "logical_time sample_operation = 7"
  "content_hash sample_operation = [0]" "canonical sample_operation = [0]"
  "payload sample_operation = Apply (ActivateCalibration (replicate 16 5) (replicate 16 6))"
  "inverse_of sample_operation =
     Inv_ApplyV2 (Prior_MapCalibration (replicate 16 5) (Unknown NotMeasured))"
  by (simp_all add: sample_operation_def)

lemma sample_operation_wf: "operation_wf sample_format sample_operation"
  by (simp add: operation_wf_def sample_operation_fields sample_wire(1) sample_encoding
      validate_for_def digest_def MAX_OPERATION_CANONICAL_BYTES_def MAX_OPERATION_WIRE_BYTES_def)
    (simp add: table_format_def)

lemma sample_to_bytes: "to_bytes sample_format sample_operation = Inr [0]"
  by (simp add: to_bytes_def sample_encoding MAX_OPERATION_WIRE_BYTES_def)

section \<open>Properties\<close>

text \<open>
  Claim C21. Reading bytes and writing an operation are inverse to one another. When the JSON decoder
  parses what the JSON encoder wrote, \<open>from_bytes\<close> accepts exactly the bytes \<open>to_bytes\<close> produces for
  a well-formed operation with a positive logical time, and returns that operation: no other bytes
  are accepted, so an operation has one byte form.
\<close>

theorem operation_bytes_roundtrip:
  assumes "\<And>w bs. wire_to_vec fmt w = Some bs \<Longrightarrow> wire_parse fmt bs = Some w"
  shows "from_bytes fmt bytes = Inr op \<longleftrightarrow>
    operation_wf fmt op \<and> logical_time op \<noteq> 0 \<and> to_bytes fmt op = Inr bytes"
  using from_bytes_Inr [of fmt bytes op] from_bytes_to_bytes [of fmt op bytes] assms by blast

theorem operation_bytes_roundtrip_witness:
  "from_bytes sample_format [0] = Inr sample_operation"
  using operation_bytes_roundtrip [OF table_format_parses, of "[sample_unsigned]" "[0]" sample_operation]
  by (simp add: sample_operation_wf sample_to_bytes sample_operation_fields)

text \<open>
  Claim C39. \<open>wire_bytes_len\<close> is the length of what \<open>to_bytes\<close> would return, and fails exactly when
  \<open>to_bytes\<close> fails and with the same error, for a serializer whose buffers are the bytes of its
  in-memory encoding and fit in memory.
\<close>

theorem wire_bytes_len_exact:
  assumes "wire_writes fmt (wire_of op) = (buffers, True)" "\<And>b. b \<in> set buffers \<Longrightarrow> length b < 2 ^ 63"
    and "wire_to_vec fmt (wire_of op) = Some (concat buffers)"
  shows "wire_bytes_len fmt op = map_sum id length (to_bytes fmt op)"
  using write_buffers_eq [of "\<lparr>cw_length = 0, cw_limit_exceeded = False\<rparr>" buffers] assms
  by (auto simp: wire_bytes_len_def to_bytes_def split: if_splits)

theorem wire_bytes_len_exact_witness: "wire_bytes_len sample_format sample_operation = Inr 1"
  using wire_bytes_len_exact [of sample_format sample_operation "[[0]]"]
  by (simp add: sample_encoding sample_to_bytes)

end
