(* ===== verification/Budgeted.thy ===== *)
theory Budgeted
  imports Resource_Budget
begin

text \<open>
  Reasoning about programs that charge a resource budget on the way. Such a program may stop early
  with a resource error, and must otherwise behave as if there were no budget: \<open>refines\<close> compares
  it with a result computed without one, \<open>budget_free\<close> says that there is such a result,
  and \<open>returns\<close> is a postcondition on success.
\<close>

section \<open>Results without a budget\<close>

definition refines :: "('e \<Rightarrow> bool) \<Rightarrow> ('s, 'e, 'a) rsm \<Rightarrow> 'e + 'a \<Rightarrow> bool" where
  "refines R m v \<longleftrightarrow>
     (\<forall>s x t. m s = (Inr x, t) \<longrightarrow> v = Inr x) \<and> (\<forall>s e t. m s = (Inl e, t) \<longrightarrow> v = Inl e \<or> R e)"

named_theorems refines_rules "the result of each program construct without its budget"

lemma refinesI:
  assumes "\<And>s x t. m s = (Inr x, t) \<Longrightarrow> v = Inr x" "\<And>s e t. m s = (Inl e, t) \<Longrightarrow> v = Inl e \<or> R e"
  shows "refines R m v"
  using assms unfolding refines_def by blast

lemma refinesD:
  assumes "refines R m v"
  shows "m s = (Inr x, t) \<Longrightarrow> v = Inr x" "m s = (Inl e, t) \<Longrightarrow> v = Inl e \<or> R e"
  using assms unfolding refines_def by blast+

lemma refines_ret [refines_rules]: "refines R (ret x) (Inr x)"
  by (auto intro: refinesI)

lemma refines_fail [refines_rules]: "refines R (fail e) (Inl e)"
  by (auto intro: refinesI)

lemma refines_stop: "R e \<Longrightarrow> refines R (fail e) v"
  by (auto intro: refinesI)

lemma refines_guardR [refines_rules]: "refines R (guardR b e) (if b then Inr () else Inl e)"
  by (simp add: guardR_def refines_ret refines_fail)

lemma refines_ok_or [refines_rules]:
  "refines R (ok_or v e) (case v of None \<Rightarrow> Inl e | Some x \<Rightarrow> Inr x)"
  by (simp add: ok_or_def refines_ret refines_fail split: option.splits)

lemma refines_bind [refines_rules]:
  assumes "refines R m v" "\<And>x. v = Inr x \<Longrightarrow> refines R (f x) (g x)"
  shows "refines R (bindR m f) (bindE v g)"
proof (rule refinesI)
  fix s y t assume "bindR m f s = (Inr y, t)"
  then obtain x s' where "m s = (Inr x, s')" "f x s' = (Inr y, t)" by (auto simp: bindR_Inr_iff)
  then show "bindE v g = Inr y"
    using refinesD(1) [OF assms(1)] refinesD(1) [OF assms(2)] by fastforce
next
  fix s e t assume "bindR m f s = (Inl e, t)"
  then consider "m s = (Inl e, t)" | x s' where "m s = (Inr x, s')" "f x s' = (Inl e, t)"
    by (auto simp: bindR_Inl_iff)
  then show "bindE v g = Inl e \<or> R e"
    using refinesD [OF assms(1)] refinesD(2) [OF assms(2)] by cases fastforce+
qed

lemma refines_bind_eq:
  assumes "refines R m v" "\<And>x. v = Inr x \<Longrightarrow> refines R (f x) (g x)" "w = bindE v g"
  shows "refines R (bindR m f) w"
  using refines_bind [of R m v f g] assms by simp

text \<open>A program that only charges, in front of another, leaves the result as it is.\<close>

lemma refines_bind_value:
  assumes "refines R m (Inr x)" "refines R (f x) v"
  shows "refines R (bindR m f) v"
  by (rule refines_bind_eq [OF assms(1), where g = "\<lambda>_. v"]) (use assms(2) in auto)

lemmas refines_bind_unit = refines_bind_value [of _ _ "()"]

lemma refines_bind_fail: "refines R m (Inl e) \<Longrightarrow> refines R (bindR m f) (Inl e)"
  by (rule refines_bind_eq [where g = undefined]) auto

lemma refines_bind_guard_False: "\<not> b \<Longrightarrow> refines R (bindR (guardR b e) f) (Inl e)"
  by (rule refines_bind_fail) (simp add: guardR_def refines_fail)

lemma refines_bind_ok_or_Some:
  "v = Some x \<Longrightarrow> refines R (f x) w \<Longrightarrow> refines R (bindR (ok_or v e) f) w"
  by (simp only: bindR_ok_or_Some)

lemma refines_bind_guard_True:
  "b \<Longrightarrow> refines R (f ()) w \<Longrightarrow> refines R (bindR (guardR b e) f) w"
  by (intro refinesI) (auto dest: refinesD)

lemma refines_map_err:
  assumes "refines R m v" "\<And>e. R e \<Longrightarrow> R' (h e)"
  shows "refines R' (map_err h m) (map_sum h id v)"
  using assms by (intro refinesI) (fastforce simp: map_err_Inl_iff dest: refinesD)+

lemma refines_on_fst [refines_rules]: "refines R m v \<Longrightarrow> refines R (on_fst m) v"
  by (intro refinesI) (auto dest: refinesD)

lemma refines_if:
  "(b \<Longrightarrow> refines R m v) \<Longrightarrow> (\<not> b \<Longrightarrow> refines R m' v) \<Longrightarrow> refines R (if b then m else m') v"
  by simp

lemma refines_weaken: "refines R m v \<Longrightarrow> (\<And>e. R e \<Longrightarrow> R' e) \<Longrightarrow> refines R' m v"
  by (auto intro!: refinesI dest: refinesD)

abbreviation any_error :: "resource_budget_error \<Rightarrow> bool" where
  "any_error \<equiv> \<lambda>_. True"

lemma refines_check_cancelled [refines_rules]: "refines any_error check_cancelled (Inr ())"
  by (auto intro: refinesI)

lemma refines_charge [refines_rules]: "refines any_error (charge k n) (Inr ())"
  by (auto intro: refinesI)

lemma refines_charge_with_limit [refines_rules]:
  "refines any_error (charge_with_limit k n lim) (Inr ())"
  by (auto intro: refinesI)

section \<open>Independence of the budget\<close>

definition budget_free :: "('e \<Rightarrow> bool) \<Rightarrow> ('s, 'e, 'a) rsm \<Rightarrow> bool" where
  "budget_free R m \<longleftrightarrow> (\<exists>v. refines R m v)"

named_theorems budget_free_rules "closure of budget independence"

lemma refines_budget_free: "refines R m v \<Longrightarrow> budget_free R m"
  by (auto simp: budget_free_def)

lemma budget_free_unique:
  "budget_free R m \<Longrightarrow> m s = (Inr x, t) \<Longrightarrow> m s' = (Inr y, t') \<Longrightarrow> x = y"
  unfolding budget_free_def by (metis refinesD(1) sum.inject(2))

lemma budget_free_basic [budget_free_rules]:
  "budget_free R (ret x)" "budget_free R (fail e)" "budget_free R (guardR b e)"
  "budget_free R (ok_or v e)"
  by (rule refines_budget_free, rule refines_rules)+

lemma budget_free_charges [budget_free_rules]:
  "budget_free any_error check_cancelled" "budget_free any_error (charge k n)"
  "budget_free any_error (charge_with_limit k n lim)"
  by (rule refines_budget_free, rule refines_rules)+

lemma budget_free_bind [budget_free_rules]:
  assumes "budget_free R m" "\<And>x. budget_free R (f x)"
  shows "budget_free R (bindR m f)"
proof -
  from assms(1) obtain v where v: "refines R m v" by (auto simp: budget_free_def)
  from assms(2) obtain g where "\<And>x. refines R (f x) (g x)" unfolding budget_free_def by metis
  with v have "refines R (bindR m f) (bindE v g)" by (intro refines_rules)
  then show ?thesis by (rule refines_budget_free)
qed

lemma budget_free_if [budget_free_rules]:
  "(b \<Longrightarrow> budget_free R m) \<Longrightarrow> (\<not> b \<Longrightarrow> budget_free R m') \<Longrightarrow> budget_free R (if b then m else m')"
  by simp

lemma budget_free_on_fst [budget_free_rules]: "budget_free R m \<Longrightarrow> budget_free R (on_fst m)"
  unfolding budget_free_def using refines_on_fst by blast

lemma budget_free_map_err:
  "budget_free R m \<Longrightarrow> (\<And>e. R e \<Longrightarrow> R' (h e)) \<Longrightarrow> budget_free R' (map_err h m)"
  unfolding budget_free_def using refines_map_err by metis

section \<open>Postconditions of success\<close>

definition returns :: "('s, 'e, 'a) rsm \<Rightarrow> ('a \<Rightarrow> bool) \<Rightarrow> bool" where
  "returns m Q \<longleftrightarrow> (\<forall>s x t. m s = (Inr x, t) \<longrightarrow> Q x)"

named_theorems returns_rules "postconditions of each program construct"

lemma returnsI: "(\<And>s x t. m s = (Inr x, t) \<Longrightarrow> Q x) \<Longrightarrow> returns m Q"
  by (auto simp: returns_def)

lemma returnsD: "returns m Q \<Longrightarrow> m s = (Inr x, t) \<Longrightarrow> Q x"
  by (auto simp: returns_def)

lemma returns_mono: "returns m Q \<Longrightarrow> (\<And>x. Q x \<Longrightarrow> Q' x) \<Longrightarrow> returns m Q'"
  by (auto simp: returns_def)

lemma returns_True [returns_rules]: "returns m (\<lambda>_. True)"
  by (simp add: returns_def)

lemma returns_ret [returns_rules]: "Q x \<Longrightarrow> returns (ret x) Q"
  by (simp add: returns_def)

lemma returns_fail [returns_rules]: "returns (fail e) Q"
  by (simp add: returns_def)

lemma returns_bind:
  assumes "returns m P" "\<And>x. P x \<Longrightarrow> returns (f x) Q"
  shows "returns (bindR m f) Q"
  using assms by (auto simp: returns_def bindR_Inr_iff) blast

lemma returns_bind_skip: "(\<And>x. returns (f x) Q) \<Longrightarrow> returns (bindR m f) Q"
  by (rule returns_bind [OF returns_True])

lemma returns_bind_guardR [returns_rules]:
  "(b \<Longrightarrow> returns (f ()) Q) \<Longrightarrow> returns (bindR (guardR b e) f) Q"
  by (auto simp: returns_def split: if_splits)

lemma returns_bind_ok_or [returns_rules]:
  "(\<And>x. v = Some x \<Longrightarrow> returns (f x) Q) \<Longrightarrow> returns (bindR (ok_or v e) f) Q"
  by (auto simp: returns_def split: option.splits)

lemma returns_if [returns_rules]:
  "(b \<Longrightarrow> returns m Q) \<Longrightarrow> (\<not> b \<Longrightarrow> returns m' Q) \<Longrightarrow> returns (if b then m else m') Q"
  by simp

lemma returns_map_err [returns_rules]: "returns m Q \<Longrightarrow> returns (map_err h m) Q"
  by (simp add: returns_def)

lemma returns_on_fst [returns_rules]: "returns m Q \<Longrightarrow> returns (on_fst m) Q"
  by (auto simp: returns_def)

lemma refines_returns: "refines R m v \<Longrightarrow> returns m (\<lambda>x. v = Inr x)"
  by (auto simp: returns_def dest: refinesD)

end
