(* ===== verification/Operation_Effects.thy ===== *)
theory Operation_Effects
  imports Operation_Codec Budgeted
begin

text \<open>
  Effects of operations (\<open>EffectValue\<close>, \<open>FrontierIdentity\<close>, \<open>AppliedEffect\<close>, \<open>MergeConflict\<close>,
  \<open>MergeError\<close> and \<open>OperationSet::effect_event_with_charge\<close> of
  \<open>crates/operation-log/src/lib.rs\<close>): what an apply, a toggle or a resolution does to the field it
  edits, and when two such effects count as the same value.
\<close>

section \<open>Applied effects\<close>

record 't applied_mutation =
  am_operation_id :: operation_id
  am_mutation :: "'t mutation"

datatype 't applied_effect =
  Eff_Mutation "'t applied_mutation"
| Eff_Calibration operation_id map_asset_id "calibration_id evidence"

fun effect_operation_id :: "'t applied_effect \<Rightarrow> operation_id" where
  "effect_operation_id (Eff_Mutation applied) = am_operation_id applied"
| "effect_operation_id (Eff_Calibration oid map_id calibration) = oid"

fun effect_field_key :: "'t applied_effect \<Rightarrow> field_key" where
  "effect_field_key (Eff_Mutation applied) = mutation_field_key (am_mutation applied)"
| "effect_field_key (Eff_Calibration oid map_id calibration) = FK_MapCalibration map_id"

fun effect_map_id :: "'t applied_effect \<Rightarrow> map_asset_id option" where
  "effect_map_id (Eff_Mutation applied) = None"
| "effect_map_id (Eff_Calibration oid map_id calibration) = Some map_id"

fun effect_mutation :: "'t applied_effect \<Rightarrow> 't mutation option" where
  "effect_mutation (Eff_Mutation applied) = Some (am_mutation applied)"
| "effect_mutation (Eff_Calibration oid map_id calibration) = None"

fun effect_calibration :: "'t applied_effect \<Rightarrow> calibration_id evidence option" where
  "effect_calibration (Eff_Mutation applied) = None"
| "effect_calibration (Eff_Calibration oid map_id calibration) = Some calibration"

fun resolution_applied_effect :: "'t resolution_value \<Rightarrow> operation_id \<Rightarrow> 't applied_effect" where
  "resolution_applied_effect (RV_Mutation m) oid =
     Eff_Mutation \<lparr>am_operation_id = oid, am_mutation = m\<rparr>"
| "resolution_applied_effect (RV_Calibration map_id calibration) oid =
     Eff_Calibration oid map_id calibration"

fun as_applied_effect ::
    "'t inverse_metadata \<Rightarrow> operation_id \<Rightarrow> operation_error + 't applied_effect" where
  "as_applied_effect (Inv_Apply m) oid =
     Inr (Eff_Mutation \<lparr>am_operation_id = oid, am_mutation = m\<rparr>)"
| "as_applied_effect (Inv_ApplyV2 prior) oid =
     (case prior of
        Prior_MapCalibration map_id calibration \<Rightarrow> Inr (Eff_Calibration oid map_id calibration)
      | _ \<Rightarrow> (case as_mutation prior of
                 Inl e \<Rightarrow> Inl e
               | Inr m \<Rightarrow> Inr (Eff_Mutation \<lparr>am_operation_id = oid, am_mutation = m\<rparr>)))"
| "as_applied_effect (Inv_NonReversible reason) oid = Inl OE_NonReversibleTarget"
| "as_applied_effect (Inv_Toggle target direction) oid = Inl OE_InvalidInverse"

section \<open>Effect values and frontier identities\<close>

datatype 't effect_value =
  EV_Mutation "'t mutation"
| EV_Calibration map_asset_id "calibration_id evidence"

fun effect_value_field_key :: "'t effect_value \<Rightarrow> field_key" where
  "effect_value_field_key (EV_Mutation m) = mutation_field_key m"
| "effect_value_field_key (EV_Calibration map_id calibration) = FK_MapCalibration map_id"

fun canonical_identity :: "'t effect_value \<Rightarrow> 't effect_value" where
  "canonical_identity (EV_Calibration map_id (Known calibration_id)) =
     EV_Mutation (ActivateCalibration map_id calibration_id)"
| "canonical_identity (EV_Mutation m) = EV_Mutation m"
| "canonical_identity (EV_Calibration map_id (Unknown reason)) =
     EV_Calibration map_id (Unknown reason)"

fun as_effect_value :: "'t applied_effect \<Rightarrow> 't effect_value" where
  "as_effect_value (Eff_Mutation applied) = EV_Mutation (am_mutation applied)"
| "as_effect_value (Eff_Calibration oid map_id calibration) = EV_Calibration map_id calibration"

datatype 't frontier_identity =
  FI_Value "'t effect_value"
| FI_Toggle operation_reference toggle_direction "'t effect_value"

fun fi_value :: "'t frontier_identity \<Rightarrow> 't effect_value" where
  "fi_value (FI_Value v) = v"
| "fi_value (FI_Toggle target direction v) = v"

fun fi_is_value :: "'t frontier_identity \<Rightarrow> bool" where
  "fi_is_value (FI_Value v) = True"
| "fi_is_value (FI_Toggle target direction v) = False"

fun same_toggle_intent :: "'t frontier_identity \<Rightarrow> 't frontier_identity \<Rightarrow> bool" where
  "same_toggle_intent (FI_Toggle lt ld lv) (FI_Toggle rt rd rv) \<longleftrightarrow> lt = rt \<and> ld = rd"
| "same_toggle_intent _ _ = False"

datatype conflict_intent =
  CI_Value
| CI_Toggle operation_reference toggle_direction

definition frontier_identity ::
    "'t operation \<Rightarrow> 't effect_value \<Rightarrow> 't frontier_identity \<times> conflict_intent" where
  "frontier_identity op effect =
     (case payload op of
        Undo target \<Rightarrow>
          (FI_Toggle target Toggle_Undo (canonical_identity effect), CI_Toggle target Toggle_Undo)
      | Redo target \<Rightarrow>
          (FI_Toggle target Toggle_Redo (canonical_identity effect), CI_Toggle target Toggle_Redo)
      | _ \<Rightarrow> (FI_Value (canonical_identity effect), CI_Value))"

section \<open>Conflicts and merge errors\<close>

record 't merge_conflict =
  mc_field :: field_key
  mc_left :: operation_reference
  mc_right :: operation_reference
  mc_left_intent :: conflict_intent
  mc_right_intent :: conflict_intent
  mc_left_effect :: "'t applied_effect"
  mc_right_effect :: "'t applied_effect"

datatype 't merge_error =
  ME_Operation operation_error
| ME_WrongProject
| ME_TamperedDuplicate
| ME_Conflicts "'t merge_conflict list"
| ME_InvalidToggle
| ME_ResourceLimit string
| ME_Cancelled

fun merge_budget_error :: "resource_budget_error \<Rightarrow> 't merge_error" where
  "merge_budget_error Cancelled = ME_Cancelled"
| "merge_budget_error (LimitExceeded limit) =
     ME_ResourceLimit (budget_error_label (rle_kind limit))"

fun resolution_effect_error :: "'t merge_error \<Rightarrow> operation_error" where
  "resolution_effect_error (ME_Operation e) = e"
| "resolution_effect_error ME_InvalidToggle = OE_InvalidResolution"
| "resolution_effect_error (ME_ResourceLimit label) = OE_ResourceLimit label"
| "resolution_effect_error ME_Cancelled = OE_Cancelled"
| "resolution_effect_error _ = OE_InvalidResolution"

fun into_mutation :: "'t applied_effect \<Rightarrow> 't merge_error + 't applied_mutation" where
  "into_mutation (Eff_Mutation applied) = Inr applied"
| "into_mutation (Eff_Calibration oid map_id (Known calibration_id)) =
     Inr \<lparr>am_operation_id = oid, am_mutation = ActivateCalibration map_id calibration_id\<rparr>"
| "into_mutation (Eff_Calibration oid map_id (Unknown reason)) =
     Inl (ME_Operation OE_TypedPriorRequired)"

section \<open>Effect events\<close>

type_synonym 't operation_map = "(operation_id, 't operation) btree_map"

definition effect_event_with_charge ::
    "'t operation_map \<Rightarrow> 't operation \<Rightarrow> ('t operation \<Rightarrow> ('s, 't merge_error, unit) rsm)
       \<Rightarrow> ('s, 't merge_error, 't applied_effect \<times> nat) rsm" where
  "effect_event_with_charge ops op charge_for =
     (case payload op of
        Apply m \<Rightarrow>
          bindR (charge_for op) (\<lambda>_.
          ret (Eff_Mutation \<lparr>am_operation_id = operation_id op, am_mutation = m\<rparr>,
               length (canonical op)))
      | Undo target \<Rightarrow>
          bindR (ok_or (bm_get ops (ref_operation_id target)) (ME_Operation OE_MissingTarget))
            (\<lambda>target_op.
          bindR (charge_for target_op) (\<lambda>_.
          case as_applied_effect (inverse_of target_op) (operation_id op) of
            Inl e \<Rightarrow> fail (ME_Operation e)
          | Inr eff \<Rightarrow> ret (eff, length (canonical target_op))))
      | Redo target \<Rightarrow>
          bindR (ok_or (bm_get ops (ref_operation_id target)) (ME_Operation OE_MissingTarget))
            (\<lambda>target_op.
          case payload target_op of
            Apply m \<Rightarrow>
              bindR (charge_for target_op) (\<lambda>_.
              ret (Eff_Mutation \<lparr>am_operation_id = operation_id op, am_mutation = m\<rparr>,
                   length (canonical target_op)))
          | _ \<Rightarrow> fail ME_InvalidToggle)
      | Resolve l r m \<Rightarrow>
          bindR (charge_for op) (\<lambda>_.
          ret (Eff_Mutation \<lparr>am_operation_id = operation_id op, am_mutation = m\<rparr>,
               length (canonical op)))
      | ResolveV2 l r value \<Rightarrow>
          bindR (charge_for op) (\<lambda>_.
          ret (resolution_applied_effect value (operation_id op), length (canonical op))))"

definition merge_charge :: "budget_kind \<Rightarrow> nat \<Rightarrow> (resource_budget, 't merge_error, unit) rsm" where
  "merge_charge kind amount = map_err merge_budget_error (charge kind amount)"

definition effect_event_with_budget ::
    "'t operation_map \<Rightarrow> 't operation
       \<Rightarrow> (resource_budget, 't merge_error, 't applied_effect \<times> nat) rsm" where
  "effect_event_with_budget ops op =
     effect_event_with_charge ops op (\<lambda>source. merge_charge WorkingSetBytes (length (canonical source)))"

definition effect_with_budget ::
    "'t operation_map \<Rightarrow> 't operation
       \<Rightarrow> (resource_budget, 't merge_error, 't effect_value \<times> nat) rsm" where
  "effect_with_budget ops op =
     bindR (effect_event_with_budget ops op) (\<lambda>(event, event_bytes).
     bindR (merge_charge WorkingSetBytes event_bytes) (\<lambda>_.
     ret (as_effect_value event, event_bytes)))"

definition clone_effect_with_budget ::
    "'t applied_effect \<Rightarrow> nat \<Rightarrow> (resource_budget, 't merge_error, 't applied_effect) rsm" where
  "clone_effect_with_budget effect effect_bytes =
     bindR (merge_charge WorkingSetBytes effect_bytes) (\<lambda>_. ret effect)"

definition charge_operation_copy :: "'t operation \<Rightarrow> (resource_budget, 't merge_error, unit) rsm" where
  "charge_operation_copy op =
     bindR (ok_or (checked_add (length (canonical op)) ESTIMATED_STRUCTURAL_ENTRY_BYTES)
              (ME_ResourceLimit ''working_set_bytes'')) (\<lambda>working_bytes.
     bindR (merge_charge OperationBytes (length (canonical op))) (\<lambda>_.
     merge_charge WorkingSetBytes working_bytes))"

section \<open>Effects without a budget\<close>

text \<open>The errors a budget can cause, as operation errors and as merge errors.\<close>

definition op_resource :: "operation_error \<Rightarrow> bool" where
  "op_resource e \<longleftrightarrow> (\<exists>b. e = operation_budget_error b)"

definition merge_resource :: "'t merge_error \<Rightarrow> bool" where
  "merge_resource e \<longleftrightarrow> (\<exists>b. e = merge_budget_error b) \<or> (\<exists>b. e = ME_Operation (operation_budget_error b))"

lemma op_resource_simps [simp]:
  "op_resource (operation_budget_error b)" "op_resource OE_Cancelled" "\<not> op_resource OE_Panic"
  "\<not> op_resource OE_InvalidCausality" "\<not> op_resource OE_CyclicCausality"
  "\<not> op_resource OE_MissingParent" "\<not> op_resource OE_MissingTarget" "\<not> op_resource OE_HashMismatch"
  "\<not> op_resource OE_VersionMismatch" "\<not> op_resource OE_NonReversibleTarget"
  "\<not> op_resource OE_InvalidResolution" "\<not> op_resource OE_WrongProject"
  "\<not> op_resource OE_TamperedDuplicate" "\<not> op_resource OE_EmptyOperationSet"
proof -
  show "op_resource OE_Cancelled"
    unfolding op_resource_def by (rule exI [of _ Cancelled]) simp
  have "operation_budget_error b = OE_Cancelled \<or> (\<exists>l. operation_budget_error b = OE_ResourceLimit l)" for b
    by (cases b) simp_all
  then show "\<not> op_resource OE_Panic" "\<not> op_resource OE_InvalidCausality" "\<not> op_resource OE_CyclicCausality"
    "\<not> op_resource OE_MissingParent" "\<not> op_resource OE_MissingTarget" "\<not> op_resource OE_HashMismatch"
    "\<not> op_resource OE_VersionMismatch" "\<not> op_resource OE_NonReversibleTarget"
    "\<not> op_resource OE_InvalidResolution" "\<not> op_resource OE_WrongProject"
    "\<not> op_resource OE_TamperedDuplicate" "\<not> op_resource OE_EmptyOperationSet"
    unfolding op_resource_def by (metis operation_error.distinct)+
qed (auto simp: op_resource_def)

lemma merge_resource_simps [simp]:
  "merge_resource (merge_budget_error b)" "merge_resource (ME_Operation e) \<longleftrightarrow> op_resource e"
proof -
  have "merge_budget_error b \<noteq> ME_Operation e" for b by (cases b) simp_all
  then show "merge_resource (ME_Operation e) \<longleftrightarrow> op_resource e"
    by (auto simp: merge_resource_def op_resource_def dest: sym)
qed (auto simp: merge_resource_def)

lemma refines_merge_charge [refines_rules]: "refines merge_resource (merge_charge k n) (Inr ())"
  unfolding merge_charge_def
  using refines_map_err [OF refines_charge, of merge_resource merge_budget_error] by simp

text \<open>The effect of an operation, with the size of the payload it copies.\<close>

definition effect_event :: "'t operation_map \<Rightarrow> 't operation \<Rightarrow> 't merge_error + 't applied_effect \<times> nat" where
  "effect_event ops op =
     (let source = case target_reference op of None \<Rightarrow> Some op | Some t \<Rightarrow> bm_get ops (ref_operation_id t)
      in case source of
           None \<Rightarrow> Inl (ME_Operation OE_MissingTarget)
         | Some src \<Rightarrow>
            bindE (case payload op of
                Apply m \<Rightarrow> Inr (Eff_Mutation \<lparr>am_operation_id = operation_id op, am_mutation = m\<rparr>)
              | Undo t \<Rightarrow> map_sum ME_Operation id (as_applied_effect (inverse_of src) (operation_id op))
              | Redo t \<Rightarrow> (case payload src of
                  Apply m \<Rightarrow> Inr (Eff_Mutation \<lparr>am_operation_id = operation_id op, am_mutation = m\<rparr>)
                | _ \<Rightarrow> Inl ME_InvalidToggle)
              | Resolve l r m \<Rightarrow> Inr (Eff_Mutation \<lparr>am_operation_id = operation_id op, am_mutation = m\<rparr>)
              | ResolveV2 l r v \<Rightarrow> Inr (resolution_applied_effect v (operation_id op)))
            (\<lambda>eff. Inr (eff, length (canonical src))))"

lemma refines_effect_event_with_charge:
  assumes "\<And>src. refines R (charge_for src) (Inr ())"
  shows "refines R (effect_event_with_charge ops op charge_for) (effect_event ops op)"
proof (cases "payload op")
  case (Undo t)
  then show ?thesis
    unfolding effect_event_with_charge_def effect_event_def
    by (auto simp: target_reference_def split: option.splits sum.splits
        intro!: refines_bind_eq [OF refines_ok_or] refines_bind_unit [OF assms] refines_rules)
next
  case (Redo t)
  then show ?thesis
    unfolding effect_event_with_charge_def effect_event_def
    by (auto simp: target_reference_def split: option.splits operation_payload.splits
        intro!: refines_bind_eq [OF refines_ok_or] refines_bind_unit [OF assms] refines_rules)
qed (auto simp: effect_event_with_charge_def effect_event_def target_reference_def
      intro!: refines_bind_unit [OF assms] refines_rules)

lemma refines_effect_event [refines_rules]:
  "refines merge_resource (effect_event_with_budget ops op) (effect_event ops op)"
  unfolding effect_event_with_budget_def by (intro refines_effect_event_with_charge refines_rules)

lemma refines_effect [refines_rules]:
  "refines merge_resource (effect_with_budget ops op)
     (map_sum id (map_prod as_effect_value id) (effect_event ops op))"
  unfolding effect_with_budget_def
  by (rule refines_bind_eq [OF refines_effect_event,
        where g = "\<lambda>(event, event_bytes). Inr (as_effect_value event, event_bytes)"])
    (auto intro!: refines_bind_unit refines_rules simp: bindE_def split: sum.splits prod.splits)

section \<open>Effects stay on their field\<close>

lemma as_effect_value_field_key [simp]:
  "effect_value_field_key (as_effect_value eff) = effect_field_key eff"
  by (cases eff) simp_all

lemma canonical_identity_field_key [simp]:
  "effect_value_field_key (canonical_identity v) = effect_value_field_key v"
  by (induction v rule: canonical_identity.induct) simp_all

lemma canonical_identity_idem [simp]: "canonical_identity (canonical_identity v) = canonical_identity v"
  by (induction v rule: canonical_identity.induct) simp_all

lemma frontier_identity_value [simp]:
  "fi_value (fst (frontier_identity op v)) = canonical_identity v"
  by (simp add: frontier_identity_def split: operation_payload.splits)

lemma as_applied_effect_key_id:
  "as_applied_effect i oid = Inr eff \<Longrightarrow>
     effect_operation_id eff = oid \<and>
     (case i of Inv_Apply m \<Rightarrow> effect_field_key eff = mutation_field_key m
      | Inv_ApplyV2 p \<Rightarrow> effect_field_key eff = prior_field_key p | _ \<Rightarrow> False)"
  by (cases i) (auto split: inverse_prior.splits sum.splits dest: as_mutation_field_key)

lemma resolution_applied_effect_simps [simp]:
  "effect_operation_id (resolution_applied_effect v oid) = oid"
  "effect_field_key (resolution_applied_effect v oid) = resolution_field_key v"
  by (cases v; simp)+

lemma map_sum_Inr_iff [simp]: "map_sum f g v = Inr y \<longleftrightarrow> (\<exists>x. v = Inr x \<and> y = g x)"
  by (cases v) auto

lemma effect_event_operation_id:
  assumes "effect_event ops op = Inr (eff, n)"
  shows "effect_operation_id eff = operation_id op"
  using assms by (auto simp: effect_event_def Let_def bindE_Inr_iff
      split: option.splits operation_payload.splits dest: as_applied_effect_key_id)

section \<open>Properties\<close>

text \<open>
  Claim C38. Undo is always possible on the field that was edited: the inverse recorded with a
  well-formed apply yields an effect on exactly the field the apply edits, attributed to the undoing
  operation; the one exception is an irreversible floor-evidence binding, and it is reported as
  such.
\<close>

theorem apply_inverse_executable:
  assumes "operation_wf fmt op" "payload op = Apply m"
  shows "case as_applied_effect (inverse_of op) oid of
      Inr eff \<Rightarrow> effect_field_key eff = mutation_field_key m \<and> effect_operation_id eff = oid \<and>
                 \<not> is_non_reversible (inverse_of op)
    | Inl e \<Rightarrow> e = OE_NonReversibleTarget \<and> is_non_reversible (inverse_of op) \<and>
               (\<exists>f r. m = BindFloorEvidence f r)"
proof -
  have "validate_payload_inverse (schema_version op) (Apply m) (inverse_of op) = Inr ()"
    using assms by (simp add: operation_wf_def)
  then show ?thesis
    by (cases "schema_version op"; cases "inverse_of op")
      (auto simp: toggle_matches_def validate_for_def is_non_reversible_def
        split: if_splits inverse_prior.splits mutation.splits sum.splits
        dest: prior_matches_field_key as_mutation_field_key)
qed

theorem apply_inverse_executable_witness:
  "as_applied_effect (inverse_of sample_operation) (replicate 16 9) =
     Inr (Eff_Calibration (replicate 16 9) (replicate 16 5) (Unknown NotMeasured)) \<and>
   effect_field_key (Eff_Calibration (replicate 16 9) (replicate 16 5) (Unknown NotMeasured)) =
     FK_MapCalibration (replicate 16 5)"
  using apply_inverse_executable [OF sample_operation_wf sample_operation_fields(7), of "replicate 16 9"]
  by (simp add: sample_operation_fields)

end
