(* ===== verification/Operation_Ancestry.thy ===== *)
theory Operation_Ancestry
  imports Operation_Effects
begin

text \<open>
  Operation sets and the ancestor search (\<open>OperationSet\<close> and \<open>ancestor_with_budget\<close> of
  \<open>crates/operation-log/src/lib.rs\<close>). The search walks the parent lists depth first with a stack and a
  visited set; it decides the transitive closure of the parent relation.
\<close>

record 't operation_set =
  set_project_id :: project_id
  set_operations :: "'t operation_map"

definition operation_set_empty :: "project_id \<Rightarrow> 't operation_set" where
  "operation_set_empty project = \<lparr>set_project_id = project, set_operations = []\<rparr>"

section \<open>The search\<close>

text \<open>The loop over the parents of one operation: \<open>None\<close> when the ancestor was met.\<close>

fun scan_parents ::
    "operation_id \<Rightarrow> operation_id list \<Rightarrow> operation_id list
       \<Rightarrow> (resource_budget \<times> resource_usage, resource_budget_error, operation_id list option) rsm" where
  "scan_parents ancestor [] pending = ret (Some pending)"
| "scan_parents ancestor (parent # ps) pending =
     (if parent = ancestor then ret None
      else bindR (on_fst (charge WorkingSetBytes ESTIMATED_STRUCTURAL_ENTRY_BYTES)) (\<lambda>_.
           scan_parents ancestor ps (parent # pending)))"

lemma search_progress:
  assumes "c \<notin> set visited" "bm_get ops c = Some op"
  shows "card (fst ` set ops - insert c (set visited)) < card (fst ` set ops - set visited)"
proof -
  have "c \<in> fst ` set ops - set visited"
    using assms by (force dest: map_of_SomeD)
  then have "card (fst ` set ops - set visited - {c}) < card (fst ` set ops - set visited)"
    by (intro card_Diff1_less) auto
  moreover have "fst ` set ops - set visited - {c} = fst ` set ops - insert c (set visited)" by auto
  ultimately show ?thesis by simp
qed

text \<open>The loop over the stack \<open>pending\<close>, whose top is the head of the list.\<close>

function search_ancestor ::
    "'t operation_map \<Rightarrow> operation_id \<Rightarrow> operation_id list \<Rightarrow> operation_id list
       \<Rightarrow> (resource_budget \<times> resource_usage, resource_budget_error, bool) rsm" where
  "search_ancestor ops ancestor [] visited = ret False"
| "search_ancestor ops ancestor (current # pending) visited =
     (if current \<in> set visited then search_ancestor ops ancestor pending visited
      else
        bindR (charge_with_limit OperationAncestryWork 1 MAX_ANCESTRY_WORK) (\<lambda>_.
        bindR (on_fst (charge WorkingSetBytes ESTIMATED_STRUCTURAL_ENTRY_BYTES)) (\<lambda>_.
        case bm_get ops current of
          None \<Rightarrow> search_ancestor ops ancestor pending (current # visited)
        | Some op \<Rightarrow>
            bindR (scan_parents ancestor (parents op) pending) (\<lambda>r.
            case r of
              None \<Rightarrow> ret True
            | Some pending' \<Rightarrow> search_ancestor ops ancestor pending' (current # visited)))))"
  by pat_completeness auto

termination
proof (relation "measures [\<lambda>(ops, ancestor, pending, visited). card (fst ` set ops - set visited),
    \<lambda>(ops, ancestor, pending, visited). length pending]", goal_cases)
  case 3
  then show ?case by (auto simp: Diff_insert0 dest: map_of_eq_None_iff [THEN iffD1])
next
  case 4
  then show ?case by (simp add: search_progress)
qed auto

definition ancestor_with_budget ::
    "'t operation_map \<Rightarrow> operation_id \<Rightarrow> operation_id
       \<Rightarrow> (resource_budget \<times> resource_usage, resource_budget_error, bool) rsm" where
  "ancestor_with_budget ops ancestor descendant =
     (if ancestor = descendant then ret False
      else bindR (on_fst (charge WorkingSetBytes ESTIMATED_STRUCTURAL_ENTRY_BYTES)) (\<lambda>_.
           search_ancestor ops ancestor [descendant] []))"

section \<open>The ancestor relation\<close>

definition parent_rel :: "'t operation_map \<Rightarrow> (operation_id \<times> operation_id) set" where
  "parent_rel ops = {(p, c). \<exists>op. bm_get ops c = Some op \<and> p \<in> set (parents op)}"

definition is_ancestor :: "'t operation_map \<Rightarrow> operation_id \<Rightarrow> operation_id \<Rightarrow> bool" where
  "is_ancestor ops a d \<longleftrightarrow> a \<noteq> d \<and> (a, d) \<in> (parent_rel ops)\<^sup>+"

lemma parent_rel_iff: "(p, c) \<in> parent_rel ops \<longleftrightarrow> (\<exists>op. bm_get ops c = Some op \<and> p \<in> set (parents op))"
  by (simp add: parent_rel_def)

lemma refines_scan_parents:
  "refines any_error (scan_parents a ps pending)
     (Inr (if a \<in> set ps then None else Some (rev ps @ pending)))"
proof (induction ps arbitrary: pending)
  case Nil
  then show ?case by (simp add: refines_ret)
next
  case (Cons p ps)
  show ?case
  proof (cases "p = a")
    case True
    then show ?thesis by (simp add: refines_ret)
  next
    case False
    then show ?thesis
      using Cons.IH [of "p # pending"]
      by (auto intro!: refines_bind_unit refines_on_fst refines_charge)
  qed
qed

text \<open>
  What the search maintains: every edge out of a visited operation leads to a visited or pending
  one, and the ancestor was not met on such an edge.
\<close>

definition search_inv :: "'t operation_map \<Rightarrow> operation_id \<Rightarrow> operation_id list \<Rightarrow> operation_id list \<Rightarrow> bool" where
  "search_inv ops a pending visited \<longleftrightarrow>
     (\<forall>c \<in> set visited. \<forall>p. (p, c) \<in> parent_rel ops \<longrightarrow> p \<noteq> a \<and> p \<in> set visited \<union> set pending)"

abbreviation reaches :: "'t operation_map \<Rightarrow> operation_id \<Rightarrow> operation_id set \<Rightarrow> bool" where
  "reaches ops a S \<equiv> \<exists>d \<in> S. (a, d) \<in> (parent_rel ops)\<^sup>+"

lemma search_closed:
  assumes "search_inv ops a [] visited" "d \<in> set visited"
  shows "(a, d) \<notin> (parent_rel ops)\<^sup>+"
proof
  assume "(a, d) \<in> (parent_rel ops)\<^sup>+"
  then have "d \<in> set visited \<longrightarrow> False"
  proof (induction rule: trancl_induct)
    case (base y)
    then show ?case using assms(1) by (auto simp: search_inv_def)
  next
    case (step y z)
    then show ?case using assms(1) by (auto simp: search_inv_def)
  qed
  with assms(2) show False by simp
qed

text \<open>Induction along the search, whatever the stack becomes when an operation is expanded.\<close>

lemma search_induct [case_names Nil visited missing expand]:
  assumes "\<And>visited. P [] visited"
    and "\<And>c pending visited. c \<in> set visited \<Longrightarrow> P pending visited \<Longrightarrow> P (c # pending) visited"
    and "\<And>c pending visited. c \<notin> set visited \<Longrightarrow> bm_get ops c = None \<Longrightarrow>
      P pending (c # visited) \<Longrightarrow> P (c # pending) visited"
    and "\<And>c pending visited op. c \<notin> set visited \<Longrightarrow> bm_get ops c = Some op \<Longrightarrow>
      (\<And>pending'. P pending' (c # visited)) \<Longrightarrow> P (c # pending) visited"
  shows "P pending visited"
proof (induction "card (fst ` set ops - set visited)" arbitrary: pending visited rule: less_induct)
  case less
  then show ?case
  proof (induction pending arbitrary: visited)
    case Nil
    then show ?case using assms(1) by simp
  next
    case (Cons c pending)
    consider "c \<in> set visited" | "c \<notin> set visited" "bm_get ops c = None"
      | op where "c \<notin> set visited" "bm_get ops c = Some op" by (cases "bm_get ops c") auto
    then show ?case
    proof cases
      case 1
      then show ?thesis using Cons assms(2) by simp
    next
      case 2
      then have same: "fst ` set ops - set (c # visited) = fst ` set ops - set visited"
        by (auto simp: map_of_eq_None_iff)
      have "P pending (c # visited)"
        by (rule Cons.IH) (rule Cons.prems, unfold same)
      with 2 show ?thesis by (rule assms(3))
    next
      case 3
      then show ?thesis using Cons.prems search_progress [OF 3] by (intro assms(4) [OF 3]) simp
    qed
  qed
qed

lemma refines_search:
  "search_inv ops a pending visited \<Longrightarrow>
     refines any_error (search_ancestor ops a pending visited)
       (Inr (reaches ops a (set pending \<union> set visited)))"
proof (induction pending visited rule: search_induct [where ops = ops])
  case (Nil visited)
  then show ?case using search_closed [OF Nil] by (auto intro: refines_ret)
next
  case (visited c pending visited)
  then have "search_inv ops a pending visited" by (auto simp: search_inv_def)
  moreover have "set (c # pending) \<union> set visited = set pending \<union> set visited"
    using visited.hyps by auto
  ultimately show ?case using visited by simp
next
  case (missing c pending visited)
  have "search_inv ops a pending (c # visited)"
    using missing by (auto simp: search_inv_def parent_rel_iff)
  with missing have "refines any_error (search_ancestor ops a pending (c # visited))
      (Inr (reaches ops a (set (c # pending) \<union> set visited)))" by simp
  with missing.hyps show ?case
    by (auto intro!: refines_bind_unit refines_rules)
next
  case (expand c pending visited op)
  have step: "search_inv ops a (rev (parents op) @ pending) (c # visited)" if "a \<notin> set (parents op)"
    using expand.prems expand.hyps that by (auto simp: search_inv_def parent_rel_iff)
  have reach: "reaches ops a (set (rev (parents op) @ pending) \<union> set (c # visited)) \<longleftrightarrow>
      reaches ops a (set (c # pending) \<union> set visited)"
    using expand.hyps by (auto simp: parent_rel_iff intro: trancl_into_trancl)
  have met: "reaches ops a (set (c # pending) \<union> set visited)" if "a \<in> set (parents op)"
    using expand.hyps that by (auto simp: parent_rel_iff intro!: r_into_trancl)
  have "refines any_error
      (bindR (scan_parents a (parents op) pending) (\<lambda>r. case r of None \<Rightarrow> ret True
         | Some pending' \<Rightarrow> search_ancestor ops a pending' (c # visited)))
      (Inr (reaches ops a (set (c # pending) \<union> set visited)))"
  proof (rule refines_bind_eq [OF refines_scan_parents,
        where g = "\<lambda>r. Inr (reaches ops a (set (c # pending) \<union> set visited))"])
    fix r assume "Inr (if a \<in> set (parents op) then None else Some (rev (parents op) @ pending)) = Inr r"
    then show "refines any_error (case r of None \<Rightarrow> ret True
         | Some pending' \<Rightarrow> search_ancestor ops a pending' (c # visited))
       (Inr (reaches ops a (set (c # pending) \<union> set visited)))"
      using expand.IH [OF step] met refines_ret [of any_error True]
      unfolding reach by (auto split: if_splits)
  qed simp
  with expand.hyps show ?case
    by (auto intro!: refines_bind_unit refines_rules)
qed

lemma refines_ancestor [refines_rules]:
  "refines any_error (ancestor_with_budget ops a d) (Inr (is_ancestor ops a d))"
proof (cases "a = d")
  case True
  then show ?thesis by (simp add: ancestor_with_budget_def is_ancestor_def refines_ret)
next
  case False
  have "refines any_error (search_ancestor ops a [d] []) (Inr (is_ancestor ops a d))"
    using refines_search [of ops a "[d]" "[]"] False by (simp add: search_inv_def is_ancestor_def)
  with False show ?thesis
    by (auto simp: ancestor_with_budget_def intro!: refines_bind_unit refines_rules)
qed

end
