(* ===== verification/Operation_Samples.thy ===== *)
theory Operation_Samples
  imports Operation_Types "HOL-Library.Code_Target_Nat"
begin

text \<open>
  Small concrete operations on which the properties of the operation log are exercised. Natural
  numbers are evaluated in binary here, because the budgets of the source are 64-bit quantities.
\<close>

definition demo_id :: "u8 \<Rightarrow> octets" where
  "demo_id n = replicate 15 0 @ [n]"

definition demo_op ::
    "u8 \<Rightarrow> logical_timestamp \<Rightarrow> causal_depth \<Rightarrow> u8 list \<Rightarrow> unit operation_payload
       \<Rightarrow> unit inverse_metadata \<Rightarrow> unit operation" where
  "demo_op n time depth ps pay undo =
     \<lparr>schema_version = V1, operation_id = demo_id n, op_project_id = demo_id 200, actor_id = demo_id 201,
      device_id = demo_id 202, logical_time = time, causal_depth = depth, parents = map demo_id ps,
      payload = pay, inverse_of = undo, content_hash = demo_id n @ demo_id n, canonical = [n]\<rparr>"

definition demo_ref :: "u8 \<Rightarrow> operation_reference" where
  "demo_ref n = \<lparr>ref_operation_id = demo_id n, ref_content_hash = demo_id n @ demo_id n\<rparr>"

definition demo_apply :: "u8 \<Rightarrow> logical_timestamp \<Rightarrow> causal_depth \<Rightarrow> u8 list \<Rightarrow> utext \<Rightarrow> unit operation" where
  "demo_apply n time depth ps name =
     demo_op n time depth ps (Apply (SetProjectName name)) (Inv_Apply (SetProjectName [65]))"

definition demo_undo :: "u8 \<Rightarrow> logical_timestamp \<Rightarrow> causal_depth \<Rightarrow> u8 list \<Rightarrow> u8 \<Rightarrow> unit operation" where
  "demo_undo n time depth ps target =
     demo_op n time depth ps (Undo (demo_ref target)) (Inv_Toggle (demo_ref target) Toggle_Redo)"

definition demo_redo :: "u8 \<Rightarrow> logical_timestamp \<Rightarrow> causal_depth \<Rightarrow> u8 list \<Rightarrow> u8 \<Rightarrow> unit operation" where
  "demo_redo n time depth ps target =
     demo_op n time depth ps (Redo (demo_ref target)) (Inv_Toggle (demo_ref target) Toggle_Undo)"

definition demo_resolve ::
    "u8 \<Rightarrow> logical_timestamp \<Rightarrow> causal_depth \<Rightarrow> u8 list \<Rightarrow> u8 \<Rightarrow> u8 \<Rightarrow> utext \<Rightarrow> unit operation" where
  "demo_resolve n time depth ps l r name =
     demo_op n time depth ps (Resolve (demo_ref l) (demo_ref r) (SetProjectName name))
       (Inv_Apply (SetProjectName [65]))"

definition demo_map :: "unit operation list \<Rightarrow> (operation_id, unit operation) btree_map" where
  "demo_map xs = map (\<lambda>op. (operation_id op, op)) xs"

text \<open>A chain whose identifiers do not follow its causal order.\<close>

definition demo_chain :: "(operation_id, unit operation) btree_map" where
  "demo_chain =
     demo_map [demo_apply 1 2 1 [2] [66], demo_apply 2 1 0 [] [67], demo_undo 3 3 2 [1] 1]"

end
