(* ===== verification/Operation_Order.thy ===== *)
theory Operation_Order
  imports Operation_Ancestry Operation_Samples
begin

text \<open>
  The deterministic topological order of an operation set (\<open>ordered_with_budget\<close> of
  \<open>crates/operation-log/src/lib.rs\<close>): Kahn's algorithm with in-degree counters, child lists and a
  binary heap of ready operations. The heap of reversed sort keys is modelled by the ascending list
  of the keys: \<open>push\<close> inserts, \<open>pop\<close> takes the least.
\<close>

section \<open>The algorithm\<close>

definition op_check_cancelled :: "(resource_budget, operation_error, unit) rsm" where
  "op_check_cancelled = map_err operation_budget_error check_cancelled"

definition op_charge :: "budget_kind \<Rightarrow> nat \<Rightarrow> (resource_budget, operation_error, unit) rsm" where
  "op_charge kind amount = map_err operation_budget_error (charge kind amount)"

text \<open>\<open>BTreeMap::get_mut\<close>: the value of an existing key is changed in place.\<close>

fun bm_modify :: "'k \<Rightarrow> ('v \<Rightarrow> 'v) \<Rightarrow> ('k, 'v) btree_map \<Rightarrow> ('k, 'v) btree_map" where
  "bm_modify k f [] = []"
| "bm_modify k f ((a, b) # m) = (if a = k then (a, f b) # m else (a, b) # bm_modify k f m)"

fun charge_nodes :: "'t operation list \<Rightarrow> (resource_budget, operation_error, unit) rsm" where
  "charge_nodes [] = ret ()"
| "charge_nodes (op # rest) =
     bindR (ok_or (case checked_mul (length (parents op)) ORDERING_EDGE_BYTES of
                     None \<Rightarrow> None | Some edges \<Rightarrow> checked_add edges ORDERING_NODE_BYTES)
              (OE_ResourceLimit ''working_set_bytes'')) (\<lambda>bytes.
     bindR (op_charge WorkingSetBytes bytes) (\<lambda>_. charge_nodes rest))"

text \<open>\<open>children.entry(parent).or_default().push(id)\<close>\<close>

definition push_child ::
    "operation_id \<Rightarrow> operation_id \<Rightarrow> (operation_id, operation_id list) btree_map
       \<Rightarrow> (operation_id, operation_id list) btree_map" where
  "push_child child parent children =
     bm_insert parent ((case bm_get children parent of None \<Rightarrow> [] | Some cs \<Rightarrow> cs) @ [child]) children"

fun build_degrees ::
    "'t operation list \<Rightarrow> (operation_id, nat) btree_map
       \<Rightarrow> (operation_id, operation_id list) btree_map
       \<Rightarrow> (resource_budget, operation_error,
            (operation_id, nat) btree_map \<times> (operation_id, operation_id list) btree_map) rsm" where
  "build_degrees [] indegree children = ret (indegree, children)"
| "build_degrees (op # rest) indegree children =
     bindR op_check_cancelled (\<lambda>_.
     build_degrees rest (bm_insert (operation_id op) (length (parents op)) indegree)
       (fold (push_child (operation_id op)) (parents op) children))"

fun seed_ready ::
    "'t operation list \<Rightarrow> (operation_id, nat) btree_map \<Rightarrow> sort_key list
       \<Rightarrow> (resource_budget, operation_error, sort_key list) rsm" where
  "seed_ready [] indegree ready = ret ready"
| "seed_ready (op # rest) indegree ready =
     bindR op_check_cancelled (\<lambda>_.
     bindR (ok_or (bm_get indegree (operation_id op)) OE_Panic) (\<lambda>degree.
     seed_ready rest indegree (if degree = 0 then insort (sort_key op) ready else ready)))"

text \<open>The loop over the children of the operation just emitted.\<close>

fun relax_children ::
    "'t operation_map \<Rightarrow> operation_id list \<Rightarrow> (operation_id, nat) btree_map \<Rightarrow> sort_key list
       \<Rightarrow> (resource_budget, operation_error, (operation_id, nat) btree_map \<times> sort_key list) rsm" where
  "relax_children ops [] indegree ready = ret (indegree, ready)"
| "relax_children ops (child # rest) indegree ready =
     bindR op_check_cancelled (\<lambda>_.
     bindR (ok_or (bm_get indegree child) OE_MissingParent) (\<lambda>degree.
     bindR (guardR (degree \<noteq> 0) OE_Panic) (\<lambda>_.
     if degree - 1 = 0 then
       bindR (ok_or (bm_get ops child) OE_MissingParent) (\<lambda>op.
       relax_children ops rest (bm_modify child (\<lambda>d. d - 1) indegree) (insort (sort_key op) ready))
     else relax_children ops rest (bm_modify child (\<lambda>d. d - 1) indegree) ready)))"

lemma sum_bm_modify:
  fixes d :: nat
  shows "bm_get m k = Some d \<Longrightarrow> sum_list (bm_values (bm_modify k f m)) + d = sum_list (bm_values m) + f d"
  by (induction m) auto

lemma relax_progress:
  "returns (relax_children ops cs indegree ready) (\<lambda>(indegree', ready').
     sum_list (bm_values indegree') + length ready' \<le> sum_list (bm_values indegree) + length ready)"
proof (induction cs arbitrary: indegree ready)
  case Nil
  then show ?case by (simp add: returns_ret)
next
  case (Cons c cs)
  have step: "returns (relax_children ops cs (bm_modify c (\<lambda>d. d - 1) indegree) ready1) (\<lambda>(indegree', ready').
       sum_list (bm_values indegree') + length ready' \<le> sum_list (bm_values indegree) + length ready)"
    if "bm_get indegree c = Some d" "d \<noteq> 0" "length ready1 \<le> Suc (length ready)" for ready1 d
    using sum_bm_modify [OF that(1), of "\<lambda>d. d - 1"] that(2,3)
    by (intro returns_mono [OF Cons.IH]) auto
  show ?case
    unfolding relax_children.simps
    by (intro returns_bind_skip [of _ _ op_check_cancelled] returns_rules) (auto intro: step simp del: One_nat_def)
qed

function drain_ready ::
    "'t operation_map \<Rightarrow> (operation_id, operation_id list) btree_map \<Rightarrow> (operation_id, nat) btree_map
       \<Rightarrow> sort_key list \<Rightarrow> 't operation list \<Rightarrow> (resource_budget, operation_error, 't operation list) rsm" where
  "drain_ready ops children indegree [] result = ret result"
| "drain_ready ops children indegree ((time, actor, device, oid) # ready) result =
     bindR op_check_cancelled (\<lambda>_.
     bindR (ok_or (bm_get ops oid) OE_MissingParent) (\<lambda>op.
     bindR (case bm_get children oid of
              None \<Rightarrow> ret (indegree, ready)
            | Some descendants \<Rightarrow> relax_children ops descendants indegree ready) (\<lambda>(indegree', ready').
     drain_ready ops children indegree' ready' (result @ [op]))))"
  by pat_completeness auto

termination
proof (relation "measure (\<lambda>(ops, children, indegree, ready, result). sum_list (bm_values indegree) + length ready)", goal_cases)
  case 2
  then show ?case by (auto split: option.splits dest: returnsD [OF relax_progress])
qed auto

definition ordered_with_budget ::
    "'t operation_map \<Rightarrow> (resource_budget, operation_error, 't operation list) rsm" where
  "ordered_with_budget ops =
     bindR op_check_cancelled (\<lambda>_.
     bindR (charge_nodes (bm_values ops)) (\<lambda>_.
     bindR (build_degrees (bm_values ops) [] []) (\<lambda>(indegree, children).
     bindR (seed_ready (bm_values ops) indegree []) (\<lambda>ready.
     bindR (drain_ready ops children indegree ready []) (\<lambda>result.
     bindR (guardR (length result = length ops) OE_CyclicCausality) (\<lambda>_.
     ret result))))))"

definition ordered :: "'t operation_set \<Rightarrow> operation_error + 't operation list" where
  "ordered s = fst (ordered_with_budget (set_operations s) default_operation_budget)"

section \<open>Operation maps\<close>

definition ops_inv :: "'t operation_map \<Rightarrow> bool" where
  "ops_inv ops \<longleftrightarrow> bm_inv ops \<and> (\<forall>(k, op) \<in> set ops. operation_id op = k \<and> distinct (parents op))"

lemma ops_inv_bm: "ops_inv ops \<Longrightarrow> bm_inv ops"
  by (simp add: ops_inv_def)

lemma ops_inv_get: "ops_inv ops \<Longrightarrow> bm_get ops k = Some op \<Longrightarrow> operation_id op = k \<and> distinct (parents op)"
  by (auto simp: ops_inv_def dest: map_of_SomeD)

lemma ops_value_iff: "ops_inv ops \<Longrightarrow> op \<in> set (bm_values ops) \<longleftrightarrow> bm_get ops (operation_id op) = Some op"
  using bm_values_get [OF ops_inv_bm, of ops op] by (metis ops_inv_get)

lemma ops_ids: "ops_inv ops \<Longrightarrow> map operation_id (bm_values ops) = bm_keys ops"
  by (auto simp: ops_inv_def bm_values_def)

lemma ops_ids_distinct: "ops_inv ops \<Longrightarrow> distinct (map operation_id (bm_values ops))"
  using bm.entries_distinct [of ops] by (simp add: ops_ids ops_inv_def)

lemma ops_values_eqI:
  "ops_inv ops \<Longrightarrow> a \<in> set (bm_values ops) \<Longrightarrow> b \<in> set (bm_values ops) \<Longrightarrow> operation_id a = operation_id b \<Longrightarrow> a = b"
  by (simp add: ops_value_iff)

lemma sort_key_inject:
  "ops_inv ops \<Longrightarrow> a \<in> set (bm_values ops) \<Longrightarrow> b \<in> set (bm_values ops) \<Longrightarrow> sort_key a = sort_key b \<longleftrightarrow> a = b"
  by (auto simp: sort_key_def dest: ops_values_eqI)

section \<open>The order it computes\<close>

text \<open>
  The operations that may come next after \<open>xs\<close>, and the lists that always take the one with the
  least sort key.
\<close>

definition ready_after :: "'t operation_map \<Rightarrow> 't operation list \<Rightarrow> 't operation set" where
  "ready_after ops xs =
     {op \<in> set (bm_values ops). operation_id op \<notin> operation_id ` set xs \<and>
                              set (parents op) \<subseteq> operation_id ` set xs}"

definition kahn_prefix :: "'t operation_map \<Rightarrow> 't operation list \<Rightarrow> bool" where
  "kahn_prefix ops xs \<longleftrightarrow>
     (\<forall>i < length xs. xs ! i \<in> ready_after ops (take i xs) \<and>
        (\<forall>op \<in> ready_after ops (take i xs). sort_key (xs ! i) \<le> sort_key op))"

definition kahn_order :: "'t operation_map \<Rightarrow> 't operation list \<Rightarrow> bool" where
  "kahn_order ops xs \<longleftrightarrow> kahn_prefix ops xs \<and> ready_after ops xs = {}"

lemma kahn_prefix_snoc:
  "kahn_prefix ops (xs @ [op]) \<longleftrightarrow>
     kahn_prefix ops xs \<and> op \<in> ready_after ops xs \<and> (\<forall>op' \<in> ready_after ops xs. sort_key op \<le> sort_key op')"
  by (auto simp: kahn_prefix_def nth_append less_Suc_eq)

section \<open>Its loops without the budget\<close>

lemma refines_op_check_cancelled [refines_rules]: "refines op_resource op_check_cancelled (Inr ())"
  unfolding op_check_cancelled_def
  using refines_map_err [OF refines_check_cancelled, of op_resource operation_budget_error] by simp

lemma refines_op_charge [refines_rules]: "refines op_resource (op_charge k n) (Inr ())"
  unfolding op_charge_def
  using refines_map_err [OF refines_charge, of op_resource operation_budget_error] by simp

abbreviation kids :: "(operation_id, operation_id list) btree_map \<Rightarrow> operation_id \<Rightarrow> operation_id list" where
  "kids children p \<equiv> (case bm_get children p of None \<Rightarrow> [] | Some cs \<Rightarrow> cs)"

lemma kids_push_child [simp]:
  "kids (push_child c q children) p = (if p = q then kids children p @ [c] else kids children p)"
  by (simp add: push_child_def)

lemma kids_fold_parents:
  "distinct ps \<Longrightarrow> kids (fold (push_child c) ps children) p = kids children p @ (if p \<in> set ps then [c] else [])"
  by (induction ps arbitrary: children) (auto simp del: bm_get_insert)

lemma kids_fold_ops:
  "(\<And>op. op \<in> set xs \<Longrightarrow> distinct (parents op)) \<Longrightarrow>
   kids (fold (\<lambda>op. fold (push_child (operation_id op)) (parents op)) xs children) p =
     kids children p @ map operation_id (filter (\<lambda>op. p \<in> set (parents op)) xs)"
  by (induction xs arbitrary: children) (auto simp: kids_fold_parents)

lemma refines_charge_nodes:
  "(\<And>op. op \<in> set xs \<Longrightarrow> length (parents op) \<le> 2 ^ 32) \<Longrightarrow> refines op_resource (charge_nodes xs) (Inr ())"
proof (induction xs)
  case Nil
  then show ?case by (simp add: refines_ret)
next
  case (Cons op xs)
  have "(case checked_mul (length (parents op)) ORDERING_EDGE_BYTES of
          None \<Rightarrow> None | Some edges \<Rightarrow> checked_add edges ORDERING_NODE_BYTES) =
       Some (length (parents op) * ORDERING_EDGE_BYTES + ORDERING_NODE_BYTES)"
    using Cons.prems [of op]
    by (simp add: checked_mul_def checked_add_def ORDERING_EDGE_BYTES_def ORDERING_NODE_BYTES_def usize_MAX_def)
  with Cons show ?case unfolding charge_nodes.simps
    by (intro refines_bind_ok_or_Some refines_bind_unit [OF refines_op_charge]) auto
qed

lemma refines_build_degrees:
  "refines op_resource (build_degrees xs indegree children)
     (Inr (fold (\<lambda>op. bm_insert (operation_id op) (length (parents op))) xs indegree,
           fold (\<lambda>op. fold (push_child (operation_id op)) (parents op)) xs children))"
  by (induction xs arbitrary: indegree children) (auto intro!: refines_bind_unit refines_rules)

lemma degrees_get:
  "distinct (map operation_id xs) \<Longrightarrow> op \<in> set xs \<Longrightarrow>
     bm_get (fold (\<lambda>op. bm_insert (operation_id op) (length (parents op))) xs indegree) (operation_id op) =
       Some (length (parents op))"
proof (induction xs arbitrary: indegree rule: rev_induct)
  case (snoc x xs)
  then show ?case by (auto simp: image_iff)
qed simp

lemma refines_seed_ready:
  "(\<And>op. op \<in> set xs \<Longrightarrow> bm_get indegree (operation_id op) \<noteq> None) \<Longrightarrow>
     refines op_resource (seed_ready xs indegree ready)
       (Inr (fold insort (map sort_key (filter (\<lambda>op. bm_get indegree (operation_id op) = Some 0) xs)) ready))"
proof (induction xs arbitrary: ready)
  case Nil
  then show ?case by (simp add: refines_ret)
next
  case (Cons op xs)
  from Cons.prems obtain d where "bm_get indegree (operation_id op) = Some d" by fastforce
  with Cons show ?case
    unfolding seed_ready.simps
    by (intro refines_bind_unit [OF refines_op_check_cancelled] refines_bind_ok_or_Some) auto
qed

lemma bm_get_modify: "bm_get (bm_modify k f m) = (bm_get m)(k := map_option f (bm_get m k))"
  by (induction m) (auto simp: fun_eq_iff)

lemma refines_relax:
  assumes "distinct cs"
    and "\<And>c. c \<in> set cs \<Longrightarrow> \<exists>d op. bm_get indegree c = Some d \<and> d \<noteq> 0 \<and> bm_get ops c = Some op"
  shows "refines op_resource (relax_children ops cs indegree ready)
     (Inr (fold (\<lambda>c. bm_modify c (\<lambda>d. d - 1)) cs indegree,
           fold insort (map (\<lambda>c. sort_key (the (bm_get ops c))) (filter (\<lambda>c. bm_get indegree c = Some 1) cs)) ready))"
  using assms
proof (induction cs arbitrary: indegree ready)
  case Nil
  then show ?case by (simp add: refines_ret)
next
  case (Cons c cs)
  from Cons.prems(2) [of c] obtain d op
    where d: "bm_get indegree c = Some d" "d \<noteq> 0" "bm_get ops c = Some op" by auto
  define ind where "ind = bm_modify c (\<lambda>d. d - 1) indegree"
  have same: "bm_get ind c' = bm_get indegree c'" if "c' \<in> set cs" for c'
    using that Cons.prems(1) by (auto simp: ind_def bm_get_modify)
  then have filt: "filter (\<lambda>c. bm_get ind c = Some 1) cs = filter (\<lambda>c. bm_get indegree c = Some 1) cs"
    by (simp cong: filter_cong)
  have IH: "refines op_resource (relax_children ops cs ind ready1)
     (Inr (fold (\<lambda>c. bm_modify c (\<lambda>d. d - 1)) cs ind,
           fold insort (map (\<lambda>c. sort_key (the (bm_get ops c))) (filter (\<lambda>c. bm_get indegree c = Some 1) cs)) ready1))"
    for ready1
    using Cons.IH [of ind ready1] Cons.prems same by (simp only: filt) simp
  show ?case
  proof (cases "d = 1")
    case True
    with d IH [of "insort (sort_key op) ready"] show ?thesis
      unfolding relax_children.simps ind_def
      by (intro refines_bind_unit [OF refines_op_check_cancelled]
          refines_bind_ok_or_Some [OF d(1)] refines_bind_guard_True [OF d(2)])
        (simp add: bindR_ok_or_Some)
  next
    case False
    with d IH [of ready] show ?thesis
      unfolding relax_children.simps ind_def
      by (intro refines_bind_unit [OF refines_op_check_cancelled]
          refines_bind_ok_or_Some [OF d(1)] refines_bind_guard_True [OF d(2)])
        simp
  qed
qed

lemma fold_modify_get:
  "distinct cs \<Longrightarrow> bm_get (fold (\<lambda>c. bm_modify c f) cs m) k =
     (if k \<in> set cs then map_option f (bm_get m k) else bm_get m k)"
  by (induction cs arbitrary: m) (auto simp: bm_get_modify)

lemma fold_insort_props:
  "set (fold insort ks xs) = set ks \<union> set xs"
  "sorted (fold insort ks xs) = sorted xs"
  "distinct (fold insort ks xs) \<longleftrightarrow> distinct ks \<and> distinct xs \<and> set ks \<inter> set xs = {}"
  by (induction ks arbitrary: xs) (auto simp: set_insort_key sorted_insort distinct_insort)

section \<open>The loop emits the order\<close>

lemma kahn_prefix_props:
  assumes "kahn_prefix ops xs"
  shows "distinct (map operation_id xs)" "set xs \<subseteq> set (bm_values ops)"
    "\<And>op. op \<in> set xs \<Longrightarrow> set (parents op) \<subseteq> operation_id ` set xs"
  using assms
proof (induction xs rule: rev_induct)
  case (snoc x xs)
  { case 1 then show ?case using snoc by (auto simp: kahn_prefix_snoc ready_after_def) }
  { case 2 then show ?case using snoc by (auto simp: kahn_prefix_snoc ready_after_def) }
  { case 3 then show ?case using snoc by (fastforce simp: kahn_prefix_snoc ready_after_def) }
qed auto

lemma drain_step:
  "drain_ready ops children indegree ((time, actor, device, oid) # ready) result =
     bindR op_check_cancelled (\<lambda>_.
     bindR (ok_or (bm_get ops oid) OE_MissingParent) (\<lambda>op.
     bindR (relax_children ops (kids children oid) indegree ready) (\<lambda>(indegree', ready').
     drain_ready ops children indegree' ready' (result @ [op]))))"
  by (simp split: option.splits)

lemma relaxed_degrees:
  assumes "finite P" "x \<notin> Q" "d = card (P - Q)"
  shows "card (P - insert x Q) = (if x \<in> P then d - 1 else d)"
proof -
  have "P - insert x Q = P - Q - {x}" by auto
  then show ?thesis using assms by (simp add: card_Diff_singleton_if)
qed

lemma ready_after_snoc:
  assumes inv: "ops_inv ops" and pre: "kahn_prefix ops xs" and op: "op \<in> ready_after ops xs"
  shows "ready_after ops (xs @ [op]) = (ready_after ops xs - {op}) \<union>
     {o' \<in> set (bm_values ops). operation_id op \<in> set (parents o') \<and>
        card (set (parents o') - operation_id ` set xs) = 1}"
    (is "?l = ?r \<union> ?new")
proof (intro subset_antisym subsetI)
  fix o' assume "o' \<in> ?l"
  then have o': "o' \<in> set (bm_values ops)" "operation_id o' \<notin> operation_id ` set xs" "o' \<noteq> op"
    and sub: "set (parents o') \<subseteq> insert (operation_id op) (operation_id ` set xs)"
    by (auto simp: ready_after_def)
  show "o' \<in> ?r \<union> ?new"
  proof (cases "operation_id op \<in> set (parents o')")
    case True
    with sub op have "set (parents o') - operation_id ` set xs = {operation_id op}"
      by (auto simp: ready_after_def)
    with True o' show ?thesis by simp
  next
    case False
    with o' sub show ?thesis by (auto simp: ready_after_def)
  qed
next
  fix o' assume "o' \<in> ?r \<union> ?new"
  then show "o' \<in> ?l"
  proof
    assume r: "o' \<in> ?r"
    then have "operation_id o' \<noteq> operation_id op"
      using op ops_values_eqI [OF inv] by (auto simp: ready_after_def)
    with r show ?thesis by (auto simp: ready_after_def)
  next
    assume new: "o' \<in> ?new"
    have fresh: "operation_id op \<notin> operation_id ` set xs" and closed: "set (parents op) \<subseteq> operation_id ` set xs"
      using op by (auto simp: ready_after_def)
    from new obtain y where y: "set (parents o') - operation_id ` set xs = {y}"
      by (auto simp: card_1_singleton_iff)
    then have "operation_id op \<in> {y}" using new fresh by blast
    with y have "set (parents o') - operation_id ` set xs = {operation_id op}" by simp
    moreover have "operation_id o' \<notin> operation_id ` set xs"
    proof
      assume "operation_id o' \<in> operation_id ` set xs"
      then obtain x where x: "x \<in> set xs" "operation_id x = operation_id o'" by auto
      then have "x = o'" using kahn_prefix_props(2) [OF pre] new ops_values_eqI [OF inv] by blast
      then show False using kahn_prefix_props(3) [OF pre x(1)] new fresh by auto
    qed
    moreover have "operation_id o' \<noteq> operation_id op"
      using new op closed fresh ops_values_eqI [OF inv, of o' op] by (auto simp: ready_after_def)
    ultimately show ?thesis using new by (auto simp: ready_after_def)
  qed
qed

definition drain_inv ::
    "'t operation_map \<Rightarrow> (operation_id, nat) btree_map \<Rightarrow> sort_key list \<Rightarrow> 't operation list \<Rightarrow> bool" where
  "drain_inv ops indegree ready xs \<longleftrightarrow>
     kahn_prefix ops xs \<and>
     (\<forall>op \<in> set (bm_values ops).
        bm_get indegree (operation_id op) = Some (card (set (parents op) - operation_id ` set xs))) \<and>
     sorted ready \<and> distinct ready \<and> set ready = sort_key ` ready_after ops xs"

lemma drain_inv_step:
  assumes inv: "ops_inv ops" and di: "drain_inv ops indegree (sort_key op # ready) xs"
    and op: "op \<in> set (bm_values ops)"
    and cs: "cs = map operation_id (filter (\<lambda>o'. operation_id op \<in> set (parents o')) (bm_values ops))"
  shows "refines op_resource (relax_children ops cs indegree ready)
      (Inr (fold (\<lambda>c. bm_modify c (\<lambda>d. d - 1)) cs indegree,
        fold insort (map (\<lambda>c. sort_key (the (bm_get ops c))) (filter (\<lambda>c. bm_get indegree c = Some 1) cs)) ready))"
    and "drain_inv ops (fold (\<lambda>c. bm_modify c (\<lambda>d. d - 1)) cs indegree)
        (fold insort (map (\<lambda>c. sort_key (the (bm_get ops c))) (filter (\<lambda>c. bm_get indegree c = Some 1) cs)) ready)
        (xs @ [op])"
proof -
  let ?ids = "operation_id ` set xs"
  have pre: "kahn_prefix ops xs"
    and deg: "\<And>o'. o' \<in> set (bm_values ops) \<Longrightarrow>
      bm_get indegree (operation_id o') = Some (card (set (parents o') - ?ids))"
    and sd: "sorted (sort_key op # ready)" "distinct (sort_key op # ready)"
    and rdy: "set (sort_key op # ready) = sort_key ` ready_after ops xs"
    using di by (auto simp: drain_inv_def)
  have "sort_key op \<in> sort_key ` ready_after ops xs" by (simp flip: rdy)
  then obtain op' where "op' \<in> ready_after ops xs" "sort_key op = sort_key op'" by blast
  moreover from this have "op = op'"
    using op sort_key_inject [OF inv, of op op'] by (simp add: ready_after_def)
  ultimately have rd: "op \<in> ready_after ops xs" by simp
  then have fresh: "operation_id op \<notin> ?ids" by (simp add: ready_after_def)
  have cs_iff: "operation_id o' \<in> set cs \<longleftrightarrow> operation_id op \<in> set (parents o')"
    if "o' \<in> set (bm_values ops)" for o'
    using that ops_values_eqI [OF inv, of o'] by (auto simp: cs)
  have dcs: "distinct cs"
    using ops_ids_distinct [OF inv] by (auto simp: cs distinct_map intro: inj_on_subset)
  have get: "bm_get ops (operation_id o') = Some o'" if "o' \<in> set (bm_values ops)" for o'
    using that ops_value_iff [OF inv] by simp
  show "refines op_resource (relax_children ops cs indegree ready)
      (Inr (fold (\<lambda>c. bm_modify c (\<lambda>d. d - 1)) cs indegree,
        fold insort (map (\<lambda>c. sort_key (the (bm_get ops c))) (filter (\<lambda>c. bm_get indegree c = Some 1) cs)) ready))"
  proof (rule refines_relax [OF dcs])
    fix c assume "c \<in> set cs"
    then obtain o' where o': "o' \<in> set (bm_values ops)" "c = operation_id o'" "operation_id op \<in> set (parents o')"
      by (auto simp: cs)
    with fresh have "card (set (parents o') - ?ids) \<noteq> 0" by auto
    with o' show "\<exists>d op. bm_get indegree c = Some d \<and> d \<noteq> 0 \<and> bm_get ops c = Some op"
      by (auto simp: deg get)
  qed
  let ?new = "{o' \<in> set (bm_values ops). operation_id op \<in> set (parents o') \<and> card (set (parents o') - ?ids) = 1}"
  let ?ks = "map (\<lambda>c. sort_key (the (bm_get ops c))) (filter (\<lambda>c. bm_get indegree c = Some 1) cs)"
  have ks: "?ks = map sort_key (filter (\<lambda>o'. operation_id op \<in> set (parents o') \<and> card (set (parents o') - ?ids) = 1)
      (bm_values ops))"
    using deg get by (auto simp: cs filter_map o_def cong: map_cong filter_cong)
  have set_ks: "set ?ks = sort_key ` ?new" unfolding ks by auto
  have dks: "distinct ?ks" unfolding ks
    using ops_ids_distinct [OF inv] sort_key_inject [OF inv]
    by (auto simp: distinct_map intro!: inj_onI)
  have disj: "set ?ks \<inter> set ready = {}"
  proof (rule ccontr)
    assume "set ?ks \<inter> set ready \<noteq> {}"
    then obtain k where "k \<in> set ?ks" "k \<in> set ready" by blast
    then have "k \<in> sort_key ` ?new" "k \<in> sort_key ` ready_after ops xs"
      unfolding set_ks rdy [symmetric] by simp_all
    then obtain a b where ab: "a \<in> ?new" "b \<in> ready_after ops xs" "sort_key a = sort_key b" by blast
    then have "a = b" using sort_key_inject [OF inv, of a b] by (simp add: ready_after_def)
    with ab fresh show False by (auto simp: ready_after_def)
  qed
  have after: "ready_after ops (xs @ [op]) = (ready_after ops xs - {op}) \<union> ?new"
    by (rule ready_after_snoc [OF inv pre rd])
  have rest: "set ready = sort_key ` (ready_after ops xs - {op})"
  proof -
    have "set ready = sort_key ` ready_after ops xs - {sort_key op}" using sd(2) by (auto simp flip: rdy)
    also have "\<dots> = sort_key ` (ready_after ops xs - {op})"
      using rd sort_key_inject [OF inv] by (auto simp: ready_after_def)
    finally show ?thesis .
  qed
  have "sort_key op \<le> sort_key o'" if "o' \<in> ready_after ops xs" for o'
  proof -
    have "sort_key o' \<in> set (sort_key op # ready)" unfolding rdy using that by (rule imageI)
    then show ?thesis using sd(1) by auto
  qed
  then have "kahn_prefix ops (xs @ [op])"
    using pre rd unfolding kahn_prefix_snoc by blast
  moreover have "bm_get (fold (\<lambda>c. bm_modify c (\<lambda>d. d - 1)) cs indegree) (operation_id o') =
      Some (card (set (parents o') - operation_id ` set (xs @ [op])))" if "o' \<in> set (bm_values ops)" for o'
    using relaxed_degrees [of "set (parents o')" "operation_id op" ?ids, OF _ fresh refl] deg [OF that] cs_iff [OF that]
    by (simp add: fold_modify_get [OF dcs])
  moreover have "set (fold insort ?ks ready) = sort_key ` ready_after ops (xs @ [op])"
    unfolding fold_insort_props(1) set_ks rest after by (simp add: image_Un Un_commute)
  moreover have "sorted (fold insort ?ks ready)" "distinct (fold insort ?ks ready)"
    using sd dks disj by (simp_all only: fold_insort_props) simp_all
  ultimately show "drain_inv ops (fold (\<lambda>c. bm_modify c (\<lambda>d. d - 1)) cs indegree)
        (fold insort ?ks ready) (xs @ [op])"
    unfolding drain_inv_def by blast
qed

lemma refines_drain:
  assumes inv: "ops_inv ops"
    and kids: "\<And>p. kids children p = map operation_id (filter (\<lambda>op. p \<in> set (parents op)) (bm_values ops))"
    and "drain_inv ops indegree ready xs"
  shows "\<exists>ys. kahn_order ops ys \<and> refines op_resource (drain_ready ops children indegree ready xs) (Inr ys)"
  using assms(3)
proof (induction "length ops - length xs" arbitrary: indegree ready xs rule: less_induct)
  case less
  show ?case
  proof (cases ready)
    case Nil
    with less.prems have "kahn_order ops xs" by (auto simp: drain_inv_def kahn_order_def)
    with Nil show ?thesis by (auto intro: refines_ret)
  next
    case (Cons k ready')
    have "k \<in> sort_key ` ready_after ops xs" using less.prems Cons by (auto simp: drain_inv_def)
    then obtain op where op: "op \<in> ready_after ops xs" "k = sort_key op" by blast
    then have mem: "op \<in> set (bm_values ops)" by (simp add: ready_after_def)
    define cs where "cs = kids children (operation_id op)"
    note step = drain_inv_step [OF inv less.prems [unfolded Cons op(2)] mem, of cs,
        OF cs_def [unfolded kids]]
    let ?ind = "fold (\<lambda>c. bm_modify c (\<lambda>d. d - 1)) cs indegree"
    let ?rdy = "fold insort (map (\<lambda>c. sort_key (the (bm_get ops c))) (filter (\<lambda>c. bm_get indegree c = Some 1) cs)) ready'"
    have pre: "kahn_prefix ops (xs @ [op])" using step(2) by (simp add: drain_inv_def)
    have "length (xs @ [op]) \<le> length ops"
      using kahn_prefix_props(1,2) [OF pre] card_mono [of "set (bm_values ops)" "set (xs @ [op])"]
        card_length [of "bm_values ops"] distinct_card [of "xs @ [op]"]
      unfolding distinct_map by simp
    then have "length ops - length (xs @ [op]) < length ops - length xs" by simp
    from less.hyps [OF this step(2)] obtain ys where ys: "kahn_order ops ys"
      "refines op_resource (drain_ready ops children ?ind ?rdy (xs @ [op])) (Inr ys)" by blast
    have "refines op_resource (drain_ready ops children indegree ready xs) (Inr ys)"
      unfolding Cons op(2) sort_key_def drain_step cs_def [symmetric]
      using mem ops_value_iff [OF inv] ys(2)
      by (intro refines_bind_unit [OF refines_op_check_cancelled] refines_bind_ok_or_Some [of _ op]
          refines_bind_eq [OF step(1), where g = "\<lambda>_. Inr ys"]) auto
    with ys(1) show ?thesis by blast
  qed
qed

lemma refines_ordered:
  assumes inv: "ops_inv ops" and small: "\<And>op. op \<in> set (bm_values ops) \<Longrightarrow> length (parents op) \<le> 2 ^ 32"
  shows "\<exists>ys. kahn_order ops ys \<and> refines op_resource (ordered_with_budget ops)
    (if length ys = length ops then Inr ys else Inl OE_CyclicCausality)"
proof -
  let ?xs = "bm_values ops"
  define indegree where "indegree = fold (\<lambda>op. bm_insert (operation_id op) (length (parents op))) ?xs []"
  define children where "children = fold (\<lambda>op. fold (push_child (operation_id op)) (parents op)) ?xs []"
  define ready where "ready = fold insort (map sort_key (filter (\<lambda>op. bm_get indegree (operation_id op) = Some 0) ?xs)) []"
  have dist: "\<And>op. op \<in> set ?xs \<Longrightarrow> distinct (parents op)"
    using ops_value_iff [OF inv] ops_inv_get [OF inv] by blast
  have deg: "bm_get indegree (operation_id op) = Some (length (parents op))" if "op \<in> set ?xs" for op
    unfolding indegree_def using degrees_get [OF ops_ids_distinct [OF inv] that] .
  have kids: "kids children p = map operation_id (filter (\<lambda>op. p \<in> set (parents op)) ?xs)" for p
    unfolding children_def by (subst kids_fold_ops) (simp_all add: dist)
  have roots: "filter (\<lambda>op. bm_get indegree (operation_id op) = Some 0) ?xs = filter (\<lambda>op. parents op = []) ?xs"
    using deg by (auto cong: filter_cong)
  have "drain_inv ops indegree ready []"
    unfolding drain_inv_def ready_def roots fold_insort_props
    using deg dist ops_ids_distinct [OF inv] sort_key_inject [OF inv]
    by (auto simp: kahn_prefix_def ready_after_def distinct_card distinct_map intro!: inj_onI)
  from refines_drain [OF inv kids this] obtain ys where ys: "kahn_order ops ys"
    "refines op_resource (drain_ready ops children indegree ready []) (Inr ys)" by blast
  have seed: "refines op_resource (seed_ready ?xs indegree []) (Inr ready)"
    unfolding ready_def by (rule refines_seed_ready) (simp add: deg)
  have build: "refines op_resource (build_degrees ?xs [] []) (Inr (indegree, children))"
    unfolding indegree_def children_def by (rule refines_build_degrees)
  have final: "refines op_resource (bindR (guardR (length ys = length ops) OE_CyclicCausality) (\<lambda>_. ret ys))
      (if length ys = length ops then Inr ys else Inl OE_CyclicCausality)"
    by (rule refines_bind_eq [OF refines_guardR, where g = "\<lambda>_. Inr ys"]) (auto intro: refines_ret)
  have "refines op_resource (ordered_with_budget ops)
      (if length ys = length ops then Inr ys else Inl OE_CyclicCausality)"
    unfolding ordered_with_budget_def
    by (rule refines_bind_unit [OF refines_op_check_cancelled]
        refines_bind_unit [OF refines_charge_nodes [OF small]]
        refines_bind_value [OF build] refines_bind_value [OF seed] refines_bind_value [OF ys(2)] final
        | assumption | simp only: prod.case)+
  with ys(1) show ?thesis by blast
qed

section \<open>What the order guarantees\<close>

definition topological :: "'t operation list \<Rightarrow> bool" where
  "topological xs \<longleftrightarrow> (\<forall>i < length xs. set (parents (xs ! i)) \<subseteq> operation_id ` set (take i xs))"

lemma kahn_prefix_topological: "kahn_prefix ops xs \<Longrightarrow> topological xs"
  by (simp add: kahn_prefix_def topological_def ready_after_def)

lemma kahn_order_unique:
  assumes inv: "ops_inv ops" and xs: "kahn_order ops xs" and ys: "kahn_order ops ys"
  shows "xs = ys"
proof -
  have same: "take n xs = take n ys" if "n \<le> length xs" "n \<le> length ys" for n
    using that
  proof (induction n)
    case (Suc n)
    then have IH: "take n xs = take n ys" and n: "n < length xs" "n < length ys" by simp_all
    have mem: "xs ! n \<in> ready_after ops (take n xs)" "ys ! n \<in> ready_after ops (take n xs)"
      using xs ys n IH unfolding kahn_order_def kahn_prefix_def by metis+
    have "sort_key (xs ! n) \<le> sort_key (ys ! n)" "sort_key (ys ! n) \<le> sort_key (xs ! n)"
      using xs ys n mem IH unfolding kahn_order_def kahn_prefix_def by metis+
    then have "xs ! n = ys ! n"
      using mem sort_key_inject [OF inv, of "xs ! n" "ys ! n"] by (simp add: ready_after_def)
    with IH n show ?case by (simp add: take_Suc_conv_app_nth)
  qed simp
  have le: "length ws \<le> length zs" if "kahn_order ops ws" "kahn_order ops zs"
    "take (min (length ws) (length zs)) ws = take (min (length ws) (length zs)) zs" for ws zs
  proof (rule ccontr)
    assume "\<not> length ws \<le> length zs"
    then have "length zs < length ws" "take (length zs) ws = zs" using that(3) by simp_all
    then have "ws ! length zs \<in> ready_after ops zs"
      using that(1) unfolding kahn_order_def kahn_prefix_def by metis
    then show False using that(2) by (simp add: kahn_order_def)
  qed
  have "length xs = length ys"
  proof (rule le_antisym)
    have cut: "take (min (length xs) (length ys)) xs = take (min (length xs) (length ys)) ys"
      by (rule same) simp_all
    show "length xs \<le> length ys" by (rule le [OF xs ys cut])
    show "length ys \<le> length xs"
      by (rule le [OF ys xs]) (use cut in \<open>simp add: min.commute\<close>)
  qed
  then show ?thesis using same [of "length xs"] by simp
qed

definition parents_present :: "'t operation_map \<Rightarrow> bool" where
  "parents_present ops \<longleftrightarrow> (\<forall>op \<in> set (bm_values ops). \<forall>p \<in> set (parents op). bm_get ops p \<noteq> None)"

lemma finite_parent_rel: "finite (parent_rel ops)"
proof -
  have "parent_rel ops \<subseteq> (\<Union>op \<in> snd ` set ops. set (parents op)) \<times> fst ` set ops"
    by (force simp: parent_rel_def dest: map_of_SomeD)
  then show ?thesis by (rule finite_subset) auto
qed

lemma kahn_order_complete:
  assumes inv: "ops_inv ops" and "parents_present ops" and "acyclic (parent_rel ops)"
    and order: "kahn_order ops xs"
  shows "set xs = set (bm_values ops)"
proof
  have pre: "kahn_prefix ops xs" using order by (simp add: kahn_order_def)
  show "set xs \<subseteq> set (bm_values ops)" by (rule kahn_prefix_props(2) [OF pre])
  have "bm_get ops k = Some op \<longrightarrow> op \<in> set xs" for k op
  proof (induction k arbitrary: op rule: wf_induct_rule [OF finite_acyclic_wf [OF finite_parent_rel assms(3)]])
    case (1 k)
    show ?case
    proof
      assume op: "bm_get ops k = Some op"
      then have mem: "op \<in> set (bm_values ops)" and id: "operation_id op = k"
        using ops_inv_get [OF inv] ops_value_iff [OF inv] by auto
      have "p \<in> operation_id ` set xs" if p: "p \<in> set (parents op)" for p
      proof -
        obtain q where q: "bm_get ops p = Some q"
          using assms(2) mem p by (auto simp: parents_present_def)
        moreover have "(p, k) \<in> parent_rel ops" using op p by (auto simp: parent_rel_iff)
        ultimately have "q \<in> set xs" using 1 by blast
        then show ?thesis using ops_inv_get [OF inv q] by force
      qed
      moreover have "op \<notin> ready_after ops xs" using order by (simp add: kahn_order_def)
      ultimately have "operation_id op \<in> operation_id ` set xs"
        using mem by (auto simp: ready_after_def)
      then show "op \<in> set xs"
        using mem kahn_prefix_props(2) [OF pre] ops_values_eqI [OF inv] by blast
    qed
  qed
  then show "set (bm_values ops) \<subseteq> set xs" using ops_value_iff [OF inv] by blast
qed

lemma kahn_order_length:
  assumes inv: "ops_inv ops" and order: "kahn_order ops xs"
  shows "length xs = length ops \<longleftrightarrow> set xs = set (bm_values ops)"
proof -
  have pre: "kahn_prefix ops xs" using order by (simp add: kahn_order_def)
  have dx: "distinct xs" using kahn_prefix_props(1) [OF pre] by (simp add: distinct_map)
  have dv: "distinct (bm_values ops)" using ops_ids_distinct [OF inv] by (simp add: distinct_map)
  have "card (set xs) = length xs" "card (set (bm_values ops)) = length ops"
    using distinct_card [OF dx] distinct_card [OF dv] by simp_all
  then show ?thesis
    using kahn_prefix_props(2) [OF pre] card_subset_eq [of "set (bm_values ops)" "set xs"] by auto
qed

section \<open>Properties\<close>

text \<open>
  Claim C4. The ordering of an operation set is exact. On success the result contains every
  operation once, parents come before their children, and at each position the operation is the one
  with the least sort key among those whose parents have all been emitted, which determines the
  list. The only other outcomes are an exhausted or cancelled budget and \<open>CyclicCausality\<close>, and the
  latter only if some parent is missing or the parent relation has a cycle; the decrement and the
  index expression of the source never panic.
\<close>

theorem ordered_exact:
  assumes "ops_inv ops" "\<And>op. op \<in> set (bm_values ops) \<Longrightarrow> length (parents op) \<le> MAX_PARENTS"
  shows "case ordered_with_budget ops b of
      (Inr xs, _) \<Rightarrow> set xs = set (bm_values ops) \<and> distinct (map operation_id xs) \<and> topological xs \<and>
        (\<forall>ys. kahn_order ops ys \<longleftrightarrow> ys = xs)
    | (Inl e, _) \<Rightarrow> op_resource e \<or>
        e = OE_CyclicCausality \<and> \<not> (parents_present ops \<and> acyclic (parent_rel ops))"
proof -
  have "length (parents op) \<le> 2 ^ 32" if "op \<in> set (bm_values ops)" for op
    using assms(2) [OF that] by (simp add: MAX_PARENTS_def)
  from refines_ordered [OF assms(1) this] obtain ys where ys: "kahn_order ops ys"
    and ref: "refines op_resource (ordered_with_budget ops)
      (if length ys = length ops then Inr ys else Inl OE_CyclicCausality)" by blast
  have pre: "kahn_prefix ops ys" using ys by (simp add: kahn_order_def)
  have unique: "kahn_order ops zs \<longleftrightarrow> zs = ys" for zs
    using ys kahn_order_unique [OF assms(1) ys] by blast
  show ?thesis
  proof (cases "ordered_with_budget ops b")
    case (Pair r t)
    show ?thesis
    proof (cases r)
      case (Inr xs)
      then have "xs = ys" "length ys = length ops"
        using refinesD(1) [OF ref, of b xs t] Pair by (auto split: if_splits)
      then show ?thesis
        using Pair Inr kahn_order_length [OF assms(1) ys] kahn_prefix_props(1) [OF pre]
          kahn_prefix_topological [OF pre] ys unique by simp
    next
      case (Inl e)
      then have "op_resource e \<or> e = OE_CyclicCausality \<and> length ys \<noteq> length ops"
        using refinesD(2) [OF ref, of b e t] Pair by (auto split: if_splits)
      then show ?thesis
        using Pair Inl kahn_order_complete [OF assms(1) _ _ ys] kahn_order_length [OF assms(1) ys] by auto
    qed
  qed
qed

lemma demo_chain_inv:
  "ops_inv demo_chain" "list_all (\<lambda>op. length (parents op) \<le> MAX_PARENTS) (bm_values demo_chain)"
  by code_simp+

theorem ordered_exact_witness:
  "case ordered_with_budget demo_chain default_operation_budget of
     (Inr xs, _) \<Rightarrow> map operation_id xs = [demo_id 2, demo_id 1, demo_id 3] \<and> topological xs
   | (Inl e, _) \<Rightarrow> False"
proof -
  have run: "case fst (ordered_with_budget demo_chain default_operation_budget) of
      Inr xs \<Rightarrow> map operation_id xs = [demo_id 2, demo_id 1, demo_id 3] | Inl e \<Rightarrow> False"
    by code_simp
  show ?thesis
    using run ordered_exact [OF demo_chain_inv(1), of default_operation_budget] demo_chain_inv(2)
    by (auto simp: list_all_iff split: prod.splits sum.splits)
qed

end
