(* ===== verification/Operation_Graph.thy ===== *)
theory Operation_Graph
  imports Operation_Order
begin

text \<open>
  Validation of operation sets (\<open>validate_graph_with_budget\<close>, \<open>validate_resolution\<close>,
  \<open>from_operations_with_budget\<close> of \<open>crates/operation-log/src/lib.rs\<close>) and what it guarantees of the
  causal graph.
\<close>

section \<open>Validation of one operation\<close>

definition op_ancestor ::
    "'t operation_map \<Rightarrow> operation_id \<Rightarrow> operation_id
       \<Rightarrow> (resource_budget \<times> resource_usage, operation_error, bool) rsm" where
  "op_ancestor ops a d = map_err operation_budget_error (ancestor_with_budget ops a d)"

text \<open>The loop over the parents, which accumulates their greatest depth.\<close>

fun check_parents ::
    "'t operation_map \<Rightarrow> 't operation \<Rightarrow> operation_id list \<Rightarrow> causal_depth option
       \<Rightarrow> (resource_budget \<times> resource_usage, operation_error, causal_depth option) rsm" where
  "check_parents ops op [] max_parent_depth = ret max_parent_depth"
| "check_parents ops op (parent_id # ps) max_parent_depth =
     bindR (guardR (parent_id \<noteq> operation_id op) OE_CyclicCausality) (\<lambda>_.
     bindR (ok_or (bm_get ops parent_id) OE_MissingParent) (\<lambda>parent.
     bindR (guardR (\<not> logical_time parent \<ge> logical_time op) OE_InvalidCausality) (\<lambda>_.
     check_parents ops op ps
       (Some (case max_parent_depth of
                None \<Rightarrow> causal_depth parent
              | Some depth \<Rightarrow> max depth (causal_depth parent))))))"

text \<open>The nested loops over pairs of parents.\<close>

fun check_pairs_with ::
    "'t operation_map \<Rightarrow> operation_id \<Rightarrow> operation_id list
       \<Rightarrow> (resource_budget \<times> resource_usage, operation_error, unit) rsm" where
  "check_pairs_with ops left [] = ret ()"
| "check_pairs_with ops left (right # rest) =
     bindR (op_ancestor ops left right) (\<lambda>lr.
     if lr then fail OE_InvalidCausality
     else bindR (op_ancestor ops right left) (\<lambda>rl.
          if rl then fail OE_InvalidCausality else check_pairs_with ops left rest))"

fun check_pairs ::
    "'t operation_map \<Rightarrow> operation_id list
       \<Rightarrow> (resource_budget \<times> resource_usage, operation_error, unit) rsm" where
  "check_pairs ops [] = ret ()"
| "check_pairs ops (left # rest) = bindR (check_pairs_with ops left rest) (\<lambda>_. check_pairs ops rest)"

definition check_depth ::
    "'t operation \<Rightarrow> causal_depth option
       \<Rightarrow> (resource_budget \<times> resource_usage, operation_error, unit) rsm" where
  "check_depth op max_parent_depth =
     (case max_parent_depth of
        None \<Rightarrow> guardR (causal_depth op = 0) OE_InvalidCausality
      | Some version \<Rightarrow>
          bindR (ok_or (checked_add_word version 1) (OE_ResourceLimit ''causal_depth'')) (\<lambda>expected.
          guardR (causal_depth op = expected) OE_InvalidCausality))"

definition check_target ::
    "'t operation_map \<Rightarrow> 't operation
       \<Rightarrow> (resource_budget \<times> resource_usage, operation_error, unit) rsm" where
  "check_target ops op =
     (case target_reference op of None \<Rightarrow> ret () | Some target \<Rightarrow>
      bindR (ok_or (bm_get ops (ref_operation_id target)) OE_MissingTarget) (\<lambda>target_op.
      bindR (guardR (content_hash target_op = ref_content_hash target) OE_HashMismatch) (\<lambda>_.
      bindR (guardR (schema_version target_op = schema_version op) OE_VersionMismatch) (\<lambda>_.
      bindR (guardR (is_apply (payload target_op)) OE_InvalidCausality) (\<lambda>_.
      bindR (op_ancestor ops (ref_operation_id target) (operation_id op)) (\<lambda>anc.
      bindR (guardR anc OE_InvalidCausality) (\<lambda>_.
      guardR (\<not> is_non_reversible (inverse_of target_op)) OE_NonReversibleTarget)))))))"

definition distinct_toggle_intents :: "'t operation_payload \<Rightarrow> 't operation_payload \<Rightarrow> bool" where
  "distinct_toggle_intents l r =
     (case (l, r) of
        (Undo lt, Undo rt) \<Rightarrow> lt \<noteq> rt
      | (Redo lt, Redo rt) \<Rightarrow> lt \<noteq> rt
      | (Undo lt, Redo rt) \<Rightarrow> True
      | (Redo lt, Undo rt) \<Rightarrow> True
      | _ \<Rightarrow> False)"

text \<open>The condition of four ancestor searches joined by \<open>||\<close>.\<close>

definition resolution_ancestry ::
    "'t operation_map \<Rightarrow> operation_id \<Rightarrow> operation_id \<Rightarrow> operation_id
       \<Rightarrow> (resource_budget \<times> resource_usage, operation_error, unit) rsm" where
  "resolution_ancestry ops l r oid =
     bindR (op_ancestor ops l oid) (\<lambda>a.
     if \<not> a then fail OE_InvalidResolution else
     bindR (op_ancestor ops r oid) (\<lambda>b.
     if \<not> b then fail OE_InvalidResolution else
     bindR (op_ancestor ops l r) (\<lambda>c.
     if c then fail OE_InvalidResolution else
     bindR (op_ancestor ops r l) (\<lambda>d.
     if d then fail OE_InvalidResolution else ret ()))))"

definition resolution_effect ::
    "'t operation_map \<Rightarrow> 't operation
       \<Rightarrow> (resource_budget \<times> resource_usage, operation_error, 't effect_value \<times> nat) rsm" where
  "resolution_effect ops op = map_err resolution_effect_error (on_fst (effect_with_budget ops op))"

definition payload_resolution_value :: "'t operation_payload \<Rightarrow> 't resolution_value option" where
  "payload_resolution_value p =
     (case p of Resolve l r m \<Rightarrow> Some (RV_Mutation m) | ResolveV2 l r v \<Rightarrow> Some v | _ \<Rightarrow> None)"

definition validate_resolution ::
    "'t operation_map \<Rightarrow> 't operation \<Rightarrow> operation_reference \<Rightarrow> operation_reference
       \<Rightarrow> (resource_budget \<times> resource_usage, operation_error, unit) rsm" where
  "validate_resolution ops op left right =
     bindR (guardR (ref_operation_id left \<noteq> ref_operation_id right) OE_InvalidResolution) (\<lambda>_.
     bindR (guardR (\<not> (ref_operation_id left \<ge> ref_operation_id right \<or>
                       ref_operation_id left \<notin> set (parents op) \<or>
                       ref_operation_id right \<notin> set (parents op))) OE_InvalidResolution) (\<lambda>_.
     bindR (ok_or (bm_get ops (ref_operation_id left)) OE_MissingTarget) (\<lambda>left_op.
     bindR (ok_or (bm_get ops (ref_operation_id right)) OE_MissingTarget) (\<lambda>right_op.
     bindR (guardR (schema_version left_op = schema_version op \<and>
                    schema_version right_op = schema_version op) OE_VersionMismatch) (\<lambda>_.
     bindR (guardR (content_hash left_op = ref_content_hash left \<and>
                    content_hash right_op = ref_content_hash right) OE_HashMismatch) (\<lambda>_.
     bindR (resolution_ancestry ops (ref_operation_id left) (ref_operation_id right)
              (operation_id op)) (\<lambda>_.
     bindR (resolution_effect ops left_op) (\<lambda>(left_effect, left_effect_bytes).
     bindR (resolution_effect ops right_op) (\<lambda>(right_effect, right_effect_bytes).
     bindR (ok_or (payload_resolution_value (payload op)) OE_InvalidResolution) (\<lambda>resolution_value.
     bindR (on_fst (op_charge WorkingSetBytes (length (canonical op)))) (\<lambda>_.
     bindR (guardR (effect_value_field_key left_effect = effect_value_field_key right_effect \<and>
                    effect_value_field_key left_effect = resolution_field_key resolution_value)
              OE_InvalidResolution) (\<lambda>_.
     bindR (on_fst (op_charge WorkingSetBytes left_effect_bytes)) (\<lambda>_.
     bindR (on_fst (op_charge WorkingSetBytes right_effect_bytes)) (\<lambda>_.
     guardR (\<not> (canonical_identity left_effect = canonical_identity right_effect \<and>
                \<not> distinct_toggle_intents (payload left_op) (payload right_op)))
       OE_InvalidResolution))))))))))))))"

definition validate_operation ::
    "'t operation_map \<Rightarrow> 't operation
       \<Rightarrow> (resource_budget \<times> resource_usage, operation_error, unit) rsm" where
  "validate_operation ops op =
     bindR (on_fst op_check_cancelled) (\<lambda>_.
     bindR (check_parents ops op (parents op) None) (\<lambda>max_parent_depth.
     bindR (check_pairs ops (parents op)) (\<lambda>_.
     bindR (check_depth op max_parent_depth) (\<lambda>_.
     bindR (check_target ops op) (\<lambda>_.
     case resolution_references op of
       None \<Rightarrow> ret ()
     | Some (left, right) \<Rightarrow> validate_resolution ops op left right)))))"

fun validate_operations ::
    "'t operation_map \<Rightarrow> 't operation list
       \<Rightarrow> (resource_budget \<times> resource_usage, operation_error, unit) rsm" where
  "validate_operations ops [] = ret ()"
| "validate_operations ops (op # rest) =
     bindR (validate_operation ops op) (\<lambda>_. validate_operations ops rest)"

definition validate_graph_with_budget ::
    "'t operation_map \<Rightarrow> (resource_budget \<times> resource_usage, operation_error, unit) rsm" where
  "validate_graph_with_budget ops =
     bindR (on_fst op_check_cancelled) (\<lambda>_.
     bindR (validate_operations ops (bm_values ops)) (\<lambda>_.
     bindR (on_fst (op_charge WorkingSetBytes (estimated_structural_bytes (length ops)))) (\<lambda>_.
     bindR (on_fst (ordered_with_budget ops)) (\<lambda>_. ret ()))))"

section \<open>Construction of a set\<close>

fun collect_operations ::
    "'t operation list \<Rightarrow> nat \<Rightarrow> project_id option \<Rightarrow> 't operation_map
       \<Rightarrow> (resource_budget, operation_error, project_id option \<times> 't operation_map) rsm" where
  "collect_operations [] input_count project m = ret (project, m)"
| "collect_operations (op # rest) input_count project m =
     bindR op_check_cancelled (\<lambda>_.
     bindR (ok_or (checked_add input_count 1) (OE_ResourceLimit ''operation_count'')) (\<lambda>input_count'.
     bindR (guardR (\<not> input_count' > MAX_OPERATION_COUNT) (OE_ResourceLimit ''operation_count'')) (\<lambda>_.
     bindR (op_charge WorkingSetBytes ESTIMATED_STRUCTURAL_ENTRY_BYTES) (\<lambda>_.
     bindR (case project of
              Some expected \<Rightarrow>
                bindR (guardR (op_project_id op = expected) OE_WrongProject) (\<lambda>_. ret project)
            | None \<Rightarrow> ret (Some (op_project_id op))) (\<lambda>project'.
     case bm_get m (operation_id op) of
       Some existing \<Rightarrow>
         bindR (guardR (content_hash existing = content_hash op) OE_TamperedDuplicate) (\<lambda>_.
         collect_operations rest input_count' project' m)
     | None \<Rightarrow>
         bindR (guardR (\<not> length m \<ge> MAX_OPERATION_COUNT) (OE_ResourceLimit ''operation_count'')) (\<lambda>_.
         bindR (op_charge OperationBytes (length (canonical op))) (\<lambda>_.
         collect_operations rest input_count' project' (bm_insert (operation_id op) op m))))))))"

text \<open>A function that owns a fresh local usage counter.\<close>

definition with_local_usage ::
    "(resource_budget \<times> resource_usage, 'e, 'a) rsm \<Rightarrow> (resource_budget, 'e, 'a) rsm" where
  "with_local_usage m b = (case m (b, resource_usage_default) of (r, (b', u)) \<Rightarrow> (r, b'))"

definition from_operations_with_budget ::
    "'t operation list \<Rightarrow> (resource_budget, operation_error, 't operation_set) rsm" where
  "from_operations_with_budget xs =
     bindR op_check_cancelled (\<lambda>_.
     bindR (collect_operations xs 0 None []) (\<lambda>(project, m).
     bindR (ok_or project OE_EmptyOperationSet) (\<lambda>project_id.
     bindR (with_local_usage (validate_graph_with_budget m)) (\<lambda>_.
     ret \<lparr>set_project_id = project_id, set_operations = m\<rparr>))))"

definition from_operations :: "'t operation list \<Rightarrow> operation_error + 't operation_set" where
  "from_operations xs = fst (from_operations_with_budget xs default_operation_budget)"

section \<open>The causal graph that is accepted\<close>

definition parents_ok :: "'t operation_map \<Rightarrow> 't operation \<Rightarrow> bool" where
  "parents_ok ops op \<longleftrightarrow>
     (\<forall>p \<in> set (parents op). p \<noteq> operation_id op \<and>
        (\<exists>q. bm_get ops p = Some q \<and> logical_time q < logical_time op))"

definition heads_ok :: "'t operation_map \<Rightarrow> 't operation \<Rightarrow> bool" where
  "heads_ok ops op \<longleftrightarrow> (\<forall>p \<in> set (parents op). \<forall>q \<in> set (parents op). \<not> is_ancestor ops p q)"

definition depth_of :: "'t operation_map \<Rightarrow> operation_id \<Rightarrow> nat" where
  "depth_of ops p = (case bm_get ops p of None \<Rightarrow> 0 | Some q \<Rightarrow> unat (causal_depth q))"

definition depth_ok :: "'t operation_map \<Rightarrow> 't operation \<Rightarrow> bool" where
  "depth_ok ops op \<longleftrightarrow>
     unat (causal_depth op) = (if parents op = [] then 0 else Suc (Max (depth_of ops ` set (parents op))))"

definition toggle_ok :: "'t operation_map \<Rightarrow> 't operation \<Rightarrow> bool" where
  "toggle_ok ops op \<longleftrightarrow>
     (\<forall>t. target_reference op = Some t \<longrightarrow>
        (\<exists>q. bm_get ops (ref_operation_id t) = Some q \<and> content_hash q = ref_content_hash t \<and>
             schema_version q = schema_version op \<and> is_apply (payload q) \<and>
             is_ancestor ops (ref_operation_id t) (operation_id op) \<and>
             \<not> is_non_reversible (inverse_of q)))"

text \<open>
  A resolution joins two concurrent parents that edit the field it sets, and whose effects differ
  or are toggles of different intent.
\<close>

definition resolution_pair_ok ::
    "'t operation_map \<Rightarrow> 't operation \<Rightarrow> operation_reference \<Rightarrow> operation_reference \<Rightarrow> bool" where
  "resolution_pair_ok ops op l r \<longleftrightarrow>
     ref_operation_id l < ref_operation_id r \<and>
     ref_operation_id l \<in> set (parents op) \<and> ref_operation_id r \<in> set (parents op) \<and>
     (\<exists>lo ro. bm_get ops (ref_operation_id l) = Some lo \<and> bm_get ops (ref_operation_id r) = Some ro \<and>
        schema_version lo = schema_version op \<and> schema_version ro = schema_version op \<and>
        content_hash lo = ref_content_hash l \<and> content_hash ro = ref_content_hash r \<and>
        is_ancestor ops (ref_operation_id l) (operation_id op) \<and>
        is_ancestor ops (ref_operation_id r) (operation_id op) \<and>
        \<not> is_ancestor ops (ref_operation_id l) (ref_operation_id r) \<and>
        \<not> is_ancestor ops (ref_operation_id r) (ref_operation_id l) \<and>
        (\<exists>le ln re rn v. effect_event ops lo = Inr (le, ln) \<and> effect_event ops ro = Inr (re, rn) \<and>
           payload_resolution_value (payload op) = Some v \<and>
           effect_field_key le = effect_field_key re \<and> effect_field_key le = resolution_field_key v \<and>
           (canonical_identity (as_effect_value le) \<noteq> canonical_identity (as_effect_value re) \<or>
            distinct_toggle_intents (payload lo) (payload ro))))"

definition operation_ok :: "'t operation_map \<Rightarrow> 't operation \<Rightarrow> bool" where
  "operation_ok ops op \<longleftrightarrow>
     parents_ok ops op \<and> heads_ok ops op \<and> depth_ok ops op \<and> toggle_ok ops op \<and>
     (\<forall>l r. resolution_references op = Some (l, r) \<longrightarrow> resolution_pair_ok ops op l r)"

definition graph_ok :: "'t operation_map \<Rightarrow> bool" where
  "graph_ok ops \<longleftrightarrow> (\<forall>op \<in> set (bm_values ops). operation_ok ops op)"

section \<open>Validation decides it\<close>

text \<open>
  \<open>decides m P\<close>: without a budget, \<open>m\<close> succeeds exactly when \<open>P\<close> holds, and it never panics.
\<close>

definition decides :: "('s, operation_error, unit) rsm \<Rightarrow> bool \<Rightarrow> bool" where
  "decides m P \<longleftrightarrow> (\<exists>v. refines op_resource m v \<and> (v = Inr () \<longleftrightarrow> P) \<and> v \<noteq> Inl OE_Panic)"

lemma decidesI: "refines op_resource m v \<Longrightarrow> (v = Inr () \<longleftrightarrow> P) \<Longrightarrow> v \<noteq> Inl OE_Panic \<Longrightarrow> decides m P"
  by (auto simp: decides_def)

lemma decides_eq: "decides m P \<Longrightarrow> (P \<longleftrightarrow> Q) \<Longrightarrow> decides m Q"
  by simp

lemma decides_ret: "decides (ret ()) True"
  by (rule decidesI [OF refines_ret]) simp_all

lemma decides_fail: "e \<noteq> OE_Panic \<Longrightarrow> decides (fail e) False"
  by (rule decidesI [OF refines_fail]) simp_all

lemma decides_guardR: "e \<noteq> OE_Panic \<Longrightarrow> decides (guardR b e) b"
  by (rule decidesI [OF refines_guardR]) simp_all

lemma decides_bind:
  assumes "refines op_resource m v" "v \<noteq> Inl OE_Panic" "\<And>x. v = Inr x \<Longrightarrow> decides (f x) (P x)"
  shows "decides (bindR m f) (\<exists>x. v = Inr x \<and> P x)"
proof -
  from assms(3) have "\<forall>x. \<exists>w. v = Inr x \<longrightarrow>
      refines op_resource (f x) w \<and> (w = Inr () \<longleftrightarrow> P x) \<and> w \<noteq> Inl OE_Panic"
    unfolding decides_def by blast
  then obtain g where g: "\<And>x. v = Inr x \<Longrightarrow>
      refines op_resource (f x) (g x) \<and> (g x = Inr () \<longleftrightarrow> P x) \<and> g x \<noteq> Inl OE_Panic"
    by metis
  show ?thesis
  proof (rule decidesI)
    show "refines op_resource (bindR m f) (bindE v g)"
      using assms(1) g by (intro refines_bind) auto
  qed (use g assms(2) in \<open>cases v, auto\<close>)+
qed

lemma decides_seq:
  assumes "decides m P" "P \<Longrightarrow> decides (f ()) Q"
  shows "decides (bindR m f) (P \<and> Q)"
proof -
  from assms(1) obtain v where v: "refines op_resource m v" "v = Inr () \<longleftrightarrow> P" "v \<noteq> Inl OE_Panic"
    by (auto simp: decides_def)
  have "decides (bindR m f) (\<exists>x. v = Inr x \<and> Q)"
    using v assms(2) by (intro decides_bind) auto
  then show ?thesis by (rule decides_eq) (use v in auto)
qed

lemma decides_guard_seq:
  "e \<noteq> OE_Panic \<Longrightarrow> (b \<Longrightarrow> decides (f ()) Q) \<Longrightarrow> decides (bindR (guardR b e) f) (b \<and> Q)"
  by (intro decides_seq decides_guardR)

lemma decides_value: "refines op_resource m (Inr x) \<Longrightarrow> decides (f x) P \<Longrightarrow> decides (bindR m f) P"
  using decides_bind [of m "Inr x" f "\<lambda>_. P"] by auto

lemma decides_ok_or:
  "e \<noteq> OE_Panic \<Longrightarrow> (\<And>x. v = Some x \<Longrightarrow> decides (f x) (P x)) \<Longrightarrow>
     decides (bindR (ok_or v e) f) (\<exists>x. v = Some x \<and> P x)"
  by (rule decides_eq [OF decides_bind [OF refines_ok_or, of _ _ _ P]]) (auto split: option.splits)

lemma refines_op_ancestor: "refines op_resource (op_ancestor ops a d) (Inr (is_ancestor ops a d))"
  unfolding op_ancestor_def
  using refines_map_err [OF refines_ancestor, of op_resource operation_budget_error] by simp

abbreviation parent_ok :: "'t operation_map \<Rightarrow> 't operation \<Rightarrow> operation_id \<Rightarrow> bool" where
  "parent_ok ops op p \<equiv>
     p \<noteq> operation_id op \<and> (\<exists>q. bm_get ops p = Some q \<and> logical_time q < logical_time op)"

definition max_depth :: "'t operation_map \<Rightarrow> operation_id list \<Rightarrow> causal_depth option \<Rightarrow> causal_depth option" where
  "max_depth ops ps m =
     fold (\<lambda>p m. let d = causal_depth (the (bm_get ops p))
                 in Some (case m of None \<Rightarrow> d | Some depth \<Rightarrow> max depth d)) ps m"

lemma refines_check_parents:
  "\<exists>v. refines op_resource (check_parents ops op ps m) v \<and> v \<noteq> Inl OE_Panic \<and>
     (\<forall>d. v = Inr d \<longleftrightarrow> (\<forall>p \<in> set ps. parent_ok ops op p) \<and> d = max_depth ops ps m)"
proof (induction ps arbitrary: m)
  case Nil
  show ?case by (rule exI [of _ "Inr m"]) (auto simp: refines_ret max_depth_def)
next
  case (Cons p ps)
  show ?case
  proof (cases "parent_ok ops op p")
    case True
    then obtain q where q: "bm_get ops p = Some q" "logical_time q < logical_time op" "p \<noteq> operation_id op"
      by auto
    let ?m = "Some (case m of None \<Rightarrow> causal_depth q | Some depth \<Rightarrow> max depth (causal_depth q))"
    obtain v where v: "refines op_resource (check_parents ops op ps ?m) v"
      "v \<noteq> Inl OE_Panic"
      "\<forall>d. v = Inr d \<longleftrightarrow> (\<forall>p \<in> set ps. parent_ok ops op p) \<and> d = max_depth ops ps ?m"
      using Cons.IH [of ?m] by blast
    have a: "refines op_resource (check_parents ops op (p # ps) m) v"
      unfolding check_parents.simps
      using q v(1) by (intro refines_bind_guard_True refines_bind_ok_or_Some) auto
    have b: "max_depth ops (p # ps) m = max_depth ops ps ?m"
      by (cases m) (simp_all add: max_depth_def Let_def q(1))
    have c: "(\<forall>p' \<in> set (p # ps). parent_ok ops op p') \<longleftrightarrow> (\<forall>p' \<in> set ps. parent_ok ops op p')"
      using True by simp
    show ?thesis unfolding b c by (intro exI [of _ v] conjI a v)
  next
    case False
    let ?e = "if p = operation_id op then OE_CyclicCausality
      else if bm_get ops p = None then OE_MissingParent else OE_InvalidCausality"
    have a: "refines op_resource (check_parents ops op (p # ps) m) (Inl ?e)"
      using False by (intro refinesI) (auto split: if_splits option.splits)
    have "\<not> (\<forall>p' \<in> set (p # ps). parent_ok ops op p')" using False by auto
    then show ?thesis by (intro exI [of _ "Inl ?e"] conjI a) (insert False, auto)
  qed
qed

lemma Max_insert_max: "finite S \<Longrightarrow> Max (insert (max a b) S) = Max (insert a (insert b S))"
  for a b :: "'a::linorder"
  by (cases "S = {}") (simp_all add: max.assoc)

lemma checked_add_word_1:
  "checked_add_word d 1 = Some x \<longleftrightarrow> unat x = Suc (unat d)" for d x :: u64
proof -
  have "unat x < 2 ^ LENGTH(64)" by (rule unsigned_less)
  then have "unat x = Suc (unat d) \<Longrightarrow> Suc (unat d) < 2 ^ 64" by simp
  moreover have "Suc (unat d) < 2 ^ 64 \<Longrightarrow> unat (d + 1) = Suc (unat d)"
    by (simp add: unat_word_ariths)
  ultimately show ?thesis
    by (auto simp: checked_add_word_def word_unat_eq_iff)
qed

lemma max_depth_Some:
  "(\<And>p. p \<in> set ps \<Longrightarrow> bm_get ops p \<noteq> None) \<Longrightarrow> 
   \<exists>d'. max_depth ops ps (Some d) = Some d' \<and> unat d' = Max (insert (unat d) (depth_of ops ` set ps))"
proof (induction ps arbitrary: d)
  case Nil
  then show ?case by (simp add: max_depth_def)
next
  case (Cons p ps)
  then obtain q where q: "bm_get ops p = Some q" by fastforce
  have m: "unat (max d (causal_depth q)) = max (unat d) (depth_of ops p)"
    by (simp add: max_def word_le_nat_alt depth_of_def q)
  have step: "max_depth ops (p # ps) (Some d) = max_depth ops ps (Some (max d (causal_depth q)))"
    by (simp add: max_depth_def q Let_def)
  from Cons.IH [of "max d (causal_depth q)"] Cons.prems obtain d' where
    "max_depth ops ps (Some (max d (causal_depth q))) = Some d'"
    "unat d' = Max (insert (max (unat d) (depth_of ops p)) (depth_of ops ` set ps))"
    unfolding m by auto
  then show ?case unfolding step by (simp add: Max_insert_max)
qed

lemma max_depth_None:
  assumes "\<And>p. p \<in> set ps \<Longrightarrow> bm_get ops p \<noteq> None"
  shows "case max_depth ops ps None of
      None \<Rightarrow> ps = [] | Some d \<Rightarrow> ps \<noteq> [] \<and> unat d = Max (depth_of ops ` set ps)"
proof (cases ps)
  case Nil
  then show ?thesis by (simp add: max_depth_def)
next
  case (Cons p qs)
  then obtain q where q: "bm_get ops p = Some q" using assms by fastforce
  have "max_depth ops ps None = max_depth ops qs (Some (causal_depth q))"
    by (simp add: Cons max_depth_def q Let_def)
  with max_depth_Some [of qs ops "causal_depth q"] assms Cons q show ?thesis
    by (auto simp: depth_of_def)
qed

lemma decides_check_depth:
  "decides (check_depth op m)
     (unat (causal_depth op) = (case m of None \<Rightarrow> 0 | Some d \<Rightarrow> Suc (unat d)))"
proof (cases m)
  case None
  then show ?thesis unfolding check_depth_def
    by (auto intro!: decides_eq [OF decides_guardR] simp: unat_eq_0)
next
  case (Some d)
  have "(\<exists>x. checked_add_word d 1 = Some x \<and> causal_depth op = x) \<longleftrightarrow> unat (causal_depth op) = Suc (unat d)"
    by (simp add: checked_add_word_1)
  then show ?thesis unfolding check_depth_def Some option.case
    by (intro decides_eq [OF decides_ok_or [OF _ decides_guardR]]) auto
qed

lemma decides_check_pairs_with:
  "decides (check_pairs_with ops l rs) (\<forall>r \<in> set rs. \<not> is_ancestor ops l r \<and> \<not> is_ancestor ops r l)"
proof (induction rs)
  case Nil
  then show ?case by (simp add: decides_ret)
next
  case (Cons r rs)
  show ?case
    unfolding check_pairs_with.simps
    by (intro decides_value [OF refines_op_ancestor])
      (use Cons in \<open>auto intro!: decides_value [OF refines_op_ancestor]
        intro: decides_eq [OF decides_fail] decides_eq [OF Cons]\<close>)
qed

lemma decides_check_pairs:
  "decides (check_pairs ops ps) (\<forall>p \<in> set ps. \<forall>q \<in> set ps. \<not> is_ancestor ops p q)"
proof (induction ps)
  case Nil
  then show ?case by (simp add: decides_ret)
next
  case (Cons p ps)
  have irrefl: "\<not> is_ancestor ops p p" by (simp add: is_ancestor_def)
  show ?case unfolding check_pairs.simps
    by (rule decides_eq [OF decides_seq [OF decides_check_pairs_with Cons]]) (use irrefl in auto)
qed

lemma decides_check_target: "decides (check_target ops op) (toggle_ok ops op)"
proof (cases "target_reference op")
  case None
  then show ?thesis by (simp add: check_target_def toggle_ok_def decides_ret)
next
  case (Some t)
  have "decides (check_target ops op)
    (\<exists>q. bm_get ops (ref_operation_id t) = Some q \<and> content_hash q = ref_content_hash t \<and>
         schema_version q = schema_version op \<and> is_apply (payload q) \<and>
         is_ancestor ops (ref_operation_id t) (operation_id op) \<and> \<not> is_non_reversible (inverse_of q))"
    unfolding check_target_def Some option.case
    by (intro decides_ok_or decides_guard_seq decides_value [OF refines_op_ancestor] decides_guardR) simp_all
  then show ?thesis by (rule decides_eq) (simp add: toggle_ok_def Some)
qed

lemma decides_resolution_ancestry:
  "decides (resolution_ancestry ops l r oid)
     (is_ancestor ops l oid \<and> is_ancestor ops r oid \<and> \<not> is_ancestor ops l r \<and> \<not> is_ancestor ops r l)"
  unfolding resolution_ancestry_def
  by (auto intro!: decides_value [OF refines_op_ancestor] decides_fail decides_ret)

lemma resolution_effect_budget_error [simp]:
  "resolution_effect_error (merge_budget_error b) = operation_budget_error b"
  by (cases b) simp_all

lemma resolution_effect_resource: "merge_resource e \<Longrightarrow> op_resource (resolution_effect_error e)"
  by (auto simp: merge_resource_def)

lemma as_applied_effect_error: "as_applied_effect i oid = Inl e \<Longrightarrow> e \<noteq> OE_Panic"
  by (cases i) (auto split: inverse_prior.splits sum.splits)

lemma effect_event_error: "effect_event ops op = Inl e \<Longrightarrow> e \<noteq> ME_Operation OE_Panic \<and> resolution_effect_error e \<noteq> OE_Panic"
  by (auto simp: effect_event_def Let_def bindE_def map_sum_def dest: as_applied_effect_error
      split: option.splits operation_payload.splits sum.splits)

lemma refines_resolution_effect:
  "refines op_resource (resolution_effect ops op)
     (map_sum resolution_effect_error (map_prod as_effect_value id) (effect_event ops op))"
  unfolding resolution_effect_def
  using refines_map_err [where R = merge_resource and R' = op_resource and h = resolution_effect_error,
      OF refines_on_fst [OF refines_effect [of ops op]]]
  by (simp add: sum.map_comp resolution_effect_resource)

lemma decides_effect:
  assumes "\<And>eff n. effect_event ops op = Inr (eff, n) \<Longrightarrow> decides (f (as_effect_value eff, n)) (P eff n)"
  shows "decides (bindR (resolution_effect ops op) f) (\<exists>eff n. effect_event ops op = Inr (eff, n) \<and> P eff n)"
proof (cases "effect_event ops op")
  case (Inl e)
  have "refines op_resource (resolution_effect ops op) (Inl (resolution_effect_error e))"
    using refines_resolution_effect [of ops op] by (simp add: Inl)
  from decides_bind [OF this, of f "\<lambda>_. False"] effect_event_error [OF Inl]
  show ?thesis by (simp add: Inl)
next
  case (Inr p)
  obtain eff n where p: "p = (eff, n)" by fastforce
  have "refines op_resource (resolution_effect ops op) (Inr (as_effect_value eff, n))"
    using refines_resolution_effect [of ops op] by (simp add: Inr p)
  then have "decides (bindR (resolution_effect ops op) f) (P eff n)"
    by (rule decides_value) (rule assms, simp add: Inr p)
  then show ?thesis by (rule decides_eq) (simp add: Inr p)
qed

lemma decides_charge: "decides (f ()) P \<Longrightarrow> decides (bindR (on_fst (op_charge k n)) f) P"
  by (rule decides_value [OF refines_on_fst [OF refines_op_charge]])

lemma decides_validate_resolution:
  "decides (validate_resolution ops op l r) (resolution_pair_ok ops op l r)"
proof -
  have "decides (validate_resolution ops op l r)
    (ref_operation_id l \<noteq> ref_operation_id r \<and>
     \<not> (ref_operation_id l \<ge> ref_operation_id r \<or> ref_operation_id l \<notin> set (parents op) \<or>
        ref_operation_id r \<notin> set (parents op)) \<and>
     (\<exists>lo. bm_get ops (ref_operation_id l) = Some lo \<and> (\<exists>ro. bm_get ops (ref_operation_id r) = Some ro \<and>
        (schema_version lo = schema_version op \<and> schema_version ro = schema_version op) \<and>
        (content_hash lo = ref_content_hash l \<and> content_hash ro = ref_content_hash r) \<and>
        (is_ancestor ops (ref_operation_id l) (operation_id op) \<and>
         is_ancestor ops (ref_operation_id r) (operation_id op) \<and>
         \<not> is_ancestor ops (ref_operation_id l) (ref_operation_id r) \<and>
         \<not> is_ancestor ops (ref_operation_id r) (ref_operation_id l)) \<and>
        (\<exists>le ln. effect_event ops lo = Inr (le, ln) \<and> (\<exists>re rn. effect_event ops ro = Inr (re, rn) \<and>
           (\<exists>v. payload_resolution_value (payload op) = Some v \<and>
             (effect_value_field_key (as_effect_value le) = effect_value_field_key (as_effect_value re) \<and>
              effect_value_field_key (as_effect_value le) = resolution_field_key v) \<and>
             \<not> (canonical_identity (as_effect_value le) = canonical_identity (as_effect_value re) \<and>
                \<not> distinct_toggle_intents (payload lo) (payload ro))))))))"
    unfolding validate_resolution_def
    by (intro decides_guard_seq decides_ok_or decides_seq [OF decides_resolution_ancestry] decides_effect)
      (simp_all only: prod.case,
       (intro decides_effect decides_guard_seq decides_ok_or decides_charge decides_guardR
         | simp only: prod.case | simp)+)
  then show ?thesis
    by (rule decides_eq) (auto simp: resolution_pair_ok_def not_le)
qed

lemma decides_validate_operation: "decides (validate_operation ops op) (operation_ok ops op)"
proof -
  obtain v where v: "refines op_resource (check_parents ops op (parents op) None) v" "v \<noteq> Inl OE_Panic"
    "\<And>d. v = Inr d \<longleftrightarrow> (\<forall>p \<in> set (parents op). parent_ok ops op p) \<and> d = max_depth ops (parents op) None"
    using refines_check_parents [of ops op "parents op" None] by blast
  let ?res = "\<forall>l r. resolution_references op = Some (l, r) \<longrightarrow> resolution_pair_ok ops op l r"
  let ?depth = "\<lambda>m. unat (causal_depth op) = (case m of None \<Rightarrow> 0 | Some d \<Rightarrow> Suc (unat d))"
  have res: "decides (case resolution_references op of None \<Rightarrow> ret ()
      | Some (left, right) \<Rightarrow> validate_resolution ops op left right) ?res"
    using decides_validate_resolution [of ops op] decides_ret by (auto split: option.split)
  have "decides (validate_operation ops op)
      (\<exists>m. v = Inr m \<and> heads_ok ops op \<and> ?depth m \<and> toggle_ok ops op \<and> ?res)"
    unfolding validate_operation_def heads_ok_def
    by (intro decides_value [OF refines_on_fst [OF refines_op_check_cancelled]] decides_bind [OF v(1,2)]
        decides_seq [OF decides_check_pairs] decides_seq [OF decides_check_depth]
        decides_seq [OF decides_check_target] res)
  then show ?thesis
  proof (rule decides_eq)
    have "?depth (max_depth ops (parents op) None) \<longleftrightarrow> depth_ok ops op" if "parents_ok ops op"
    proof -
      have "\<And>p. p \<in> set (parents op) \<Longrightarrow> bm_get ops p \<noteq> None"
        using that by (fastforce simp: parents_ok_def)
      then have "case max_depth ops (parents op) None of None \<Rightarrow> parents op = []
          | Some d \<Rightarrow> parents op \<noteq> [] \<and> unat d = Max (depth_of ops ` set (parents op))"
        by (rule max_depth_None)
      then show ?thesis
        by (cases "max_depth ops (parents op) None") (auto simp: depth_ok_def)
    qed
    then show "(\<exists>m. v = Inr m \<and> heads_ok ops op \<and> ?depth m \<and> toggle_ok ops op \<and> ?res) \<longleftrightarrow> operation_ok ops op"
      unfolding operation_ok_def v(3) parents_ok_def by blast
  qed
qed

lemma decides_validate_operations:
  "decides (validate_operations ops xs) (\<forall>op \<in> set xs. operation_ok ops op)"
proof (induction xs)
  case Nil
  then show ?case by (simp add: decides_ret)
next
  case (Cons op xs)
  show ?case unfolding validate_operations.simps
    by (rule decides_eq [OF decides_seq [OF decides_validate_operation Cons]]) simp
qed

text \<open>Times that grow along every edge leave no room for a cycle.\<close>

lemma graph_ok_parents_present: "graph_ok ops \<Longrightarrow> parents_present ops"
  by (fastforce simp: graph_ok_def operation_ok_def parents_ok_def parents_present_def)

lemma graph_ok_edge:
  assumes "ops_inv ops" "graph_ok ops" "(p, c) \<in> parent_rel ops"
  shows "\<exists>q op. bm_get ops p = Some q \<and> bm_get ops c = Some op \<and> logical_time q < logical_time op"
proof -
  from assms(3) obtain op where op: "bm_get ops c = Some op" "p \<in> set (parents op)"
    by (auto simp: parent_rel_iff)
  then have "op \<in> set (bm_values ops)"
    using bm_values_get [OF ops_inv_bm [OF assms(1)]] by blast
  with assms(2) op show ?thesis by (force simp: graph_ok_def operation_ok_def parents_ok_def)
qed

lemma graph_ok_ancestor_time:
  assumes "ops_inv ops" "graph_ok ops" "(a, d) \<in> (parent_rel ops)\<^sup>+"
  shows "\<exists>x y. bm_get ops a = Some x \<and> bm_get ops d = Some y \<and> logical_time x < logical_time y"
  using assms(3)
proof (induction rule: trancl_induct)
  case (base y)
  then show ?case by (rule graph_ok_edge [OF assms(1,2)])
next
  case (step y z)
  then show ?case using graph_ok_edge [OF assms(1,2) step.hyps(2)] by force
qed

lemma graph_ok_acyclic: "ops_inv ops \<Longrightarrow> graph_ok ops \<Longrightarrow> acyclic (parent_rel ops)"
  unfolding acyclic_def using graph_ok_ancestor_time by fastforce

lemma decides_validate_graph:
  assumes inv: "ops_inv ops" and small: "\<And>op. op \<in> set (bm_values ops) \<Longrightarrow> length (parents op) \<le> 2 ^ 32"
  shows "decides (validate_graph_with_budget ops) (graph_ok ops)"
proof -
  from refines_ordered [OF inv small] obtain ys where ys: "kahn_order ops ys"
    and ref: "refines op_resource (ordered_with_budget ops)
      (if length ys = length ops then Inr ys else Inl OE_CyclicCausality)" by blast
  have ord: "decides (bindR (on_fst (ordered_with_budget ops)) (\<lambda>_. ret ())) True" if "graph_ok ops"
  proof -
    have "length ys = length ops"
      using kahn_order_complete [OF inv graph_ok_parents_present [OF that] graph_ok_acyclic [OF inv that] ys]
        kahn_order_length [OF inv ys] by simp
    with ref have "refines op_resource (on_fst (ordered_with_budget ops)) (Inr ys)"
      by (simp add: refines_on_fst)
    then show ?thesis by (rule decides_value) (rule decides_ret)
  qed
  have "decides (validate_graph_with_budget ops) (graph_ok ops \<and> True)"
    unfolding validate_graph_with_budget_def
    by (intro decides_value [OF refines_on_fst [OF refines_op_check_cancelled]]
        decides_seq [OF decides_eq [OF decides_validate_operations]] decides_charge ord)
      (simp_all add: graph_ok_def)
  then show ?thesis by simp
qed

section \<open>Sets built from operations\<close>

definition keep_first :: "'t operation \<Rightarrow> 't operation_map \<Rightarrow> 't operation_map" where
  "keep_first op m = (if bm_get m (operation_id op) = None then bm_insert (operation_id op) op m else m)"

definition union_map :: "'t operation_map \<Rightarrow> 't operation list \<Rightarrow> 't operation_map" where
  "union_map m xs = fold keep_first xs m"

lemma union_map_simps [simp]:
  "union_map m [] = m" "union_map m (op # xs) = union_map (keep_first op m) xs"
  by (simp_all add: union_map_def)

lemma keep_first_get [simp]:
  "bm_get (keep_first op m) k =
     (case bm_get m k of Some e \<Rightarrow> Some e | None \<Rightarrow> if k = operation_id op then Some op else None)"
  by (auto simp: keep_first_def split: option.splits)

lemma keep_first_length: "length (keep_first op m) \<le> Suc (length m)"
  by (simp add: keep_first_def length_bm_insert)

lemma union_map_get:
  "bm_get (union_map m xs) k =
     (case bm_get m k of Some e \<Rightarrow> Some e | None \<Rightarrow> find (\<lambda>op. operation_id op = k) xs)"
  by (induction xs arbitrary: m) (auto split: option.splits)

lemma set_bm_insert: "set (bm_insert k v m) \<subseteq> insert (k, v) (set m)"
  by (induction k v m rule: bm_insert.induct) auto

lemma keep_first_inv:
  "ops_inv m \<Longrightarrow> distinct (parents op) \<Longrightarrow> ops_inv (keep_first op m)"
  using set_bm_insert [of "operation_id op" op m] by (auto simp: ops_inv_def keep_first_def)

lemma union_map_inv:
  "ops_inv m \<Longrightarrow> (\<And>op. op \<in> set xs \<Longrightarrow> distinct (parents op)) \<Longrightarrow> ops_inv (union_map m xs)"
  by (induction xs arbitrary: m) (auto intro: keep_first_inv)

lemma ops_inv_Nil [simp]: "ops_inv []"
  by (simp add: ops_inv_def)

definition consistent :: "'t operation_map \<Rightarrow> 't operation list \<Rightarrow> bool" where
  "consistent m xs \<longleftrightarrow>
     (\<forall>op \<in> set xs. map_option content_hash (bm_get (union_map m xs) (operation_id op)) = Some (content_hash op))"

lemma consistent_Cons:
  "consistent m (op # xs) \<longleftrightarrow>
     (\<forall>e. bm_get m (operation_id op) = Some e \<longrightarrow> content_hash e = content_hash op) \<and>
     consistent (keep_first op m) xs"
  by (auto simp: consistent_def union_map_get split: option.splits)

definition common_project :: "project_id option \<Rightarrow> 't operation list \<Rightarrow> project_id option" where
  "common_project project xs =
     (if project = None \<and> xs \<noteq> [] then Some (op_project_id (hd xs)) else project)"

definition collectable :: "nat \<Rightarrow> project_id option \<Rightarrow> 't operation_map \<Rightarrow> 't operation list \<Rightarrow> bool" where
  "collectable n project m xs \<longleftrightarrow>
     (xs = [] \<or> n + length xs \<le> MAX_OPERATION_COUNT) \<and>
     (\<forall>op \<in> set xs. common_project project xs = Some (op_project_id op)) \<and> consistent m xs"

lemma collectable_Cons:
  "collectable n project m (op # xs) \<longleftrightarrow>
     n + 1 \<le> MAX_OPERATION_COUNT \<and> (project = None \<or> project = Some (op_project_id op)) \<and>
     (\<forall>e. bm_get m (operation_id op) = Some e \<longrightarrow> content_hash e = content_hash op) \<and>
     collectable (n + 1) (Some (op_project_id op)) (keep_first op m) xs"
  by (auto simp: collectable_def consistent_Cons common_project_def)

lemma refines_collect:
  assumes "length m \<le> n"
  shows "\<exists>v. refines op_resource (collect_operations xs n project m) v \<and> v \<noteq> Inl OE_Panic \<and>
    (\<forall>r. v = Inr r \<longleftrightarrow> collectable n project m xs \<and> r = (common_project project xs, union_map m xs))"
  using assms
proof (induction xs arbitrary: n project m)
  case Nil
  show ?case
    by (rule exI [of _ "Inr (project, m)"])
      (auto simp: refines_ret collectable_def consistent_def common_project_def)
next
  case (Cons op xs)
  let ?ok = "n + 1 \<le> MAX_OPERATION_COUNT \<and> (project = None \<or> project = Some (op_project_id op)) \<and>
     (\<forall>e. bm_get m (operation_id op) = Some e \<longrightarrow> content_hash e = content_hash op)"
  let ?p = "Some (op_project_id op)"
  have len: "length (keep_first op m) \<le> n + 1"
    using keep_first_length [of op m] Cons.prems by simp
  show ?case
  proof (cases ?ok)
    case True
    obtain v where v: "refines op_resource (collect_operations xs (n + 1) ?p (keep_first op m)) v"
      "v \<noteq> Inl OE_Panic"
      "\<And>r. v = Inr r \<longleftrightarrow> collectable (n + 1) ?p (keep_first op m) xs \<and>
         r = (common_project ?p xs, union_map (keep_first op m) xs)"
      using Cons.IH [OF len, of ?p] by blast
    have add: "checked_add n 1 = Some (n + 1)"
      using True by (simp add: checked_add_def MAX_OPERATION_COUNT_def usize_MAX_def)
    have proj: "refines op_resource (case project of
              Some expected \<Rightarrow> bindR (guardR (op_project_id op = expected) OE_WrongProject) (\<lambda>_. ret project)
            | None \<Rightarrow> ret ?p) (Inr ?p)"
      using True by (cases project) (auto intro!: refines_ret refines_bind_guard_True)
    have "refines op_resource (collect_operations (op # xs) n project m) v"
    proof (cases "bm_get m (operation_id op)")
      case None
      have "length m < MAX_OPERATION_COUNT" using True Cons.prems by simp
      moreover have "keep_first op m = bm_insert (operation_id op) op m" using None by (simp add: keep_first_def)
      ultimately show ?thesis
        unfolding collect_operations.simps
        using True None v(1)
        by (intro refines_bind_unit [OF refines_op_check_cancelled] refines_bind_ok_or_Some [OF add]
            refines_bind_guard_True refines_bind_unit [OF refines_op_charge] refines_bind_value [OF proj])
          (auto intro!: refines_bind_guard_True refines_bind_unit [OF refines_op_charge] simp: not_le)
    next
      case (Some e)
      have "keep_first op m = m" using Some by (simp add: keep_first_def)
      then show ?thesis
        unfolding collect_operations.simps
        using True Some v(1)
        by (intro refines_bind_unit [OF refines_op_check_cancelled] refines_bind_ok_or_Some [OF add]
            refines_bind_guard_True refines_bind_unit [OF refines_op_charge] refines_bind_value [OF proj])
          (auto intro!: refines_bind_guard_True)
    qed
    moreover have "common_project project (op # xs) = common_project ?p xs"
      using True by (auto simp: common_project_def)
    ultimately show ?thesis
      using v True by (intro exI [of _ v]) (simp add: collectable_Cons)
  next
    case False
    let ?e = "if \<not> n + 1 \<le> MAX_OPERATION_COUNT then OE_ResourceLimit ''operation_count''
      else if \<not> (project = None \<or> project = Some (op_project_id op)) then OE_WrongProject
      else OE_TamperedDuplicate"
    have "refines op_resource (collect_operations (op # xs) n project m) (Inl ?e)"
    proof (cases "n + 1 \<le> MAX_OPERATION_COUNT")
      case count: False
      have "refines op_resource (collect_operations (op # xs) n project m)
          (Inl (OE_ResourceLimit ''operation_count''))"
        unfolding collect_operations.simps
        by (rule refines_bind_unit [OF refines_op_check_cancelled], rule refines_bind_eq [OF refines_ok_or,
            where g = "\<lambda>_. Inl (OE_ResourceLimit ''operation_count'')"])
          (use count in \<open>auto simp: checked_add_def intro!: refines_bind_guard_False split: if_splits\<close>)
      with count show ?thesis by simp
    next
      case count: True
      then have add: "checked_add n 1 = Some (n + 1)"
        by (simp add: checked_add_def MAX_OPERATION_COUNT_def usize_MAX_def)
      show ?thesis
      proof (cases "project = None \<or> project = Some (op_project_id op)")
        case proj: False
        then obtain q where q: "project = Some q" "op_project_id op \<noteq> q" by auto
        show ?thesis
          unfolding collect_operations.simps q(1) option.case using count q
          by (intro refines_bind_unit [OF refines_op_check_cancelled] refines_bind_ok_or_Some [OF add]
              refines_bind_guard_True refines_bind_unit [OF refines_op_charge])
            (auto intro!: refines_bind_fail refines_bind_guard_False)
      next
        case proj: True
        with False count obtain e where e: "bm_get m (operation_id op) = Some e" "content_hash e \<noteq> content_hash op"
          by blast
        have pr: "refines op_resource (case project of
              Some expected \<Rightarrow> bindR (guardR (op_project_id op = expected) OE_WrongProject) (\<lambda>_. ret project)
            | None \<Rightarrow> ret ?p) (Inr ?p)"
          using proj by (cases project) (auto intro!: refines_ret refines_bind_guard_True)
        have err: "?e = OE_TamperedDuplicate" using count proj by simp
        show ?thesis
          unfolding err collect_operations.simps e(1) option.case
          by (rule refines_bind_unit [OF refines_op_check_cancelled] refines_bind_ok_or_Some [OF add]
              refines_bind_unit [OF refines_op_charge] refines_bind_value [OF pr]
              refines_bind_guard_False [OF e(2)] refines_bind_guard_True [OF leD [OF count]])+
      qed
    qed
    moreover have "\<not> collectable n project m (op # xs)" using False unfolding collectable_Cons by blast
    ultimately show ?thesis by (intro exI [of _ "Inl ?e"]) simp
  qed
qed

lemma refines_with_local_usage: "refines R m v \<Longrightarrow> refines R (with_local_usage m) v"
  by (intro refinesI) (auto simp: with_local_usage_def split: prod.splits dest: refinesD)

definition admissible :: "'t operation list \<Rightarrow> bool" where
  "admissible xs \<longleftrightarrow>
     xs \<noteq> [] \<and> length xs \<le> MAX_OPERATION_COUNT \<and>
     (\<forall>op \<in> set xs. op_project_id (hd xs) = op_project_id op) \<and>
     (\<forall>a \<in> set xs. \<forall>b \<in> set xs. operation_id a = operation_id b \<longrightarrow> content_hash a = content_hash b) \<and>
     graph_ok (union_map [] xs)"

lemma consistent_Nil_iff:
  "consistent [] xs \<longleftrightarrow>
     (\<forall>a \<in> set xs. \<forall>b \<in> set xs. operation_id a = operation_id b \<longrightarrow> content_hash a = content_hash b)"
proof -
  have found: "\<exists>e. bm_get (union_map [] xs) (operation_id a) = Some e \<and> e \<in> set xs \<and>
      operation_id e = operation_id a" if "a \<in> set xs" for a
    using that by (cases "find (\<lambda>op. operation_id op = operation_id a) xs")
      (auto simp: find_None_iff find_Some_iff union_map_get)
  show ?thesis
  proof (intro iffI ballI impI)
    fix a b assume con: "consistent [] xs" and ab: "a \<in> set xs" "b \<in> set xs" "operation_id a = operation_id b"
    have "Some (content_hash a) = Some (content_hash b)"
      using con [unfolded consistent_def, rule_format, OF ab(1)] con [unfolded consistent_def, rule_format, OF ab(2)]
      unfolding ab(3) by (rule trans [OF sym])
    then show "content_hash a = content_hash b" by simp
  next
    assume same: "\<forall>a \<in> set xs. \<forall>b \<in> set xs. operation_id a = operation_id b \<longrightarrow> content_hash a = content_hash b"
    show "consistent [] xs"
      unfolding consistent_def
    proof
      fix a assume a: "a \<in> set xs"
      from found [OF this] obtain e where e: "bm_get (union_map [] xs) (operation_id a) = Some e"
        "e \<in> set xs" "operation_id e = operation_id a" by blast
      with same a have "content_hash e = content_hash a" by blast
      with e(1) show "map_option content_hash (bm_get (union_map [] xs) (operation_id a)) = Some (content_hash a)"
        by simp
    qed
  qed
qed

lemma refines_from_operations:
  assumes "\<And>op. op \<in> set xs \<Longrightarrow> distinct (parents op) \<and> length (parents op) \<le> MAX_PARENTS"
  shows "\<exists>v. refines op_resource (from_operations_with_budget xs) v \<and> v \<noteq> Inl OE_Panic \<and>
    (\<forall>s. v = Inr s \<longleftrightarrow> admissible xs \<and>
       s = \<lparr>set_project_id = op_project_id (hd xs), set_operations = union_map [] xs\<rparr>)"
proof -
  let ?m = "union_map [] xs"
  have inv: "ops_inv ?m" using assms by (intro union_map_inv) auto
  have small: "length (parents op) \<le> 2 ^ 32" if "op \<in> set (bm_values ?m)" for op
  proof -
    from that have "bm_get ?m (operation_id op) = Some op" using ops_value_iff [OF inv] by simp
    then have "op \<in> set xs" by (auto simp: union_map_get find_Some_iff)
    with assms [OF this] show ?thesis by (simp add: MAX_PARENTS_def)
  qed
  from decides_validate_graph [OF inv small] obtain g where g:
    "refines op_resource (validate_graph_with_budget ?m) g" "g = Inr () \<longleftrightarrow> graph_ok ?m" "g \<noteq> Inl OE_Panic"
    by (auto simp: decides_def)
  obtain v where v: "refines op_resource (collect_operations xs 0 None []) v" "v \<noteq> Inl OE_Panic"
    "\<And>r. v = Inr r \<longleftrightarrow> collectable 0 None [] xs \<and> r = (common_project None xs, ?m)"
    using refines_collect [of "[]" 0 xs None] by auto
  have vm: "m = ?m" if "v = Inr (p, m)" for p m using v(3) [of "(p, m)"] that by simp
  let ?w = "bindE v (\<lambda>(project, m). bindE (case project of None \<Rightarrow> Inl OE_EmptyOperationSet | Some x \<Rightarrow> Inr x)
    (\<lambda>project_id. bindE g (\<lambda>_. Inr \<lparr>set_project_id = project_id, set_operations = ?m\<rparr>)))"
  have "refines op_resource (from_operations_with_budget xs) ?w"
    unfolding from_operations_with_budget_def
    by (intro refines_bind_unit [OF refines_op_check_cancelled] refines_bind [OF v(1)])
      (auto intro!: refines_bind [OF refines_ok_or] refines_bind refines_with_local_usage g(1) refines_ret
        dest!: vm)
  moreover have "?w \<noteq> Inl OE_Panic"
    using v(2) g(3) by (auto simp: bindE_def split: sum.splits option.splits)
  moreover have "?w = Inr s \<longleftrightarrow> admissible xs \<and>
       s = \<lparr>set_project_id = op_project_id (hd xs), set_operations = ?m\<rparr>" for s
  proof (cases "collectable 0 None [] xs")
    case True
    then have "v = Inr (common_project None xs, ?m)" by (simp add: v(3))
    moreover have "admissible xs \<longleftrightarrow> xs \<noteq> [] \<and> graph_ok ?m"
    proof (cases xs)
      case (Cons op ys)
      have "consistent [] xs" "length xs \<le> MAX_OPERATION_COUNT"
        "\<forall>op \<in> set xs. op_project_id (hd xs) = op_project_id op"
        using True Cons unfolding collectable_def common_project_def by auto
      then show ?thesis unfolding admissible_def consistent_Nil_iff by blast
    qed (simp add: admissible_def)
    ultimately show ?thesis
      using g(2) by (cases xs) (auto simp: bindE_Inr_iff common_project_def)
  next
    case False
    then have "\<nexists>r. v = Inr r" by (simp add: v(3))
    moreover have "\<not> admissible xs"
    proof
      assume "admissible xs"
      then have "xs \<noteq> []" "length xs \<le> MAX_OPERATION_COUNT" "consistent [] xs"
        "\<forall>op \<in> set xs. op_project_id (hd xs) = op_project_id op"
        unfolding admissible_def consistent_Nil_iff by blast+
      with False show False by (simp add: collectable_def common_project_def)
    qed
    ultimately show ?thesis by (auto simp: bindE_Inr_iff)
  qed
  ultimately show ?thesis by blast
qed

section \<open>The accepted causal order\<close>

lemma graph_ok_edge_depth:
  assumes "ops_inv ops" "graph_ok ops" "(p, c) \<in> parent_rel ops"
  shows "depth_of ops p < depth_of ops c"
proof -
  from assms(3) obtain op where op: "bm_get ops c = Some op" "p \<in> set (parents op)"
    by (auto simp: parent_rel_iff)
  then have "op \<in> set (bm_values ops)"
    using bm_values_get [OF ops_inv_bm [OF assms(1)]] by blast
  with assms(2) have "depth_ok ops op" by (simp add: graph_ok_def operation_ok_def)
  with op have "depth_of ops c = Suc (Max (depth_of ops ` set (parents op)))"
    by (auto simp: depth_ok_def depth_of_def)
  moreover have "depth_of ops p \<le> Max (depth_of ops ` set (parents op))" using op(2) by simp
  ultimately show ?thesis by simp
qed

lemma graph_ok_ancestor_depth:
  assumes "ops_inv ops" "graph_ok ops" "(a, d) \<in> (parent_rel ops)\<^sup>+"
  shows "depth_of ops a < depth_of ops d"
  using assms(3)
  by (induction rule: trancl_induct) (force dest: graph_ok_edge_depth [OF assms(1,2)])+

lemma from_operations_Inr:
  assumes "\<And>op. op \<in> set xs \<Longrightarrow> distinct (parents op) \<and> length (parents op) \<le> MAX_PARENTS"
    and "from_operations_with_budget xs b = (Inr s, b')"
  shows "admissible xs"
    "s = \<lparr>set_project_id = op_project_id (hd xs), set_operations = union_map [] xs\<rparr>"
    "ops_inv (set_operations s)" "graph_ok (set_operations s)"
proof -
  obtain v where v: "refines op_resource (from_operations_with_budget xs) v"
    "\<And>s. v = Inr s \<longleftrightarrow> admissible xs \<and>
       s = \<lparr>set_project_id = op_project_id (hd xs), set_operations = union_map [] xs\<rparr>"
    using refines_from_operations [OF assms(1)] by blast
  with refinesD(1) [OF v(1) assms(2)] show "admissible xs"
    and s: "s = \<lparr>set_project_id = op_project_id (hd xs), set_operations = union_map [] xs\<rparr>" by blast+
  then show "ops_inv (set_operations s)" "graph_ok (set_operations s)"
    using assms(1) by (auto simp: admissible_def intro: union_map_inv)
qed

section \<open>Properties\<close>

text \<open>
  Claim C3. Building a set from operations accepts exactly the admissible inputs: at least one and
  at most \<open>MAX_OPERATION_COUNT\<close> operations, of one project, no identifier with two content hashes,
  and a causal graph in which every parent is present and earlier, parents are pairwise concurrent,
  depths are one more than the greatest parent depth, toggles point at a reversible apply among
  their ancestors and resolutions at two concurrent parents that disagree on the field they set. The
  result then holds the operations of the input; otherwise an error is reported, and the budget can
  only replace an answer by a resource error.
\<close>

theorem from_operations_exact:
  assumes "\<And>op. op \<in> set xs \<Longrightarrow> distinct (parents op) \<and> length (parents op) \<le> MAX_PARENTS"
  shows "case from_operations_with_budget xs b of
      (Inr s, _) \<Rightarrow> admissible xs \<and> set_project_id s = op_project_id (hd xs) \<and>
        (\<forall>k. bm_get (set_operations s) k = find (\<lambda>op. operation_id op = k) xs)
    | (Inl e, _) \<Rightarrow> e \<noteq> OE_Panic \<and> (op_resource e \<or> \<not> admissible xs)"
proof -
  obtain v where v: "refines op_resource (from_operations_with_budget xs) v" "v \<noteq> Inl OE_Panic"
    "\<And>s. v = Inr s \<longleftrightarrow> admissible xs \<and>
       s = \<lparr>set_project_id = op_project_id (hd xs), set_operations = union_map [] xs\<rparr>"
    using refines_from_operations [OF assms] by blast
  obtain r t where run: "from_operations_with_budget xs b = (r, t)" by fastforce
  show ?thesis
  proof (cases r)
    case (Inl e)
    then have "v = Inl e \<or> op_resource e" using refinesD(2) [OF v(1)] run by blast
    moreover have "admissible xs \<Longrightarrow> v \<noteq> Inl e" using v(3) by blast
    ultimately show ?thesis using run Inl v(2) by auto
  next
    case (Inr s)
    then have "v = Inr s" using refinesD(1) [OF v(1)] run by blast
    then show ?thesis using run Inr by (simp add: v(3) union_map_get)
  qed
qed

theorem from_operations_exact_witness:
  "case from_operations_with_budget (bm_values demo_chain) default_operation_budget of
     (Inr s, _) \<Rightarrow> admissible (bm_values demo_chain) | (Inl e, _) \<Rightarrow> False"
proof -
  have wf: "list_all (\<lambda>op. distinct (parents op) \<and> length (parents op) \<le> MAX_PARENTS) (bm_values demo_chain)"
    by code_simp
  have run: "\<not> isl (fst (from_operations_with_budget (bm_values demo_chain) default_operation_budget))"
    by code_simp
  show ?thesis
    using from_operations_exact [of "bm_values demo_chain" default_operation_budget] wf run
    by (auto simp: list_all_iff split: prod.splits sum.splits)
qed

text \<open>
  Claim C28. In an accepted set causality is a strict order that time and depth respect: an ancestor
  is in the set, is strictly earlier in logical time and strictly less deep, so no operation is its
  own ancestor.
\<close>

theorem accepted_causality:
  assumes "\<And>op. op \<in> set xs \<Longrightarrow> distinct (parents op) \<and> length (parents op) \<le> MAX_PARENTS"
    and "from_operations_with_budget xs b = (Inr s, b')"
    and "(a, d) \<in> (parent_rel (set_operations s))\<^sup>+"
  shows "a \<noteq> d \<and> (\<exists>x y. bm_get (set_operations s) a = Some x \<and> bm_get (set_operations s) d = Some y \<and>
    logical_time x < logical_time y \<and> unat (causal_depth x) < unat (causal_depth y))"
proof -
  note ok = from_operations_Inr(3,4) [OF assms(1,2)]
  from graph_ok_ancestor_time [OF ok assms(3)] graph_ok_ancestor_depth [OF ok assms(3)]
  show ?thesis by (fastforce simp: depth_of_def)
qed

theorem accepted_causality_witness:
  "\<exists>s. fst (from_operations_with_budget (bm_values demo_chain) default_operation_budget) = Inr s \<and>
     (\<exists>x y. bm_get (set_operations s) (demo_id 2) = Some x \<and> bm_get (set_operations s) (demo_id 3) = Some y \<and>
        logical_time x < logical_time y)"
proof -
  have wf: "list_all (\<lambda>op. distinct (parents op) \<and> length (parents op) \<le> MAX_PARENTS) (bm_values demo_chain)"
    by code_simp
  have "\<not> isl (fst (from_operations_with_budget (bm_values demo_chain) default_operation_budget))"
    by code_simp
  then obtain s b' where run: "from_operations_with_budget (bm_values demo_chain) default_operation_budget = (Inr s, b')"
    by (cases "from_operations_with_budget (bm_values demo_chain) default_operation_budget";
        cases "fst (from_operations_with_budget (bm_values demo_chain) default_operation_budget)") auto
  have ops: "set_operations s = union_map [] (bm_values demo_chain)"
    using from_operations_Inr(2) [OF _ run] wf by (simp add: list_all_iff)
  have edges: "(demo_id 2, demo_id 1) \<in> parent_rel (set_operations s)"
    "(demo_id 1, demo_id 3) \<in> parent_rel (set_operations s)"
    unfolding ops parent_rel_iff by (rule exI [of _ "demo_apply 1 2 1 [2] [66]"], code_simp)
      (rule exI [of _ "demo_undo 3 3 2 [1] 1"], code_simp)
  have "(demo_id 2, demo_id 3) \<in> (parent_rel (set_operations s))\<^sup>+"
    using edges by (rule trancl_into_trancl [OF r_into_trancl])
  from accepted_causality [OF _ run this] wf run show ?thesis by (auto simp: list_all_iff)
qed

end
