(* ===== verification/Operation_Supply.thy ===== *)
theory Operation_Supply
  imports Operation_Graph
begin

text \<open>
  How much budget the searches of an operation set need. \<open>spares R room m c\<close> says that the program
  \<open>m\<close> is never stopped by a resource error when the state has room for the cost \<open>c\<close>, and leaves room
  for whatever was available beyond it. Together with \<open>refines\<close>, which allows only the specified
  result or a resource error, this shows that the metered loops return.
\<close>

section \<open>Room for a cost\<close>

type_synonym cost = "budget_kind \<Rightarrow> nat"

definition cost_add :: "cost \<Rightarrow> cost \<Rightarrow> cost" where
  "cost_add c d = (\<lambda>k. c k + d k)"

definition no_cost :: cost where
  "no_cost = (\<lambda>k. 0)"

definition cost_of :: "budget_kind \<Rightarrow> nat \<Rightarrow> cost" where
  "cost_of kind n = (\<lambda>k. if k = kind then n else 0)"

lemmas cost_defs = cost_add_def no_cost_def cost_of_def

lemma cost_add_simps [simp]:
  "cost_add no_cost c = c" "cost_add c no_cost = c" "cost_add (cost_add c d) e = cost_add c (cost_add d e)"
  by (auto simp: cost_defs)

lemma cost_of_add: "cost_add (cost_of k m) (cost_of k n) = cost_of k (m + n)"
  by (auto simp: cost_defs)

lemma cost_of_0 [simp]: "cost_of k 0 = no_cost"
  by (auto simp: cost_defs)

definition spares :: "('e \<Rightarrow> bool) \<Rightarrow> ('s \<Rightarrow> cost \<Rightarrow> bool) \<Rightarrow> ('s, 'e, 'a) rsm \<Rightarrow> cost \<Rightarrow> bool" where
  "spares R room m c \<longleftrightarrow>
     (\<forall>s d. room s (cost_add c d) \<longrightarrow>
        (case m s of (Inr x, t) \<Rightarrow> room t d | (Inl e, t) \<Rightarrow> \<not> R e))"

named_theorems spares_rules "what each program construct costs"

lemma sparesI:
  assumes "\<And>s d x t. room s (cost_add c d) \<Longrightarrow> m s = (Inr x, t) \<Longrightarrow> room t d"
    and "\<And>s d e t. room s (cost_add c d) \<Longrightarrow> m s = (Inl e, t) \<Longrightarrow> \<not> R e"
  shows "spares R room m c"
  unfolding spares_def using assms by (auto split: prod.splits sum.splits)

lemma sparesD:
  assumes "spares R room m c" "room s (cost_add c d)"
  shows "m s = (Inr x, t) \<Longrightarrow> room t d" "m s = (Inl e, t) \<Longrightarrow> \<not> R e"
  using assms unfolding spares_def by (fastforce split: prod.splits)+

lemma spares_ret [spares_rules]: "spares R room (ret x) no_cost"
  by (auto intro: sparesI)

lemma spares_fail: "\<not> R e \<Longrightarrow> spares R room (fail e) no_cost"
  by (auto intro: sparesI)

lemma spares_guardR: "\<not> R e \<Longrightarrow> spares R room (guardR b e) no_cost"
  by (simp add: guardR_def spares_ret spares_fail)

lemma spares_ok_or: "\<not> R e \<Longrightarrow> spares R room (ok_or v e) no_cost"
  by (simp add: ok_or_def spares_ret spares_fail split: option.splits)

lemma spares_bind:
  assumes "spares R room m c" "returns m P" "\<And>x. P x \<Longrightarrow> spares R room (f x) d"
  shows "spares R room (bindR m f) (cost_add c d)"
proof (rule sparesI)
  fix s d' y t assume "room s (cost_add (cost_add c d) d')" and "bindR m f s = (Inr y, t)"
  then obtain x s' where room: "room s (cost_add c (cost_add d d'))"
    and run: "m s = (Inr x, s')" "f x s' = (Inr y, t)" by (auto simp: bindR_Inr_iff)
  from sparesD(1) [OF assms(1) room run(1)] returnsD [OF assms(2) run(1)] run(2)
  show "room t d'" by (blast intro: sparesD(1) [OF assms(3)])
next
  fix s d' e t assume "room s (cost_add (cost_add c d) d')" and run: "bindR m f s = (Inl e, t)"
  then have room: "room s (cost_add c (cost_add d d'))" by simp
  from run consider "m s = (Inl e, t)" | x s' where "m s = (Inr x, s')" "f x s' = (Inl e, t)"
    by (auto simp: bindR_Inl_iff)
  then show "\<not> R e"
  proof cases
    case 1
    then show ?thesis by (rule sparesD(2) [OF assms(1) room])
  next
    case 2
    from sparesD(1) [OF assms(1) room 2(1)] returnsD [OF assms(2) 2(1)] 2(2)
    show ?thesis by (metis sparesD(2) [OF assms(3)])
  qed
qed

lemma spares_bind_any:
  "spares R room m c \<Longrightarrow> (\<And>x. spares R room (f x) d) \<Longrightarrow> spares R room (bindR m f) (cost_add c d)"
  by (rule spares_bind [OF _ returns_True])

text \<open>A step that costs nothing.\<close>

lemma spares_bind_free:
  "spares R room m no_cost \<Longrightarrow> (\<And>x. spares R room (f x) d) \<Longrightarrow> spares R room (bindR m f) d"
  using spares_bind_any [of R room m no_cost f d] by simp

lemma spares_map_err:
  "spares R room m c \<Longrightarrow> (\<And>e. R' (h e) \<Longrightarrow> R e) \<Longrightarrow> spares R' room (map_err h m) c"
  by (rule sparesI) (auto simp: map_err_Inl_iff dest: sparesD)

text \<open>With a specified value and enough room, the program returns that value.\<close>

lemma spares_refines:
  assumes "spares R room m c" "refines R m (Inr v)" "room s c"
  shows "\<exists>t. m s = (Inr v, t)"
proof -
  have room: "room s (cost_add c no_cost)" using assms(3) by simp
  show ?thesis
  proof (cases "m s")
    case (Pair r t)
    then show ?thesis
      using sparesD(2) [OF assms(1) room, of _ t] refinesD [OF assms(2), of s _ t] by (cases r) auto
  qed
qed

text \<open>A notion of room in which less is needed for less: a bound on the cost is enough.\<close>

locale monotone_room =
  fixes room :: "'s \<Rightarrow> cost \<Rightarrow> bool"
  assumes room_mono: "room s c \<Longrightarrow> (\<And>k. d k \<le> c k) \<Longrightarrow> room s d"
begin

lemma spares_mono:
  assumes "spares R room m c" "\<And>k. c k \<le> d k"
  shows "spares R room m d"
proof (rule sparesI)
  have less: "room s (cost_add c e)" if "room s (cost_add d e)" for s e
    by (rule room_mono [OF that]) (simp add: cost_add_def assms(2))
  show "room t e" if "room s (cost_add d e)" "m s = (Inr x, t)" for s e x t
    using sparesD(1) [OF assms(1) less [OF that(1)] that(2)] .
  show "\<not> R e'" if "room s (cost_add d e)" "m s = (Inl e', t)" for s e e' t
    using sparesD(2) [OF assms(1) less [OF that(1)] that(2)] .
qed

lemma spares_ret_any: "spares R room (ret x) c"
  by (rule spares_mono [OF spares_ret]) (simp add: no_cost_def)

end

definition budget_room :: "resource_budget \<Rightarrow> cost \<Rightarrow> bool" where
  "budget_room b c \<longleftrightarrow> (\<forall>n. \<not> hook b n) \<and> limits_representable (limits b) \<and>
     (\<forall>k. usage_get (usage b) k + c k \<le> limit_get (limits b) k)"

interpretation budget_supply: monotone_room budget_room
proof
  fix b c d assume "budget_room b c" and le: "\<And>k. d k \<le> c k"
  moreover have "usage_get (usage b) k + d k \<le> usage_get (usage b) k + c k" for k using le by simp
  ultimately show "budget_room b d" unfolding budget_room_def by (meson order_trans)
qed

text \<open>The searches also count against a local limit.\<close>

definition search_room :: "resource_budget \<times> resource_usage \<Rightarrow> cost \<Rightarrow> bool" where
  "search_room s c \<longleftrightarrow> budget_room (fst s) c \<and>
     usage_get (snd s) OperationAncestryWork + c OperationAncestryWork \<le> MAX_ANCESTRY_WORK"

interpretation search_supply: monotone_room search_room
proof
  fix s c d assume room: "search_room s c" and le: "\<And>k. d k \<le> c k"
  then have "budget_room (fst s) d" unfolding search_room_def using budget_supply.room_mono by blast
  moreover have "usage_get (snd s) OperationAncestryWork + d OperationAncestryWork \<le> MAX_ANCESTRY_WORK"
    using room le [of OperationAncestryWork] by (simp add: search_room_def)
  ultimately show "search_room s d" by (simp add: search_room_def)
qed

lemma spares_check_cancelled [spares_rules]: "spares any_error budget_room check_cancelled no_cost"
  by (rule sparesI) (auto simp: budget_room_def check_cancelled_def split: if_splits)

lemma spares_charge [spares_rules]: "spares any_error budget_room (charge k n) (cost_of k n)"
proof (rule sparesI)
  fix b d x t assume room: "budget_room b (cost_add (cost_of k n) d)" and run: "charge k n b = (Inr x, t)"
  show "budget_room t d"
    using room run unfolding budget_room_def charge_Inr
    by (auto simp: cost_defs add.assoc dest: spec [where x = k] split: if_splits)
next
  fix b d e t assume room: "budget_room b (cost_add (cost_of k n) d)" and run: "charge k n b = (Inl e, t)"
  have "usage_get (usage b) k + (n + d k) \<le> limit_get (limits b) k" "limit_get (limits b) k \<le> usize_MAX"
    using room by (auto simp: budget_room_def limits_representable_def cost_defs dest: spec [where x = k])
  then have "charge k n b = (Inr (), b\<lparr>polls := Suc (polls b), usage := usage_set (usage b) k (usage_get (usage b) k + n)\<rparr>)"
    using room by (subst charge_Inr) (auto simp: budget_room_def)
  with run show "\<not> any_error e" by simp
qed

lemma spares_on_fst_search [spares_rules]:
  assumes "spares R budget_room m c"
  shows "spares R search_room (on_fst m) c"
proof (rule sparesI)
  fix s d x t assume "search_room s (cost_add c d)" "on_fst m s = (Inr x, t)"
  then show "search_room t d"
    using sparesD(1) [OF assms] by (cases s; cases t) (auto simp: search_room_def cost_add_def)
next
  fix s d e t assume "search_room s (cost_add c d)" "on_fst m s = (Inl e, t)"
  then show "\<not> R e"
    using sparesD(2) [OF assms] by (cases s; cases t) (auto simp: search_room_def)
qed

lemma charge_with_limit_eq:
  assumes "search_room (b, u) (cost_add (cost_of OperationAncestryWork n) d)"
  shows "charge_with_limit OperationAncestryWork n MAX_ANCESTRY_WORK (b, u) =
    (Inr (), (b\<lparr>polls := Suc (polls b),
        usage := usage_set (usage b) OperationAncestryWork (usage_get (usage b) OperationAncestryWork + n)\<rparr>,
      usage_set u OperationAncestryWork (usage_get u OperationAncestryWork + n)))"
proof -
  let ?k = OperationAncestryWork
  have glob: "usage_get (usage b) ?k + n \<le> limit_get (limits b) ?k" "limit_get (limits b) ?k \<le> usize_MAX"
    using assms by (auto simp: search_room_def budget_room_def limits_representable_def cost_defs
        simp del: usage_get.simps limit_get.simps dest!: spec [where x = ?k])
  have here: "usage_get u ?k + n \<le> MAX_ANCESTRY_WORK" "\<not> hook b (polls b)"
    using assms by (auto simp: search_room_def budget_room_def cost_defs)
  moreover from here have "usage_get u ?k + n \<le> usize_MAX"
    by (simp add: MAX_ANCESTRY_WORK_def usize_MAX_def)
  ultimately show ?thesis
    using glob by (simp add: charge_with_limit_def bindR_def on_fst_Pair check_cancelled_def Let_def
        checked_add_def charge_global_eq del: usage_get.simps usage_set.simps limit_get.simps)
qed

lemma spares_charge_with_limit [spares_rules]:
  "spares any_error search_room (charge_with_limit OperationAncestryWork n MAX_ANCESTRY_WORK)
     (cost_of OperationAncestryWork n)"
proof (rule sparesI)
  let ?k = OperationAncestryWork
  fix s d x t assume room: "search_room s (cost_add (cost_of ?k n) d)"
    and run: "charge_with_limit ?k n MAX_ANCESTRY_WORK s = (Inr x, t)"
  obtain b u where s: "s = (b, u)" by fastforce
  from room show "search_room t d"
    using run unfolding s charge_with_limit_eq [OF room [unfolded s]]
    by (auto simp: search_room_def budget_room_def cost_defs add.assoc
        simp del: usage_get.simps usage_set.simps limit_get.simps dest: spec [where x = ?k] split: if_splits)
next
  let ?k = OperationAncestryWork
  fix s d e t assume room: "search_room s (cost_add (cost_of ?k n) d)"
    and run: "charge_with_limit ?k n MAX_ANCESTRY_WORK s = (Inl e, t)"
  obtain b u where s: "s = (b, u)" by fastforce
  show "\<not> any_error e" using run unfolding s charge_with_limit_eq [OF room [unfolded s]] by simp
qed

section \<open>The ancestor search\<close>

definition parent_count :: "'t operation_map \<Rightarrow> operation_id \<Rightarrow> nat" where
  "parent_count ops c = (case bm_get ops c of None \<Rightarrow> 0 | Some op \<Rightarrow> length (parents op))"

text \<open>A unit of work and an entry for every operation, and an entry for every parent edge.\<close>

definition search_cost :: "'t operation_map \<Rightarrow> operation_id set \<Rightarrow> cost" where
  "search_cost ops U = cost_add (cost_of OperationAncestryWork (card U))
     (cost_of WorkingSetBytes (ESTIMATED_STRUCTURAL_ENTRY_BYTES * (card U + (\<Sum>c \<in> U. parent_count ops c))))"

lemma search_cost_step:
  assumes "finite U" "c \<in> U" "bm_get ops c = Some op"
  shows "search_cost ops U = cost_add (cost_of OperationAncestryWork 1)
    (cost_add (cost_of WorkingSetBytes ESTIMATED_STRUCTURAL_ENTRY_BYTES)
    (cost_add (cost_of WorkingSetBytes (ESTIMATED_STRUCTURAL_ENTRY_BYTES * length (parents op)))
       (search_cost ops (U - {c}))))"
proof -
  have "card U = Suc (card (U - {c}))" using assms by (metis card_Suc_Diff1)
  moreover have "(\<Sum>c \<in> U. parent_count ops c) = length (parents op) + (\<Sum>c \<in> U - {c}. parent_count ops c)"
    using assms by (simp add: sum.remove parent_count_def)
  ultimately show ?thesis
    by (auto simp: search_cost_def cost_defs distrib_left distrib_right)
qed

lemma spares_scan_parents:
  "spares any_error search_room (scan_parents a ps pending)
     (cost_of WorkingSetBytes (ESTIMATED_STRUCTURAL_ENTRY_BYTES * length ps))"
proof (induction ps arbitrary: pending)
  case Nil
  then show ?case by (simp add: spares_ret)
next
  case (Cons p ps)
  have "spares any_error search_room (scan_parents a (p # ps) pending)
     (cost_add (cost_of WorkingSetBytes ESTIMATED_STRUCTURAL_ENTRY_BYTES)
       (cost_of WorkingSetBytes (ESTIMATED_STRUCTURAL_ENTRY_BYTES * length ps)))"
    by (simp add: search_supply.spares_ret_any spares_bind_any [OF spares_on_fst_search [OF spares_charge] Cons.IH])
  then show ?case by (simp add: cost_of_add)
qed

lemma spares_search:
  assumes "parents_present ops" "bm_inv ops"
  shows "set pending \<subseteq> fst ` set ops \<Longrightarrow> spares any_error search_room (search_ancestor ops a pending visited)
    (search_cost ops (fst ` set ops - set visited))"
proof (induction pending visited rule: search_induct [where ops = ops])
  case (Nil visited)
  then show ?case by (simp add: search_supply.spares_ret_any)
next
  case (visited c pending visited)
  then show ?case by simp
next
  case (missing c pending visited)
  then show ?case by (auto simp: map_of_eq_None_iff)
next
  case (expand c pending visited op)
  have kids: "set (parents op) \<subseteq> fst ` set ops"
    using assms(1) expand.hyps(2) bm_values_get [OF assms(2), of op] unfolding parents_present_def
    by (auto simp: map_of_eq_None_iff)
  have U: "fst ` set ops - set visited - {c} = fst ` set ops - set (c # visited)" by auto
  have scan: "returns (scan_parents a (parents op) pending) (\<lambda>r. r = None \<or> (\<exists>p. r = Some p \<and> set p \<subseteq> fst ` set ops))"
    using kids expand.prems by (intro returns_mono [OF refines_returns [OF refines_scan_parents]])
      (auto split: if_splits)
  have rest: "spares any_error search_room (case r of None \<Rightarrow> ret True
      | Some pending' \<Rightarrow> search_ancestor ops a pending' (c # visited))
      (search_cost ops (fst ` set ops - set (c # visited)))"
    if "r = None \<or> (\<exists>p. r = Some p \<and> set p \<subseteq> fst ` set ops)" for r
    using that expand.IH by (auto simp: search_supply.spares_ret_any)
  have cost: "search_cost ops (fst ` set ops - set visited) = cost_add (cost_of OperationAncestryWork 1)
    (cost_add (cost_of WorkingSetBytes ESTIMATED_STRUCTURAL_ENTRY_BYTES)
    (cost_add (cost_of WorkingSetBytes (ESTIMATED_STRUCTURAL_ENTRY_BYTES * length (parents op)))
       (search_cost ops (fst ` set ops - set (c # visited)))))"
    using expand.hyps by (subst search_cost_step [where c = c and op = op]) (force simp: U dest: map_of_SomeD)+
  show ?case
    unfolding cost search_ancestor.simps if_not_P [OF expand.hyps(1)] expand.hyps(2) option.case(2)
    by (intro spares_bind_any spares_charge_with_limit spares_on_fst_search spares_charge
        spares_bind [OF spares_scan_parents scan rest])
qed

lemma spares_ancestor:
  assumes "parents_present ops" "bm_inv ops" "d \<in> fst ` set ops"
  shows "spares any_error search_room (ancestor_with_budget ops a d)
    (cost_add (cost_of WorkingSetBytes ESTIMATED_STRUCTURAL_ENTRY_BYTES) (search_cost ops (fst ` set ops)))"
proof (cases "a = d")
  case True
  then show ?thesis by (simp add: ancestor_with_budget_def search_supply.spares_ret_any)
next
  case False
  have "spares any_error search_room (search_ancestor ops a [d] []) (search_cost ops (fst ` set ops))"
    using spares_search [OF assms(1,2), of "[d]" a "[]"] assms(3) by simp
  with False show ?thesis
    unfolding ancestor_with_budget_def if_False if_not_P [OF False]
    by (intro spares_bind_any spares_on_fst_search spares_charge)
qed

text \<open>In numbers: at most \<open>MAX_PARENTS\<close> edges per operation.\<close>

lemma search_cost_le:
  assumes "bm_inv ops" "\<And>op. op \<in> set (bm_values ops) \<Longrightarrow> length (parents op) \<le> MAX_PARENTS"
  shows "search_cost ops (fst ` set ops) k \<le> cost_add (cost_of OperationAncestryWork (length ops))
    (cost_of WorkingSetBytes (ESTIMATED_STRUCTURAL_ENTRY_BYTES * (Suc MAX_PARENTS * length ops))) k"
proof -
  have card: "card (fst ` set ops) \<le> length ops"
    using card_image_le [of "set ops" fst] card_length [of ops] by simp
  have "parent_count ops c \<le> MAX_PARENTS" for c
    using assms(2) bm_values_get [OF assms(1)] by (auto simp: parent_count_def split: option.splits)
  then have "(\<Sum>c \<in> fst ` set ops. parent_count ops c) \<le> card (fst ` set ops) * MAX_PARENTS"
    by (intro sum_bounded_above [THEN order_trans]) auto
  also have "\<dots> \<le> length ops * MAX_PARENTS" using card by simp
  finally have "card (fst ` set ops) + (\<Sum>c \<in> fst ` set ops. parent_count ops c) \<le> Suc MAX_PARENTS * length ops"
    using card by (simp add: mult.commute)
  then show ?thesis using card by (auto simp: search_cost_def cost_defs)
qed

section \<open>The topological order\<close>

lemma spares_op_check_cancelled [spares_rules]: "spares op_resource budget_room op_check_cancelled no_cost"
  unfolding op_check_cancelled_def by (rule spares_map_err [OF spares_check_cancelled]) simp

lemma spares_op_charge [spares_rules]: "spares op_resource budget_room (op_charge k n) (cost_of k n)"
  unfolding op_charge_def by (rule spares_map_err [OF spares_charge]) simp

definition ordering_bytes :: "'t operation_map \<Rightarrow> nat" where
  "ordering_bytes ops =
     (\<Sum>op \<leftarrow> bm_values ops. length (parents op) * ORDERING_EDGE_BYTES + ORDERING_NODE_BYTES)"

lemma spares_charge_nodes:
  assumes "\<And>op. op \<in> set xs \<Longrightarrow> length (parents op) \<le> MAX_PARENTS"
  shows "spares op_resource budget_room (charge_nodes xs)
    (cost_of WorkingSetBytes (\<Sum>op \<leftarrow> xs. length (parents op) * ORDERING_EDGE_BYTES + ORDERING_NODE_BYTES))"
  using assms
proof (induction xs)
  case Nil
  then show ?case by (simp add: spares_ret)
next
  case (Cons op xs)
  have "length (parents op) \<le> MAX_PARENTS" using Cons.prems by simp
  then have "(case checked_mul (length (parents op)) ORDERING_EDGE_BYTES of
          None \<Rightarrow> None | Some edges \<Rightarrow> checked_add edges ORDERING_NODE_BYTES) =
       Some (length (parents op) * ORDERING_EDGE_BYTES + ORDERING_NODE_BYTES)"
    by (simp add: checked_mul_def checked_add_def ORDERING_EDGE_BYTES_def ORDERING_NODE_BYTES_def usize_MAX_def
        MAX_PARENTS_def)
  with Cons show ?case
    using spares_bind_any [OF spares_op_charge, where f = "\<lambda>_. charge_nodes xs"]
    by (simp add: bindR_ok_or_Some cost_of_add [symmetric, of _ _ "sum_list _"])
qed

lemma spares_build_degrees: "spares op_resource budget_room (build_degrees xs indegree children) no_cost"
  by (induction xs arbitrary: indegree children)
    (simp_all add: spares_ret spares_bind_free spares_op_check_cancelled)

lemma spares_seed_ready: "spares op_resource budget_room (seed_ready xs indegree ready) no_cost"
  by (induction xs arbitrary: ready)
    (simp_all add: spares_ret spares_bind_free spares_op_check_cancelled spares_ok_or)

lemma spares_relax_children: "spares op_resource budget_room (relax_children ops cs indegree ready) no_cost"
proof (induction cs arbitrary: indegree ready)
  case (Cons c cs)
  then show ?case
    unfolding relax_children.simps
    by (auto intro!: spares_bind_free spares_op_check_cancelled spares_ok_or spares_guardR)
qed (simp add: spares_ret)

lemma spares_drain_ready: "spares op_resource budget_room (drain_ready ops children indegree ready result) no_cost"
proof (induction "sum_list (bm_values indegree) + length ready" arbitrary: indegree ready result rule: less_induct)
  case less
  show ?case
  proof (cases ready)
    case Nil
    then show ?thesis by (simp add: spares_ret)
  next
    case (Cons key rest)
    obtain time actor device oid where key: "key = (time, actor, device, oid)" by (cases key)
    let ?m = "case bm_get children oid of None \<Rightarrow> ret (indegree, rest)
      | Some descendants \<Rightarrow> relax_children ops descendants indegree rest"
    have step: "spares op_resource budget_room ?m no_cost"
      by (simp add: spares_ret spares_relax_children split: option.split)
    have less': "returns ?m (\<lambda>(indegree', ready').
        sum_list (bm_values indegree') + length ready' < sum_list (bm_values indegree) + length ready)"
    proof (cases "bm_get children oid")
      case (Some cs)
      then show ?thesis by (auto simp: Cons intro: returns_mono [OF relax_progress])
    qed (simp add: Cons returns_ret)
    have "spares op_resource budget_room (bindR ?m (\<lambda>(indegree', ready').
        drain_ready ops children indegree' ready' (result @ [op]))) (cost_add no_cost no_cost)" for op
      by (rule spares_bind [OF step less']) (auto intro: less)
    then show ?thesis
      unfolding Cons key drain_ready.simps
      by (intro spares_bind_free [OF spares_op_check_cancelled] spares_bind_free [OF spares_ok_or]) simp_all
  qed
qed

lemma spares_ordered:
  assumes "\<And>op. op \<in> set (bm_values ops) \<Longrightarrow> length (parents op) \<le> MAX_PARENTS"
  shows "spares op_resource budget_room (ordered_with_budget ops) (cost_of WorkingSetBytes (ordering_bytes ops))"
proof -
  have "spares op_resource budget_room (ordered_with_budget ops) (cost_add (cost_of WorkingSetBytes (ordering_bytes ops)) no_cost)"
    unfolding ordered_with_budget_def ordering_bytes_def
    by (intro spares_bind_free [OF spares_op_check_cancelled] spares_bind_any [OF spares_charge_nodes [OF assms]])
      (auto intro!: spares_bind_free spares_build_degrees spares_seed_ready spares_drain_ready spares_guardR spares_ret
        split: prod.splits)
  then show ?thesis by simp
qed

text \<open>In numbers: a kilobyte per operation, a fifth of the default merge budget at the count limit.\<close>

lemma ordering_bytes_le:
  assumes "\<And>op. op \<in> set (bm_values ops) \<Longrightarrow> length (parents op) \<le> MAX_PARENTS"
  shows "ordering_bytes ops \<le> length ops * 1024"
proof -
  have "ordering_bytes ops \<le> (\<Sum>op \<leftarrow> bm_values ops. 1024)"
    unfolding ordering_bytes_def using assms
    by (intro sum_list_mono) (auto simp: MAX_PARENTS_def ORDERING_EDGE_BYTES_def ORDERING_NODE_BYTES_def)
  also have "\<dots> = length ops * 1024" by (simp add: sum_list_triv)
  finally show ?thesis .
qed

section \<open>Properties\<close>

lemma default_budget_room:
  assumes "c OperationAncestryWork \<le> MAX_ANCESTRY_WORK" "\<And>k. k \<noteq> OperationAncestryWork \<Longrightarrow> c k \<le> usize_MAX"
  shows "budget_room default_operation_budget c"
proof -
  have "usage_get (usage default_operation_budget) k + c k \<le> limit_get (limits default_operation_budget) k" for k
    using assms by (cases k) (auto simp: default_operation_budget_def default_operation_budget_with_ancestry_def
        resource_budget_new_def resource_limits_new_def resource_usage_default_def)
  moreover have "limit_get (limits default_operation_budget) k \<le> usize_MAX" for k
    by (cases k) (auto simp: default_operation_budget_def default_operation_budget_with_ancestry_def
        resource_budget_new_def resource_limits_new_def usize_MAX_def MAX_ANCESTRY_WORK_def)
  ultimately show ?thesis
    by (simp add: budget_room_def limits_representable_def default_operation_budget_def
        default_operation_budget_with_ancestry_def resource_budget_new_def never_cancel_def)
qed

lemma ancestor_search_returns:
  assumes "ops_inv ops" "parents_present ops" "length ops \<le> MAX_OPERATION_COUNT"
    and "\<And>op. op \<in> set (bm_values ops) \<Longrightarrow> length (parents op) \<le> MAX_PARENTS"
    and "bm_get ops d \<noteq> None"
    and "budget_room b (cost_add (cost_of OperationAncestryWork (length ops))
           (cost_of WorkingSetBytes (128 * (1 + 9 * length ops))))"
  shows "\<exists>t. ancestor_with_budget ops a d (b, resource_usage_default) = (Inr (is_ancestor ops a d), t)"
proof -
  have inv: "bm_inv ops" by (rule ops_inv_bm [OF assms(1)])
  have le: "cost_add (cost_of WorkingSetBytes ESTIMATED_STRUCTURAL_ENTRY_BYTES) (search_cost ops (fst ` set ops)) k \<le>
      cost_add (cost_of OperationAncestryWork (length ops)) (cost_of WorkingSetBytes (128 * (1 + 9 * length ops))) k" for k
    using search_cost_le [OF inv assms(4), of k]
    by (auto simp: cost_defs ESTIMATED_STRUCTURAL_ENTRY_BYTES_def MAX_PARENTS_def)
  have "search_room (b, resource_usage_default)
      (cost_add (cost_of OperationAncestryWork (length ops)) (cost_of WorkingSetBytes (128 * (1 + 9 * length ops))))"
    using assms(3,6) by (simp add: search_room_def cost_defs MAX_OPERATION_COUNT_def MAX_ANCESTRY_WORK_def
        resource_usage_default_def)
  moreover have "d \<in> fst ` set ops" using assms(5) by (force dest: map_of_SomeD)
  ultimately show ?thesis
    using spares_refines [OF search_supply.spares_mono [OF spares_ancestor [OF assms(2) inv] le] refines_ancestor]
    by blast
qed

lemma order_returns:
  assumes inv: "ops_inv ops" and ok: "graph_ok ops"
    and small: "\<And>op. op \<in> set (bm_values ops) \<Longrightarrow> length (parents op) \<le> MAX_PARENTS"
    and room: "budget_room b (cost_of WorkingSetBytes (1024 * length ops))"
  shows "\<exists>xs t. ordered_with_budget ops b = (Inr xs, t) \<and> kahn_order ops xs \<and> set xs = set (bm_values ops)"
proof -
  have "length (parents op) \<le> 2 ^ 32" if "op \<in> set (bm_values ops)" for op
    using small [OF that] by (simp add: MAX_PARENTS_def)
  from refines_ordered [OF inv this] obtain ys where ys: "kahn_order ops ys"
    and ref: "refines op_resource (ordered_with_budget ops)
      (if length ys = length ops then Inr ys else Inl OE_CyclicCausality)" by blast
  have all: "set ys = set (bm_values ops)"
    using kahn_order_complete [OF inv graph_ok_parents_present [OF ok] graph_ok_acyclic [OF inv ok] ys] .
  then have len: "length ys = length ops" using kahn_order_length [OF inv ys] by simp
  have "budget_room b (cost_of WorkingSetBytes (ordering_bytes ops))"
    using ordering_bytes_le [of ops, OF small] by (intro budget_supply.room_mono [OF room]) (auto simp: cost_defs)
  from spares_refines [OF spares_ordered [OF small] _ this, of ys] ref len
  show ?thesis using ys all by auto
qed

text \<open>
  Claim C10. The metered loops of an accepted set return. Let \<open>n\<close> be the number of operations; whenever
  the budget is not cancelled and has \<open>n\<close> units of ancestry work and \<open>128 (1 + 9 n)\<close> working bytes, an
  entry for every operation, every parent edge and the start, the topological order yields all the
  operations in their least order, and an ancestor search with a fresh local counter from any operation
  of the set answers whether the other one is its proper causal ancestor. At the limit of 100000
  operations this is within the 512 MiB of a default merge.
\<close>

theorem accepted_searches_return:
  assumes "\<And>op. op \<in> set xs \<Longrightarrow> distinct (parents op) \<and> length (parents op) \<le> MAX_PARENTS"
    and "from_operations_with_budget xs b = (Inr s, b')"
    and room: "budget_room c (cost_add (cost_of OperationAncestryWork (length (set_operations s)))
           (cost_of WorkingSetBytes (128 * (1 + 9 * length (set_operations s)))))"
  shows "(\<exists>ys t. ordered_with_budget (set_operations s) c = (Inr ys, t) \<and>
      kahn_order (set_operations s) ys \<and> set ys = set (bm_values (set_operations s))) \<and>
    (\<forall>a d. bm_get (set_operations s) d \<noteq> None \<longrightarrow>
      (\<exists>t. ancestor_with_budget (set_operations s) a d (c, resource_usage_default) =
         (Inr (is_ancestor (set_operations s) a d), t)))"
proof -
  let ?ops = "set_operations s"
  note acc = from_operations_Inr [OF assms(1,2)]
  have sub: "set (bm_values ?ops) \<subseteq> set xs"
    using acc(2) ops_value_iff [OF acc(3)] by (auto simp: union_map_get find_Some_iff)
  then have small: "length (parents op) \<le> MAX_PARENTS" if "op \<in> set (bm_values ?ops)" for op
    using assms(1) that by blast
  have "distinct (bm_values ?ops)" using ops_ids_distinct [OF acc(3)] by (simp add: distinct_map)
  then have "length ?ops \<le> card (set xs)" using card_mono [OF _ sub] distinct_card by fastforce
  then have "length ?ops \<le> MAX_OPERATION_COUNT" using acc(1) card_length [of xs] by (simp add: admissible_def)
  moreover have "budget_room c (cost_of WorkingSetBytes (1024 * length ?ops))"
    by (rule budget_supply.room_mono [OF room]) (auto simp: cost_defs)
  ultimately show ?thesis
    using order_returns [OF acc(3,4) small]
      ancestor_search_returns [OF acc(3) graph_ok_parents_present [OF acc(4)] _ small _ room] by blast
qed

theorem accepted_searches_return_witness:
  "\<exists>s ys. fst (from_operations_with_budget (bm_values demo_chain) default_operation_budget) = Inr s \<and>
     fst (ordered_with_budget (set_operations s) default_operation_budget) = Inr ys \<and> kahn_order (set_operations s) ys \<and>
     fst (ancestor_with_budget (set_operations s) (demo_id 2) (demo_id 3)
       (default_operation_budget, resource_usage_default)) = Inr (is_ancestor (set_operations s) (demo_id 2) (demo_id 3))"
proof -
  have wf: "list_all (\<lambda>op. distinct (parents op) \<and> length (parents op) \<le> MAX_PARENTS) (bm_values demo_chain)"
    by code_simp
  have len: "case fst (from_operations_with_budget (bm_values demo_chain) default_operation_budget) of
      Inr s \<Rightarrow> length (set_operations s) = 3 \<and> bm_get (set_operations s) (demo_id 3) \<noteq> None | Inl e \<Rightarrow> False"
    by code_simp
  then obtain s b' where run: "from_operations_with_budget (bm_values demo_chain) default_operation_budget = (Inr s, b')"
    by (cases "from_operations_with_budget (bm_values demo_chain) default_operation_budget") (auto split: sum.splits)
  with len have room: "budget_room default_operation_budget
      (cost_add (cost_of OperationAncestryWork (length (set_operations s)))
        (cost_of WorkingSetBytes (128 * (1 + 9 * length (set_operations s)))))"
    by (intro default_budget_room) (auto simp: cost_defs usize_MAX_def MAX_ANCESTRY_WORK_def)
  have mem: "bm_get (set_operations s) (demo_id 3) \<noteq> None" using len run by simp
  from accepted_searches_return [OF _ run room] wf obtain ys t where
    "ordered_with_budget (set_operations s) default_operation_budget = (Inr ys, t)" "kahn_order (set_operations s) ys"
    and search: "\<And>a d. bm_get (set_operations s) d \<noteq> None \<Longrightarrow>
      (\<exists>t. ancestor_with_budget (set_operations s) a d (default_operation_budget, resource_usage_default) =
         (Inr (is_ancestor (set_operations s) a d), t))"
    by (auto simp: list_all_iff)
  moreover from search [OF mem, of "demo_id 2"] have "fst (ancestor_with_budget (set_operations s) (demo_id 2) (demo_id 3)
       (default_operation_budget, resource_usage_default)) = Inr (is_ancestor (set_operations s) (demo_id 2) (demo_id 3))"
    by auto
  ultimately show ?thesis using run by auto
qed

end
