(* ===== verification/Operation_Log.thy ===== *)
theory Operation_Log
  imports Operation_Graph
begin

text \<open>
  The linear local log (\<open>OperationLog\<close> of \<open>crates/operation-log/src/lib.rs\<close>): every append is checked
  against the tip, the clock and the state of the toggles, and the states a log can reach are those
  of the step relation \<open>log_run\<close>, which remembers the operations in the order of their appends.
\<close>

section \<open>State and errors\<close>

datatype append_outcome = Appended project_version | Duplicate project_version

datatype append_error =
  AE_Operation operation_error
| AE_WrongProject
| AE_CausalDepthConflict causal_depth causal_depth
| AE_ParentConflict
| AE_LogicalTimeConflict
| AE_TamperedDuplicate
| AE_MissingTarget
| AE_TargetHashMismatch
| AE_InvalidTarget
| AE_InvalidToggle
| AE_InvalidResolution
| AE_ResourceLimit string

record 't operation_log =
  log_project_id :: project_id
  log_revision :: project_version
  log_logical_time :: logical_timestamp
  log_tip :: "operation_id option"
  log_operations :: "'t operation_map"
  log_active :: "(operation_id, bool) btree_map"

section \<open>Operations\<close>

definition operation_log_new :: "project_id \<Rightarrow> 't operation_log" where
  "operation_log_new project =
     \<lparr>log_project_id = project, log_revision = 0, log_logical_time = 0, log_tip = None,
      log_operations = [], log_active = []\<rparr>"

definition log_current_time :: "'t operation_log \<Rightarrow> logical_timestamp option" where
  "log_current_time log = (if log_logical_time log = 0 then None else Some (log_logical_time log))"

definition validate_target :: "'t operation_log \<Rightarrow> 't operation \<Rightarrow> append_error + unit" where
  "validate_target log op =
     (if resolution_references op \<noteq> None then Inl AE_InvalidResolution else
      case target_reference op of None \<Rightarrow> Inr () | Some target \<Rightarrow>
      case bm_get (log_operations log) (ref_operation_id target) of
        None \<Rightarrow> Inl AE_MissingTarget | Some existing \<Rightarrow>
      if content_hash existing \<noteq> ref_content_hash target then Inl AE_TargetHashMismatch else
      if schema_version existing \<noteq> schema_version op then Inl (AE_Operation OE_VersionMismatch) else
      if \<not> is_apply (payload existing) then Inl AE_InvalidTarget else
      if is_non_reversible (inverse_of existing) then Inl (AE_Operation OE_NonReversibleTarget) else
      case payload op of
        Undo target \<Rightarrow>
          if bm_get (log_active log) (ref_operation_id target) = Some True then Inr ()
          else Inl AE_InvalidToggle
      | Redo target \<Rightarrow>
          if bm_get (log_active log) (ref_operation_id target) = Some False then Inr ()
          else Inl AE_InvalidToggle
      | _ \<Rightarrow> Inr ())"

definition expected_depth :: "'t operation_log \<Rightarrow> append_error + causal_depth" where
  "expected_depth log =
     (case log_tip log of None \<Rightarrow> Inr 0 | Some tip \<Rightarrow>
      case bm_get (log_operations log) tip of None \<Rightarrow> Inl AE_ParentConflict | Some tip_op \<Rightarrow>
      case checked_add_word (causal_depth tip_op) 1 of
        None \<Rightarrow> Inl (AE_ResourceLimit ''causal_depth'') | Some depth \<Rightarrow> Inr depth)"

definition update_active :: "'t operation \<Rightarrow> (operation_id, bool) btree_map \<Rightarrow> (operation_id, bool) btree_map" where
  "update_active op active =
     (case payload op of
        Apply m \<Rightarrow> bm_insert (operation_id op) True active
      | Undo target \<Rightarrow> bm_insert (ref_operation_id target) False active
      | Redo target \<Rightarrow> bm_insert (ref_operation_id target) True active
      | _ \<Rightarrow> active)"

definition append_operation :: "'t operation \<Rightarrow> ('t operation_log, append_error, append_outcome) rsm" where
  "append_operation op log =
     (if op_project_id op \<noteq> log_project_id log then (Inl AE_WrongProject, log) else
      case bm_get (log_operations log) (operation_id op) of
        Some existing \<Rightarrow>
          if content_hash existing = content_hash op then (Inr (Duplicate (log_revision log)), log)
          else (Inl AE_TamperedDuplicate, log)
      | None \<Rightarrow>
      if length (log_operations log) \<ge> MAX_OPERATION_COUNT
      then (Inl (AE_ResourceLimit ''operation_count''), log) else
      if parents op \<noteq> (case log_tip log of None \<Rightarrow> [] | Some tip \<Rightarrow> [tip])
      then (Inl AE_ParentConflict, log) else
      case expected_depth log of Inl e \<Rightarrow> (Inl e, log) | Inr expected \<Rightarrow>
      if causal_depth op \<noteq> expected then (Inl (AE_CausalDepthConflict expected (causal_depth op)), log) else
      if logical_time op \<le> log_logical_time log then (Inl AE_LogicalTimeConflict, log) else
      case validate_target log op of Inl e \<Rightarrow> (Inl e, log) | Inr _ \<Rightarrow>
      case checked_add_word (log_revision log) 1 of
        None \<Rightarrow> (Inl (AE_ResourceLimit ''project_revision''), log)
      | Some revision \<Rightarrow>
          (Inr (Appended revision),
           log\<lparr>log_revision := revision, log_logical_time := logical_time op,
               log_tip := Some (operation_id op), log_active := update_active op (log_active log),
               log_operations := bm_insert (operation_id op) op (log_operations log)\<rparr>))"

definition as_set :: "'t operation_log \<Rightarrow> 't merge_error + 't operation_set" where
  "as_set log =
     (if log_operations log = [] then Inr (operation_set_empty (log_project_id log))
      else map_sum ME_Operation id (from_operations (bm_values (log_operations log))))"

section \<open>Reachable logs\<close>

inductive log_run :: "project_id \<Rightarrow> 't operation list \<Rightarrow> 't operation_log \<Rightarrow> bool" for project where
  start: "log_run project [] (operation_log_new project)"
| appended: "log_run project hist log \<Longrightarrow> append_operation op log = (Inr (Appended r), log') \<Longrightarrow>
    log_run project (hist @ [op]) log'"
| unchanged: "log_run project hist log \<Longrightarrow> append_operation op log = (r, log') \<Longrightarrow>
    \<forall>v. r \<noteq> Inr (Appended v) \<Longrightarrow> log_run project hist log'"

text \<open>The state of the toggles after a history, read off the history alone.\<close>

definition toggles_after :: "'t operation list \<Rightarrow> operation_id \<Rightarrow> bool option" where
  "toggles_after hist =
     fold (\<lambda>op act. case payload op of
         Apply m \<Rightarrow> act(operation_id op \<mapsto> True)
       | Undo t \<Rightarrow> act(ref_operation_id t \<mapsto> False)
       | Redo t \<Rightarrow> act(ref_operation_id t \<mapsto> True)
       | _ \<Rightarrow> act) hist (\<lambda>_. None)"

text \<open>What a step of a history has to satisfy, after the history \<open>hist\<close>.\<close>

definition follows :: "project_id \<Rightarrow> 't operation list \<Rightarrow> 't operation \<Rightarrow> bool" where
  "follows project hist op \<longleftrightarrow>
     op_project_id op = project \<and> operation_id op \<notin> operation_id ` set hist \<and>
     length hist < MAX_OPERATION_COUNT \<and>
     parents op = (if hist = [] then [] else [operation_id (last hist)]) \<and>
     unat (causal_depth op) = length hist \<and>
     (if hist = [] then 0 else logical_time (last hist)) < logical_time op \<and>
     resolution_references op = None \<and>
     (\<forall>t. target_reference op = Some t \<longrightarrow>
        (\<exists>x \<in> set hist. reference_of x = t \<and> schema_version x = schema_version op \<and>
           is_apply (payload x) \<and> \<not> is_non_reversible (inverse_of x)) \<and>
        toggles_after hist (ref_operation_id t) =
          Some (case payload op of Undo t' \<Rightarrow> True | _ \<Rightarrow> False))"

definition linear_history :: "project_id \<Rightarrow> 't operation list \<Rightarrow> bool" where
  "linear_history project hist \<longleftrightarrow> (\<forall>i < length hist. follows project (take i hist) (hist ! i))"

text \<open>The log is a function of its history.\<close>

definition log_of :: "project_id \<Rightarrow> 't operation list \<Rightarrow> 't operation_log \<Rightarrow> bool" where
  "log_of project hist log \<longleftrightarrow>
     log_project_id log = project \<and> unat (log_revision log) = length hist \<and>
     log_logical_time log = (if hist = [] then 0 else logical_time (last hist)) \<and>
     log_tip log = (if hist = [] then None else Some (operation_id (last hist))) \<and>
     ops_inv (log_operations log) \<and> length (log_operations log) = length hist \<and>
     (\<forall>k op. bm_get (log_operations log) k = Some op \<longleftrightarrow> op \<in> set hist \<and> operation_id op = k) \<and>
     bm_inv (log_active log) \<and> bm_get (log_active log) = toggles_after hist"

lemma append_unchanged:
  "append_operation op log = (r, log') \<Longrightarrow> \<forall>v. r \<noteq> Inr (Appended v) \<Longrightarrow> log' = log"
  by (auto simp: append_operation_def split: if_splits option.splits sum.splits)

lemma linear_history_snoc:
  "linear_history project (hist @ [op]) \<longleftrightarrow> linear_history project hist \<and> follows project hist op"
  by (auto simp: linear_history_def nth_append less_Suc_eq)

lemma toggles_after_snoc:
  "toggles_after (hist @ [op]) = (case payload op of
       Apply m \<Rightarrow> (toggles_after hist)(operation_id op \<mapsto> True)
     | Undo t \<Rightarrow> (toggles_after hist)(ref_operation_id t \<mapsto> False)
     | Redo t \<Rightarrow> (toggles_after hist)(ref_operation_id t \<mapsto> True)
     | _ \<Rightarrow> toggles_after hist)"
  by (cases "payload op") (simp_all add: toggles_after_def)

lemma log_of_start: "log_of project [] (operation_log_new project)"
  by (simp add: log_of_def operation_log_new_def toggles_after_def)

lemma update_active_get:
  "bm_inv active \<Longrightarrow> bm_get active = toggles_after hist \<Longrightarrow>
     bm_inv (update_active op active) \<and> bm_get (update_active op active) = toggles_after (hist @ [op])"
  by (simp add: update_active_def toggles_after_snoc split: operation_payload.split)

lemma linear_history_length:
  assumes "linear_history project hist"
  shows "length hist \<le> MAX_OPERATION_COUNT"
proof (cases hist rule: rev_cases)
  case (snoc ys y)
  with assms show ?thesis by (simp add: linear_history_snoc follows_def)
qed simp

lemma log_of_absent:
  assumes "log_of project hist log"
  shows "bm_get (log_operations log) k = None \<longleftrightarrow> k \<notin> operation_id ` set hist"
proof -
  have "(\<exists>x. bm_get (log_operations log) k = Some x) \<longleftrightarrow> (\<exists>x. x \<in> set hist \<and> operation_id x = k)"
    using assms unfolding log_of_def by blast
  then show ?thesis by (auto simp: image_iff)
qed

lemma expected_depth_linear:
  assumes "log_of project hist log" "linear_history project hist"
  shows "\<exists>d. expected_depth log = Inr d \<and> unat d = length hist"
proof (cases hist rule: rev_cases)
  case Nil
  with assms show ?thesis by (simp add: log_of_def expected_depth_def)
next
  case (snoc ys y)
  have y: "unat (causal_depth y) = length ys" "length ys < MAX_OPERATION_COUNT"
    using assms(2) snoc by (simp_all add: linear_history_snoc follows_def)
  have "bm_get (log_operations log) (operation_id y) = Some y" "log_tip log = Some (operation_id y)"
    using assms(1) snoc by (simp_all add: log_of_def)
  moreover have "checked_add_word (causal_depth y) 1 = Some (causal_depth y + 1)"
    using y by (simp add: checked_add_word_def MAX_OPERATION_COUNT_def)
  ultimately show ?thesis
    using snoc y checked_add_word_1 [of "causal_depth y" "causal_depth y + 1"]
    by (simp add: expected_depth_def)
qed

lemma validate_target_iff:
  assumes "log_of project hist log"
  shows "validate_target log op = Inr () \<longleftrightarrow>
    resolution_references op = None \<and>
    (\<forall>t. target_reference op = Some t \<longrightarrow>
        (\<exists>x \<in> set hist. reference_of x = t \<and> schema_version x = schema_version op \<and>
           is_apply (payload x) \<and> \<not> is_non_reversible (inverse_of x)) \<and>
        toggles_after hist (ref_operation_id t) =
          Some (case payload op of Undo t' \<Rightarrow> True | _ \<Rightarrow> False))"
proof (cases "target_reference op")
  case None
  then show ?thesis by (cases "resolution_references op") (simp_all add: validate_target_def)
next
  case (Some t)
  then have res: "resolution_references op = None"
    by (auto simp: target_reference_def resolution_references_def split: operation_payload.splits)
  have get: "bm_get (log_operations log) k = Some x \<longleftrightarrow> x \<in> set hist \<and> operation_id x = k" for k x
    using assms by (simp add: log_of_def)
  have act: "bm_get (log_active log) = toggles_after hist" using assms by (simp add: log_of_def)
  have ref: "reference_of x = t \<longleftrightarrow> operation_id x = ref_operation_id t \<and> content_hash x = ref_content_hash t" for x :: "'a operation"
    by (cases t) (simp add: reference_of_def)
  show ?thesis
  proof (cases "bm_get (log_operations log) (ref_operation_id t)")
    case None
    then have "\<nexists>x. x \<in> set hist \<and> operation_id x = ref_operation_id t" by (metis get option.distinct(1))
    then show ?thesis using Some res None by (auto simp: validate_target_def ref)
  next
    case ex: (Some existing)
    then have e: "existing \<in> set hist" "operation_id existing = ref_operation_id t" by (simp_all add: get)
    have uniq: "x \<in> set hist \<and> reference_of x = t \<longleftrightarrow> x = existing \<and> content_hash existing = ref_content_hash t" for x
      using ex e get by (metis option.inject ref)
    have pay: "payload op = Undo t \<or> payload op = Redo t"
      using Some by (auto simp: target_reference_def split: operation_payload.splits)
    have "(\<exists>x \<in> set hist. reference_of x = t \<and> schema_version x = schema_version op \<and>
           is_apply (payload x) \<and> \<not> is_non_reversible (inverse_of x)) \<longleftrightarrow>
        content_hash existing = ref_content_hash t \<and> schema_version existing = schema_version op \<and>
           is_apply (payload existing) \<and> \<not> is_non_reversible (inverse_of existing)"
      by (metis uniq)
    then show ?thesis using pay Some ex res act by (auto simp: validate_target_def split: if_splits)
  qed
qed

definition appended_log :: "'t operation \<Rightarrow> 't operation_log \<Rightarrow> 't operation_log" where
  "appended_log op log =
     log\<lparr>log_revision := log_revision log + 1, log_logical_time := logical_time op,
         log_tip := Some (operation_id op), log_active := update_active op (log_active log),
         log_operations := bm_insert (operation_id op) op (log_operations log)\<rparr>"

lemma append_follows:
  assumes lo: "log_of project hist log" and lin: "linear_history project hist"
  shows "if follows project hist op
    then append_operation op log = (Inr (Appended (log_revision log + 1)), appended_log op log)
    else \<exists>r. append_operation op log = (r, log) \<and> (\<forall>v. r \<noteq> Inr (Appended v))"
proof -
  from expected_depth_linear [OF lo lin] obtain d where d: "expected_depth log = Inr d" "unat d = length hist"
    by blast
  have depth: "causal_depth op = d \<longleftrightarrow> unat (causal_depth op) = length hist"
    by (simp add: word_unat_eq_iff d(2))
  note get = log_of_absent [OF lo, of "operation_id op"]
  have basic: "log_project_id log = project" "length (log_operations log) = length hist"
    "(case log_tip log of None \<Rightarrow> [] | Some tip \<Rightarrow> [tip]) = (if hist = [] then [] else [operation_id (last hist)])"
    "log_logical_time log = (if hist = [] then 0 else logical_time (last hist))"
    "unat (log_revision log) = length hist"
    using lo by (simp_all add: log_of_def)
  have rev: "length hist < MAX_OPERATION_COUNT \<Longrightarrow>
      checked_add_word (log_revision log) 1 = Some (log_revision log + 1)"
    using basic(5) by (simp add: checked_add_word_def MAX_OPERATION_COUNT_def)
  show ?thesis
  proof (cases "follows project hist op")
    case True
    then have "validate_target log op = Inr ()" "bm_get (log_operations log) (operation_id op) = None"
      unfolding validate_target_iff [OF lo] get follows_def by blast+
    with True show ?thesis
      using d(1) depth rev by (simp add: append_operation_def basic follows_def appended_log_def not_le)
  next
    case False
    have "\<not> (op_project_id op = project \<and> bm_get (log_operations log) (operation_id op) = None \<and>
        length hist < MAX_OPERATION_COUNT \<and>
        parents op = (if hist = [] then [] else [operation_id (last hist)]) \<and> causal_depth op = d \<and>
        (if hist = [] then 0 else logical_time (last hist)) < logical_time op \<and> validate_target log op = Inr ())"
      using False unfolding validate_target_iff [OF lo] get depth follows_def by blast
    then have "\<forall>v. fst (append_operation op log) \<noteq> Inr (Appended v)"
      unfolding append_operation_def basic d(1)
      by (auto simp: not_le not_less split: option.splits sum.splits)
    moreover obtain r log' where run: "append_operation op log = (r, log')" by fastforce
    ultimately show ?thesis using append_unchanged [OF run] False by auto
  qed
qed

lemma log_of_appended:
  assumes lo: "log_of project hist log" and fo: "follows project hist op"
  shows "log_of project (hist @ [op]) (appended_log op log)"
proof -
  have new: "bm_get (log_operations log) (operation_id op) = None"
    using fo unfolding log_of_absent [OF lo] by (simp add: follows_def)
  have inv: "ops_inv (log_operations log)" using lo by (simp add: log_of_def)
  have "distinct (parents op)" using fo by (simp add: follows_def)
  then have "ops_inv (bm_insert (operation_id op) op (log_operations log))"
    using keep_first_inv [OF inv, of op] new by (simp add: keep_first_def)
  moreover have "unat (log_revision log + 1) = Suc (length hist)"
  proof -
    have "unat (log_revision log) = length hist" "length hist < MAX_OPERATION_COUNT"
      using lo fo by (simp_all add: log_of_def follows_def)
    then show ?thesis by (simp add: unat_word_ariths MAX_OPERATION_COUNT_def)
  qed
  moreover have "bm_get (bm_insert (operation_id op) op (log_operations log)) k = Some x \<longleftrightarrow>
      x \<in> set (hist @ [op]) \<and> operation_id x = k" for k x
  proof -
    have "operation_id op \<notin> operation_id ` set hist" using fo by (simp add: follows_def)
    then have "\<forall>y \<in> set hist. operation_id y \<noteq> operation_id op" by (metis imageI)
    moreover have "bm_get (log_operations log) k = Some x \<longleftrightarrow> x \<in> set hist \<and> operation_id x = k"
      using lo by (simp add: log_of_def)
    ultimately show ?thesis by auto
  qed
  ultimately show ?thesis
    using lo update_active_get [of "log_active log" hist op] new
    by (auto simp: log_of_def appended_log_def length_bm_insert)
qed

lemma log_run_linear:
  "log_run project hist log \<Longrightarrow> log_of project hist log \<and> linear_history project hist"
proof (induction rule: log_run.induct)
  case start
  then show ?case using log_of_start by (simp add: linear_history_def)
next
  case (appended hist log op r log')
  then have "follows project hist op" "log' = appended_log op log"
    using append_follows [of project hist log op] by (auto split: if_splits)
  with appended log_of_appended [of project hist log op] show ?case by (simp add: linear_history_snoc)
next
  case (unchanged hist log op r log')
  then show ?case using append_unchanged by blast
qed

section \<open>A linear log is an admissible set\<close>

lemma log_of_get:
  "log_of project hist log \<Longrightarrow> i < length hist \<Longrightarrow> bm_get (log_operations log) (operation_id (hist ! i)) = Some (hist ! i)"
  by (simp add: log_of_def)

lemma linear_follows: "linear_history project hist \<Longrightarrow> i < length hist \<Longrightarrow> follows project (take i hist) (hist ! i)"
  by (simp add: linear_history_def)

lemma linear_parents:
  assumes "linear_history project hist" "i < length hist"
  shows "parents (hist ! i) = (if i = 0 then [] else [operation_id (hist ! (i - 1))])"
  using linear_follows [OF assms] assms(2) by (auto simp: follows_def last_conv_nth)

lemma linear_ancestor:
  assumes lo: "log_of project hist log" and lin: "linear_history project hist"
  shows "i < j \<Longrightarrow> j < length hist \<Longrightarrow>
    (operation_id (hist ! i), operation_id (hist ! j)) \<in> (parent_rel (log_operations log))\<^sup>+"
proof (induction j)
  case (Suc j)
  have edge: "(operation_id (hist ! j), operation_id (hist ! Suc j)) \<in> parent_rel (log_operations log)"
    using log_of_get [OF lo Suc.prems(2)] linear_parents [OF lin Suc.prems(2)] by (auto simp: parent_rel_iff)
  show ?case
  proof (cases "i = j")
    case True
    with edge show ?thesis by blast
  next
    case False
    with Suc have "(operation_id (hist ! i), operation_id (hist ! j)) \<in> (parent_rel (log_operations log))\<^sup>+" by simp
    then show ?thesis using edge by (rule trancl_into_trancl)
  qed
qed simp

lemma linear_time:
  assumes "linear_history project hist" "i < length hist" "i \<noteq> 0"
  shows "logical_time (hist ! (i - 1)) < logical_time (hist ! i)"
  using linear_follows [OF assms(1,2)] assms(2,3) by (auto simp: follows_def last_conv_nth split: if_splits)

lemma linear_distinct:
  assumes "linear_history project hist" "i < j" "j < length hist"
  shows "operation_id (hist ! i) \<noteq> operation_id (hist ! j)"
proof -
  have "hist ! i \<in> set (take j hist)" using assms(2,3) by (auto simp: in_set_conv_nth)
  moreover have "operation_id (hist ! j) \<notin> operation_id ` set (take j hist)"
    using linear_follows [OF assms(1,3)] by (simp add: follows_def)
  ultimately show ?thesis by (metis imageI)
qed

lemma linear_operation_ok:
  assumes lo: "log_of project hist log" and lin: "linear_history project hist" and i: "i < length hist"
  shows "operation_ok (log_operations log) (hist ! i)"
proof -
  let ?ops = "log_operations log"
  let ?op = "hist ! i"
  have fo: "follows project (take i hist) ?op" by (rule linear_follows [OF lin i])
  have ps: "parents ?op = (if i = 0 then [] else [operation_id (hist ! (i - 1))])"
    by (rule linear_parents [OF lin i])
  have prev: "bm_get ?ops (operation_id (hist ! (i - 1))) = Some (hist ! (i - 1))"
    using log_of_get [OF lo] i by simp
  have "parents_ok ?ops ?op"
    using ps prev linear_time [OF lin i] linear_distinct [OF lin, of "i - 1" i] i
    by (auto simp: parents_ok_def)
  moreover have "heads_ok ?ops ?op"
    using ps by (auto simp: heads_ok_def is_ancestor_def)
  moreover have "depth_ok ?ops ?op"
    using ps prev fo linear_follows [OF lin, of "i - 1"] i
    by (cases "i = 0") (auto simp: depth_ok_def depth_of_def follows_def)
  moreover have "toggle_ok ?ops ?op"
    unfolding toggle_ok_def
  proof (intro allI impI)
    fix t assume "target_reference ?op = Some t"
    with fo obtain x where x: "x \<in> set (take i hist)" "reference_of x = t" "schema_version x = schema_version ?op"
      "is_apply (payload x)" "\<not> is_non_reversible (inverse_of x)"
      unfolding follows_def by blast
    from x(1) obtain j where j: "j < i" "x = hist ! j" using i by (auto simp: in_set_conv_nth)
    have "is_ancestor ?ops (operation_id x) (operation_id ?op)"
      using linear_ancestor [OF lo lin j(1) i] linear_distinct [OF lin j(1) i] by (simp add: is_ancestor_def j(2))
    then show "\<exists>q. bm_get ?ops (ref_operation_id t) = Some q \<and> content_hash q = ref_content_hash t \<and>
      schema_version q = schema_version ?op \<and> is_apply (payload q) \<and>
      is_ancestor ?ops (ref_operation_id t) (operation_id ?op) \<and> \<not> is_non_reversible (inverse_of q)"
      using x j i log_of_get [OF lo, of j] by (auto simp: reference_of_def intro!: exI [of _ x])
  qed
  moreover have "resolution_references ?op = None" using fo by (simp add: follows_def)
  ultimately show ?thesis by (simp add: operation_ok_def)
qed

lemma log_values: "log_of project hist log \<Longrightarrow> set (bm_values (log_operations log)) = set hist"
  using ops_value_iff [of "log_operations log"] by (auto simp: log_of_def)

lemma linear_graph_ok:
  assumes "log_of project hist log" "linear_history project hist"
  shows "graph_ok (log_operations log)"
  unfolding graph_ok_def log_values [OF assms(1)]
  using linear_operation_ok [OF assms] by (auto simp: in_set_conv_nth)

lemma union_map_values:
  assumes "ops_inv ops"
  shows "union_map [] (bm_values ops) = ops"
proof (rule bm.map_ext)
  have "distinct (parents op)" if "op \<in> set (bm_values ops)" for op
    using that ops_value_iff [OF assms] ops_inv_get [OF assms] by blast
  then show "bm_inv (union_map [] (bm_values ops))"
    by (intro ops_inv_bm union_map_inv) auto
  show "bm_inv ops" using assms by (rule ops_inv_bm)
  show "bm_get (union_map [] (bm_values ops)) = bm_get ops"
  proof
    fix k
    show "bm_get (union_map [] (bm_values ops)) k = bm_get ops k"
    proof (cases "find (\<lambda>op. operation_id op = k) (bm_values ops)")
      case None
      then have "bm_get ops k \<noteq> Some op" for op
        using ops_value_iff [OF assms, of op] ops_inv_get [OF assms, of k op] by (auto simp: find_None_iff)
      then have "bm_get ops k = None" by (cases "bm_get ops k") auto
      with None show ?thesis by (simp add: union_map_get)
    next
      case (Some op)
      then have "op \<in> set (bm_values ops)" "operation_id op = k" by (auto simp: find_Some_iff)
      with Some show ?thesis using ops_value_iff [OF assms, of op] by (simp add: union_map_get)
    qed
  qed
qed

definition demo_log :: "unit operation_log" where
  "demo_log = snd (append_operation (demo_apply 2 1 0 [] [67]) (operation_log_new (demo_id 200)))"

lemma demo_log_run: "log_run (demo_id 200) [demo_apply 2 1 0 [] [67]] demo_log"
proof -
  have "case fst (append_operation (demo_apply 2 1 0 [] [67]) (operation_log_new (demo_id 200))) of
      Inr (Appended r) \<Rightarrow> True | _ \<Rightarrow> False" by code_simp
  then obtain r where "append_operation (demo_apply 2 1 0 [] [67]) (operation_log_new (demo_id 200)) =
      (Inr (Appended r), demo_log)"
    unfolding demo_log_def by (auto split: sum.splits append_outcome.splits simp: prod_eq_iff)
  from log_run.appended [OF log_run.start this] show ?thesis by simp
qed

text \<open>What becomes of an operation that the log knows, and of one of another project.\<close>

lemma append_known:
  assumes "log_of project hist log"
  shows "fst (append_operation op log) = Inr (Duplicate v) \<longleftrightarrow>
      op_project_id op = project \<and> reference_of op \<in> reference_of ` set hist \<and> v = log_revision log"
    and "fst (append_operation op log) = Inl AE_WrongProject \<longleftrightarrow> op_project_id op \<noteq> project"
    and "fst (append_operation op log) = Inl AE_TamperedDuplicate \<longleftrightarrow>
      op_project_id op = project \<and> operation_id op \<in> operation_id ` set hist \<and> reference_of op \<notin> reference_of ` set hist"
proof -
  have pid: "log_project_id log = project"
    and get: "bm_get (log_operations log) (operation_id op) = Some x \<longleftrightarrow> x \<in> set hist \<and> operation_id x = operation_id op" for x
    using assms by (auto simp: log_of_def)
  have other: "validate_target log op = Inl e \<Longrightarrow> e \<noteq> AE_WrongProject \<and> e \<noteq> AE_TamperedDuplicate"
    "expected_depth log = Inl e \<Longrightarrow> e \<noteq> AE_WrongProject \<and> e \<noteq> AE_TamperedDuplicate" for e
    by (auto simp: validate_target_def expected_depth_def split: if_splits option.splits operation_payload.splits)
  have known: "reference_of op \<in> reference_of ` set hist \<longleftrightarrow>
      (\<exists>x. bm_get (log_operations log) (operation_id op) = Some x \<and> content_hash x = content_hash op)"
    unfolding get by (auto simp: reference_of_def image_iff) metis
  have present: "operation_id op \<in> operation_id ` set hist \<longleftrightarrow> bm_get (log_operations log) (operation_id op) \<noteq> None"
    using get by (auto simp: image_iff) metis
  show "fst (append_operation op log) = Inr (Duplicate v) \<longleftrightarrow>
      op_project_id op = project \<and> reference_of op \<in> reference_of ` set hist \<and> v = log_revision log"
    "fst (append_operation op log) = Inl AE_WrongProject \<longleftrightarrow> op_project_id op \<noteq> project"
    "fst (append_operation op log) = Inl AE_TamperedDuplicate \<longleftrightarrow>
      op_project_id op = project \<and> operation_id op \<in> operation_id ` set hist \<and> reference_of op \<notin> reference_of ` set hist"
    unfolding known present
    using other by (auto simp: append_operation_def pid split: if_splits option.splits sum.splits)
qed

section \<open>Properties\<close>

text \<open>
  Claim C5. What \<open>append\<close> does in every state a log can reach. It appends exactly the operations that
  follow the history (right project, new identifier, room left, the tip as only parent, the next
  depth, a later time, no resolution, and a toggle only of a reversible apply in the opposite state),
  and then the revision is the number of operations. It acknowledges exactly the operations of the
  project that the log holds already, with the same identifier and hash, and answers with the current
  revision. Every other operation is refused; the refusal names the project exactly when that is the
  wrong one, and tampering exactly when the log holds the identifier with another hash. Only an append
  changes the log.
\<close>

theorem append_exact:
  assumes "log_run project hist log"
  shows "case append_operation op log of
      (Inr (Appended r), log') \<Rightarrow>
        follows project hist op \<and> unat r = Suc (length hist) \<and> log_run project (hist @ [op]) log'
    | (Inr (Duplicate r), log') \<Rightarrow>
        log' = log \<and> unat r = length hist \<and> op_project_id op = project \<and> reference_of op \<in> reference_of ` set hist
    | (Inl e, log') \<Rightarrow>
        log' = log \<and> \<not> follows project hist op \<and>
        (op_project_id op \<noteq> project \<or> reference_of op \<notin> reference_of ` set hist) \<and>
        (e = AE_WrongProject \<longleftrightarrow> op_project_id op \<noteq> project) \<and>
        (e = AE_TamperedDuplicate \<longleftrightarrow> op_project_id op = project \<and> operation_id op \<in> operation_id ` set hist)"
proof -
  have lo: "log_of project hist log" and lin: "linear_history project hist"
    using log_run_linear [OF assms] by auto
  note step = append_follows [OF lo lin, of op]
  note known = append_known [OF lo, of op]
  obtain r log' where run: "append_operation op log = (r, log')" by fastforce
  consider (app) v where "r = Inr (Appended v)" | (dup) v where "r = Inr (Duplicate v)" | (err) e where "r = Inl e"
    by (metis append_outcome.exhaust sum.exhaust)
  then show ?thesis
  proof cases
    case app
    with run step have fo: "follows project hist op" and v: "v = log_revision log + 1" "log' = appended_log op log"
      by (auto split: if_splits)
    have "unat v = Suc (length hist)"
      using log_of_appended [OF lo fo] v by (simp add: log_of_def appended_log_def)
    then show ?thesis using run app fo log_run.appended [OF assms] by simp
  next
    case dup
    with run known(1) [of v] have "op_project_id op = project" "reference_of op \<in> reference_of ` set hist" "v = log_revision log"
      by simp_all
    then show ?thesis using run dup append_unchanged [OF run] lo by (simp add: log_of_def)
  next
    case err
    then show ?thesis using run step known by (auto split: if_splits)
  qed
qed

theorem append_exact_witness:
  "(case append_operation (demo_undo 4 5 1 [2] 2) demo_log of
      (Inr (Appended r), log') \<Rightarrow> follows (demo_id 200) [demo_apply 2 1 0 [] [67]] (demo_undo 4 5 1 [2] 2)
    | _ \<Rightarrow> False) \<and>
   fst (append_operation (demo_apply 2 1 0 [] [67]) demo_log) = Inr (Duplicate 1)"
proof
  have "case fst (append_operation (demo_undo 4 5 1 [2] 2) demo_log) of
      Inr (Appended r) \<Rightarrow> True | _ \<Rightarrow> False" by code_simp
  then show "case append_operation (demo_undo 4 5 1 [2] 2) demo_log of
      (Inr (Appended r), log') \<Rightarrow> follows (demo_id 200) [demo_apply 2 1 0 [] [67]] (demo_undo 4 5 1 [2] 2)
    | _ \<Rightarrow> False"
    using append_exact [OF demo_log_run, of "demo_undo 4 5 1 [2] 2"]
    by (auto split: prod.splits sum.splits append_outcome.splits)
  have "\<not> follows (demo_id 200) [demo_apply 2 1 0 [] [67]] (demo_apply 2 1 0 [] [67])" by (simp add: follows_def)
  moreover have "op_project_id (demo_apply 2 1 0 [] [67]) = demo_id 200" by (simp add: demo_apply_def demo_op_def)
  ultimately show "fst (append_operation (demo_apply 2 1 0 [] [67]) demo_log) = Inr (Duplicate 1)"
    using append_exact [OF demo_log_run, of "demo_apply 2 1 0 [] [67]"]
    by (auto simp: word_unat_eq_iff split: prod.splits sum.splits append_outcome.splits)
qed

text \<open>
  Claim C26. A reachable log is a chain: the revision counts the operations and never wraps, each
  operation has its predecessor as only parent, its position as depth and a later time, identifiers
  are distinct, and the active flags are those the history of applies, undos and redos leaves.
\<close>

theorem log_invariant:
  assumes "log_run project hist log"
  shows "linear_history project hist \<and> unat (log_revision log) = length hist \<and>
    length hist \<le> MAX_OPERATION_COUNT \<and>
    log_tip log = (if hist = [] then None else Some (operation_id (last hist))) \<and>
    (\<forall>k op. bm_get (log_operations log) k = Some op \<longleftrightarrow> op \<in> set hist \<and> operation_id op = k) \<and>
    bm_get (log_active log) = toggles_after hist"
proof -
  have "log_of project hist log" "linear_history project hist"
    using log_run_linear [OF assms] by auto
  then show ?thesis using linear_history_length by (simp add: log_of_def)
qed

theorem log_invariant_witness: "unat (log_revision demo_log) = 1 \<and> log_tip demo_log = Some (demo_id 2)"
  using log_invariant [OF demo_log_run] by (simp add: demo_apply_def demo_op_def)

text \<open>
  Claim C27. The set view of a reachable log is valid: \<open>as_set\<close> returns a set with exactly the
  operations of the log, and can fail only because the default budget of the validation is
  exhausted; the graph checks of the operation set never reject what \<open>append\<close> accepted.
\<close>

theorem as_set_of_log:
  assumes "log_run project hist log"
  shows "case as_set log of
      Inr s \<Rightarrow> set_project_id s = project \<and> set_operations s = log_operations log \<and>
        graph_ok (set_operations s)
    | Inl e \<Rightarrow> \<exists>b. e = ME_Operation (operation_budget_error b)"
proof -
  have lo: "log_of project hist log" and lin: "linear_history project hist"
    using log_run_linear [OF assms] by auto
  let ?xs = "bm_values (log_operations log)"
  have inv: "ops_inv (log_operations log)" and pid: "log_project_id log = project"
    using lo by (simp_all add: log_of_def)
  have ok: "graph_ok (log_operations log)" by (rule linear_graph_ok [OF lo lin])
  have mem: "\<exists>i < length hist. op = hist ! i" if "op \<in> set ?xs" for op
    using that unfolding log_values [OF lo] by (auto simp: in_set_conv_nth)
  show ?thesis
  proof (cases "log_operations log = []")
    case True
    then show ?thesis by (simp add: as_set_def operation_set_empty_def pid graph_ok_def)
  next
    case False
    then have ne: "?xs \<noteq> []" by (cases "log_operations log") auto
    have wf: "distinct (parents op) \<and> length (parents op) \<le> MAX_PARENTS" if "op \<in> set ?xs" for op
      using mem [OF that] linear_parents [OF lin] by (auto simp: MAX_PARENTS_def)
    have proj: "op_project_id op = project" if "op \<in> set ?xs" for op
      using mem [OF that] linear_follows [OF lin] by (auto simp: follows_def)
    have adm: "admissible ?xs"
      unfolding admissible_def union_map_values [OF inv]
      using ne ok proj [OF hd_in_set [OF ne]] proj linear_history_length [OF lin] lo ops_values_eqI [OF inv]
      by (auto simp: log_of_def)
    obtain v where v: "refines op_resource (from_operations_with_budget ?xs) v"
      "\<And>s. v = Inr s \<longleftrightarrow> admissible ?xs \<and>
         s = \<lparr>set_project_id = op_project_id (hd ?xs), set_operations = union_map [] ?xs\<rparr>"
      using refines_from_operations [OF wf] by blast
    then have "v = Inr \<lparr>set_project_id = project, set_operations = log_operations log\<rparr>"
      using adm proj [OF hd_in_set [OF ne]] by (simp add: union_map_values [OF inv])
    with v(1) have ref: "refines op_resource (from_operations_with_budget ?xs)
        (Inr \<lparr>set_project_id = project, set_operations = log_operations log\<rparr>)" by simp
    obtain r b where run: "from_operations_with_budget ?xs default_operation_budget = (r, b)" by fastforce
    show ?thesis
      using refinesD [OF ref, of default_operation_budget] run False ok
      by (cases r) (auto simp: as_set_def from_operations_def op_resource_def)
  qed
qed

theorem as_set_of_log_witness:
  "case as_set demo_log of Inr s \<Rightarrow> set_operations s = log_operations demo_log | Inl e \<Rightarrow> False"
proof -
  have "case as_set demo_log of Inr s \<Rightarrow> True | Inl e \<Rightarrow> False" by code_simp
  then show ?thesis using as_set_of_log [OF demo_log_run] by (simp split: sum.splits)
qed

end
