(* ===== verification/Operation_Merge.thy ===== *)
theory Operation_Merge
  imports Operation_Log
begin

text \<open>
  Merging and conflict detection of operation sets (\<open>merge_with_budget\<close>, \<open>conflicts_with_budget\<close>
  and \<open>remove_superseded_conflicts\<close> of \<open>crates/operation-log/src/lib.rs\<close>).
\<close>

section \<open>Conflicts\<close>

record 't frontier_entry =
  fe_operation_id :: operation_id
  fe_reference :: operation_reference
  fe_identity :: "'t frontier_identity"
  fe_intent :: conflict_intent
  fe_event :: "'t applied_effect"
  fe_event_bytes :: nat

type_synonym 't conflict_map = "(operation_id \<times> operation_id, 't merge_conflict) btree_map"

definition m_check_cancelled :: "(resource_budget \<times> resource_usage, 't merge_error, unit) rsm" where
  "m_check_cancelled = map_err merge_budget_error (on_fst check_cancelled)"

definition m_charge :: "budget_kind \<Rightarrow> nat \<Rightarrow> (resource_budget \<times> resource_usage, 't merge_error, unit) rsm" where
  "m_charge kind amount = on_fst (merge_charge kind amount)"

definition m_ancestor ::
    "'t operation_map \<Rightarrow> operation_id \<Rightarrow> operation_id
       \<Rightarrow> (resource_budget \<times> resource_usage, 't merge_error, bool) rsm" where
  "m_ancestor ops a d = map_err merge_budget_error (ancestor_with_budget ops a d)"

fun touching_conflicts ::
    "(operation_id \<times> operation_id) list \<Rightarrow> operation_id
       \<Rightarrow> (resource_budget \<times> resource_usage, 't merge_error, (operation_id \<times> operation_id) list) rsm" where
  "touching_conflicts [] superseded = ret []"
| "touching_conflicts (key # keys) superseded =
     bindR (m_charge WorkingSetBytes ESTIMATED_STRUCTURAL_ENTRY_BYTES) (\<lambda>_.
     bindR (touching_conflicts keys superseded) (\<lambda>rest.
     ret (if fst key = superseded \<or> snd key = superseded then key # rest else rest)))"

fun drop_superseded ::
    "'t operation_map \<Rightarrow> (operation_id \<times> operation_id) list \<Rightarrow> operation_id \<Rightarrow> operation_id \<Rightarrow> 't conflict_map
       \<Rightarrow> (resource_budget \<times> resource_usage, 't merge_error, 't conflict_map) rsm" where
  "drop_superseded ops [] superseded current conflicts = ret conflicts"
| "drop_superseded ops (key # keys) superseded current conflicts =
     bindR (m_ancestor ops (if fst key = superseded then snd key else fst key) current) (\<lambda>joined.
     drop_superseded ops keys superseded current
       (if joined then conflicts else bm_remove key conflicts))"

definition remove_superseded_conflicts ::
    "'t operation_map \<Rightarrow> 't conflict_map \<Rightarrow> operation_id \<Rightarrow> operation_id
       \<Rightarrow> (resource_budget \<times> resource_usage, 't merge_error, 't conflict_map) rsm" where
  "remove_superseded_conflicts ops conflicts superseded current =
     bindR (touching_conflicts (bm_keys conflicts) superseded) (\<lambda>keys.
     drop_superseded ops keys superseded current conflicts)"

text \<open>The record of a conflict between an entry of the frontier and the current operation.\<close>

definition record_conflict ::
    "'t operation \<Rightarrow> field_key \<Rightarrow> 't frontier_entry \<Rightarrow> conflict_intent \<Rightarrow> 't applied_effect \<Rightarrow> nat
       \<Rightarrow> 't conflict_map \<Rightarrow> (resource_budget \<times> resource_usage, 't merge_error, 't conflict_map) rsm" where
  "record_conflict op key entry intent event event_bytes conflicts =
     bindR (if fe_operation_id entry < operation_id op then
              bindR (on_fst (clone_effect_with_budget (fe_event entry) (fe_event_bytes entry))) (\<lambda>le.
              bindR (on_fst (clone_effect_with_budget event event_bytes)) (\<lambda>re.
              ret \<lparr>mc_field = key, mc_left = fe_reference entry, mc_right = reference_of op,
                   mc_left_intent = fe_intent entry, mc_right_intent = intent,
                   mc_left_effect = le, mc_right_effect = re\<rparr>))
            else
              bindR (on_fst (clone_effect_with_budget event event_bytes)) (\<lambda>le.
              bindR (on_fst (clone_effect_with_budget (fe_event entry) (fe_event_bytes entry))) (\<lambda>re.
              ret \<lparr>mc_field = key, mc_left = reference_of op, mc_right = fe_reference entry,
                   mc_left_intent = intent, mc_right_intent = fe_intent entry,
                   mc_left_effect = le, mc_right_effect = re\<rparr>))) (\<lambda>conflict.
     let conflict_key = (ref_operation_id (mc_left conflict), ref_operation_id (mc_right conflict))
     in bindR (guardR (\<not> (bm_get conflicts conflict_key = None \<and> length conflicts \<ge> MAX_CONFLICTS))
                 (ME_ResourceLimit ''merge_conflicts'')) (\<lambda>_.
        ret (bm_insert conflict_key conflict conflicts)))"

text \<open>One pass over the frontier of the field the operation edits.\<close>

fun merge_frontier ::
    "'t operation_map \<Rightarrow> 't operation \<Rightarrow> field_key \<Rightarrow> 't frontier_identity \<Rightarrow> conflict_intent
       \<Rightarrow> 't applied_effect \<Rightarrow> nat \<Rightarrow> 't frontier_entry list \<Rightarrow> 't frontier_entry list \<Rightarrow> 't conflict_map
       \<Rightarrow> (resource_budget \<times> resource_usage, 't merge_error, 't frontier_entry list \<times> 't conflict_map) rsm" where
  "merge_frontier ops op key identity intent event event_bytes [] next conflicts = ret (next, conflicts)"
| "merge_frontier ops op key identity intent event event_bytes (entry # previous) next conflicts =
     (let same_value = fi_value (fe_identity entry) = fi_value identity;
          continue = merge_frontier ops op key identity intent event event_bytes previous
      in bindR (if same_value then m_ancestor ops (fe_operation_id entry) (operation_id op) else ret False) (\<lambda>same_line.
         if same_line then
           bindR (remove_superseded_conflicts ops conflicts (fe_operation_id entry) (operation_id op))
             (\<lambda>conflicts'. continue next conflicts')
         else if same_value \<and> (fi_is_value (fe_identity entry) \<and> fi_is_value identity \<or>
                 same_toggle_intent (fe_identity entry) identity) then
           bindR (remove_superseded_conflicts ops conflicts (fe_operation_id entry) (operation_id op))
             (\<lambda>conflicts'. continue next conflicts')
         else if same_value \<and> \<not> fi_is_value (fe_identity entry) \<and> \<not> fi_is_value identity then
           bindR (record_conflict op key entry intent event event_bytes conflicts)
             (\<lambda>conflicts'. continue (next @ [entry]) conflicts')
         else if same_value then continue (next @ [entry]) conflicts
         else
           bindR (m_ancestor ops (fe_operation_id entry) (operation_id op)) (\<lambda>superseded.
           if superseded then
             bindR (remove_superseded_conflicts ops conflicts (fe_operation_id entry) (operation_id op))
               (\<lambda>conflicts'. continue next conflicts')
           else
             bindR (record_conflict op key entry intent event event_bytes conflicts)
               (\<lambda>conflicts'. continue (next @ [entry]) conflicts'))))"

type_synonym 't frontier = "(field_key, 't frontier_entry list) btree_map"

fun scan_conflicts ::
    "'t operation_map \<Rightarrow> 't operation list \<Rightarrow> 't frontier \<Rightarrow> 't conflict_map
       \<Rightarrow> (resource_budget \<times> resource_usage, 't merge_error, 't conflict_map) rsm" where
  "scan_conflicts ops [] frontier conflicts = ret conflicts"
| "scan_conflicts ops (op # rest) frontier conflicts =
     (let conflicts1 = (case resolution_references op of
            None \<Rightarrow> conflicts
          | Some (left, right) \<Rightarrow> bm_remove (ref_operation_id left, ref_operation_id right) conflicts)
      in bindR (on_fst (effect_event_with_budget ops op)) (\<lambda>(event, event_bytes).
         bindR (m_charge WorkingSetBytes event_bytes) (\<lambda>_.
         bindR (m_charge WorkingSetBytes event_bytes) (\<lambda>_.
         let effect = as_effect_value event;
             (identity, intent) = frontier_identity op effect;
             key = effect_value_field_key effect;
             previous = (case bm_get frontier key of None \<Rightarrow> [] | Some es \<Rightarrow> es)
         in bindR (merge_frontier ops op key identity intent event event_bytes previous [] conflicts1)
              (\<lambda>(kept, conflicts2).
            let next = kept @ [\<lparr>fe_operation_id = operation_id op, fe_reference = reference_of op,
                                 fe_identity = identity, fe_intent = intent, fe_event = event,
                                 fe_event_bytes = event_bytes\<rparr>]
            in bindR (guardR (\<not> length next > MAX_MERGE_FRONTIER) (ME_ResourceLimit ''merge_frontier'')) (\<lambda>_.
               scan_conflicts ops rest (bm_insert key next (bm_remove key frontier)) conflicts2))))))"

definition m_ordered ::
    "'t operation_map \<Rightarrow> (resource_budget \<times> resource_usage, 't merge_error, 't operation list) rsm" where
  "m_ordered ops = map_err ME_Operation (on_fst (ordered_with_budget ops))"

definition conflicts_with_budget ::
    "'t operation_map \<Rightarrow> (resource_budget \<times> resource_usage, 't merge_error, 't merge_conflict list) rsm" where
  "conflicts_with_budget ops =
     bindR m_check_cancelled (\<lambda>_.
     bindR (m_charge WorkingSetBytes (estimated_structural_bytes (length ops))) (\<lambda>_.
     bindR (m_ordered ops) (\<lambda>ordering.
     bindR (scan_conflicts ops ordering [] []) (\<lambda>conflicts.
     ret (bm_values conflicts)))))"

section \<open>Merge\<close>

record 't merge_outcome =
  mo_merged :: "'t operation_set"
  mo_conflicts :: "'t merge_conflict list"

definition b_check_cancelled :: "(resource_budget, 't merge_error, unit) rsm" where
  "b_check_cancelled = map_err merge_budget_error check_cancelled"

fun copy_left :: "'t operation list \<Rightarrow> 't operation_map \<Rightarrow> (resource_budget, 't merge_error, 't operation_map) rsm" where
  "copy_left [] m = ret m"
| "copy_left (op # rest) m =
     bindR b_check_cancelled (\<lambda>_.
     bindR (guardR (\<not> length m \<ge> MAX_OPERATION_COUNT) (ME_ResourceLimit ''operation_count'')) (\<lambda>_.
     bindR (charge_operation_copy op) (\<lambda>_.
     copy_left rest (bm_insert (operation_id op) op m))))"

fun copy_right :: "'t operation list \<Rightarrow> 't operation_map \<Rightarrow> (resource_budget, 't merge_error, 't operation_map) rsm" where
  "copy_right [] m = ret m"
| "copy_right (op # rest) m =
     bindR b_check_cancelled (\<lambda>_.
     case bm_get m (operation_id op) of
       Some existing \<Rightarrow>
         bindR (guardR (content_hash existing = content_hash op) ME_TamperedDuplicate) (\<lambda>_.
         copy_right rest m)
     | None \<Rightarrow>
         bindR (guardR (\<not> length m \<ge> MAX_OPERATION_COUNT) (ME_ResourceLimit ''operation_count'')) (\<lambda>_.
         bindR (charge_operation_copy op) (\<lambda>_.
         copy_right rest (bm_insert (operation_id op) op m))))"

definition merge_with_budget ::
    "'t operation_set \<Rightarrow> 't operation_set \<Rightarrow> (resource_budget, 't merge_error, 't merge_outcome) rsm" where
  "merge_with_budget left right =
     bindR (guardR (set_project_id left = set_project_id right) ME_WrongProject) (\<lambda>_.
     bindR b_check_cancelled (\<lambda>_.
     bindR (copy_left (bm_values (set_operations left)) []) (\<lambda>m1.
     bindR (copy_right (bm_values (set_operations right)) m1) (\<lambda>m.
     with_local_usage
       (bindR (map_err ME_Operation (validate_graph_with_budget m)) (\<lambda>_.
        bindR (conflicts_with_budget m) (\<lambda>conflicts.
        ret \<lparr>mo_merged = \<lparr>set_project_id = set_project_id left, set_operations = m\<rparr>,
             mo_conflicts = conflicts\<rparr>)))))))"

definition default_merge_budget :: resource_budget where
  "default_merge_budget = resource_budget_new (resource_limits_new MAX_ANCESTRY_WORK usize_MAX usize_MAX
     DEFAULT_MERGE_OPERATION_BYTES usize_MAX DEFAULT_MERGE_WORKING_BYTES)"

definition merge :: "'t operation_set \<Rightarrow> 't operation_set \<Rightarrow> 't merge_error + 't merge_outcome" where
  "merge left right = fst (merge_with_budget left right default_merge_budget)"

definition into_applyable :: "'t merge_outcome \<Rightarrow> 't merge_error + 't operation_set" where
  "into_applyable outcome =
     (if mo_conflicts outcome = [] then Inr (mo_merged outcome)
      else Inl (ME_Conflicts (mo_conflicts outcome)))"

section \<open>The budget does not decide the outcome\<close>

lemma refines_m_check_cancelled [refines_rules]: "refines merge_resource m_check_cancelled (Inr ())"
  unfolding m_check_cancelled_def
  using refines_map_err [OF refines_on_fst [OF refines_check_cancelled], of merge_resource merge_budget_error]
  by simp

lemma refines_b_check_cancelled [refines_rules]: "refines merge_resource b_check_cancelled (Inr ())"
  unfolding b_check_cancelled_def
  using refines_map_err [OF refines_check_cancelled, of merge_resource merge_budget_error] by simp

lemma refines_m_charge [refines_rules]: "refines merge_resource (m_charge k n) (Inr ())"
  unfolding m_charge_def by (intro refines_rules)

lemma refines_m_ancestor [refines_rules]: "refines merge_resource (m_ancestor ops a d) (Inr (is_ancestor ops a d))"
  unfolding m_ancestor_def
  using refines_map_err [OF refines_ancestor, of merge_resource merge_budget_error] by simp

lemma refines_clone_effect [refines_rules]: "refines merge_resource (clone_effect_with_budget eff n) (Inr eff)"
  unfolding clone_effect_with_budget_def by (intro refines_bind_unit refines_rules)

lemma refines_charge_copy:
  assumes "length (canonical op) \<le> 2 ^ 32"
  shows "refines merge_resource (charge_operation_copy op) (Inr ())"
proof -
  have "checked_add (length (canonical op)) ESTIMATED_STRUCTURAL_ENTRY_BYTES =
      Some (length (canonical op) + ESTIMATED_STRUCTURAL_ENTRY_BYTES)"
    using assms by (simp add: checked_add_def ESTIMATED_STRUCTURAL_ENTRY_BYTES_def usize_MAX_def)
  then show ?thesis unfolding charge_operation_copy_def
    by (rule refines_bind_ok_or_Some) (intro refines_bind_unit refines_rules)
qed

lemma budget_free_merge [budget_free_rules]:
  "budget_free merge_resource m_check_cancelled" "budget_free merge_resource (m_charge k n)"
  "budget_free merge_resource (m_ancestor ops a d)"
  "budget_free merge_resource (clone_effect_with_budget eff n)"
  "budget_free merge_resource (effect_event_with_budget ops op)"
  by (rule refines_budget_free, rule refines_rules)+

lemma budget_free_touching [budget_free_rules]: "budget_free merge_resource (touching_conflicts keys s)"
  by (induction keys) (auto intro!: budget_free_rules)

lemma budget_free_drop [budget_free_rules]: "budget_free merge_resource (drop_superseded ops keys s c m)"
  by (induction keys arbitrary: m) (auto intro!: budget_free_rules)

lemma budget_free_remove [budget_free_rules]: "budget_free merge_resource (remove_superseded_conflicts ops m s c)"
  unfolding remove_superseded_conflicts_def by (intro budget_free_rules)

lemma budget_free_record [budget_free_rules]:
  "budget_free merge_resource (record_conflict op key entry intent event n m)"
  unfolding record_conflict_def Let_def by (intro budget_free_rules)

lemma budget_free_frontier [budget_free_rules]:
  "budget_free merge_resource (merge_frontier ops op key identity intent event n previous kept m)"
proof (induction previous arbitrary: kept m)
  case Nil
  then show ?case by (simp add: budget_free_basic)
next
  case (Cons e previous)
  then show ?case unfolding merge_frontier.simps Let_def by (intro budget_free_rules)
qed

lemma budget_free_scan [budget_free_rules]: "budget_free merge_resource (scan_conflicts ops xs frontier m)"
proof (induction xs arbitrary: frontier m)
  case Nil
  then show ?case by (simp add: budget_free_basic)
next
  case (Cons op xs)
  then show ?case unfolding scan_conflicts.simps Let_def case_prod_unfold by (intro budget_free_rules)
qed

lemma budget_free_ordered:
  assumes "ops_inv ops" "\<And>op. op \<in> set (bm_values ops) \<Longrightarrow> length (parents op) \<le> 2 ^ 32"
  shows "budget_free op_resource (ordered_with_budget ops)"
  using refines_ordered [OF assms] by (auto intro: refines_budget_free)

lemma budget_free_conflicts:
  assumes "ops_inv ops" "\<And>op. op \<in> set (bm_values ops) \<Longrightarrow> length (parents op) \<le> 2 ^ 32"
  shows "budget_free merge_resource (conflicts_with_budget ops)"
  unfolding conflicts_with_budget_def m_ordered_def
  by (intro budget_free_rules budget_free_map_err [OF budget_free_on_fst [OF budget_free_ordered [OF assms]]]) auto

section \<open>The union\<close>

lemma refines_copy_left:
  assumes "length m + length xs \<le> MAX_OPERATION_COUNT" "\<And>op. op \<in> set xs \<Longrightarrow> length (canonical op) \<le> 2 ^ 32"
  shows "refines merge_resource (copy_left xs m) (Inr (fold (\<lambda>op. bm_insert (operation_id op) op) xs m))"
  using assms
proof (induction xs arbitrary: m)
  case Nil
  then show ?case by (simp add: refines_ret)
next
  case (Cons op xs)
  have "length (bm_insert (operation_id op) op m) \<le> Suc (length m)"
    by (induction "operation_id op" op m rule: bm_insert.induct) auto
  then have "refines merge_resource (copy_left xs (bm_insert (operation_id op) op m))
      (Inr (fold (\<lambda>op. bm_insert (operation_id op) op) xs (bm_insert (operation_id op) op m)))"
    using Cons.prems by (intro Cons.IH) auto
  then show ?case
    unfolding copy_left.simps using Cons.prems
    by (intro refines_bind_unit [OF refines_b_check_cancelled] refines_bind_guard_True
        refines_bind_unit [OF refines_charge_copy]) auto
qed

lemma bm_insert_length: "length m \<le> length (bm_insert k v m)"
  by (induction k v m rule: bm_insert.induct) auto

lemma union_map_length: "length m \<le> length (union_map m xs)"
proof (induction xs arbitrary: m)
  case (Cons op xs)
  have "length m \<le> length (keep_first op m)" by (simp add: keep_first_def bm_insert_length)
  also have "\<dots> \<le> length (union_map (keep_first op m) xs)" by (rule Cons)
  finally show ?case by simp
qed simp

lemma fold_insert_values:
  assumes "ops_inv ops"
  shows "fold (\<lambda>op. bm_insert (operation_id op) op) (bm_values ops) [] = ops"
proof -
  have "fold (\<lambda>op. bm_insert (operation_id op) op) xs m = union_map m xs"
    if "distinct (map operation_id xs)" "\<And>op. op \<in> set xs \<Longrightarrow> bm_get m (operation_id op) = None" for xs m
    using that
  proof (induction xs arbitrary: m)
    case (Cons a xs)
    have "bm_get (bm_insert (operation_id a) a m) (operation_id op) = None" if "op \<in> set xs" for op
    proof -
      have "operation_id op \<noteq> operation_id a" using Cons.prems(1) that by (metis distinct.simps(2) imageI list.simps(9) set_map)
      then show ?thesis using Cons.prems(2) [of op] that by simp
    qed
    then show ?case using Cons.IH [of "bm_insert (operation_id a) a m"] Cons.prems by (simp add: keep_first_def)
  qed simp
  from this [of "bm_values ops" "[]"] show ?thesis
    using ops_ids_distinct [OF assms] union_map_values [OF assms] by simp
qed

lemma refines_copy_right:
  assumes "length m \<le> MAX_OPERATION_COUNT" "\<And>op. op \<in> set xs \<Longrightarrow> length (canonical op) \<le> 2 ^ 32"
  shows "\<exists>v. refines merge_resource (copy_right xs m) v \<and>
    (\<forall>r. v = Inr r \<longleftrightarrow> consistent m xs \<and> length (union_map m xs) \<le> MAX_OPERATION_COUNT \<and> r = union_map m xs) \<and>
    (v = Inl ME_TamperedDuplicate \<longrightarrow> \<not> consistent m xs)"
  using assms
proof (induction xs arbitrary: m)
  case Nil
  show ?case by (rule exI [of _ "Inr m"]) (use Nil in \<open>auto simp: refines_ret consistent_def\<close>)
next
  case (Cons op xs)
  note canon = Cons.prems(2)
  show ?case
  proof (cases "bm_get m (operation_id op)")
    case (Some existing)
    have same: "keep_first op m = m" using Some by (simp add: keep_first_def)
    show ?thesis
    proof (cases "content_hash existing = content_hash op")
      case True
      from Cons.IH [OF Cons.prems(1)] canon obtain v where v: "refines merge_resource (copy_right xs m) v"
        "\<forall>r. v = Inr r \<longleftrightarrow> consistent m xs \<and> length (union_map m xs) \<le> MAX_OPERATION_COUNT \<and> r = union_map m xs"
        "v = Inl ME_TamperedDuplicate \<longrightarrow> \<not> consistent m xs" by auto
      have "refines merge_resource (copy_right (op # xs) m) v"
        unfolding copy_right.simps Some option.case
        by (intro refines_bind_unit [OF refines_b_check_cancelled] refines_bind_guard_True True v(1))
      then show ?thesis using v(2,3) Some True
        by (intro exI [of _ v] conjI) (simp_all add: consistent_Cons same)
    next
      case False
      have "refines merge_resource (copy_right (op # xs) m) (Inl ME_TamperedDuplicate)"
        unfolding copy_right.simps Some option.case
        by (intro refines_bind_unit [OF refines_b_check_cancelled] refines_bind_guard_False False)
      then show ?thesis using Some False
        by (intro exI [of _ "Inl ME_TamperedDuplicate"]) (simp add: consistent_Cons)
    qed
  next
    case None
    have ins: "keep_first op m = bm_insert (operation_id op) op m" using None by (simp add: keep_first_def)
    have len: "length (keep_first op m) = Suc (length m)" using None by (simp add: ins length_bm_insert)
    show ?thesis
    proof (cases "length m < MAX_OPERATION_COUNT")
      case True
      then have "length (keep_first op m) \<le> MAX_OPERATION_COUNT" by (simp add: len)
      from Cons.IH [OF this] canon obtain v where v: "refines merge_resource (copy_right xs (keep_first op m)) v"
        "\<forall>r. v = Inr r \<longleftrightarrow> consistent (keep_first op m) xs \<and>
           length (union_map (keep_first op m) xs) \<le> MAX_OPERATION_COUNT \<and> r = union_map (keep_first op m) xs"
        "v = Inl ME_TamperedDuplicate \<longrightarrow> \<not> consistent (keep_first op m) xs" by auto
      have "refines merge_resource (copy_right (op # xs) m) v"
        unfolding copy_right.simps None option.case ins [symmetric]
        using True canon [of op] v(1)
        by (intro refines_bind_unit [OF refines_b_check_cancelled] refines_bind_guard_True
            refines_bind_unit [OF refines_charge_copy]) auto
      then show ?thesis using v(2,3) None
        by (intro exI [of _ v] conjI) (simp_all add: consistent_Cons)
    next
      case False
      have "refines merge_resource (copy_right (op # xs) m) (Inl (ME_ResourceLimit ''operation_count''))"
        unfolding copy_right.simps None option.case
        by (intro refines_bind_unit [OF refines_b_check_cancelled] refines_bind_guard_False) (use False in simp)
      moreover have "\<not> length (union_map m (op # xs)) \<le> MAX_OPERATION_COUNT"
        using union_map_length [of "keep_first op m" xs] False by (simp add: len)
      ultimately show ?thesis
        by (intro exI [of _ "Inl (ME_ResourceLimit ''operation_count'')"]) (simp del: union_map_simps)
    qed
  qed
qed

section \<open>What a merge returns\<close>

definition set_wf :: "'t operation_set \<Rightarrow> bool" where
  "set_wf s \<longleftrightarrow>
     ops_inv (set_operations s) \<and> length (set_operations s) \<le> MAX_OPERATION_COUNT \<and>
     (\<forall>op \<in> set (bm_values (set_operations s)).
        op_project_id op = set_project_id s \<and> length (parents op) \<le> MAX_PARENTS \<and>
        length (canonical op) \<le> MAX_OPERATION_CANONICAL_BYTES)"

definition merged_map :: "'t operation_set \<Rightarrow> 't operation_set \<Rightarrow> 't operation_map" where
  "merged_map a b = union_map (set_operations a) (bm_values (set_operations b))"

text \<open>No identifier stands for two different contents.\<close>

definition untampered :: "'t operation_set \<Rightarrow> 't operation_set \<Rightarrow> bool" where
  "untampered a b \<longleftrightarrow>
     (\<forall>k x y. bm_get (set_operations a) k = Some x \<longrightarrow> bm_get (set_operations b) k = Some y \<longrightarrow>
        content_hash x = content_hash y)"

lemma find_values:
  "ops_inv ops \<Longrightarrow> find (\<lambda>op. operation_id op = k) (bm_values ops) = bm_get ops k"
  using union_map_get [of "[]" "bm_values ops" k] by (simp add: union_map_values)

lemma merged_map_get:
  "set_wf b \<Longrightarrow> bm_get (merged_map a b) k =
     (case bm_get (set_operations a) k of Some x \<Rightarrow> Some x | None \<Rightarrow> bm_get (set_operations b) k)"
  by (simp add: merged_map_def union_map_get find_values set_wf_def split: option.split)

lemma merged_map_inv:
  assumes "set_wf a" "set_wf b"
  shows "ops_inv (merged_map a b)"
    "op \<in> set (bm_values (merged_map a b)) \<Longrightarrow> length (parents op) \<le> 2 ^ 32"
proof -
  have ab: "ops_inv (set_operations a)" "ops_inv (set_operations b)" using assms by (simp_all add: set_wf_def)
  have "distinct (parents op)" if "op \<in> set (bm_values (set_operations b))" for op
    using that ops_value_iff [OF ab(2)] ops_inv_get [OF ab(2)] by blast
  with ab(1) show inv: "ops_inv (merged_map a b)" unfolding merged_map_def by (intro union_map_inv)
  assume "op \<in> set (bm_values (merged_map a b))"
  then have "op \<in> set (bm_values (set_operations a)) \<or> op \<in> set (bm_values (set_operations b))"
    using ops_value_iff [OF inv] ops_value_iff [OF ab(1)] ops_value_iff [OF ab(2)] merged_map_get [OF assms(2)]
    by (auto split: option.splits)
  then show "length (parents op) \<le> 2 ^ 32"
    using assms by (fastforce simp: set_wf_def MAX_PARENTS_def)
qed

lemma consistent_untampered:
  assumes "set_wf b"
  shows "consistent (set_operations a) (bm_values (set_operations b)) \<longleftrightarrow> untampered a b"
proof -
  have inv: "ops_inv (set_operations b)" using assms by (simp add: set_wf_def)
  note get = merged_map_get [OF assms, of a, unfolded merged_map_def]
  show ?thesis
  proof
    assume con: "consistent (set_operations a) (bm_values (set_operations b))"
    show "untampered a b"
      unfolding untampered_def
    proof (intro allI impI)
      fix k x y assume xy: "bm_get (set_operations a) k = Some x" "bm_get (set_operations b) k = Some y"
      then have "y \<in> set (bm_values (set_operations b))" "operation_id y = k"
        using ops_inv_get [OF inv] ops_value_iff [OF inv] by auto
      then show "content_hash x = content_hash y" using con xy(1) by (force simp: consistent_def get)
    qed
  next
    assume unt: "untampered a b"
    show "consistent (set_operations a) (bm_values (set_operations b))"
      unfolding consistent_def get
    proof
      fix op assume "op \<in> set (bm_values (set_operations b))"
      then have "bm_get (set_operations b) (operation_id op) = Some op" using ops_value_iff [OF inv] by simp
      then show "map_option content_hash (case bm_get (set_operations a) (operation_id op) of
          Some x \<Rightarrow> Some x | None \<Rightarrow> bm_get (set_operations b) (operation_id op)) = Some (content_hash op)"
        using unt unfolding untampered_def by (cases "bm_get (set_operations a) (operation_id op)") auto
    qed
  qed
qed

lemma refines_merge:
  assumes wa: "set_wf a" and wb: "set_wf b"
    and g: "refines op_resource (validate_graph_with_budget (merged_map a b)) g"
    and c: "refines merge_resource (conflicts_with_budget (merged_map a b)) c"
  shows "\<exists>v. refines merge_resource (merge_with_budget a b) v \<and>
    (\<forall>out. v = Inr out \<longleftrightarrow> set_project_id a = set_project_id b \<and> untampered a b \<and>
       length (merged_map a b) \<le> MAX_OPERATION_COUNT \<and> g = Inr () \<and>
       (\<exists>cs. c = Inr cs \<and> out = \<lparr>mo_merged = \<lparr>set_project_id = set_project_id a, set_operations = merged_map a b\<rparr>,
                                mo_conflicts = cs\<rparr>)) \<and>
    (set_project_id a \<noteq> set_project_id b \<longrightarrow> v = Inl ME_WrongProject)"
proof (cases "set_project_id a = set_project_id b")
  case False
  have "refines merge_resource (merge_with_budget a b) (Inl ME_WrongProject)"
    unfolding merge_with_budget_def by (rule refines_bind_guard_False [OF False])
  with False show ?thesis by (intro exI [of _ "Inl ME_WrongProject"]) simp
next
  case True
  let ?A = "set_operations a" and ?B = "set_operations b" and ?m = "merged_map a b"
  have small: "length (canonical op) \<le> 2 ^ 32" if "set_wf s" "op \<in> set (bm_values (set_operations s))"
    for s :: "'a operation_set" and op
    using that by (fastforce simp: set_wf_def MAX_OPERATION_CANONICAL_BYTES_def)
  have left: "refines merge_resource (copy_left (bm_values ?A) []) (Inr ?A)"
    using refines_copy_left [of "[]" "bm_values ?A"] small [OF wa] wa fold_insert_values [of ?A]
    by (simp add: set_wf_def)
  have lenA: "length ?A \<le> MAX_OPERATION_COUNT" using wa by (simp add: set_wf_def)
  obtain w where w: "refines merge_resource (copy_right (bm_values ?B) ?A) w"
    "\<And>r. w = Inr r \<longleftrightarrow> untampered a b \<and> length ?m \<le> MAX_OPERATION_COUNT \<and> r = ?m"
    using refines_copy_right [OF lenA, of "bm_values ?B"] small [OF wb]
    unfolding consistent_untampered [OF wb] merged_map_def [symmetric] by blast
  let ?tail = "bindE (map_sum ME_Operation id g) (\<lambda>_. bindE c (\<lambda>cs.
    Inr \<lparr>mo_merged = \<lparr>set_project_id = set_project_id a, set_operations = ?m\<rparr>, mo_conflicts = cs\<rparr>))"
  have tail: "refines merge_resource
      (with_local_usage (bindR (map_err ME_Operation (validate_graph_with_budget ?m)) (\<lambda>_.
        bindR (conflicts_with_budget ?m) (\<lambda>conflicts.
        ret \<lparr>mo_merged = \<lparr>set_project_id = set_project_id a, set_operations = ?m\<rparr>,
             mo_conflicts = conflicts\<rparr>)))) ?tail"
    by (intro refines_with_local_usage refines_bind refines_map_err [OF g] c refines_ret) auto
  have "refines merge_resource (merge_with_budget a b) (bindE w (\<lambda>_. ?tail))"
    unfolding merge_with_budget_def
    by (intro refines_bind_guard_True True refines_bind_unit [OF refines_b_check_cancelled]
        refines_bind_value [OF left] refines_bind [OF w(1)]) (use tail w(2) in auto)
  then show ?thesis
    using True w(2) by (intro exI [of _ "bindE w (\<lambda>_. ?tail)"]) (auto simp: bindE_Inr_iff)
qed

lemma merged_map_commute:
  assumes wa: "set_wf a" and wb: "set_wf b"
    and ident: "\<And>k x y. bm_get (set_operations a) k = Some x \<Longrightarrow> bm_get (set_operations b) k = Some y \<Longrightarrow>
      content_hash x = content_hash y \<Longrightarrow> x = y"
    and unt: "untampered a b"
  shows "merged_map b a = merged_map a b"
proof (rule bm.map_ext)
  show "bm_inv (merged_map b a)" "bm_inv (merged_map a b)"
    using merged_map_inv(1) [OF wa wb] merged_map_inv(1) [OF wb wa] by (simp_all add: ops_inv_bm)
  show "bm_get (merged_map b a) = bm_get (merged_map a b)"
  proof
    fix k
    show "bm_get (merged_map b a) k = bm_get (merged_map a b) k"
      unfolding merged_map_get [OF wa] merged_map_get [OF wb]
    proof (cases "bm_get (set_operations a) k"; cases "bm_get (set_operations b) k")
      fix x y assume xy: "bm_get (set_operations a) k = Some x" "bm_get (set_operations b) k = Some y"
      then have "content_hash x = content_hash y" using unt unfolding untampered_def by blast
      then have "x = y" by (rule ident [OF xy])
      then show "(case bm_get (set_operations b) k of None \<Rightarrow> bm_get (set_operations a) k | Some x \<Rightarrow> Some x) =
          (case bm_get (set_operations a) k of None \<Rightarrow> bm_get (set_operations b) k | Some x \<Rightarrow> Some x)"
        by (simp add: xy)
    qed simp_all
  qed
qed

lemma untampered_sym: "untampered a b \<longleftrightarrow> untampered b a"
  unfolding untampered_def by metis

lemma merged_map_self: "set_wf a \<Longrightarrow> merged_map a a = set_operations a"
proof (rule bm.map_ext)
  assume wa: "set_wf a"
  then show "bm_inv (merged_map a a)" "bm_inv (set_operations a)"
    using merged_map_inv(1) [of a a] by (simp_all add: ops_inv_bm set_wf_def)
  show "bm_get (merged_map a a) = bm_get (set_operations a)"
    by (rule ext) (simp add: merged_map_get [OF wa] split: option.split)
qed

lemma merge_parts:
  assumes "set_wf a" "set_wf b"
  obtains g c where "refines op_resource (validate_graph_with_budget (merged_map a b)) g"
    "g = Inr () \<longleftrightarrow> graph_ok (merged_map a b)"
    "refines merge_resource (conflicts_with_budget (merged_map a b)) c"
  using decides_validate_graph [OF merged_map_inv [OF assms]] budget_free_conflicts [OF merged_map_inv [OF assms]]
  unfolding decides_def budget_free_def by blast

section \<open>Every reported conflict is one\<close>

lemma kahn_ancestor_earlier:
  assumes inv: "ops_inv ops" and pre: "kahn_prefix ops xs"
  shows "i < length xs \<Longrightarrow> (a, operation_id (xs ! i)) \<in> (parent_rel ops)\<^sup>+ \<Longrightarrow> \<exists>j < i. a = operation_id (xs ! j)"
proof (induction i rule: less_induct)
  case (less i)
  have mem: "xs ! i \<in> set (bm_values ops)" using kahn_prefix_props(2) [OF pre] less.prems(1) by force
  then have get: "bm_get ops (operation_id (xs ! i)) = Some (xs ! i)" using ops_value_iff [OF inv] by simp
  have par: "\<exists>j < i. p = operation_id (xs ! j)" if "(p, operation_id (xs ! i)) \<in> parent_rel ops" for p
  proof -
    have "p \<in> set (parents (xs ! i))" using that get by (auto simp: parent_rel_iff)
    then have "p \<in> operation_id ` set (take i xs)"
      using kahn_prefix_topological [OF pre] less.prems(1) by (auto simp: topological_def)
    then obtain y where y: "y \<in> set (take i xs)" "p = operation_id y" by blast
    from y(1) obtain j where j: "j < length (take i xs)" "take i xs ! j = y" by (meson in_set_conv_nth)
    then show ?thesis using y(2) by (intro exI [of _ j]) auto
  qed
  from less.prems(2) show ?case
  proof (cases rule: tranclE)
    case base
    then show ?thesis by (rule par)
  next
    case (step y)
    from par [OF step(2)] obtain j where j: "j < i" "y = operation_id (xs ! j)" by blast
    then obtain k where "k < j" "a = operation_id (xs ! k)"
      using less.IH [of j] less.prems(1) step(1) by auto
    with j(1) show ?thesis by (intro exI [of _ k]) simp
  qed
qed

definition entry_ok :: "'t operation_map \<Rightarrow> 't operation \<Rightarrow> 't frontier_entry \<Rightarrow> bool" where
  "entry_ok ops x e \<longleftrightarrow>
     effect_event ops x = Inr (fe_event e, fe_event_bytes e) \<and>
     fe_operation_id e = operation_id x \<and> fe_reference e = reference_of x \<and>
     (fe_identity e, fe_intent e) = frontier_identity x (as_effect_value (fe_event e))"

text \<open>
  A justified conflict: two operations of the set, in the order of their identifiers, neither an
  ancestor of the other, whose effects are on the reported field, are the reported effects, and
  differ as values or are toggles of different intent.
\<close>

definition conflict_ok :: "'t operation_map \<Rightarrow> 't merge_conflict \<Rightarrow> bool" where
  "conflict_ok ops c \<longleftrightarrow>
     (\<exists>l r ln rn. l \<in> set (bm_values ops) \<and> r \<in> set (bm_values ops) \<and>
        mc_left c = reference_of l \<and> mc_right c = reference_of r \<and> operation_id l < operation_id r \<and>
        \<not> is_ancestor ops (operation_id l) (operation_id r) \<and>
        \<not> is_ancestor ops (operation_id r) (operation_id l) \<and>
        effect_event ops l = Inr (mc_left_effect c, ln) \<and> effect_event ops r = Inr (mc_right_effect c, rn) \<and>
        effect_field_key (mc_left_effect c) = mc_field c \<and> effect_field_key (mc_right_effect c) = mc_field c \<and>
        mc_left_intent c = snd (frontier_identity l (as_effect_value (mc_left_effect c))) \<and>
        mc_right_intent c = snd (frontier_identity r (as_effect_value (mc_right_effect c))) \<and>
        (canonical_identity (as_effect_value (mc_left_effect c)) \<noteq>
           canonical_identity (as_effect_value (mc_right_effect c)) \<or>
         distinct_toggle_intents (payload l) (payload r)))"

abbreviation all_ok :: "'t operation_map \<Rightarrow> 't conflict_map \<Rightarrow> bool" where
  "all_ok ops m \<equiv> \<forall>c \<in> set (bm_values m). conflict_ok ops c"

lemma values_bm_insert: "set (bm_values (bm_insert k v m)) \<subseteq> insert v (set (bm_values m))"
  using set_bm_insert [of k v m] by (auto simp: bm_values_def)

lemma values_bm_remove: "set (bm_values (bm_remove k m)) \<subseteq> set (bm_values m)"
  by (induction k m rule: bm_remove.induct) auto

lemma returns_drop: "all_ok ops m \<Longrightarrow> returns (drop_superseded ops keys s c m) (all_ok ops)"
proof (induction keys arbitrary: m)
  case Nil
  then show ?case by (simp add: returns_ret)
next
  case (Cons key keys)
  have "all_ok ops (bm_remove key m)" using Cons.prems values_bm_remove [of key m] by blast
  then have "returns (drop_superseded ops keys s c (if joined then m else bm_remove key m)) (all_ok ops)" for joined
    using Cons.IH Cons.prems by simp
  then show ?case unfolding drop_superseded.simps by (rule returns_bind_skip)
qed

lemma returns_remove: "all_ok ops m \<Longrightarrow> returns (remove_superseded_conflicts ops m s c) (all_ok ops)"
  unfolding remove_superseded_conflicts_def by (intro returns_bind_skip returns_drop)

lemma distinct_toggle_intents_sym: "distinct_toggle_intents a b \<longleftrightarrow> distinct_toggle_intents b a"
  by (cases a; cases b) (auto simp: distinct_toggle_intents_def)

lemma toggles_distinct:
  assumes "\<not> fi_is_value (fst (frontier_identity a v))" "\<not> fi_is_value (fst (frontier_identity b w))"
    "\<not> same_toggle_intent (fst (frontier_identity a v)) (fst (frontier_identity b w))"
  shows "distinct_toggle_intents (payload a) (payload b)"
  using assms
  by (cases "payload a"; cases "payload b") (auto simp: frontier_identity_def distinct_toggle_intents_def)

lemma returns_record:
  assumes m: "all_ok ops m" and x: "entry_ok ops x e" "x \<in> set (bm_values ops)"
    and op: "op \<in> set (bm_values ops)" "effect_event ops op = Inr (event, n)"
      "(identity, intent) = frontier_identity op (as_effect_value event)"
    and key: "effect_field_key (fe_event e) = key" "effect_field_key event = key"
    and conc: "operation_id x \<noteq> operation_id op" "\<not> is_ancestor ops (operation_id x) (operation_id op)"
      "\<not> is_ancestor ops (operation_id op) (operation_id x)"
    and diff: "fi_value (fe_identity e) \<noteq> fi_value identity \<or> distinct_toggle_intents (payload x) (payload op)"
  shows "returns (record_conflict op key e intent event n m) (all_ok ops)"
proof -
  have ids: "fe_operation_id e = operation_id x" "fe_reference e = reference_of x"
    "effect_event ops x = Inr (fe_event e, fe_event_bytes e)"
    "fe_intent e = snd (frontier_identity x (as_effect_value (fe_event e)))"
    "fi_value (fe_identity e) = canonical_identity (as_effect_value (fe_event e))"
    using x(1) frontier_identity_value [of x "as_effect_value (fe_event e)"]
    unfolding entry_ok_def by (metis fst_conv snd_conv)+
  have opi: "intent = snd (frontier_identity op (as_effect_value event))"
    "fi_value identity = canonical_identity (as_effect_value event)"
    using op(3) frontier_identity_value [of op "as_effect_value event"] by (metis fst_conv snd_conv)+
  have ins: "all_ok ops (bm_insert k c m)" if "conflict_ok ops c" for k c
    using m that values_bm_insert [of k c m] by blast
  note sym = distinct_toggle_intents_sym [of "payload op" "payload x"]
  show ?thesis
  proof (cases "operation_id x < operation_id op")
    case True
    have "conflict_ok ops \<lparr>mc_field = key, mc_left = reference_of x, mc_right = reference_of op,
        mc_left_intent = fe_intent e, mc_right_intent = intent, mc_left_effect = fe_event e, mc_right_effect = event\<rparr>"
      unfolding conflict_ok_def using True x(2) op(1,2) conc key diff ids opi
      by (intro exI [of _ x] exI [of _ op] exI [of _ "fe_event_bytes e"] exI [of _ n]) auto
    note ok = ins [OF this]
    show ?thesis
      unfolding record_conflict_def ids(1,2) if_P [OF True] Let_def
      by (intro returns_bind [where P = "\<lambda>c. conflict_ok ops c"] returns_bind_guardR returns_ret ins)
        (auto intro!: returns_bind [OF returns_on_fst [OF refines_returns [OF refines_clone_effect]]] returns_ret
          simp: \<open>conflict_ok ops _\<close>)
  next
    case False
    then have lt: "operation_id op < operation_id x" using conc(1) by auto
    have "conflict_ok ops \<lparr>mc_field = key, mc_left = reference_of op, mc_right = reference_of x,
        mc_left_intent = intent, mc_right_intent = fe_intent e, mc_left_effect = event, mc_right_effect = fe_event e\<rparr>"
      unfolding conflict_ok_def using lt x(2) op(1,2) conc key diff ids opi sym
      by (intro exI [of _ op] exI [of _ x] exI [of _ n] exI [of _ "fe_event_bytes e"]) auto
    show ?thesis
      unfolding record_conflict_def ids(1,2) if_not_P [OF False] Let_def
      by (intro returns_bind [where P = "\<lambda>c. conflict_ok ops c"] returns_bind_guardR returns_ret ins)
        (auto intro!: returns_bind [OF returns_on_fst [OF refines_returns [OF refines_clone_effect]]] returns_ret
          simp: \<open>conflict_ok ops _\<close>)
  qed
qed

lemma returns_merge_frontier:
  assumes op: "op \<in> set (bm_values ops)" "effect_event ops op = Inr (event, n)"
      "(identity, intent) = frontier_identity op (as_effect_value event)" "effect_field_key event = key"
    and prev: "\<And>e. e \<in> set previous \<Longrightarrow> \<exists>x \<in> set (bm_values ops). entry_ok ops x e \<and>
      effect_field_key (fe_event e) = key \<and> operation_id x \<noteq> operation_id op \<and>
      \<not> is_ancestor ops (operation_id op) (operation_id x)"
    and m: "all_ok ops m"
  shows "returns (merge_frontier ops op key identity intent event n previous kept m)
    (\<lambda>(kept', m'). set kept' \<subseteq> set kept \<union> set previous \<and> all_ok ops m')"
  using prev m
proof (induction previous arbitrary: kept m)
  case Nil
  then show ?case by (simp add: returns_ret)
next
  case (Cons e previous)
  from Cons.prems(1) [of e] obtain x where x: "x \<in> set (bm_values ops)" "entry_ok ops x e"
    "effect_field_key (fe_event e) = key" "operation_id x \<noteq> operation_id op"
    "\<not> is_ancestor ops (operation_id op) (operation_id x)" by auto
  let ?Q = "\<lambda>(kept', m'). set kept' \<subseteq> insert e (set kept \<union> set previous) \<and> all_ok ops m'"
  have eid: "fe_operation_id e = operation_id x" using x(2) by (simp add: entry_ok_def)
  have fi: "fe_identity e = fst (frontier_identity x (as_effect_value (fe_event e)))"
    "identity = fst (frontier_identity op (as_effect_value event))"
    using x(2) op(3) by (auto simp: entry_ok_def dest: arg_cong [where f = fst])
  have go: "returns (merge_frontier ops op key identity intent event n previous kept1 m1) ?Q"
    if "set kept1 \<subseteq> insert e (set kept)" "all_ok ops m1" for kept1 m1
    by (rule returns_mono [OF Cons.IH]) (use that Cons.prems in auto)
  have drop: "returns (bindR (remove_superseded_conflicts ops m (fe_operation_id e) (operation_id op))
      (\<lambda>m'. merge_frontier ops op key identity intent event n previous kept m')) ?Q"
    by (rule returns_bind [OF returns_remove [OF Cons.prems(2)]], rule go) auto
  have rec: "returns (bindR (record_conflict op key e intent event n m)
      (\<lambda>m'. merge_frontier ops op key identity intent event n previous (kept @ [e]) m')) ?Q"
    if "\<not> is_ancestor ops (operation_id x) (operation_id op)"
      "fi_value (fe_identity e) \<noteq> fi_value identity \<or> distinct_toggle_intents (payload x) (payload op)"
    by (rule returns_bind [OF returns_record [OF Cons.prems(2) x(2,1) op(1-3) x(3) op(4) x(4) that(1) x(5) that(2)]], rule go)
      auto
  have anc: "returns (m_ancestor ops a d) (\<lambda>b. b \<longleftrightarrow> is_ancestor ops a d)" for a d
    using refines_returns [OF refines_m_ancestor, of ops a d] by (rule returns_mono) auto
  show ?case
  proof (cases "fi_value (fe_identity e) = fi_value identity")
    case True
    have "returns (if fi_value (fe_identity e) = fi_value identity
        then m_ancestor ops (fe_operation_id e) (operation_id op) else ret False)
        (\<lambda>b. b \<longleftrightarrow> is_ancestor ops (operation_id x) (operation_id op))"
      using anc True by (simp add: eid)
    then show ?thesis
      unfolding merge_frontier.simps Let_def
    proof (rule returns_bind, goal_cases)
      case (1 b)
      have "distinct_toggle_intents (payload x) (payload op)"
        if "\<not> fi_is_value (fe_identity e)" "\<not> fi_is_value identity" "\<not> same_toggle_intent (fe_identity e) identity"
        using toggles_distinct that unfolding fi by blast
      then show ?case
        using 1 True Cons.prems(2) by (auto intro!: drop rec go)
    qed
  next
    case False
    then show ?thesis
      unfolding merge_frontier.simps Let_def eid [symmetric]
      by (auto intro!: returns_bind [OF returns_ret [where Q = "\<lambda>b. \<not> b"]] returns_bind [OF anc] drop [unfolded eid] rec simp: eid)
  qed
qed

lemma effect_event_returns:
  "returns (on_fst (effect_event_with_budget ops op)) (\<lambda>p. effect_event ops op = Inr p)"
  by (rule returns_on_fst [OF refines_returns [OF refines_effect_event]])

definition frontier_ok :: "'t operation_map \<Rightarrow> 't operation list \<Rightarrow> 't frontier \<Rightarrow> bool" where
  "frontier_ok ops before frontier \<longleftrightarrow>
     bm_inv frontier \<and>
     (\<forall>key es e. bm_get frontier key = Some es \<longrightarrow> e \<in> set es \<longrightarrow>
        (\<exists>x \<in> set before. entry_ok ops x e \<and> effect_field_key (fe_event e) = key))"

lemma returns_scan:
  assumes inv: "ops_inv ops" and pre: "kahn_prefix ops (before @ xs)"
    and "frontier_ok ops before frontier" "all_ok ops m"
  shows "returns (scan_conflicts ops xs frontier m) (all_ok ops)"
  using assms(2-4)
proof (induction xs arbitrary: before frontier m)
  case Nil
  then show ?case by (simp add: returns_ret)
next
  case (Cons op xs)
  have sub: "set (before @ op # xs) \<subseteq> set (bm_values ops)" by (rule kahn_prefix_props(2) [OF Cons.prems(1)])
  have opv: "op \<in> set (bm_values ops)" using sub by simp
  have later: "operation_id x \<noteq> operation_id op \<and> \<not> is_ancestor ops (operation_id op) (operation_id x)"
    if "x \<in> set before" for x
  proof -
    from that obtain i where i: "i < length before" "x = before ! i" by (auto simp: in_set_conv_nth)
    have dist: "distinct (map operation_id (before @ op # xs))" by (rule kahn_prefix_props(1) [OF Cons.prems(1)])
    then have "operation_id op \<notin> operation_id ` set before" by auto
    then have ne: "operation_id (before ! j) \<noteq> operation_id op" if "j < length before" for j
      using nth_mem [OF that] by (metis imageI)
    have "(operation_id op, operation_id x) \<notin> (parent_rel ops)\<^sup>+"
    proof
      assume "(operation_id op, operation_id x) \<in> (parent_rel ops)\<^sup>+"
      then obtain j where "j < i" "operation_id op = operation_id ((before @ op # xs) ! j)"
        using kahn_ancestor_earlier [OF inv Cons.prems(1), of i "operation_id op"] i by (auto simp: nth_append)
      then show False using ne [of j] i by (simp add: nth_append)
    qed
    then show ?thesis using ne [OF i(1)] i by (simp add: is_ancestor_def)
  qed
  define m1 where "m1 = (case resolution_references op of None \<Rightarrow> m
      | Some p \<Rightarrow> bm_remove (ref_operation_id (fst p), ref_operation_id (snd p)) m)"
  have m1: "all_ok ops m1"
    using Cons.prems(3) values_bm_remove unfolding m1_def by (fastforce split: option.splits)
  show ?case
    unfolding scan_conflicts.simps Let_def case_prod_unfold m1_def [symmetric]
  proof (rule returns_bind [OF effect_event_returns], rule returns_bind_skip, rule returns_bind_skip)
    fix p :: "'a applied_effect \<times> nat"
    assume eff: "effect_event ops op = Inr p"
    let ?event = "fst p" and ?n = "snd p"
    let ?fi = "frontier_identity op (as_effect_value ?event)"
    let ?key = "effect_value_field_key (as_effect_value ?event)"
    let ?prev = "case bm_get frontier ?key of None \<Rightarrow> [] | Some es \<Rightarrow> es"
    let ?new = "\<lparr>fe_operation_id = operation_id op, fe_reference = reference_of op, fe_identity = fst ?fi,
        fe_intent = snd ?fi, fe_event = ?event, fe_event_bytes = ?n\<rparr>"
    have prev: "\<exists>x \<in> set before. entry_ok ops x e \<and> effect_field_key (fe_event e) = ?key" if "e \<in> set ?prev" for e
      using Cons.prems(2) that unfolding frontier_ok_def by (cases "bm_get frontier ?key") auto
    have front: "returns (merge_frontier ops op ?key (fst ?fi) (snd ?fi) ?event ?n ?prev [] m1)
        (\<lambda>(kept, m'). set kept \<subseteq> set [] \<union> set ?prev \<and> all_ok ops m')"
      using prev later sub
      by (intro returns_merge_frontier [OF opv _ _ _ _ m1]) (fastforce simp: eff)+
    show "returns (bindR (merge_frontier ops op ?key (fst ?fi) (snd ?fi) ?event ?n ?prev [] m1)
        (\<lambda>r. bindR (guardR (\<not> length (fst r @ [?new]) > MAX_MERGE_FRONTIER) (ME_ResourceLimit ''merge_frontier''))
          (\<lambda>_. scan_conflicts ops xs (bm_insert ?key (fst r @ [?new]) (bm_remove ?key frontier)) (snd r)))) (all_ok ops)"
    proof (rule returns_bind [OF front], rule returns_bind_guardR)
      fix r :: "'a frontier_entry list \<times> 'a conflict_map"
      assume r: "case r of (kept, m') \<Rightarrow> set kept \<subseteq> set [] \<union> set ?prev \<and> all_ok ops m'"
      have new: "entry_ok ops op ?new" using eff by (simp add: entry_ok_def)
      have "frontier_ok ops (before @ [op]) (bm_insert ?key (fst r @ [?new]) (bm_remove ?key frontier))"
        using Cons.prems(2) r prev new unfolding frontier_ok_def
        by (fastforce split: if_splits)
      then show "returns (scan_conflicts ops xs (bm_insert ?key (fst r @ [?new]) (bm_remove ?key frontier)) (snd r)) (all_ok ops)"
        using Cons.prems(1) r by (intro Cons.IH [of "before @ [op]"]) auto
    qed
  qed
qed

lemma refines_m_ordered:
  assumes "refines op_resource (ordered_with_budget ops) v"
  shows "refines merge_resource (m_ordered ops) (map_sum ME_Operation id v)"
  unfolding m_ordered_def by (rule refines_map_err [OF refines_on_fst [OF assms]]) simp

lemma returns_conflicts:
  assumes inv: "ops_inv ops" and small: "\<And>op. op \<in> set (bm_values ops) \<Longrightarrow> length (parents op) \<le> 2 ^ 32"
  shows "returns (conflicts_with_budget ops) (\<lambda>cs. \<forall>c \<in> set cs. conflict_ok ops c)"
proof -
  obtain ys where ys: "kahn_order ops ys" and ref: "refines op_resource (ordered_with_budget ops)
      (if length ys = length ops then Inr ys else Inl OE_CyclicCausality)"
    using refines_ordered [OF inv small] by blast
  have ord: "returns (m_ordered ops) (\<lambda>xs. kahn_prefix ops ([] @ xs))"
    using ys by (intro returns_mono [OF refines_returns [OF refines_m_ordered [OF ref]]])
      (auto simp: kahn_order_def split: if_splits)
  show ?thesis
    unfolding conflicts_with_budget_def
    by (rule returns_bind_skip, rule returns_bind_skip, rule returns_bind [OF ord],
        rule returns_bind [OF returns_scan [OF inv, where before = "[]"]])
      (auto simp: frontier_ok_def intro: returns_ret)
qed

lemma with_local_usage_Inr:
  "with_local_usage m b = (Inr x, b') \<longleftrightarrow> (\<exists>u. m (b, resource_usage_default) = (Inr x, (b', u)))"
  by (auto simp: with_local_usage_def split: prod.splits)

lemma merge_run:
  assumes wa: "set_wf a" and wb: "set_wf b" and run: "merge_with_budget a b bud = (Inr out, t)"
  obtains s cs s' where "conflicts_with_budget (merged_map a b) s = (Inr cs, s')"
    "out = \<lparr>mo_merged = \<lparr>set_project_id = set_project_id a, set_operations = merged_map a b\<rparr>, mo_conflicts = cs\<rparr>"
proof -
  from run have "\<exists>m s. with_local_usage
       (bindR (map_err ME_Operation (validate_graph_with_budget m)) (\<lambda>_.
        bindR (conflicts_with_budget m) (\<lambda>conflicts.
        ret \<lparr>mo_merged = \<lparr>set_project_id = set_project_id a, set_operations = m\<rparr>,
             mo_conflicts = conflicts\<rparr>))) s = (Inr out, t)"
    unfolding merge_with_budget_def bindR_Inr_iff [of _ _ _ out] by (elim exE conjE) (intro exI, assumption)
  then obtain m s cs s' where cs: "conflicts_with_budget m s = (Inr cs, s')"
    and out: "out = \<lparr>mo_merged = \<lparr>set_project_id = set_project_id a, set_operations = m\<rparr>, mo_conflicts = cs\<rparr>"
    unfolding with_local_usage_Inr bindR_Inr_iff ret_iffs by (elim exE conjE) (rule that)
  obtain g c where gc: "refines op_resource (validate_graph_with_budget (merged_map a b)) g"
    "refines merge_resource (conflicts_with_budget (merged_map a b)) c"
    by (rule merge_parts [OF wa wb])
  obtain v where v: "refines merge_resource (merge_with_budget a b) v"
    "\<And>out. v = Inr out \<longleftrightarrow> set_project_id a = set_project_id b \<and> untampered a b \<and>
       length (merged_map a b) \<le> MAX_OPERATION_COUNT \<and> g = Inr () \<and>
       (\<exists>cs. c = Inr cs \<and> out = \<lparr>mo_merged = \<lparr>set_project_id = set_project_id a, set_operations = merged_map a b\<rparr>,
                                mo_conflicts = cs\<rparr>)"
    using refines_merge [OF wa wb gc] by blast
  from refinesD(1) [OF v(1) run] have "set_operations (mo_merged out) = merged_map a b" unfolding v(2) by auto
  with out have "m = merged_map a b" by simp
  with cs out show ?thesis by (intro that) simp_all
qed

text \<open>Two sets of one project; the second has a causal edge.\<close>

definition demo_left :: "unit operation_set" where
  "demo_left = \<lparr>set_project_id = demo_id 200,
     set_operations = demo_map [demo_apply 1 1 0 [] [88], demo_apply 2 2 0 [] [89]]\<rparr>"

definition demo_right :: "unit operation_set" where
  "demo_right = \<lparr>set_project_id = demo_id 200,
     set_operations = demo_map [demo_apply 3 3 0 [] [88], demo_apply 4 4 1 [3] [89]]\<rparr>"

lemma demo_sets_wf: "set_wf demo_left" "set_wf demo_right"
  by code_simp+

lemma demo_merge_runs:
  "\<exists>out t. merge_with_budget demo_left demo_right default_merge_budget = (Inr out, t)"
  "\<exists>out t. merge_with_budget demo_left demo_left default_merge_budget = (Inr out, t)"
proof -
  have run: "\<exists>out t. m = (Inr out, t)" if "\<not> isl (fst m)" for m :: "('a + 'b) \<times> 'c"
    using that by (cases m; cases "fst m") auto
  show "\<exists>out t. merge_with_budget demo_left demo_right default_merge_budget = (Inr out, t)"
    "\<exists>out t. merge_with_budget demo_left demo_left default_merge_budget = (Inr out, t)"
    by (rule run, code_simp)+
qed

section \<open>Properties\<close>

text \<open>
  Claim C6. A merge is the union of two sets of the same project. When it returns, the merged set
  holds exactly the operations of either side, no identifier was found with two different content
  hashes, the union respects the count limit and its causal graph is valid; sets of different
  projects and tampered duplicates are always refused. The merge of a set with itself is that set.
\<close>

theorem merge_is_union:
  assumes "set_wf a" "set_wf b"
  shows "case merge_with_budget a b bud of
      (Inr out, _) \<Rightarrow> set_project_id a = set_project_id b \<and> untampered a b \<and>
        set_project_id (mo_merged out) = set_project_id a \<and>
        (\<forall>k. bm_get (set_operations (mo_merged out)) k =
           (case bm_get (set_operations a) k of Some x \<Rightarrow> Some x | None \<Rightarrow> bm_get (set_operations b) k)) \<and>
        length (set_operations (mo_merged out)) \<le> MAX_OPERATION_COUNT \<and>
        graph_ok (set_operations (mo_merged out)) \<and> (b = a \<longrightarrow> mo_merged out = a)
    | (Inl e, _) \<Rightarrow> set_project_id a \<noteq> set_project_id b \<longrightarrow> e = ME_WrongProject \<or> merge_resource e"
proof -
  obtain g c where gc: "refines op_resource (validate_graph_with_budget (merged_map a b)) g"
    "g = Inr () \<longleftrightarrow> graph_ok (merged_map a b)"
    "refines merge_resource (conflicts_with_budget (merged_map a b)) c"
    by (rule merge_parts [OF assms])
  obtain v where v: "refines merge_resource (merge_with_budget a b) v"
    "\<And>out. v = Inr out \<longleftrightarrow> set_project_id a = set_project_id b \<and> untampered a b \<and>
       length (merged_map a b) \<le> MAX_OPERATION_COUNT \<and> g = Inr () \<and>
       (\<exists>cs. c = Inr cs \<and> out = \<lparr>mo_merged = \<lparr>set_project_id = set_project_id a, set_operations = merged_map a b\<rparr>,
                                mo_conflicts = cs\<rparr>)"
    "set_project_id a \<noteq> set_project_id b \<longrightarrow> v = Inl ME_WrongProject"
    using refines_merge [OF assms gc(1,3)] by blast
  obtain r t where run: "merge_with_budget a b bud = (r, t)" by fastforce
  show ?thesis
  proof (cases r)
    case (Inl e)
    then show ?thesis using refinesD(2) [OF v(1), of bud e t] run v(3) by auto
  next
    case (Inr out)
    then have "v = Inr out" using refinesD(1) [OF v(1)] run by blast
    then have merged: "set_project_id a = set_project_id b" "untampered a b"
      "length (merged_map a b) \<le> MAX_OPERATION_COUNT" "graph_ok (merged_map a b)"
      "mo_merged out = \<lparr>set_project_id = set_project_id a, set_operations = merged_map a b\<rparr>"
      unfolding v(2) gc(2) by auto
    have fields: "set_project_id (mo_merged out) = set_project_id a" "set_operations (mo_merged out) = merged_map a b"
      by (simp_all add: merged(5))
    have self: "b = a \<longrightarrow> mo_merged out = a"
      using merged_map_self [OF assms(1)] unfolding merged(5) by auto
    show ?thesis
      unfolding run Inr prod.case sum.case fields merged_map_get [OF assms(2), of a]
      using self by (intro conjI allI merged(1-4)) (rule refl | assumption)+
  qed
qed

theorem merge_is_union_witness:
  "case merge_with_budget demo_left demo_right default_merge_budget of
     (Inr out, _) \<Rightarrow> bm_get (set_operations (mo_merged out)) (demo_id 4) = Some (demo_apply 4 4 1 [3] [89])
   | (Inl e, _) \<Rightarrow> False"
proof -
  obtain out t where run: "merge_with_budget demo_left demo_right default_merge_budget = (Inr out, t)"
    using demo_merge_runs(1) by blast
  have get: "bm_get (set_operations demo_left) (demo_id 4) = None"
    "bm_get (set_operations demo_right) (demo_id 4) = Some (demo_apply 4 4 1 [3] [89])" by code_simp+
  show ?thesis
    using merge_is_union [OF demo_sets_wf, of default_merge_budget] unfolding run by (simp add: get)
qed

text \<open>
  Claim C22. Merging is commutative. If content hashes identify operations, then whenever one order
  of a merge returns, the other order returns the same merged set with the same conflict records, or
  runs out of its own budget.
\<close>

theorem merge_commutes:
  assumes "set_wf a" "set_wf b"
    and "\<And>k x y. bm_get (set_operations a) k = Some x \<Longrightarrow> bm_get (set_operations b) k = Some y \<Longrightarrow>
      content_hash x = content_hash y \<Longrightarrow> x = y"
    and "merge_with_budget a b bud = (Inr out, t)"
  shows "case merge_with_budget b a bud' of (Inr out', _) \<Rightarrow> out' = out | (Inl e, _) \<Rightarrow> merge_resource e"
proof -
  obtain g c where gc: "refines op_resource (validate_graph_with_budget (merged_map a b)) g"
    "refines merge_resource (conflicts_with_budget (merged_map a b)) c"
    by (rule merge_parts [OF assms(1,2)])
  obtain v where v: "refines merge_resource (merge_with_budget a b) v"
    "\<And>out. v = Inr out \<longleftrightarrow> set_project_id a = set_project_id b \<and> untampered a b \<and>
       length (merged_map a b) \<le> MAX_OPERATION_COUNT \<and> g = Inr () \<and>
       (\<exists>cs. c = Inr cs \<and> out = \<lparr>mo_merged = \<lparr>set_project_id = set_project_id a, set_operations = merged_map a b\<rparr>,
                                mo_conflicts = cs\<rparr>)"
    using refines_merge [OF assms(1,2) gc] by blast
  have out: "v = Inr out" using refinesD(1) [OF v(1) assms(4)] .
  then have unt: "untampered a b" and proj: "set_project_id a = set_project_id b" by (simp_all add: v(2))
  have swap: "merged_map b a = merged_map a b"
    by (rule merged_map_commute [OF assms(1,2) _ unt]) (rule assms(3))
  have gc': "refines op_resource (validate_graph_with_budget (merged_map b a)) g"
    "refines merge_resource (conflicts_with_budget (merged_map b a)) c"
    unfolding swap by (rule gc)+
  obtain w where w: "refines merge_resource (merge_with_budget b a) w"
    "\<And>out. w = Inr out \<longleftrightarrow> set_project_id b = set_project_id a \<and> untampered b a \<and>
       length (merged_map b a) \<le> MAX_OPERATION_COUNT \<and> g = Inr () \<and>
       (\<exists>cs. c = Inr cs \<and> out = \<lparr>mo_merged = \<lparr>set_project_id = set_project_id b, set_operations = merged_map b a\<rparr>,
                                mo_conflicts = cs\<rparr>)"
    using refines_merge [OF assms(2,1) gc'] by blast
  have "w = Inr out" using out unt proj by (simp add: v(2) w(2) swap untampered_sym [of b a])
  then show ?thesis
    using refinesD [OF w(1), of bud'] by (auto split: prod.split sum.split)
qed

theorem merge_commutes_witness:
  "merge demo_left demo_right = merge demo_right demo_left"
proof -
  obtain out t where run: "merge_with_budget demo_left demo_right default_merge_budget = (Inr out, t)"
    using demo_merge_runs(1) by blast
  have disjoint: "list_all (\<lambda>k. bm_get (set_operations demo_right) k = None) (bm_keys (set_operations demo_left))"
    by code_simp
  have "bm_get (set_operations demo_right) k = None" if "bm_get (set_operations demo_left) k = Some x" for k x
    using disjoint that by (force simp: list_all_iff dest: map_of_SomeD)
  moreover have "\<not> isl (merge demo_right demo_left)" by code_simp
  ultimately show ?thesis
    using merge_commutes [OF demo_sets_wf _ run, of default_merge_budget] run
    by (auto simp: merge_def isl_def split: prod.splits sum.splits)
qed

text \<open>
  Claim C23. Every conflict a merge reports is justified: it names two operations of the merged set
  in the order of their identifiers, neither of which is an ancestor of the other, with the effects
  they have on the reported field, and these differ as values or are toggles of different intent.
\<close>

theorem merge_conflicts_sound:
  assumes "set_wf a" "set_wf b" "merge_with_budget a b bud = (Inr out, t)" "c \<in> set (mo_conflicts out)"
  shows "conflict_ok (set_operations (mo_merged out)) c"
proof -
  obtain s cs s' where cs: "conflicts_with_budget (merged_map a b) s = (Inr cs, s')"
    and out: "out = \<lparr>mo_merged = \<lparr>set_project_id = set_project_id a, set_operations = merged_map a b\<rparr>, mo_conflicts = cs\<rparr>"
    by (rule merge_run [OF assms(1-3)])
  have "returns (conflicts_with_budget (merged_map a b)) (\<lambda>cs. \<forall>c \<in> set cs. conflict_ok (merged_map a b) c)"
    by (rule returns_conflicts [OF merged_map_inv [OF assms(1,2)]])
  from returnsD [OF this cs] assms(4) show ?thesis by (simp add: out)
qed

theorem merge_conflicts_sound_witness:
  "case merge demo_left demo_left of
     Inr out \<Rightarrow> length (mo_conflicts out) = 1 \<and> conflict_ok (set_operations (mo_merged out)) (hd (mo_conflicts out))
   | Inl e \<Rightarrow> False"
proof -
  obtain out t where run: "merge_with_budget demo_left demo_left default_merge_budget = (Inr out, t)"
    using demo_merge_runs(2) by blast
  have "case merge demo_left demo_left of Inr out \<Rightarrow> length (mo_conflicts out) = 1 | Inl e \<Rightarrow> False" by code_simp
  then have len: "length (mo_conflicts out) = 1" by (simp add: merge_def run)
  then have "hd (mo_conflicts out) \<in> set (mo_conflicts out)" by (cases "mo_conflicts out") auto
  from merge_conflicts_sound [OF demo_sets_wf(1,1) run this] len show ?thesis by (simp add: merge_def run)
qed

text \<open>
  Not every conflict is reported. Two sets exist whose merge is accepted as free of
  conflicts although it holds two concurrent operations that give the project different names and
  have no descendant in common: an equal value that a third operation wrote concurrently took the
  place of the first in the frontier, and was then superseded by a descendant that never saw the
  first. The first set, merged with itself, does report the conflict of the two operations.
\<close>

lemma merge_loses_conflict:
  "\<not> isl (bindE (merge demo_left demo_right) into_applyable) \<and>
   isl (bindE (merge demo_left demo_left) into_applyable) \<and>
   bm_get (merged_map demo_left demo_right) (demo_id 1) = Some (demo_apply 1 1 0 [] [88]) \<and>
   bm_get (merged_map demo_left demo_right) (demo_id 2) = Some (demo_apply 2 2 0 [] [89]) \<and>
   list_all (\<lambda>op. demo_id 1 \<notin> set (parents op) \<and> demo_id 2 \<notin> set (parents op))
     (bm_values (merged_map demo_left demo_right))"
  by (intro conjI) code_simp+

end
