(* ===== verification/Operation_Replay.thy ===== *)
theory Operation_Replay
  imports Operation_Merge
begin

text \<open>
  Deterministic replay (\<open>replay\<close>, \<open>replay_effects\<close>, \<open>validate_replay_semantics\<close>, \<open>replay_state\<close> of
  \<open>crates/operation-log/src/lib.rs\<close>): the effects of a set in topological order, with the state of
  every toggle. The history of toggles is a map that is only looked up, so it is a function whose
  default is the empty list.
\<close>

section \<open>The replay loop\<close>

type_synonym toggle_history = "operation_reference \<times> toggle_direction \<Rightarrow> operation_id list"

fun any_sequential ::
    "'t operation_map \<Rightarrow> operation_id list \<Rightarrow> operation_id
       \<Rightarrow> (resource_budget \<times> resource_usage, 't merge_error, bool) rsm" where
  "any_sequential ops [] oid = ret False"
| "any_sequential ops (prior # rest) oid =
     bindR (m_ancestor ops prior oid) (\<lambda>anc. if anc then ret True else any_sequential ops rest oid)"

text \<open>A toggle that finds its target already in the state it asks for.\<close>

definition repeated_toggle ::
    "'t operation_map \<Rightarrow> 't operation \<Rightarrow> operation_reference \<times> toggle_direction \<Rightarrow> toggle_history
       \<Rightarrow> (resource_budget \<times> resource_usage, 't merge_error, toggle_history) rsm" where
  "repeated_toggle ops op intent history =
     (let prior_toggles = history intent
      in bindR (m_charge WorkingSetBytes (estimated_structural_bytes (length prior_toggles))) (\<lambda>_.
         if prior_toggles \<noteq> [] then
           bindR (any_sequential ops prior_toggles (operation_id op)) (\<lambda>sequential.
           if sequential then fail ME_InvalidToggle
           else
             bindR (m_charge WorkingSetBytes ESTIMATED_STRUCTURAL_ENTRY_BYTES) (\<lambda>_.
             ret (history(intent := prior_toggles @ [operation_id op]))))
         else fail ME_InvalidToggle))"

record 't replay_state =
  rs_active :: "(operation_id, bool) btree_map"
  rs_history :: toggle_history
  rs_result :: "'t applied_effect list"

definition replay_undo ::
    "'t operation_map \<Rightarrow> 't operation \<Rightarrow> operation_reference \<Rightarrow> 't replay_state
       \<Rightarrow> (resource_budget \<times> resource_usage, 't merge_error, 't replay_state) rsm" where
  "replay_undo ops op target st =
     (if bm_get (rs_active st) (ref_operation_id target) \<noteq> Some True then
        bindR (repeated_toggle ops op (target, Toggle_Undo) (rs_history st)) (\<lambda>history.
        ret (st\<lparr>rs_history := history\<rparr>))
      else
        bindR (ok_or (bm_get ops (ref_operation_id target)) (ME_Operation OE_MissingTarget)) (\<lambda>target_op.
        bindR (m_charge WorkingSetBytes (length (canonical target_op))) (\<lambda>_.
        bindR (case as_applied_effect (inverse_of target_op) (operation_id op) of
                 Inl e \<Rightarrow> fail (ME_Operation e) | Inr eff \<Rightarrow> ret eff) (\<lambda>effect.
        bindR (m_charge WorkingSetBytes ESTIMATED_STRUCTURAL_ENTRY_BYTES) (\<lambda>_.
        ret \<lparr>rs_active = bm_insert (ref_operation_id target) False (rs_active st),
             rs_history = (rs_history st)((target, Toggle_Undo) :=
               rs_history st (target, Toggle_Undo) @ [operation_id op]),
             rs_result = rs_result st @ [effect]\<rparr>)))))"

definition replay_redo ::
    "'t operation_map \<Rightarrow> 't operation \<Rightarrow> operation_reference \<Rightarrow> 't replay_state
       \<Rightarrow> (resource_budget \<times> resource_usage, 't merge_error, 't replay_state) rsm" where
  "replay_redo ops op target st =
     (if bm_get (rs_active st) (ref_operation_id target) \<noteq> Some False then
        bindR (repeated_toggle ops op (target, Toggle_Redo) (rs_history st)) (\<lambda>history.
        ret (st\<lparr>rs_history := history\<rparr>))
      else
        bindR (ok_or (bm_get ops (ref_operation_id target)) (ME_Operation OE_MissingTarget)) (\<lambda>target_op.
        bindR (case payload target_op of Apply m \<Rightarrow> ret m | _ \<Rightarrow> fail ME_InvalidToggle) (\<lambda>mutation.
        bindR (m_charge WorkingSetBytes (length (canonical target_op))) (\<lambda>_.
        bindR (m_charge WorkingSetBytes ESTIMATED_STRUCTURAL_ENTRY_BYTES) (\<lambda>_.
        ret \<lparr>rs_active = bm_insert (ref_operation_id target) True (rs_active st),
             rs_history = (rs_history st)((target, Toggle_Redo) :=
               rs_history st (target, Toggle_Redo) @ [operation_id op]),
             rs_result = rs_result st @
               [Eff_Mutation \<lparr>am_operation_id = operation_id op, am_mutation = mutation\<rparr>]\<rparr>)))))"

definition replay_operation ::
    "'t operation_map \<Rightarrow> 't operation \<Rightarrow> 't replay_state
       \<Rightarrow> (resource_budget \<times> resource_usage, 't merge_error, 't replay_state) rsm" where
  "replay_operation ops op st =
     bindR m_check_cancelled (\<lambda>_.
     bindR (m_charge WorkingSetBytes (length (canonical op))) (\<lambda>_.
     case payload op of
       Apply m \<Rightarrow>
         ret (st\<lparr>rs_active := bm_insert (operation_id op) True (rs_active st),
                 rs_result := rs_result st @
                   [Eff_Mutation \<lparr>am_operation_id = operation_id op, am_mutation = m\<rparr>]\<rparr>)
     | Undo target \<Rightarrow> replay_undo ops op target st
     | Redo target \<Rightarrow> replay_redo ops op target st
     | Resolve l r m \<Rightarrow>
         ret (st\<lparr>rs_result := rs_result st @
                   [Eff_Mutation \<lparr>am_operation_id = operation_id op, am_mutation = m\<rparr>]\<rparr>)
     | ResolveV2 l r value \<Rightarrow>
         ret (st\<lparr>rs_result := rs_result st @ [resolution_applied_effect value (operation_id op)]\<rparr>)))"

fun replay_operations ::
    "'t operation_map \<Rightarrow> 't operation list \<Rightarrow> 't replay_state
       \<Rightarrow> (resource_budget \<times> resource_usage, 't merge_error, 't replay_state) rsm" where
  "replay_operations ops [] st = ret st"
| "replay_operations ops (op # rest) st =
     bindR (replay_operation ops op st) (\<lambda>st'. replay_operations ops rest st')"

definition replay_start :: "'t replay_state" where
  "replay_start = \<lparr>rs_active = [], rs_history = (\<lambda>_. []), rs_result = []\<rparr>"

definition replay_effects_without_conflict_check_with_budget ::
    "'t operation_map \<Rightarrow> (resource_budget \<times> resource_usage, 't merge_error,
       't applied_effect list \<times> (operation_id, bool) btree_map) rsm" where
  "replay_effects_without_conflict_check_with_budget ops =
     bindR m_check_cancelled (\<lambda>_.
     bindR (m_charge WorkingSetBytes (estimated_structural_bytes (length ops))) (\<lambda>_.
     bindR (m_ordered ops) (\<lambda>ordering.
     bindR (replay_operations ops ordering replay_start) (\<lambda>st.
     ret (rs_result st, rs_active st)))))"

section \<open>Its callers\<close>

definition replay_effects_with_budget ::
    "'t operation_set \<Rightarrow> (resource_budget, 't merge_error, 't applied_effect list) rsm" where
  "replay_effects_with_budget s =
     bindR b_check_cancelled (\<lambda>_.
     with_local_usage
       (bindR (conflicts_with_budget (set_operations s)) (\<lambda>conflicts.
        bindR (guardR (conflicts = []) (ME_Conflicts conflicts)) (\<lambda>_.
        bindR (replay_effects_without_conflict_check_with_budget (set_operations s)) (\<lambda>r.
        ret (fst r))))))"

definition replay_effects :: "'t operation_set \<Rightarrow> 't merge_error + 't applied_effect list" where
  "replay_effects s = fst (replay_effects_with_budget s default_operation_budget)"

definition validate_replay_semantics_with_budget ::
    "'t operation_set \<Rightarrow> (resource_budget, 't merge_error, unit) rsm" where
  "validate_replay_semantics_with_budget s =
     with_local_usage
       (bindR (replay_effects_without_conflict_check_with_budget (set_operations s)) (\<lambda>_. ret ()))"

definition validate_replay_semantics :: "'t operation_set \<Rightarrow> 't merge_error + unit" where
  "validate_replay_semantics s = fst (validate_replay_semantics_with_budget s default_operation_budget)"

fun into_mutations :: "'t applied_effect list \<Rightarrow> 't merge_error + 't applied_mutation list" where
  "into_mutations [] = Inr []"
| "into_mutations (eff # rest) =
     bindE (into_mutation eff) (\<lambda>m. bindE (into_mutations rest) (\<lambda>ms. Inr (m # ms)))"

definition replay_without_conflict_check_with_budget ::
    "'t operation_set \<Rightarrow> (resource_budget, 't merge_error,
       't applied_mutation list \<times> (operation_id, bool) btree_map) rsm" where
  "replay_without_conflict_check_with_budget s =
     bindR (with_local_usage (replay_effects_without_conflict_check_with_budget (set_operations s)))
       (\<lambda>(effects, active).
     case into_mutations effects of
       Inl e \<Rightarrow> fail e
     | Inr mutations \<Rightarrow> ret (mutations, active))"

definition set_conflicts :: "'t operation_set \<Rightarrow> 't merge_error + 't merge_conflict list" where
  "set_conflicts s =
     fst (conflicts_with_budget (set_operations s) (default_operation_budget, resource_usage_default))"

definition replay :: "'t operation_set \<Rightarrow> 't merge_error + 't applied_mutation list" where
  "replay s =
     bindE (set_conflicts s) (\<lambda>conflicts.
     if conflicts \<noteq> [] then Inl (ME_Conflicts conflicts)
     else bindE (fst (replay_without_conflict_check_with_budget s default_operation_budget))
            (\<lambda>r. Inr (fst r)))"

definition replay_field_state :: "'t operation_set \<Rightarrow> 't merge_error + (field_key, 't mutation) btree_map" where
  "replay_field_state s =
     bindE (replay s) (\<lambda>applied.
     Inr (fold (\<lambda>a. bm_insert (mutation_field_key (am_mutation a)) (am_mutation a)) applied []))"

section \<open>Replay of a linear log\<close>

text \<open>In a chain the only order is the history.\<close>

lemma ready_linear:
  assumes lo: "log_of project hist log" and lin: "linear_history project hist" and i: "i \<le> length hist"
  shows "ready_after (log_operations log) (take i hist) = (if i < length hist then {hist ! i} else {})"
proof -
  have parent: "operation_id (hist ! (j - 1)) \<notin> operation_id ` set (take i hist)" if "i < j" "j < length hist" for j
  proof
    assume "operation_id (hist ! (j - 1)) \<in> operation_id ` set (take i hist)"
    then obtain k where "k < i" "operation_id (hist ! k) = operation_id (hist ! (j - 1))"
      by (auto simp: in_set_conv_nth)
    moreover from this have "k < j - 1" "j - 1 < length hist" using that by linarith+
    ultimately show False using linear_distinct [OF lin] by blast
  qed
  have mem: "op \<in> ready_after (log_operations log) (take i hist) \<longleftrightarrow> i < length hist \<and> op = hist ! i" for op
  proof
    assume "op \<in> ready_after (log_operations log) (take i hist)"
    then have op: "op \<in> set hist" "operation_id op \<notin> operation_id ` set (take i hist)"
      "set (parents op) \<subseteq> operation_id ` set (take i hist)"
      by (auto simp: ready_after_def log_values [OF lo])
    from op(1) obtain j where j: "j < length hist" "op = hist ! j" by (auto simp: in_set_conv_nth)
    have "hist ! j \<in> set (take i hist)" if "j < i"
      using that i nth_mem [of j "take i hist"] by simp
    then have "\<not> j < i" using op(2) j by auto
    moreover have "\<not> i < j"
      using op(3) parent [of j] j linear_parents [OF lin j(1)] by auto
    ultimately show "i < length hist \<and> op = hist ! i" using j by (auto simp: not_less_iff_gr_or_eq)
  next
    assume op: "i < length hist \<and> op = hist ! i"
    then have "follows project (take i hist) op" using linear_follows [OF lin] by blast
    then show "op \<in> ready_after (log_operations log) (take i hist)"
      using op by (auto simp: ready_after_def log_values [OF lo] follows_def)
  qed
  then show ?thesis by auto
qed

lemma kahn_order_linear:
  assumes "log_of project hist log" "linear_history project hist"
  shows "kahn_order (log_operations log) hist"
  using ready_linear [OF assms] ready_linear [OF assms, of "length hist"]
  by (simp add: kahn_order_def kahn_prefix_def)

lemma refines_ordered_linear:
  assumes lo: "log_of project hist log" and lin: "linear_history project hist"
  shows "refines merge_resource (m_ordered (log_operations log)) (Inr hist)"
proof -
  let ?ops = "log_operations log"
  have inv: "ops_inv ?ops" and len: "length ?ops = length hist" using lo by (simp_all add: log_of_def)
  have "length (parents op) \<le> 2 ^ 32" if "op \<in> set (bm_values ?ops)" for op
    using that linear_parents [OF lin] by (auto simp: log_values [OF lo] in_set_conv_nth)
  then obtain ys where ys: "kahn_order ?ops ys" "refines op_resource (ordered_with_budget ?ops)
      (if length ys = length ?ops then Inr ys else Inl OE_CyclicCausality)"
    using refines_ordered [OF inv] by blast
  have "ys = hist" by (rule kahn_order_unique [OF inv ys(1) kahn_order_linear [OF lo lin]])
  with refines_m_ordered [OF ys(2)] len show ?thesis by simp
qed

text \<open>
  Every operation of a linear log has an effect, given that the inverses are the ones the constructor
  admits.
\<close>

abbreviation inverse_checked :: "'t operation \<Rightarrow> bool" where
  "inverse_checked op \<equiv> validate_payload_inverse (schema_version op) (payload op) (inverse_of op) = Inr ()"

lemma inverse_has_effect:
  assumes "inverse_checked op" "is_apply (payload op)" "\<not> is_non_reversible (inverse_of op)"
  shows "\<exists>eff. as_applied_effect (inverse_of op) oid = Inr eff"
proof -
  obtain m where m: "payload op = Apply m" using assms(2) by (cases "payload op") (auto simp: is_apply_def)
  then have "validate_payload_inverse (schema_version op) (Apply m) (inverse_of op) = Inr ()"
    using assms(1) by simp
  with assms(3) show ?thesis
    by (cases "schema_version op"; cases "inverse_of op")
      (auto simp: toggle_matches_def validate_for_def is_non_reversible_def
        split: if_splits inverse_prior.splits mutation.splits sum.splits)
qed

lemma linear_target:
  assumes lo: "log_of project hist log" and lin: "linear_history project hist"
    and wf: "\<forall>op \<in> set hist. inverse_checked op" and i: "i < length hist"
    and t: "target_reference (hist ! i) = Some t"
  obtains x m where "bm_get (log_operations log) (ref_operation_id t) = Some x" "payload x = Apply m"
    "\<And>oid. \<exists>eff. as_applied_effect (inverse_of x) oid = Inr eff"
    "toggles_after (take i hist) (ref_operation_id t) =
       Some (case payload (hist ! i) of Undo t' \<Rightarrow> True | _ \<Rightarrow> False)"
proof -
  from linear_follows [OF lin i] t obtain x where x: "x \<in> set (take i hist)" "reference_of x = t"
    "is_apply (payload x)" "\<not> is_non_reversible (inverse_of x)"
    and tog: "toggles_after (take i hist) (ref_operation_id t) =
       Some (case payload (hist ! i) of Undo t' \<Rightarrow> True | _ \<Rightarrow> False)"
    unfolding follows_def by blast
  have xh: "x \<in> set hist" using x(1) by (rule in_set_takeD)
  with x(2) lo have "bm_get (log_operations log) (ref_operation_id t) = Some x"
    by (auto simp: log_of_def reference_of_def)
  moreover obtain m where "payload x = Apply m" using x(3) by (cases "payload x") (auto simp: is_apply_def)
  ultimately show ?thesis
    using that inverse_has_effect [OF _ x(3,4)] wf xh tog by blast
qed

lemma linear_effect:
  assumes "log_of project hist log" "linear_history project hist" "\<forall>op \<in> set hist. inverse_checked op"
    and i: "i < length hist"
  obtains eff n where "effect_event (log_operations log) (hist ! i) = Inr (eff, n)"
proof (cases "target_reference (hist ! i)")
  case None
  then show ?thesis
    using that by (cases "payload (hist ! i)") (auto simp: effect_event_def target_reference_def)
next
  case (Some t)
  from linear_target [OF assms Some] obtain x m where x: "bm_get (log_operations log) (ref_operation_id t) = Some x"
    "payload x = Apply m" "\<And>oid. \<exists>eff. as_applied_effect (inverse_of x) oid = Inr eff" by metis
  from x(3) obtain eff where "as_applied_effect (inverse_of x) (operation_id (hist ! i)) = Inr eff" by blast
  with x Some show ?thesis
    using that by (cases "payload (hist ! i)") (auto simp: effect_event_def target_reference_def)
qed

section \<open>A linear log has no conflict\<close>

lemma refines_frontier_chain:
  assumes "\<And>e. e \<in> set previous \<Longrightarrow> is_ancestor ops (fe_operation_id e) (operation_id op)"
  shows "refines merge_resource (merge_frontier ops op key identity intent event n previous kept []) (Inr (kept, []))"
  using assms
proof (induction previous)
  case (Cons e previous)
  have anc: "refines merge_resource (m_ancestor ops (fe_operation_id e) (operation_id op)) (Inr True)"
    using refines_m_ancestor [of ops "fe_operation_id e" "operation_id op"] Cons.prems by simp
  have drop: "refines merge_resource (remove_superseded_conflicts ops [] (fe_operation_id e) (operation_id op)) (Inr [])"
    by (auto simp: remove_superseded_conflicts_def intro!: refines_bind_value [OF refines_ret] refines_ret)
  show ?case
    using Cons
    by (auto simp: Let_def intro!: refines_bind_value [OF anc] refines_bind_value [OF drop] refines_bind_value [OF refines_ret])
qed (simp add: refines_ret)


lemma refines_scan_linear:
  assumes lo: "log_of project hist log" and lin: "linear_history project hist"
    and wf: "\<forall>op \<in> set hist. inverse_checked op"
  shows "hist = before @ rest \<Longrightarrow> bm_inv frontier \<Longrightarrow>
    \<forall>key es e. bm_get frontier key = Some es \<longrightarrow> e \<in> set es \<longrightarrow> fe_operation_id e \<in> operation_id ` set before \<Longrightarrow>
    refines merge_resource (scan_conflicts (log_operations log) rest frontier []) (Inr [])"
proof (induction rest arbitrary: before frontier)
  case Nil
  then show ?case by (simp add: refines_ret)
next
  case (Cons op rest)
  let ?ops = "log_operations log"
  let ?i = "length before"
  have i: "?i < length hist" "hist ! ?i = op" using Cons.prems(1) by simp_all
  obtain eff n where eff: "effect_event ?ops op = Inr (eff, n)"
    using linear_effect [OF lo lin wf i(1)] i(2) by metis
  have no: "resolution_references op = None"
    using linear_follows [OF lin i(1)] i(2) by (simp add: follows_def)
  let ?key = "effect_value_field_key (as_effect_value eff)"
  let ?prev = "case bm_get frontier ?key of None \<Rightarrow> [] | Some es \<Rightarrow> es"
  have anc: "is_ancestor ?ops (fe_operation_id e) (operation_id op)" if "e \<in> set ?prev" for e
  proof -
    from that Cons.prems(3) have "fe_operation_id e \<in> operation_id ` set before"
      by (cases "bm_get frontier ?key") auto
    then obtain k where k: "k < ?i" "fe_operation_id e = operation_id (before ! k)"
      by (auto simp: in_set_conv_nth)
    then have "fe_operation_id e = operation_id (hist ! k)" using Cons.prems(1) by (simp add: nth_append)
    then show ?thesis
      using linear_ancestor [OF lo lin k(1) i(1)] linear_distinct [OF lin k(1) i(1)] i(2)
      by (simp add: is_ancestor_def)
  qed
  note steps = refines_bind_value [OF refines_on_fst [OF refines_effect_event [of ?ops op, unfolded eff]]]
    refines_bind_unit [OF refines_m_charge] refines_bind_value [OF refines_frontier_chain [OF anc]]
  show ?case
    unfolding scan_conflicts.simps Let_def case_prod_unfold no option.case
    using Cons.prems Cons.IH [of "before @ [op]"]
    by (intro steps refines_bind_guard_True)
      (auto simp: MAX_MERGE_FRONTIER_def MAX_CONFLICTS_def split: if_splits)
qed

lemma refines_conflicts_linear:
  assumes "log_of project hist log" "linear_history project hist" "\<forall>op \<in> set hist. inverse_checked op"
  shows "refines merge_resource (conflicts_with_budget (log_operations log)) (Inr [])"
  unfolding conflicts_with_budget_def
  by (intro refines_bind_unit [OF refines_m_check_cancelled] refines_bind_unit [OF refines_m_charge]
      refines_bind_value [OF refines_ordered_linear [OF assms(1,2)]]
      refines_bind_value [OF refines_scan_linear [OF assms, of "[]"]])
    (auto simp: refines_ret)

section \<open>The effects of a linear log\<close>

definition replayed :: "'t operation_map \<Rightarrow> 't operation list \<Rightarrow> 't replay_state \<Rightarrow> bool" where
  "replayed ops hist st \<longleftrightarrow>
     bm_inv (rs_active st) \<and> bm_get (rs_active st) = toggles_after hist \<and>
     list_all2 (\<lambda>op eff. \<exists>n. effect_event ops op = Inr (eff, n)) hist (rs_result st)"

lemma replayed_snoc:
  assumes "replayed ops hist st" "effect_event ops op = Inr (eff, n)"
    and "bm_inv (rs_active st')" "bm_get (rs_active st') = toggles_after (hist @ [op])"
    and "rs_result st' = rs_result st @ [fst (projr (effect_event ops op))]"
  shows "replayed ops (hist @ [op]) st'"
  using assms by (auto simp: replayed_def intro!: list_all2_appendI)

lemma refines_replay_operation:
  assumes lo: "log_of project hist log" and lin: "linear_history project hist"
    and wf: "\<forall>op \<in> set hist. inverse_checked op" and i: "i < length hist"
    and st: "replayed (log_operations log) (take i hist) st"
  obtains st' where "refines merge_resource (replay_operation (log_operations log) (hist ! i) st) (Inr st')"
    "replayed (log_operations log) (take i hist @ [hist ! i]) st'"
proof -
  let ?ops = "log_operations log"
  let ?op = "hist ! i"
  note skip = refines_bind_unit [OF refines_m_check_cancelled] refines_bind_unit [OF refines_m_charge]
  obtain ev n where ev: "effect_event ?ops ?op = Inr (ev, n)" by (rule linear_effect [OF lo lin wf i])
  have active: "bm_inv (rs_active st)" "bm_get (rs_active st) = toggles_after (take i hist)"
    using st by (simp_all add: replayed_def)
  show ?thesis
  proof (cases "target_reference ?op")
    case None
    let ?st = "st\<lparr>rs_active := (case payload ?op of Apply m \<Rightarrow> bm_insert (operation_id ?op) True (rs_active st)
                      | _ \<Rightarrow> rs_active st),
        rs_result := rs_result st @ [fst (projr (effect_event ?ops ?op))]\<rparr>"
    have "refines merge_resource (replay_operation ?ops ?op st) (Inr ?st)"
      unfolding replay_operation_def using None
      by (intro skip, cases "payload ?op")
        (auto simp: effect_event_def target_reference_def intro!: refines_ret)
    moreover have "replayed ?ops (take i hist @ [?op]) ?st"
      using active None by (intro replayed_snoc [OF st ev])
        (auto simp: target_reference_def toggles_after_snoc split: operation_payload.splits)
    ultimately show ?thesis by (rule that)
  next
    case (Some t)
    from linear_target [OF lo lin wf i Some] obtain x m where x: "bm_get ?ops (ref_operation_id t) = Some x"
      "payload x = Apply m" "\<exists>eff. as_applied_effect (inverse_of x) (operation_id ?op) = Inr eff"
      and tog: "toggles_after (take i hist) (ref_operation_id t) =
         Some (case payload ?op of Undo t' \<Rightarrow> True | _ \<Rightarrow> False)" by metis
    from x(3) obtain eff where eff: "as_applied_effect (inverse_of x) (operation_id ?op) = Inr eff" by blast
    have act: "bm_get (rs_active st) (ref_operation_id t) = Some (case payload ?op of Undo t' \<Rightarrow> True | _ \<Rightarrow> False)"
      using st tog by (simp add: replayed_def)
    let ?dir = "case payload ?op of Undo t' \<Rightarrow> Toggle_Undo | _ \<Rightarrow> Toggle_Redo"
    let ?st = "\<lparr>rs_active = bm_insert (ref_operation_id t) (case payload ?op of Undo t' \<Rightarrow> False | _ \<Rightarrow> True) (rs_active st),
        rs_history = (rs_history st)((t, ?dir) := rs_history st (t, ?dir) @ [operation_id ?op]),
        rs_result = rs_result st @ [fst (projr (effect_event ?ops ?op))]\<rparr>"
    have "refines merge_resource (replay_operation ?ops ?op st) (Inr ?st)"
      unfolding replay_operation_def using Some x eff act
      by (intro skip, cases "payload ?op")
        (auto simp: effect_event_def target_reference_def replay_undo_def replay_redo_def
          intro!: refines_ret refines_bind_ok_or_Some skip refines_bind_value [OF refines_ret])
    moreover have "replayed ?ops (take i hist @ [?op]) ?st"
      using active Some by (intro replayed_snoc [OF st ev])
        (auto simp: target_reference_def toggles_after_snoc split: operation_payload.splits)
    ultimately show ?thesis by (rule that)
  qed
qed


lemma refines_replay_operations:
  assumes "log_of project hist log" "linear_history project hist" "\<forall>op \<in> set hist. inverse_checked op"
  shows "hist = before @ rest \<Longrightarrow> replayed (log_operations log) before st \<Longrightarrow>
    \<exists>st'. refines merge_resource (replay_operations (log_operations log) rest st) (Inr st') \<and>
      replayed (log_operations log) hist st'"
proof (induction rest arbitrary: before st)
  case Nil
  then show ?case by (intro exI [of _ st]) (simp add: refines_ret)
next
  case (Cons op rest)
  have i: "length before < length hist" "hist ! length before = op" "take (length before) hist = before"
    using Cons.prems(1) by simp_all
  obtain st' where st': "refines merge_resource (replay_operation (log_operations log) op st) (Inr st')"
    "replayed (log_operations log) (before @ [op]) st'"
    using refines_replay_operation [OF assms i(1)] Cons.prems(2) unfolding i by metis
  have "hist = (before @ [op]) @ rest" using Cons.prems(1) by simp
  from Cons.IH [OF this st'(2)] obtain st'' where
    "refines merge_resource (replay_operations (log_operations log) rest st') (Inr st'')"
    "replayed (log_operations log) hist st''" by blast
  then show ?case using refines_bind_value [OF st'(1)] by auto
qed

lemma refines_replay_linear:
  assumes "log_of project hist log" "linear_history project hist" "\<forall>op \<in> set hist. inverse_checked op"
  obtains st where "replayed (log_operations log) hist st"
    "refines merge_resource (replay_effects_without_conflict_check_with_budget (log_operations log))
       (Inr (rs_result st, rs_active st))"
proof -
  have "replayed (log_operations log) [] replay_start"
    by (simp add: replayed_def replay_start_def toggles_after_def)
  from refines_replay_operations [OF assms, OF _ this, of hist] obtain st where
    st: "refines merge_resource (replay_operations (log_operations log) hist replay_start) (Inr st)"
    "replayed (log_operations log) hist st" by auto
  have "refines merge_resource (replay_effects_without_conflict_check_with_budget (log_operations log))
       (Inr (rs_result st, rs_active st))"
    unfolding replay_effects_without_conflict_check_with_budget_def
    by (rule refines_bind_unit [OF refines_m_check_cancelled] refines_bind_unit [OF refines_m_charge]
      refines_bind_value [OF refines_ordered_linear [OF assms(1,2)]] refines_bind_value [OF st(1)] refines_ret)+
  with st(2) show ?thesis by (rule that)
qed

text \<open>
  Claim C7. Replay of a log under any budget gives, in the order of the appends, exactly the effect of
  each operation (the mutation of an applied, redone or resolved edit, the recorded inverse of an
  undone one), or stops with a resource error; no conflict is reported and no toggle refused.
\<close>

theorem replay_of_log:
  assumes "log_run project hist log" "\<forall>op \<in> set hist. inverse_checked op"
    and "set_operations s = log_operations log"
  shows "case fst (replay_effects_with_budget s budget) of
      Inr effects \<Rightarrow> list_all2 (\<lambda>op eff. \<exists>n. effect_event (log_operations log) op = Inr (eff, n)) hist effects
    | Inl e \<Rightarrow> merge_resource e"
proof -
  have lin: "log_of project hist log" "linear_history project hist" using log_run_linear [OF assms(1)] by auto
  obtain st where st: "replayed (log_operations log) hist st"
    "refines merge_resource (replay_effects_without_conflict_check_with_budget (log_operations log))
       (Inr (rs_result st, rs_active st))"
    by (rule refines_replay_linear [OF lin assms(2)])
  have "refines merge_resource (replay_effects_with_budget s) (Inr (rs_result st))"
    unfolding replay_effects_with_budget_def assms(3)
    by (intro refines_bind_unit [OF refines_b_check_cancelled] refines_with_local_usage
        refines_bind_value [OF refines_conflicts_linear [OF lin assms(2)]] refines_bind_guard_True
        refines_bind_value [OF st(2)]) (simp_all add: refines_ret)
  moreover obtain r b where run: "replay_effects_with_budget s budget = (r, b)" by fastforce
  ultimately show ?thesis
    using st(1) refinesD [of merge_resource "replay_effects_with_budget s"]
    by (cases r) (fastforce simp: replayed_def)+
qed


lemma demo_undone_run:
  "\<exists>log. log_run (demo_id 200) [demo_apply 2 1 0 [] [67], demo_undo 4 5 1 [2] 2] log \<and>
     log_operations log = demo_map [demo_apply 2 1 0 [] [67], demo_undo 4 5 1 [2] 2]"
proof -
  obtain log where log: "append_operation (demo_undo 4 5 1 [2] 2) demo_log = (Inr (Appended 2), log)"
    "log_operations log = demo_map [demo_apply 2 1 0 [] [67], demo_undo 4 5 1 [2] 2]"
  proof -
    have "(case append_operation (demo_undo 4 5 1 [2] 2) demo_log of (r, log) \<Rightarrow>
        r = Inr (Appended 2) \<and> log_operations log = demo_map [demo_apply 2 1 0 [] [67], demo_undo 4 5 1 [2] 2])"
      by code_simp
    then show ?thesis using that by (auto split: prod.splits)
  qed
  from log_run.appended [OF demo_log_run log(1)] log(2) show ?thesis by auto
qed

theorem replay_of_log_witness:
  "\<exists>effects. fst (replay_effects_with_budget \<lparr>set_project_id = demo_id 200,
        set_operations = demo_map [demo_apply 2 1 0 [] [67], demo_undo 4 5 1 [2] 2]\<rparr> default_operation_budget) =
      Inr effects \<and> length effects = 2"
proof -
  let ?hist = "[demo_apply 2 1 0 [] [67], demo_undo 4 5 1 [2] 2]"
  let ?s = "\<lparr>set_project_id = demo_id 200, set_operations = demo_map ?hist\<rparr>"
  obtain log where log: "log_run (demo_id 200) ?hist log" "log_operations log = demo_map ?hist"
    using demo_undone_run by blast
  have "\<forall>op \<in> set ?hist. inverse_checked op" by code_simp
  from replay_of_log [OF log(1) this, of ?s default_operation_budget]
  have "case fst (replay_effects_with_budget ?s default_operation_budget) of
      Inr effects \<Rightarrow> length effects = 2 | Inl e \<Rightarrow> merge_resource e"
    by (auto simp: log(2) dest: list_all2_lengthD split: sum.splits)
  moreover have "case fst (replay_effects_with_budget ?s default_operation_budget) of Inr _ \<Rightarrow> True | Inl _ \<Rightarrow> False"
    by code_simp
  ultimately show ?thesis by (auto split: sum.splits)
qed

end
