(* ===== verification/Domain_Observation.thy ===== *)
theory Domain_Observation
  imports Domain_Identity
begin

text \<open>
  The values a survey works on: units, clocks, capabilities, poses and observation envelopes of
  \<open>crates/domain\<close> (\<open>units.rs\<close>, \<open>time.rs\<close>, \<open>capability.rs\<close>, \<open>spatial.rs\<close>, \<open>observation.rs\<close> and
  \<open>observation/reception.rs\<close>).

  Floating-point numbers are the type parameter \<open>'f\<close>; the IEEE 754 operations the source applies to
  them are the record \<open>f64_ops\<close>. The constructors of \<open>units.rs\<close> refuse non-finite numbers and replace
  \<open>-0.0\<close> by \<open>0.0\<close>, so the derived \<open>PartialEq\<close> of a unit is the equality of its values. Schema version
  tags, which have a single value, are left out of the records.
\<close>

section \<open>Results\<close>

declare bindE_Inr_iff [simp]

lemma as_known_Some_iff [simp]: "as_known v = Some x \<longleftrightarrow> v = Known x"
  by (cases v) auto

lemma as_known_None_iff [simp]: "as_known v = None \<longleftrightarrow> (\<exists>r. v = Unknown r)"
  by (cases v) auto

section \<open>Units\<close>

record 'f f64_ops =
  f_lit :: "int \<Rightarrow> 'f"
  f_of_u64 :: "u64 \<Rightarrow> 'f"
  f_to_u64 :: "'f \<Rightarrow> u64"
  f_add :: "'f \<Rightarrow> 'f \<Rightarrow> 'f"
  f_sub :: "'f \<Rightarrow> 'f \<Rightarrow> 'f"
  f_mul :: "'f \<Rightarrow> 'f \<Rightarrow> 'f"
  f_div :: "'f \<Rightarrow> 'f \<Rightarrow> 'f"
  f_neg :: "'f \<Rightarrow> 'f"
  f_sin_cos :: "'f \<Rightarrow> 'f \<times> 'f"
  f_hypot :: "'f \<Rightarrow> 'f \<Rightarrow> 'f"
  f_sqrt :: "'f \<Rightarrow> 'f"
  f_ceil :: "'f \<Rightarrow> 'f"
  f_is_finite :: "'f \<Rightarrow> bool"
  f_eq :: "'f \<Rightarrow> 'f \<Rightarrow> bool"
  f_lt :: "'f \<Rightarrow> 'f \<Rightarrow> bool"
  f_le :: "'f \<Rightarrow> 'f \<Rightarrow> bool"

datatype quantity =
  Dimensionless | Dbm | Db | Milliwatts | Hertz | Megahertz | Gigahertz | Meters | CoordinateMeters
| MetersPerPixel | Pixels | Seconds | Milliseconds | SignedSeconds | Mbps | Probability | Percentage
| Radians | Degrees | PartsPerMillion

definition quantity_name :: "quantity \<Rightarrow> string" where
  "quantity_name q =
     (case q of
        Dimensionless \<Rightarrow> ''Dimensionless'' | Dbm \<Rightarrow> ''Dbm'' | Db \<Rightarrow> ''Db'' | Milliwatts \<Rightarrow> ''Milliwatts''
      | Hertz \<Rightarrow> ''Hertz'' | Megahertz \<Rightarrow> ''Megahertz'' | Gigahertz \<Rightarrow> ''Gigahertz'' | Meters \<Rightarrow> ''Meters''
      | CoordinateMeters \<Rightarrow> ''CoordinateMeters'' | MetersPerPixel \<Rightarrow> ''MetersPerPixel'' | Pixels \<Rightarrow> ''Pixels''
      | Seconds \<Rightarrow> ''Seconds'' | Milliseconds \<Rightarrow> ''Milliseconds'' | SignedSeconds \<Rightarrow> ''SignedSeconds''
      | Mbps \<Rightarrow> ''Mbps'' | Probability \<Rightarrow> ''Probability'' | Percentage \<Rightarrow> ''Percentage'' | Radians \<Rightarrow> ''Radians''
      | Degrees \<Rightarrow> ''Degrees'' | PartsPerMillion \<Rightarrow> ''PartsPerMillion'')"

definition quantity_valid :: "'f f64_ops \<Rightarrow> quantity \<Rightarrow> 'f \<Rightarrow> bool" where
  "quantity_valid F q v =
     (case q of
        Milliwatts \<Rightarrow> f_lt F (f_lit F 0) v
      | Hertz \<Rightarrow> f_lt F (f_lit F 0) v
      | Megahertz \<Rightarrow> f_lt F (f_lit F 0) v
      | Gigahertz \<Rightarrow> f_lt F (f_lit F 0) v
      | MetersPerPixel \<Rightarrow> f_lt F (f_lit F 0) v
      | Meters \<Rightarrow> f_le F (f_lit F 0) v
      | Seconds \<Rightarrow> f_le F (f_lit F 0) v
      | Milliseconds \<Rightarrow> f_le F (f_lit F 0) v
      | Mbps \<Rightarrow> f_le F (f_lit F 0) v
      | Probability \<Rightarrow> f_le F (f_lit F 0) v \<and> f_le F v (f_lit F 1)
      | Percentage \<Rightarrow> f_le F (f_lit F 0) v \<and> f_le F v (f_lit F 100)
      | _ \<Rightarrow> True)"

definition quantity_new :: "'f f64_ops \<Rightarrow> quantity \<Rightarrow> 'f \<Rightarrow> validation_error + 'f" where
  "quantity_new F q v =
     (if \<not> f_is_finite F v then Inl (NonFinite (quantity_name q))
      else if \<not> quantity_valid F q v then Inl (OutOfRange (quantity_name q))
      else Inr (if f_eq F v (f_lit F 0) then f_lit F 0 else v))"

definition dbm_difference :: "'f f64_ops \<Rightarrow> 'f \<Rightarrow> 'f \<Rightarrow> validation_error + 'f" where
  "dbm_difference F a b = quantity_new F Db (f_sub F a b)"

section \<open>Clocks\<close>

type_synonym clock_epoch_id = octets

record monotonic_timestamp =
  ts_epoch :: clock_epoch_id
  nanoseconds :: u64

definition elapsed_since ::
    "'f f64_ops \<Rightarrow> monotonic_timestamp \<Rightarrow> monotonic_timestamp \<Rightarrow> validation_error + 'f" where
  "elapsed_since F t earlier =
     (if ts_epoch t \<noteq> ts_epoch earlier then Inl ClockEpochMismatch
      else if nanoseconds t < nanoseconds earlier then Inl ReversedTime
      else quantity_new F Seconds
             (f_div F (f_of_u64 F (nanoseconds t - nanoseconds earlier)) (f_lit F 1000000000)))"

record 'f wall_clock_reading =
  wall_time :: int
  wall_source :: utext
  wall_precision :: 'f
  wall_uncertainty :: "'f evidence"

record 'f clock_model =
  cm_epoch :: clock_epoch_id
  cm_reference_monotonic_nanoseconds :: u64
  cm_reference_utc :: int
  cm_offset_to_reference :: "'f evidence"
  cm_drift :: "'f evidence"
  cm_error :: "'f evidence"
  cm_method_version :: utext

record 'f capture_time =
  wall :: "'f wall_clock_reading evidence"
  monotonic :: "monotonic_timestamp evidence"
  synchronization :: "'f clock_model evidence"

record monotonic_window =
  win_start :: monotonic_timestamp
  win_end :: monotonic_timestamp

definition window_new ::
    "'f f64_ops \<Rightarrow> monotonic_timestamp \<Rightarrow> monotonic_timestamp \<Rightarrow> validation_error + monotonic_window" where
  "window_new F s e = bindE (elapsed_since F e s) (\<lambda>_. Inr \<lparr>win_start = s, win_end = e\<rparr>)"

definition window_contains :: "monotonic_window \<Rightarrow> monotonic_timestamp \<Rightarrow> bool" where
  "window_contains w t \<longleftrightarrow>
     ts_epoch t = ts_epoch (win_start w) \<and> nanoseconds t \<ge> nanoseconds (win_start w) \<and>
     nanoseconds t \<le> nanoseconds (win_end w)"

section \<open>Capabilities\<close>

datatype capability =
  NearbyScan | CurrentLink | MonitorFrames | ChannelControl | ChannelHopping | Radiotap | NoiseDbm
| PerChainSignal | CapFcs | RetryFlag | PhyMetadata | ConcurrentManagedMonitor | ActiveProbes
| SpectrumSweep | Gps | CapPose | Band2Ghz | Band5Ghz | Band6Ghz

datatype capability_state =
  Available utext
| Conditional utext utext
| Unavailable unknown_reason utext

datatype raw_payload_policy = DiscardPayload | ExplicitRetention utext u64

record 'f capability_document =
  cap_collector_id :: octets
  cap_collector_version :: utext
  cap_probed_at :: "'f capture_time"
  cap_entries :: "capability \<Rightarrow> capability_state option"
  cap_raw_payload_policy :: raw_payload_policy

fun require_available :: "'f capability_document \<Rightarrow> capability list \<Rightarrow> validation_error + unit" where
  "require_available d [] = Inr ()"
| "require_available d (c # cs) =
     (case cap_entries d c of
        Some (Available _) \<Rightarrow> require_available d cs
      | _ \<Rightarrow> Inl (Inconsistent ''required capability not available''))"

section \<open>Poses\<close>

record 'f point3 =
  pt_x :: 'f
  pt_y :: 'f
  pt_z :: 'f

record 'f orientation =
  yaw :: 'f
  pitch :: 'f
  roll :: 'f

text \<open>The packed covariance holds xx, xy, xz, yy, yz, zz.\<close>

record 'f pose_reference =
  pose_id :: octets
  pose_frame_id :: frame_id
  assignment_version :: utext
  pose_position :: "'f point3"
  pose_covariance :: "'f list evidence"
  pose_orientation :: "'f orientation evidence"
  pose_method_version :: utext

section \<open>Observations\<close>

datatype source_kind =
  NativeApi | NativeMonitor | RemoteApi | DatabaseImport | PacketImport | Controller | SpectrumDevice
| Mobile | SyntheticFixtureSource

record source_descriptor =
  src_source_id :: octets
  src_collector_id :: octets
  src_sensor_id :: "octets evidence"
  src_adapter_id :: "octets evidence"
  src_kind :: source_kind
  src_source_name :: utext
  src_source_version :: "utext evidence"
  src_source_schema_version :: utext
  src_adapter_name :: utext
  src_adapter_version :: utext
  src_parser_version :: utext
  src_driver_version :: "utext evidence"
  src_os_version :: "utext evidence"

datatype band = Ghz2_4 | Ghz5 | Ghz6 | OtherBand

record 'f channel_context =
  ch_band :: "band evidence"
  ch_primary_channel :: "u16 evidence"
  ch_primary_frequency :: "'f evidence"
  ch_center_frequency :: "'f evidence"
  ch_second_center_frequency :: "'f evidence"
  ch_width :: "'f evidence"
  ch_puncturing :: "u16 evidence"

record 'f dwell_context =
  dw_schedule_id :: "octets evidence"
  dw_cycle_index :: "u64 evidence"
  dw_tuned_channel :: "'f channel_context"
  dw_window :: "monotonic_window evidence"
  dw_reported_duration :: "'f evidence"
  dw_method_version :: utext

record radio_identity_evidence =
  rid_physical_device :: "octets evidence"
  rid_radio :: "octets evidence"
  rid_bss :: "octets evidence"
  rid_bssid :: "octets evidence"
  rid_ess :: "octets evidence"
  rid_mld :: "octets evidence"
  rid_link_id :: "u8 evidence"
  rid_client :: "octets evidence"
  rid_grouping_evidence :: "artifact_reference evidence"

datatype calibration_state =
  Uncalibrated
| CalReference calibration_id utext
| OutsideValidRange calibration_id utext

record 'f chain_signal =
  chain_index :: u8
  chain_rssi_dbm :: "'f evidence"
  chain_noise_dbm :: "'f evidence"

record 'f signal_reading =
  rssi_dbm :: "'f evidence"
  noise_dbm :: "'f evidence"
  chains :: "'f chain_signal list"
  sig_calibration :: "calibration_state evidence"
  measurement_method :: utext

record 'f scan_observation =
  scan_identity :: radio_identity_evidence
  scan_ssid :: "octets evidence"
  scan_signal :: "'f signal_reading"
  scan_information_elements :: "artifact_reference evidence"
  scan_result_age :: "'f evidence"

record 'f frame_metadata =
  fm_identity :: radio_identity_evidence
  fm_signal :: "'f signal_reading"
  fm_frame_type :: "u8 evidence"
  fm_frame_subtype :: "u8 evidence"
  fm_retry :: "bool evidence"
  fm_length_bytes :: u32
  fm_phy_rate_mbps :: "'f evidence"
  fm_raw_information_elements :: "artifact_reference evidence"

datatype quality_flag =
  Throttled | Hopping | Stale | InferredTimestamp | MalformedFlag | Saturated | DroppedEvents
| Disconnected | PartialCapture | ContradictorySourceFields | UnknownCalibration | ClockUncertain
| SyntheticFixture

record capture_health =
  ch_dropped_events :: "u64 evidence"
  ch_queued_events :: "u64 evidence"
  ch_connected :: "bool evidence"
  ch_diagnostic :: utext

datatype 'f observation_payload =
  Scan "'f scan_observation"
| Frame "'f frame_metadata"
| Health capture_health

datatype identifier_policy = ProjectPseudonymized | OwnedInfrastructure | ExplicitResearchConsent | RedactedIds

datatype payload_retention = Discarded | Retained utext int | RetentionNotApplicable

record privacy_state =
  policy_version :: utext
  identifiers :: identifier_policy
  priv_payload :: payload_retention

record 'f envelope_data =
  env_id :: octets
  env_session_id :: octets
  env_source :: source_descriptor
  env_time :: "'f capture_time"
  env_pose :: "'f pose_reference evidence"
  env_channel :: "'f channel_context evidence"
  env_dwell :: "'f dwell_context evidence"
  env_privacy :: privacy_state
  env_quality :: "quality_flag list"
  env_raw_source :: "artifact_reference evidence"
  env_payload :: "'f observation_payload"

text \<open>The signal of a payload, after the checks on a frame's type and subtype.\<close>

definition payload_signal :: "'f observation_payload \<Rightarrow> validation_error + 'f signal_reading option" where
  "payload_signal p =
     (case p of
        Scan scan \<Rightarrow> Inr (Some (scan_signal scan))
      | Frame frame \<Rightarrow>
          if (case fm_frame_type frame of Known t \<Rightarrow> t > 3 | Unknown _ \<Rightarrow> False) \<or>
             (case fm_frame_subtype frame of Known t \<Rightarrow> t > 15 | Unknown _ \<Rightarrow> False)
          then Inl (OutOfRange ''frame type/subtype'') else Inr (Some (fm_signal frame))
      | Health _ \<Rightarrow> Inr None)"

definition envelope_new :: "'f envelope_data \<Rightarrow> validation_error + 'f envelope_data" where
  "envelope_new d =
     (if length (env_quality d) > 32 then Inl (ResourceLimit ''quality flags'')
      else if src_kind (env_source d) = SyntheticFixtureSource \<and> SyntheticFixture \<notin> set (env_quality d)
      then Inl (Inconsistent ''fixture must be labeled'')
      else if (case (monotonic (env_time d), synchronization (env_time d)) of
                 (Known t, Known m) \<Rightarrow> ts_epoch t \<noteq> cm_epoch m | _ \<Rightarrow> False)
      then Inl ClockEpochMismatch
      else if (case (monotonic (env_time d), env_dwell d) of
                 (Known t, Known dw) \<Rightarrow>
                   (case dw_window dw of Known w \<Rightarrow> \<not> window_contains w t | Unknown _ \<Rightarrow> False)
               | _ \<Rightarrow> False)
      then Inl (Inconsistent ''capture outside dwell'')
      else bindE (payload_signal (env_payload d)) (\<lambda>signal.
        case signal of
          None \<Rightarrow> Inr d
        | Some s \<Rightarrow>
            if length (chains s) > 16 then Inl (ResourceLimit ''signal chains'')
            else if \<not> distinct (map chain_index (chains s)) then Inl (Inconsistent ''duplicate signal chain'')
            else Inr d))"

lemma envelope_new_same: "envelope_new d = Inr e \<Longrightarrow> e = d"
  by (auto simp: envelope_new_def split: if_splits option.splits)

lemma envelope_new_quality: "envelope_new d = Inr d \<Longrightarrow> length (env_quality d) \<le> 32"
  by (auto simp: envelope_new_def split: if_splits)

lemma envelope_new_dwell:
  assumes "envelope_new d = Inr d" "monotonic (env_time d) = Known t" "env_dwell d = Known dw" "dw_window dw = Known w"
  shows "window_contains w t"
  using assms by (auto simp: envelope_new_def split: if_splits)

section \<open>Receipts\<close>

record 'f source_response_timing =
  returned_at :: "'f capture_time"
  api_window :: "monotonic_window evidence"

definition response_new ::
    "'f f64_ops \<Rightarrow> 'f capture_time \<Rightarrow> monotonic_window evidence
       \<Rightarrow> validation_error + 'f source_response_timing" where
  "response_new F returned window =
     bindE (case synchronization returned of
              Known model \<Rightarrow>
                if (case monotonic returned of Known t \<Rightarrow> cm_epoch model \<noteq> ts_epoch t | Unknown _ \<Rightarrow> False) \<or>
                   (case window of Known w \<Rightarrow> cm_epoch model \<noteq> ts_epoch (win_start w) | Unknown _ \<Rightarrow> False)
                then Inl ClockEpochMismatch else Inr ()
            | Unknown _ \<Rightarrow> Inr ()) (\<lambda>_.
     bindE (case (monotonic returned, window) of
              (Known t, Known w) \<Rightarrow> bindE (elapsed_since F t (win_end w)) (\<lambda>_. Inr ())
            | _ \<Rightarrow> Inr ()) (\<lambda>_.
     Inr \<lparr>returned_at = returned, api_window = window\<rparr>))"

record 'f received_observation =
  rcv_envelope :: "'f envelope_data"
  rcv_source_response :: "'f source_response_timing evidence"

definition received_new ::
    "'f f64_ops \<Rightarrow> 'f envelope_data \<Rightarrow> 'f source_response_timing evidence
       \<Rightarrow> validation_error + 'f received_observation" where
  "received_new F envelope response =
     bindE (case response of
              Known r \<Rightarrow>
                (case (monotonic (env_time envelope), monotonic (returned_at r)) of
                   (Known captured, Known returned) \<Rightarrow>
                     if ts_epoch captured = ts_epoch returned
                     then bindE (elapsed_since F returned captured) (\<lambda>_. Inr ()) else Inr ()
                 | _ \<Rightarrow> Inr ())
            | Unknown _ \<Rightarrow> Inr ()) (\<lambda>_.
     Inr \<lparr>rcv_envelope = envelope, rcv_source_response = response\<rparr>)"

section \<open>An instance of the arithmetic\<close>

text \<open>Exact integers in the place of floating-point numbers.\<close>

definition int_ops :: "int f64_ops" where
  "int_ops = \<lparr>f_lit = id, f_of_u64 = uint, f_to_u64 = of_int, f_add = (+), f_sub = (-), f_mul = (*), f_div = (div),
     f_neg = uminus, f_sin_cos = (\<lambda>_. (0, 1)), f_hypot = (\<lambda>a b. \<bar>a\<bar> + \<bar>b\<bar>), f_sqrt = id, f_ceil = id, f_is_finite = (\<lambda>_. True), f_eq = (=), f_lt = (<), f_le = (\<le>)\<rparr>"

lemma int_ops_simps [simp]:
  "f_lit int_ops = id" "f_of_u64 int_ops = uint" "f_to_u64 int_ops = of_int" "f_mul int_ops = (*)" "f_div int_ops = (div)"
  "f_sub int_ops = (-)" "f_ceil int_ops = id" "f_is_finite int_ops = (\<lambda>_. True)" "f_eq int_ops = (=)" "f_lt int_ops = (<)"
  "f_le int_ops = (\<le>)"
  by (simp_all add: int_ops_def)

end
