(* ===== verification/Survey_Config.thy ===== *)
theory Survey_Config
  imports Domain_Observation BTree_Map
begin

text \<open>
  The configuration of a survey point, \<open>crates/survey/src/config.rs\<close>, with the errors and the
  duration conversions of \<open>crates/survey/src/lib.rs\<close>.
\<close>

definition MAX_RECORDS :: nat where "MAX_RECORDS = 4096"
definition MAX_WINDOWS :: nat where "MAX_WINDOWS = 1024"

text \<open>\<open>SE_Panic\<close> is not a value of the source: it stands for a failed \<open>expect\<close> and for arithmetic overflow.\<close>

datatype survey_error =
  InvalidConfiguration
| UnsupportedCapabilities "capability list"
| InvalidTransition
| WrongClock
| SE_ReversedTime
| WrongSession
| WrongSource
| WrongFrame
| PoseUnavailable
| PoseOutsidePoint
| PoseUncertain
| TimestampUnavailable
| StaleScan
| InconsistentScanAge
| CaptureOutsidePoint
| FutureCapture
| FutureDwell
| DuplicateObservation
| DuplicateSourceSample
| DuplicateAssociation
| AssociationTimeUnavailable
| AssociationOutsidePoint
| AssociationAmbiguous
| UnsupportedPayload
| UnusableQuality
| NotReady
| InvalidSnapshot
| SE_Limit
| SE_Panic

definition nanos :: "'f f64_ops \<Rightarrow> 'f \<Rightarrow> survey_error + u64" where
  "nanos F s =
     (let n = f_ceil F (f_mul F s (f_lit F 1000000000)) in
      if \<not> f_is_finite F n \<or> f_le F (f_of_u64 F (- 1)) n then Inl InvalidConfiguration
      else Inr (f_to_u64 F n))"

definition seconds :: "'f f64_ops \<Rightarrow> u64 \<Rightarrow> survey_error + 'f" where
  "seconds F n =
     (case quantity_new F Seconds (f_div F (f_of_u64 F n) (f_lit F 1000000000)) of
        Inl _ \<Rightarrow> Inl SE_Panic
      | Inr s \<Rightarrow> Inr s)"

section \<open>Point identities\<close>

definition point_id_from_bytes :: "octets \<Rightarrow> validation_error + octets" where
  "point_id_from_bytes bytes = (if bytes = replicate 16 0 then Inl InvalidIdentity else Inr bytes)"

definition database_key :: "octets \<Rightarrow> u8 list" where
  "database_key bytes = concat (map (\<lambda>b. [hex_digit (drop_bit 4 b), hex_digit (b AND 0x0f)]) bytes)"

definition from_database_key :: "u8 list \<Rightarrow> validation_error + octets" where
  "from_database_key value =
     (if length value \<noteq> 32 \<or> \<not> list_all is_hex_digit value then Inl InvalidIdentity
      else point_id_from_bytes (hex_pairs value))"

section \<open>Configuration\<close>

datatype capture_mode = ScanMode | FrameMode

datatype point_metric = Rssi | Noise | Snr

fun metric_rank :: "point_metric \<Rightarrow> nat" where
  "metric_rank Rssi = 0"
| "metric_rank Noise = 1"
| "metric_rank Snr = 2"

lemma metric_rank_inject [simp]: "metric_rank a = metric_rank b \<longleftrightarrow> a = b"
  by (cases a; cases b) simp_all

instantiation point_metric :: linorder
begin

definition less_eq_point_metric :: "point_metric \<Rightarrow> point_metric \<Rightarrow> bool" where
  "a \<le> b \<longleftrightarrow> metric_rank a \<le> metric_rank b"

definition less_point_metric :: "point_metric \<Rightarrow> point_metric \<Rightarrow> bool" where
  "a < b \<longleftrightarrow> metric_rank a < metric_rank b"

instance
  by standard (auto simp: less_eq_point_metric_def less_point_metric_def)

end

record 'f channel_requirement =
  cr_frequency :: 'f
  cr_minimum_dwell :: 'f

datatype survey_target = AnyBssid | TargetBssid octets

datatype 'f pose_policy = ManualAnchor 'f | RequireReported 'f 'f

record 'f point_config =
  cfg_point_id :: octets
  cfg_session_id :: octets
  cfg_anchor :: "'f pose_reference"
  cfg_map_calibration :: "calibration_id evidence"
  cfg_source_id :: octets
  cfg_collector_id :: octets
  cfg_adapter_version :: utext
  cfg_epoch :: clock_epoch_id
  cfg_capabilities :: "'f capability_document"
  cfg_mode :: capture_mode
  cfg_required_capabilities :: "capability list"
  cfg_metrics :: "(point_metric, u32) btree_map"
  cfg_channels :: "'f channel_requirement list"
  cfg_minimum_active_time :: 'f
  cfg_maximum_scan_age :: 'f
  cfg_target :: survey_target
  cfg_pose_policy :: "'f pose_policy"
  cfg_allow_synthetic :: bool
  cfg_method_version :: utext

definition check_covariance :: "'f f64_ops \<Rightarrow> 'f pose_reference \<Rightarrow> 'f \<Rightarrow> survey_error + unit" where
  "check_covariance F pose maximum =
     bindE (some_or (as_known (pose_covariance pose)) PoseUnavailable) (\<lambda>covariance.
     if \<exists>v \<in> {covariance ! 0, covariance ! 3, covariance ! 5}. f_lt F maximum (f_sqrt F v)
     then Inl PoseUncertain else Inr ())"

text \<open>The loop over the channels, each compared with those before it.\<close>

fun check_channels ::
    "'f f64_ops \<Rightarrow> 'f channel_requirement list \<Rightarrow> 'f channel_requirement list \<Rightarrow> survey_error + unit" where
  "check_channels F seen [] = Inr ()"
| "check_channels F seen (c # cs) =
     (if f_eq F (cr_minimum_dwell c) (f_lit F 0) \<or> (\<exists>s \<in> set seen. cr_frequency s = cr_frequency c)
      then Inl InvalidConfiguration
      else bindE (nanos F (cr_minimum_dwell c)) (\<lambda>_. check_channels F (seen @ [c]) cs))"

definition point_config_new :: "'f f64_ops \<Rightarrow> 'f point_config \<Rightarrow> survey_error + 'f point_config" where
  "point_config_new F d =
     (if bm_get (cfg_metrics d) Rssi = None \<or> (\<exists>v \<in> set (bm_values (cfg_metrics d)). unat v > MAX_RECORDS) \<or>
         length (cfg_channels d) > 256 \<or> length (cfg_required_capabilities d) > 32
      then Inl InvalidConfiguration
      else if cap_collector_id (cfg_capabilities d) \<noteq> cfg_collector_id d \<or>
              cap_collector_version (cfg_capabilities d) \<noteq> cfg_adapter_version d
      then Inl InvalidConfiguration
      else
        bindE (check_channels F [] (cfg_channels d)) (\<lambda>_.
        bindE (nanos F (cfg_minimum_active_time d)) (\<lambda>_.
        bindE (nanos F (cfg_maximum_scan_age d)) (\<lambda>_.
        bindE (case cfg_pose_policy d of
                 RequireReported _ maximum_axis_stddev \<Rightarrow> check_covariance F (cfg_anchor d) maximum_axis_stddev
               | ManualAnchor _ \<Rightarrow> Inr ()) (\<lambda>_.
        Inr d)))))"

definition preflight :: "'f point_config \<Rightarrow> survey_error + unit" where
  "preflight cfg =
     (let required = cfg_required_capabilities cfg @
            [case cfg_mode cfg of ScanMode \<Rightarrow> NearbyScan | FrameMode \<Rightarrow> MonitorFrames] @
            (if bm_get (cfg_metrics cfg) Noise \<noteq> None \<or> bm_get (cfg_metrics cfg) Snr \<noteq> None then [NoiseDbm] else []);
          missing = filter (\<lambda>c. require_available (cfg_capabilities cfg) [c] \<noteq> Inr ()) required
      in if missing \<noteq> [] then Inl (UnsupportedCapabilities missing) else Inr ())"

definition check_pose :: "'f f64_ops \<Rightarrow> 'f point_config \<Rightarrow> 'f pose_reference evidence \<Rightarrow> survey_error + unit" where
  "check_pose F cfg pose =
     (case pose of
        Unknown _ \<Rightarrow> (case cfg_pose_policy cfg of ManualAnchor _ \<Rightarrow> Inr () | _ \<Rightarrow> Inl PoseUnavailable)
      | Known p \<Rightarrow>
          if pose_frame_id p \<noteq> pose_frame_id (cfg_anchor cfg) then Inl WrongFrame
          else
            let a = pose_position (cfg_anchor cfg); q = pose_position p;
                distance = f_hypot F (f_hypot F (f_sub F (pt_x q) (pt_x a)) (f_sub F (pt_y q) (pt_y a)))
                             (f_sub F (pt_z q) (pt_z a))
            in
            bindE (case cfg_pose_policy cfg of
                     ManualAnchor maximum_reported_offset \<Rightarrow> Inr maximum_reported_offset
                   | RequireReported maximum_offset maximum_axis_stddev \<Rightarrow>
                       bindE (check_covariance F p maximum_axis_stddev) (\<lambda>_. Inr maximum_offset)) (\<lambda>maximum.
            if \<not> f_is_finite F distance \<or> f_lt F maximum distance then Inl PoseOutsidePoint else Inr ()))"

lemma point_config_newD:
  assumes "point_config_new F d = Inr c"
  shows "c = d" "\<exists>n. nanos F (cfg_minimum_active_time d) = Inr n" "\<exists>n. nanos F (cfg_maximum_scan_age d) = Inr n"
  using assms by (auto simp: point_config_new_def split: if_splits)

lemma check_channels_nanos:
  "check_channels F seen cs = Inr u \<Longrightarrow> c \<in> set cs \<Longrightarrow> \<exists>n. nanos F (cr_minimum_dwell c) = Inr n"
  by (induction F seen cs rule: check_channels.induct) (auto split: if_splits)

lemma point_config_channels:
  "point_config_new F d = Inr c \<Longrightarrow> r \<in> set (cfg_channels d) \<Longrightarrow> \<exists>n. nanos F (cr_minimum_dwell r) = Inr n"
  by (auto simp: point_config_new_def split: if_splits dest: check_channels_nanos)

end
