(* ===== verification/Survey_State.thy ===== *)
theory Survey_State
  imports Survey_Config
begin

text \<open>
  The point survey as a state machine: \<open>crates/survey/src/state.rs\<close>, \<open>association.rs\<close> and the wire form
  of \<open>state/wire.rs\<close>. An operation takes the state and returns the next one or an error; a panic (failed
  \<open>expect\<close>, overflow of checked arithmetic) is \<open>SE_Panic\<close>.
\<close>

section \<open>State\<close>

datatype point_phase = Capturing | Paused | Completed | Cancelled | Failed utext

record active_window =
  aw_start :: u64
  aw_end :: "u64 option"

record 'f accepted_evidence =
  rec_observation_id :: octets
  rec_captured :: u64
  rec_result_age :: "'f option"
  rec_admitted :: u64
  rec_bssid :: octets
  rec_rssi :: "'f evidence"
  rec_noise :: "'f evidence"
  rec_pose :: "'f pose_reference evidence"
  rec_calibration :: "calibration_state evidence"
  rec_raw_source :: "artifact_reference evidence"
  rec_source_version :: "utext evidence"
  rec_parser_version :: utext
  rec_quality :: "quality_flag list"
  rec_dwell :: "monotonic_window option"
  rec_tuned_frequency :: "'f evidence"

datatype association_time_basis = ApiWindow monotonic_window | Receipt monotonic_timestamp

datatype association_position_basis = SelectedPointAnchor utext

record 'f point_association =
  as_method_version :: utext
  as_point_id :: octets
  as_observation_id :: octets
  as_session_id :: octets
  as_source_id :: octets
  as_assigned_position :: "'f pose_reference"
  as_position_basis :: association_position_basis
  as_observation_pose :: "'f pose_reference evidence"
  as_time_basis :: association_time_basis
  as_source_response :: "'f source_response_timing"
  as_capture_time :: "'f capture_time"
  as_dwell :: "'f dwell_context evidence"
  as_result_age :: "'f evidence"
  as_channel :: "'f channel_context evidence"
  as_calibration :: "calibration_state evidence"
  as_raw_source :: "artifact_reference evidence"
  as_source_version :: "utext evidence"
  as_parser_version :: utext
  as_quality :: "quality_flag list"
  as_temporal_uncertainty :: "'f evidence"

record 'f point_survey =
  sv_config :: "'f point_config"
  sv_phase :: point_phase
  sv_started :: u64
  sv_last :: u64
  sv_event_last :: "u64 option"
  sv_windows :: "active_window list"
  sv_records :: "'f accepted_evidence list"
  sv_associations :: "'f point_association list"

section \<open>Quality\<close>

definition incomplete_dwell :: "quality_flag list \<Rightarrow> bool" where
  "incomplete_dwell flags \<longleftrightarrow> (\<exists>q \<in> set flags. q \<in> {DroppedEvents, PartialCapture, Disconnected})"

definition bad_quality :: "quality_flag list \<Rightarrow> bool" where
  "bad_quality flags \<longleftrightarrow>
     (\<exists>q \<in> set flags. q \<in> {Stale, ContradictorySourceFields, MalformedFlag, Saturated, InferredTimestamp, ClockUncertain})"

section \<open>Progress\<close>

definition u64_sub :: "u64 \<Rightarrow> u64 \<Rightarrow> survey_error + u64" where
  "u64_sub a b = (if b \<le> a then Inr (a - b) else Inl SE_Panic)"

definition word_add :: "'a::len word \<Rightarrow> 'a word \<Rightarrow> survey_error + 'a word" where
  "word_add a b = some_or (checked_add_word a b) SE_Panic"

record 'f point_progress =
  pr_metrics :: "(point_metric \<times> u32) list"
  pr_dwell_seconds :: "'f list"
  pr_active_seconds :: 'f
  pr_active_windows :: "monotonic_window list"
  pr_ready :: bool
  pr_observation_ids :: "octets list"
  pr_associated_observation_ids :: "octets list"
  pr_manual_position_assumption :: bool

definition matches_target :: "'f point_config \<Rightarrow> 'f accepted_evidence \<Rightarrow> bool" where
  "matches_target cfg r \<longleftrightarrow> (case cfg_target cfg of AnyBssid \<Rightarrow> True | TargetBssid bssid \<Rightarrow> rec_bssid r = bssid)"

definition metric_present :: "'f f64_ops \<Rightarrow> 'f accepted_evidence \<Rightarrow> point_metric \<Rightarrow> bool" where
  "metric_present F r metric =
     (case metric of
        Rssi \<Rightarrow> as_known (rec_rssi r) \<noteq> None
      | Noise \<Rightarrow> as_known (rec_noise r) \<noteq> None
      | Snr \<Rightarrow>
          (case (as_known (rec_rssi r), as_known (rec_noise r)) of
             (Some rssi, Some noise) \<Rightarrow> (case dbm_difference F rssi noise of Inl _ \<Rightarrow> False | Inr _ \<Rightarrow> True)
           | _ \<Rightarrow> False))"

fun count_metrics ::
    "'f f64_ops \<Rightarrow> 'f point_config \<Rightarrow> 'f accepted_evidence list \<Rightarrow> (point_metric \<times> u32) list
       \<Rightarrow> survey_error + (point_metric \<times> u32) list" where
  "count_metrics F cfg [] metrics = Inr metrics"
| "count_metrics F cfg (r # rs) metrics =
     bindE (if matches_target cfg r
            then mapE (\<lambda>(metric, count).
                   bindE (word_add count (if metric_present F r metric then 1 else 0)) (\<lambda>n. Inr (metric, n))) metrics
            else Inr metrics)
       (count_metrics F cfg rs)"

definition window_end :: "u64 \<Rightarrow> active_window \<Rightarrow> u64" where
  "window_end lst w = (case aw_end w of None \<Rightarrow> lst | Some e \<Rightarrow> e)"

fun sum_windows :: "u64 \<Rightarrow> active_window list \<Rightarrow> u64 \<Rightarrow> survey_error + u64" where
  "sum_windows lst [] acc = Inr acc"
| "sum_windows lst (w # ws) acc =
     bindE (u64_sub (window_end lst w) (aw_start w)) (\<lambda>d. bindE (word_add acc d) (sum_windows lst ws))"

definition dwell_intervals :: "'f accepted_evidence list \<Rightarrow> 'f \<Rightarrow> (u64 \<times> u64) list" where
  "dwell_intervals records frequency =
     List.map_filter (\<lambda>r.
       if as_known (rec_tuned_frequency r) \<noteq> Some frequency then None
       else map_option (\<lambda>d. (nanoseconds (win_start d), nanoseconds (win_end d))) (rec_dwell r)) records"

fun merge_intervals :: "(u64 \<times> u64) option \<Rightarrow> (u64 \<times> u64) list \<Rightarrow> (u64 \<times> u64) list \<Rightarrow> (u64 \<times> u64) list" where
  "merge_intervals merged [] joined = (case merged of None \<Rightarrow> joined | Some i \<Rightarrow> joined @ [i])"
| "merge_intervals merged ((s, e) # rest) joined =
     (case merged of
        Some (a, b) \<Rightarrow>
          if s \<le> b then merge_intervals (Some (a, max b e)) rest joined
          else merge_intervals (Some (s, e)) rest (joined @ [(a, b)])
      | None \<Rightarrow> merge_intervals (Some (s, e)) rest joined)"

text \<open>
  The windows that remain stand for the index of the two-pointer sweep: the inner loop returns those
  from the one at which it stopped.
\<close>

fun sweep_interval ::
    "u64 \<Rightarrow> u64 \<Rightarrow> u64 \<Rightarrow> active_window list \<Rightarrow> u64 \<Rightarrow> survey_error + active_window list \<times> u64" where
  "sweep_interval lst s e [] tot = Inr ([], tot)"
| "sweep_interval lst s e (w # ws) tot =
     (if window_end lst w \<le> s then sweep_interval lst s e ws tot
      else if aw_start w \<ge> e then Inr (w # ws, tot)
      else
        bindE (u64_sub (min e (window_end lst w)) (max s (aw_start w))) (\<lambda>d.
        bindE (word_add tot d) (\<lambda>tot'.
        if window_end lst w \<ge> e then Inr (w # ws, tot')
        else sweep_interval lst s e ws tot')))"

fun sweep :: "u64 \<Rightarrow> (u64 \<times> u64) list \<Rightarrow> active_window list \<Rightarrow> u64 \<Rightarrow> survey_error + u64" where
  "sweep lst [] ws tot = Inr tot"
| "sweep lst ((s, e) # joined) ws tot =
     bindE (sweep_interval lst s e ws tot) (\<lambda>(ws', tot'). sweep lst joined ws' tot')"

definition dwell_total :: "'f point_survey \<Rightarrow> 'f channel_requirement \<Rightarrow> survey_error + u64" where
  "dwell_total s ch =
     sweep (sv_last s) (merge_intervals None (sort (dwell_intervals (sv_records s) (cr_frequency ch))) [])
       (sv_windows s) 0"

definition expect :: "'e + 'a \<Rightarrow> survey_error + 'a" where
  "expect r = (case r of Inl _ \<Rightarrow> Inl SE_Panic | Inr x \<Rightarrow> Inr x)"

definition all_channels_dwelt ::
    "'f f64_ops \<Rightarrow> (u64 \<times> 'f channel_requirement) list \<Rightarrow> survey_error + bool list" where
  "all_channels_dwelt F = mapE (\<lambda>(tot, ch). bindE (expect (nanos F (cr_minimum_dwell ch))) (\<lambda>n. Inr (tot \<ge> n)))"

definition is_manual :: "'f pose_policy \<Rightarrow> bool" where
  "is_manual p = (case p of ManualAnchor _ \<Rightarrow> True | _ \<Rightarrow> False)"

text \<open>
  The short-circuit evaluation of \<open>ready\<close> only skips conversions that were checked when the
  configuration was made.
\<close>

definition progress :: "'f f64_ops \<Rightarrow> 'f point_survey \<Rightarrow> survey_error + 'f point_progress" where
  "progress F s =
     (let cfg = sv_config s in
      bindE (count_metrics F cfg (sv_records s) (map (\<lambda>(m, _). (m, 0)) (cfg_metrics cfg))) (\<lambda>metrics.
      bindE (sum_windows (sv_last s) (sv_windows s) 0) (\<lambda>active_nanos.
      bindE (mapE (dwell_total s) (cfg_channels cfg)) (\<lambda>dwell_totals.
      bindE (mapE (\<lambda>(m, count). bindE (some_or (bm_get (cfg_metrics cfg) m) SE_Panic) (\<lambda>n. Inr (count \<ge> n))) metrics)
        (\<lambda>counted.
      bindE (expect (nanos F (cfg_minimum_active_time cfg))) (\<lambda>minimum_active.
      bindE (all_channels_dwelt F (zip dwell_totals (cfg_channels cfg))) (\<lambda>dwelt.
      bindE (mapE (seconds F) dwell_totals) (\<lambda>dwell_seconds.
      bindE (seconds F active_nanos) (\<lambda>active_seconds.
      bindE (mapE (\<lambda>w. expect (window_new F
               \<lparr>ts_epoch = cfg_epoch cfg, nanoseconds = aw_start w\<rparr>
               \<lparr>ts_epoch = cfg_epoch cfg, nanoseconds = window_end (sv_last s) w\<rparr>)) (sv_windows s)) (\<lambda>active_windows.
      Inr \<lparr>pr_metrics = metrics, pr_dwell_seconds = dwell_seconds, pr_active_seconds = active_seconds,
           pr_active_windows = active_windows,
           pr_ready = (list_all id counted \<and> active_nanos \<ge> minimum_active \<and> list_all id dwelt),
           pr_observation_ids = map rec_observation_id (sv_records s),
           pr_associated_observation_ids = map as_observation_id (sv_associations s),
           pr_manual_position_assumption = is_manual (cfg_pose_policy cfg)\<rparr>))))))))))"

section \<open>Transitions\<close>

definition survey_start :: "'f point_config \<Rightarrow> monotonic_timestamp \<Rightarrow> survey_error + 'f point_survey" where
  "survey_start config at =
     bindE (preflight config) (\<lambda>_.
     if ts_epoch at \<noteq> cfg_epoch config then Inl WrongClock
     else Inr \<lparr>sv_config = config, sv_phase = Capturing, sv_started = nanoseconds at, sv_last = nanoseconds at,
               sv_event_last = None, sv_windows = [\<lparr>aw_start = nanoseconds at, aw_end = None\<rparr>],
               sv_records = [], sv_associations = []\<rparr>)"

definition event_last :: "'f point_survey \<Rightarrow> u64" where
  "event_last s = (case sv_event_last s of None \<Rightarrow> sv_last s | Some t \<Rightarrow> t)"

definition check_time :: "'f point_survey \<Rightarrow> monotonic_timestamp \<Rightarrow> survey_error + unit" where
  "check_time s at =
     (if ts_epoch at \<noteq> cfg_epoch (sv_config s) then Inl WrongClock
      else if nanoseconds at < event_last s then Inl SE_ReversedTime
      else Inr ())"

definition advance :: "'f point_survey \<Rightarrow> monotonic_timestamp \<Rightarrow> survey_error + 'f point_survey" where
  "advance s at =
     (if sv_phase s \<notin> {Capturing, Paused} then Inl InvalidTransition
      else bindE (check_time s at) (\<lambda>_. Inr (s\<lparr>sv_last := nanoseconds at, sv_event_last := None\<rparr>)))"

definition has_record :: "'f point_survey \<Rightarrow> octets \<Rightarrow> bool" where
  "has_record s i \<longleftrightarrow> (\<exists>r \<in> set (sv_records s). rec_observation_id r = i)"

definition close_window :: "u64 \<Rightarrow> 'f point_survey \<Rightarrow> 'f point_survey" where
  "close_window at s =
     (case sv_windows s of
        [] \<Rightarrow> s
      | ws \<Rightarrow> if aw_end (last ws) = None then s\<lparr>sv_windows := butlast ws @ [(last ws)\<lparr>aw_end := Some at\<rparr>]\<rparr> else s)"

definition pause :: "'f point_survey \<Rightarrow> monotonic_timestamp \<Rightarrow> survey_error + 'f point_survey" where
  "pause s at =
     (if sv_phase s \<noteq> Capturing then Inl InvalidTransition
      else bindE (advance s at) (\<lambda>s'. Inr ((close_window (nanoseconds at) s')\<lparr>sv_phase := Paused\<rparr>)))"

definition resume :: "'f point_survey \<Rightarrow> monotonic_timestamp \<Rightarrow> survey_error + 'f point_survey" where
  "resume s at =
     (if sv_phase s \<noteq> Paused then Inl InvalidTransition
      else if length (sv_windows s) \<ge> MAX_WINDOWS then Inl SE_Limit
      else bindE (advance s at) (\<lambda>s'.
        Inr (s'\<lparr>sv_windows := sv_windows s' @ [\<lparr>aw_start = nanoseconds at, aw_end = None\<rparr>], sv_phase := Capturing\<rparr>)))"

definition finish :: "'f f64_ops \<Rightarrow> 'f point_survey \<Rightarrow> monotonic_timestamp \<Rightarrow> survey_error + 'f point_survey" where
  "finish F s at =
     (if sv_phase s \<noteq> Capturing then Inl InvalidTransition
      else bindE (advance s at) (\<lambda>s'.
        bindE (progress F s') (\<lambda>p.
        if \<not> pr_ready p then Inl NotReady
        else Inr ((close_window (nanoseconds at) s')\<lparr>sv_phase := Completed\<rparr>))))"

definition cancel :: "'f point_survey \<Rightarrow> monotonic_timestamp \<Rightarrow> survey_error + 'f point_survey" where
  "cancel s at = bindE (advance s at) (\<lambda>s'. Inr ((close_window (nanoseconds at) s')\<lparr>sv_phase := Cancelled\<rparr>))"

definition fail_survey :: "'f point_survey \<Rightarrow> monotonic_timestamp \<Rightarrow> utext \<Rightarrow> survey_error + 'f point_survey" where
  "fail_survey s at reason =
     bindE (advance s at) (\<lambda>s'. Inr ((close_window (nanoseconds at) s')\<lparr>sv_phase := Failed reason\<rparr>))"

section \<open>Admission\<close>

text \<open>The checks that admission shares with the comparison against a stored envelope.\<close>

definition check_source :: "'f point_config \<Rightarrow> 'f envelope_data \<Rightarrow> survey_error + unit" where
  "check_source cfg d =
     (if env_session_id d \<noteq> cfg_session_id cfg then Inl WrongSession
      else if src_source_id (env_source d) \<noteq> cfg_source_id cfg \<or> src_collector_id (env_source d) \<noteq> cfg_collector_id cfg \<or>
              src_adapter_version (env_source d) \<noteq> cfg_adapter_version cfg
      then Inl WrongSource
      else if \<not> cfg_allow_synthetic cfg \<and>
              (src_kind (env_source d) = SyntheticFixtureSource \<or> SyntheticFixture \<in> set (env_quality d))
      then Inl UnusableQuality
      else Inr ())"

definition payload_parts ::
    "'f f64_ops \<Rightarrow> 'f point_config \<Rightarrow> 'f observation_payload
       \<Rightarrow> survey_error + 'f signal_reading \<times> radio_identity_evidence \<times> 'f option" where
  "payload_parts F cfg p =
     (case (p, cfg_mode cfg) of
        (Scan scan, ScanMode) \<Rightarrow>
          bindE (some_or (as_known (scan_result_age scan)) StaleScan) (\<lambda>age.
          if f_lt F (cfg_maximum_scan_age cfg) age then Inl StaleScan
          else Inr (scan_signal scan, scan_identity scan, Some age))
      | (Frame frame, FrameMode) \<Rightarrow> Inr (fm_signal frame, fm_identity frame, None)
      | _ \<Rightarrow> Inl UnsupportedPayload)"

definition check_scan_age :: "'f f64_ops \<Rightarrow> 'f point_config \<Rightarrow> u64 \<Rightarrow> u64 \<Rightarrow> 'f option \<Rightarrow> survey_error + unit" where
  "check_scan_age F cfg captured received age =
     (case age of
        None \<Rightarrow> Inr ()
      | Some a \<Rightarrow>
          bindE (u64_sub received captured) (\<lambda>actual_age.
          bindE (nanos F (cfg_maximum_scan_age cfg)) (\<lambda>maximum.
          if actual_age > maximum then Inl StaleScan
          else bindE (nanos F a) (\<lambda>n. if n > actual_age then Inl InconsistentScanAge else Inr ()))))"

definition admit_dwell ::
    "'f point_config \<Rightarrow> 'f envelope_data \<Rightarrow> u64 \<Rightarrow> survey_error + monotonic_window option \<times> 'f evidence" where
  "admit_dwell cfg d received =
     (if \<not> incomplete_dwell (env_quality d) then
        (case env_dwell d of
           Known context \<Rightarrow>
             (case dw_window context of
                Known window \<Rightarrow>
                  if ts_epoch (win_start window) \<noteq> cfg_epoch cfg then Inl WrongClock
                  else if nanoseconds (win_end window) > received then Inl FutureDwell
                  else Inr (Some window, ch_primary_frequency (dw_tuned_channel context))
              | Unknown _ \<Rightarrow> Inr (None, Unknown NotObservable))
         | Unknown _ \<Rightarrow> Inr (None, Unknown NotObservable))
      else Inr (None, Unknown NotObservable))"

definition admit ::
    "'f f64_ops \<Rightarrow> 'f point_survey \<Rightarrow> 'f envelope_data \<Rightarrow> monotonic_timestamp \<Rightarrow> survey_error + 'f point_survey" where
  "admit F s d received =
     (if sv_phase s \<noteq> Capturing then Inl InvalidTransition
      else bindE (check_time s received) (\<lambda>_.
        if length (sv_records s) \<ge> MAX_RECORDS then Inl SE_Limit
        else let cfg = sv_config s in
        bindE (check_source cfg d) (\<lambda>_.
        if bad_quality (env_quality d) then Inl UnusableQuality
        else
        bindE (some_or (as_known (monotonic (env_time d))) TimestampUnavailable) (\<lambda>captured.
        if ts_epoch captured \<noteq> cfg_epoch cfg then Inl WrongClock
        else if nanoseconds captured > nanoseconds received then Inl FutureCapture
        else
        bindE (check_pose F cfg (env_pose d)) (\<lambda>_.
        bindE (payload_parts F cfg (env_payload d)) (\<lambda>(signal, identity, age).
        bindE (some_or (as_known (rid_bssid identity)) UnsupportedPayload) (\<lambda>bssid.
        bindE (check_scan_age F cfg (nanoseconds captured) (nanoseconds received) age) (\<lambda>_.
        if sv_windows s = [] then Inl InvalidSnapshot
        else if nanoseconds captured < aw_start (last (sv_windows s)) then Inl CaptureOutsidePoint
        else if has_record s (env_id d) then Inl DuplicateObservation
        else if \<exists>a \<in> set (sv_associations s). as_observation_id a = env_id d then Inl DuplicateObservation
        else if \<exists>r \<in> set (sv_records s). rec_captured r = nanoseconds captured \<and> rec_bssid r = bssid
        then Inl DuplicateSourceSample
        else
        bindE (admit_dwell cfg d (nanoseconds received)) (\<lambda>(dwell, tuned_frequency).
        Inr (s\<lparr>sv_last := nanoseconds received, sv_event_last := None,
               sv_records := sv_records s @
                 [\<lparr>rec_observation_id = env_id d, rec_captured = nanoseconds captured, rec_result_age = age,
                   rec_admitted = nanoseconds received, rec_bssid = bssid, rec_rssi = rssi_dbm signal,
                   rec_noise = noise_dbm signal, rec_pose = env_pose d, rec_calibration = sig_calibration signal,
                   rec_raw_source = env_raw_source d, rec_source_version = src_source_version (env_source d),
                   rec_parser_version = src_parser_version (env_source d), rec_quality = env_quality d,
                   rec_dwell = dwell, rec_tuned_frequency = tuned_frequency\<rparr>]\<rparr>))))))))))"

definition validate_admitted_observation ::
    "'f f64_ops \<Rightarrow> 'f point_survey \<Rightarrow> 'f envelope_data \<Rightarrow> survey_error + unit" where
  "validate_admitted_observation F s d =
     bindE (some_or (find (\<lambda>r. rec_observation_id r = env_id d) (sv_records s)) InvalidSnapshot) (\<lambda>r.
     let cfg = sv_config s in
     bindE (check_source cfg d) (\<lambda>_.
     if bad_quality (env_quality d) then Inl UnusableQuality
     else
     bindE (some_or (as_known (monotonic (env_time d))) TimestampUnavailable) (\<lambda>captured.
     if ts_epoch captured \<noteq> cfg_epoch cfg then Inl WrongClock
     else if nanoseconds captured \<noteq> rec_captured r then Inl InvalidSnapshot
     else
     bindE (check_pose F cfg (env_pose d)) (\<lambda>_.
     bindE (payload_parts F cfg (env_payload d)) (\<lambda>(signal, identity, result_age).
     bindE (some_or (as_known (rid_bssid identity)) UnsupportedPayload) (\<lambda>bssid.
     bindE (case result_age of
              None \<Rightarrow> Inr ()
            | Some age \<Rightarrow>
                bindE (nanos F age) (\<lambda>n. bindE (u64_sub (rec_admitted r) (rec_captured r)) (\<lambda>actual.
                if n > actual then Inl InconsistentScanAge else Inr ()))) (\<lambda>_.
     if bssid \<noteq> rec_bssid r \<or> rssi_dbm signal \<noteq> rec_rssi r \<or> noise_dbm signal \<noteq> rec_noise r \<or>
        env_pose d \<noteq> rec_pose r \<or> sig_calibration signal \<noteq> rec_calibration r \<or> env_raw_source d \<noteq> rec_raw_source r \<or>
        src_source_version (env_source d) \<noteq> rec_source_version r \<or>
        src_parser_version (env_source d) \<noteq> rec_parser_version r \<or> env_quality d \<noteq> rec_quality r \<or>
        result_age \<noteq> rec_result_age r
     then Inl InvalidSnapshot
     else
     bindE (if \<not> incomplete_dwell (env_quality d) then
              (case env_dwell d of
                 Known context \<Rightarrow>
                   (case dw_window context of
                      Known window \<Rightarrow>
                        if ts_epoch (win_start window) \<noteq> cfg_epoch cfg \<or> nanoseconds (win_end window) > rec_admitted r \<or>
                           \<not> window_contains window captured
                        then Inl InvalidSnapshot
                        else Inr (Some window, ch_primary_frequency (dw_tuned_channel context))
                    | Unknown _ \<Rightarrow> Inr (None, Unknown NotObservable))
               | Unknown _ \<Rightarrow> Inr (None, Unknown NotObservable))
            else Inr (None, Unknown NotObservable)) (\<lambda>(dwell, tuned_frequency).
     if dwell \<noteq> rec_dwell r \<or> tuned_frequency \<noteq> rec_tuned_frequency r then Inl InvalidSnapshot else Inr ()))))))))"

section \<open>Receipt associations\<close>

definition ASSOCIATION_METHOD_VERSION :: utext where
  "ASSOCIATION_METHOD_VERSION = map of_char ''point-receipt-anchor/v1''"

definition copied_payload_evidence :: "'f observation_payload \<Rightarrow> calibration_state evidence \<times> 'f evidence" where
  "copied_payload_evidence p =
     (case p of
        Scan scan \<Rightarrow> (sig_calibration (scan_signal scan), scan_result_age scan)
      | Frame frame \<Rightarrow> (sig_calibration (fm_signal frame), Unknown NotApplicable)
      | Health _ \<Rightarrow> (Unknown NotApplicable, Unknown NotApplicable))"

definition unusable_flags :: "quality_flag list \<Rightarrow> bool" where
  "unusable_flags flags \<longleftrightarrow> (\<exists>q \<in> set flags. q \<in> {MalformedFlag, ContradictorySourceFields})"

definition validate_local :: "'f point_association \<Rightarrow> survey_error + unit" where
  "validate_local a =
     (if as_method_version a \<noteq> ASSOCIATION_METHOD_VERSION \<or> length (as_quality a) > 32 \<or>
         as_temporal_uncertainty a \<noteq> Unknown NotMeasured \<or> unusable_flags (as_quality a)
      then Inl InvalidSnapshot
      else
        bindE (case as_time_basis a of
                 ApiWindow window \<Rightarrow>
                   if api_window (as_source_response a) = Known window then Inr () else Inl InvalidSnapshot
               | Receipt returned \<Rightarrow>
                   if as_known (monotonic (returned_at (as_source_response a))) \<noteq> Some returned
                   then Inl InvalidSnapshot else Inr ()) (\<lambda>_.
        case (as_known (monotonic (returned_at (as_source_response a))), as_time_basis a) of
          (Some returned, ApiWindow window) \<Rightarrow>
            if ts_epoch returned \<noteq> ts_epoch (win_start window) then Inl InvalidSnapshot else Inr ()
        | _ \<Rightarrow> Inr ()))"

definition association_new ::
    "octets \<Rightarrow> 'f envelope_data \<Rightarrow> association_time_basis \<Rightarrow> 'f source_response_timing \<Rightarrow> 'f pose_reference
       \<Rightarrow> survey_error + 'f point_association" where
  "association_new point_id d basis response assigned =
     (case copied_payload_evidence (env_payload d) of (calibration, result_age) \<Rightarrow>
      bindE (case text_new ASSOCIATION_METHOD_VERSION of Inl _ \<Rightarrow> Inl InvalidSnapshot | Inr t \<Rightarrow> Inr t) (\<lambda>method.
      let a = \<lparr>as_method_version = method, as_point_id = point_id, as_observation_id = env_id d,
               as_session_id = env_session_id d, as_source_id = src_source_id (env_source d),
               as_assigned_position = assigned, as_position_basis = SelectedPointAnchor method,
               as_observation_pose = env_pose d, as_time_basis = basis, as_source_response = response,
               as_capture_time = env_time d, as_dwell = env_dwell d, as_result_age = result_age,
               as_channel = env_channel d, as_calibration = calibration, as_raw_source = env_raw_source d,
               as_source_version = src_source_version (env_source d),
               as_parser_version = src_parser_version (env_source d), as_quality = env_quality d,
               as_temporal_uncertainty = Unknown NotMeasured\<rparr>
      in bindE (validate_local a) (\<lambda>_. Inr a)))"

definition matches_canonical_observation :: "'f point_association \<Rightarrow> 'f envelope_data \<Rightarrow> bool" where
  "matches_canonical_observation a d \<longleftrightarrow>
     (case copied_payload_evidence (env_payload d) of (calibration, result_age) \<Rightarrow>
        as_observation_id a = env_id d \<and> as_session_id a = env_session_id d \<and>
        as_source_id a = src_source_id (env_source d) \<and> as_observation_pose a = env_pose d \<and>
        as_capture_time a = env_time d \<and> as_dwell a = env_dwell d \<and> as_result_age a = result_age \<and>
        as_channel a = env_channel d \<and> as_calibration a = calibration \<and> as_raw_source a = env_raw_source d \<and>
        as_source_version a = src_source_version (env_source d) \<and>
        as_parser_version a = src_parser_version (env_source d) \<and> as_quality a = env_quality d)"

definition time_bounds :: "'f point_association \<Rightarrow> u64 \<times> u64" where
  "time_bounds a =
     (case as_time_basis a of
        ApiWindow window \<Rightarrow> (nanoseconds (win_start window), nanoseconds (win_end window))
      | Receipt returned \<Rightarrow> (nanoseconds returned, nanoseconds returned))"

definition validate_for_config :: "'f f64_ops \<Rightarrow> 'f point_config \<Rightarrow> 'f point_association \<Rightarrow> survey_error + unit" where
  "validate_for_config F cfg a =
     bindE (validate_local a) (\<lambda>_.
     if as_point_id a \<noteq> cfg_point_id cfg \<or> as_session_id a \<noteq> cfg_session_id cfg \<or>
        as_source_id a \<noteq> cfg_source_id cfg \<or> as_assigned_position a \<noteq> cfg_anchor cfg
     then Inl InvalidSnapshot
     else if \<not> cfg_allow_synthetic cfg \<and> SyntheticFixture \<in> set (as_quality a) then Inl InvalidSnapshot
     else if (case as_position_basis a of SelectedPointAnchor method \<Rightarrow> method \<noteq> ASSOCIATION_METHOD_VERSION)
     then Inl InvalidSnapshot
     else if (case as_time_basis a of
                ApiWindow window \<Rightarrow> ts_epoch (win_start window) \<noteq> cfg_epoch cfg
              | Receipt returned \<Rightarrow> ts_epoch returned \<noteq> cfg_epoch cfg)
     then Inl InvalidSnapshot
     else (case as_observation_pose a of Known pose \<Rightarrow> check_pose F cfg (Known pose) | Unknown _ \<Rightarrow> Inr ()))"

definition association_basis ::
    "'f source_response_timing \<Rightarrow> clock_epoch_id \<Rightarrow> u64 \<Rightarrow> u64 \<Rightarrow> survey_error + association_time_basis \<times> u64" where
  "association_basis response epoch active_start lst =
     (let returned = as_known (monotonic (returned_at response)); window = as_known (api_window response) in
      if (case returned of Some r \<Rightarrow> ts_epoch r \<noteq> epoch | None \<Rightarrow> False) then Inl WrongClock
      else if (case window of Some w \<Rightarrow> ts_epoch (win_start w) \<noteq> epoch | None \<Rightarrow> False) then Inl WrongClock
      else case returned of
        Some r \<Rightarrow>
          if nanoseconds r < active_start then Inl AssociationOutsidePoint
          else if nanoseconds r < lst then Inl SE_ReversedTime
          else Inr (Receipt r, nanoseconds r)
      | None \<Rightarrow>
          (case window of
             None \<Rightarrow> Inl AssociationTimeUnavailable
           | Some w \<Rightarrow>
               if nanoseconds (win_end w) \<le> active_start then Inl AssociationOutsidePoint
               else if nanoseconds (win_start w) < active_start then Inl AssociationAmbiguous
               else if nanoseconds (win_end w) < lst then Inl SE_ReversedTime
               else Inr (ApiWindow w, nanoseconds (win_end w))))"

definition associate_received ::
    "'f f64_ops \<Rightarrow> 'f point_survey \<Rightarrow> 'f received_observation
       \<Rightarrow> survey_error + 'f point_survey \<times> 'f point_association" where
  "associate_received F s received =
     (if sv_phase s \<noteq> Capturing then Inl InvalidTransition
      else if length (sv_associations s) \<ge> MAX_RECORDS then Inl SE_Limit
      else let cfg = sv_config s; d = rcv_envelope received in
        bindE (check_source cfg d) (\<lambda>_.
        if unusable_flags (env_quality d) then Inl UnusableQuality
        else if (case env_payload d of Health _ \<Rightarrow> True | _ \<Rightarrow> False) then Inl UnsupportedPayload
        else
        bindE (case env_pose d of Known pose \<Rightarrow> check_pose F cfg (Known pose) | Unknown _ \<Rightarrow> Inr ()) (\<lambda>_.
        bindE (some_or (as_known (rcv_source_response received)) AssociationTimeUnavailable) (\<lambda>response.
        if sv_windows s = [] \<or> aw_end (last (sv_windows s)) \<noteq> None then Inl InvalidSnapshot
        else
        bindE (association_basis response (cfg_epoch cfg) (aw_start (last (sv_windows s))) (event_last s))
          (\<lambda>(basis, progress_time).
        if \<exists>a \<in> set (sv_associations s). as_observation_id a = env_id d then Inl DuplicateAssociation
        else if has_record s (env_id d) then Inl DuplicateObservation
        else
        bindE (association_new (cfg_point_id cfg) d basis response (cfg_anchor cfg)) (\<lambda>a.
        Inr (s\<lparr>sv_event_last := (if progress_time > event_last s then Some progress_time else sv_event_last s),
               sv_associations := sv_associations s @ [a]\<rparr>, a)))))))"

section \<open>Validation of a snapshot\<close>

fun validate_windows :: "point_phase \<Rightarrow> u64 \<Rightarrow> u64 \<Rightarrow> active_window list \<Rightarrow> survey_error + unit" where
  "validate_windows phase lst previous [] = Inr ()"
| "validate_windows phase lst previous (w # ws) =
     (if aw_start w < previous \<or> window_end lst w < aw_start w \<or> window_end lst w > lst \<or>
         aw_end w = None \<and> (ws \<noteq> [] \<or> phase \<noteq> Capturing)
      then Inl InvalidSnapshot
      else validate_windows phase lst (window_end lst w) ws)"

definition validate_age :: "'f f64_ops \<Rightarrow> 'f point_config \<Rightarrow> u64 \<Rightarrow> u64 \<Rightarrow> 'f option \<Rightarrow> survey_error + unit" where
  "validate_age F cfg captured admitted result_age =
     (case (cfg_mode cfg, result_age) of
        (ScanMode, Some age) \<Rightarrow>
          bindE (u64_sub admitted captured) (\<lambda>actual_age.
          bindE (nanos F (cfg_maximum_scan_age cfg)) (\<lambda>maximum.
          if actual_age > maximum then Inl InvalidSnapshot
          else bindE (nanos F age) (\<lambda>n. if n > actual_age then Inl InvalidSnapshot else Inr ())))
      | (FrameMode, None) \<Rightarrow> Inr ()
      | _ \<Rightarrow> Inl InvalidSnapshot)"

definition validate_record :: "'f f64_ops \<Rightarrow> 'f point_survey \<Rightarrow> 'f accepted_evidence \<Rightarrow> survey_error + unit" where
  "validate_record F s r =
     (let cfg = sv_config s in
      if \<not> (\<exists>w \<in> set (sv_windows s). rec_captured r \<ge> aw_start w \<and> rec_admitted r \<le> window_end (sv_last s) w)
      then Inl InvalidSnapshot
      else if \<not> cfg_allow_synthetic cfg \<and> SyntheticFixture \<in> set (rec_quality r) then Inl InvalidSnapshot
      else
        bindE (check_pose F cfg (rec_pose r)) (\<lambda>_.
        bindE (validate_age F cfg (rec_captured r) (rec_admitted r) (rec_result_age r)) (\<lambda>_.
        case rec_dwell r of
          None \<Rightarrow> Inr ()
        | Some window \<Rightarrow>
            if incomplete_dwell (rec_quality r) \<or> ts_epoch (win_start window) \<noteq> cfg_epoch cfg \<or>
               nanoseconds (win_end window) > rec_admitted r \<or>
               \<not> window_contains window \<lparr>ts_epoch = cfg_epoch cfg, nanoseconds = rec_captured r\<rparr>
            then Inl InvalidSnapshot else Inr ())))"

fun validate_records ::
    "'f f64_ops \<Rightarrow> 'f point_survey \<Rightarrow> octets set \<Rightarrow> (u64 \<times> octets) set \<Rightarrow> u64 \<Rightarrow> 'f accepted_evidence list
       \<Rightarrow> survey_error + octets set" where
  "validate_records F s ids samples previous [] = Inr ids"
| "validate_records F s ids samples previous (r # rs) =
     (if rec_observation_id r \<in> ids \<or> (rec_captured r, rec_bssid r) \<in> samples \<or> rec_captured r > rec_admitted r \<or>
         rec_admitted r > sv_last s \<or> rec_admitted r < previous \<or> bad_quality (rec_quality r) \<or>
         length (rec_quality r) > 32
      then Inl InvalidSnapshot
      else
        bindE (validate_record F s r) (\<lambda>_.
        validate_records F s (insert (rec_observation_id r) ids) (insert (rec_captured r, rec_bssid r) samples)
          (rec_admitted r) rs))"

fun validate_associations ::
    "'f f64_ops \<Rightarrow> 'f point_survey \<Rightarrow> octets set \<Rightarrow> 'f point_association list \<Rightarrow> survey_error + unit" where
  "validate_associations F s ids [] = Inr ()"
| "validate_associations F s ids (a # as) =
     (let cfg = sv_config s in
      if as_observation_id a \<in> ids \<or> as_point_id a \<noteq> cfg_point_id cfg \<or> as_session_id a \<noteq> cfg_session_id cfg \<or>
         as_source_id a \<noteq> cfg_source_id cfg \<or> as_assigned_position a \<noteq> cfg_anchor cfg
      then Inl InvalidSnapshot
      else
        bindE (validate_for_config F cfg a) (\<lambda>_.
        if \<not> (\<exists>w \<in> set (sv_windows s). fst (time_bounds a) \<ge> aw_start w \<and>
              snd (time_bounds a) \<le> (case aw_end w of None \<Rightarrow> event_last s | Some e \<Rightarrow> e))
        then Inl InvalidSnapshot
        else validate_associations F s (insert (as_observation_id a) ids) as))"

definition max_association_time :: "'f point_association list \<Rightarrow> u64 option" where
  "max_association_time as = (if as = [] then None else Some (Max (set (map (snd \<circ> time_bounds) as))))"

definition validate :: "'f f64_ops \<Rightarrow> 'f point_survey \<Rightarrow> survey_error + unit" where
  "validate F s =
     bindE (preflight (sv_config s)) (\<lambda>_.
     if length (sv_records s) > MAX_RECORDS \<or> sv_windows s = [] \<or> length (sv_windows s) > MAX_WINDOWS \<or>
        sv_started s > sv_last s \<or> aw_start (hd (sv_windows s)) \<noteq> sv_started s
     then Inl InvalidSnapshot
     else
     bindE (validate_windows (sv_phase s) (sv_last s) (sv_started s) (sv_windows s)) (\<lambda>_.
     if sv_phase s = Capturing \<and> aw_end (last (sv_windows s)) \<noteq> None then Inl InvalidSnapshot
     else
     bindE (validate_records F s {} {} (sv_started s) (sv_records s)) (\<lambda>ids.
     bindE (if sv_phase s = Completed
            then bindE (progress F s) (\<lambda>p. if \<not> pr_ready p then Inl InvalidSnapshot else Inr ())
            else Inr ()) (\<lambda>_.
     if length (sv_associations s) > MAX_RECORDS \<or>
        (case sv_event_last s of None \<Rightarrow> False | Some t \<Rightarrow> t < sv_last s) \<or>
        sv_event_last s \<noteq>
          (case max_association_time (sv_associations s) of
             None \<Rightarrow> None | Some t \<Rightarrow> if t > sv_last s then Some t else None)
     then Inl InvalidSnapshot
     else validate_associations F s ids (sv_associations s)))))"

text \<open>\<open>TryFrom<Snapshot>\<close>: how a stored snapshot becomes a survey again.\<close>

definition survey_try_from :: "'f f64_ops \<Rightarrow> 'f point_survey \<Rightarrow> survey_error + 'f point_survey" where
  "survey_try_from F snapshot = bindE (validate F snapshot) (\<lambda>_. Inr snapshot)"

end
