(* ===== verification/Survey_Invariant.thy ===== *)
theory Survey_Invariant
  imports Survey_State
begin

text \<open>
  Every state a point survey can reach is a valid snapshot: it passes the validation that a stored
  snapshot has to pass (\<open>PointSurvey::validate\<close> in \<open>crates/survey/src/state.rs\<close>).
\<close>

section \<open>Windows\<close>

abbreviation all_closed :: "active_window list \<Rightarrow> bool" where
  "all_closed ws \<equiv> (\<forall>w \<in> set ws. aw_end w \<noteq> None)"

definition final_end :: "u64 \<Rightarrow> u64 \<Rightarrow> active_window list \<Rightarrow> u64" where
  "final_end lst previous ws = (if ws = [] then previous else window_end lst (last ws))"

lemma window_end_closed: "aw_end w \<noteq> None \<Longrightarrow> window_end lst w = window_end lst' w"
  by (auto simp: window_end_def)

lemma window_end_simps [simp]:
  "window_end lst \<lparr>aw_start = a, aw_end = None\<rparr> = lst" "window_end lst \<lparr>aw_start = a, aw_end = Some e\<rparr> = e"
  "window_end lst (w\<lparr>aw_end := Some e\<rparr>) = e" "aw_end w = None \<Longrightarrow> window_end lst w = lst"
  "aw_end w = Some e \<Longrightarrow> window_end lst w = e"
  by (simp_all add: window_end_def)

lemma validate_windows_append:
  "validate_windows ph lst previous (ws @ [w]) = Inr () \<longleftrightarrow>
     all_closed ws \<and> validate_windows ph lst previous ws = Inr () \<and>
     validate_windows ph lst (final_end lst previous ws) [w] = Inr ()"
  by (induction ph lst previous ws rule: validate_windows.induct) (auto simp: final_end_def)

lemma validate_windows_closed:
  "validate_windows ph lst previous ws = Inr () \<Longrightarrow> all_closed ws \<Longrightarrow> lst \<le> lst' \<Longrightarrow>
     validate_windows ph' lst' previous ws = Inr ()"
proof (induction ph lst previous ws rule: validate_windows.induct)
  case (2 ph lst previous w ws)
  then show ?case using window_end_closed [of w lst lst'] by (auto split: if_splits)
qed simp

lemma validate_windows_final:
  "validate_windows ph lst previous ws = Inr () \<Longrightarrow> previous \<le> lst \<Longrightarrow> final_end lst previous ws \<le> lst"
  by (induction ph lst previous ws rule: validate_windows.induct) (auto simp: final_end_def split: if_splits)

lemma validate_windows_paused:
  "validate_windows ph lst previous ws = Inr () \<Longrightarrow> ph \<noteq> Capturing \<Longrightarrow> all_closed ws"
  by (induction ph lst previous ws rule: validate_windows.induct) (auto split: if_splits)

lemma final_end_closed: "all_closed ws \<Longrightarrow> final_end lst previous ws = final_end lst' previous ws"
  using window_end_closed [of "last ws" lst lst'] by (auto simp: final_end_def)

lemma validate_windows_capturing:
  assumes "validate_windows Capturing lst previous ws = Inr ()" "ws \<noteq> []" "aw_end (last ws) = None" "lst \<le> lst'"
  shows "validate_windows Capturing lst' previous ws = Inr ()"
    and "validate_windows ph lst' previous (butlast ws @ [(last ws)\<lparr>aw_end := Some lst'\<rparr>]) = Inr ()"
proof -
  let ?b = "butlast ws" and ?w = "last ws"
  have ws: "ws = ?b @ [?w]" using assms(2) by simp
  have b: "all_closed ?b" "validate_windows Capturing lst previous ?b = Inr ()"
    "validate_windows Capturing lst (final_end lst previous ?b) [?w] = Inr ()"
    using assms(1) validate_windows_append [of Capturing lst previous ?b ?w] ws by auto
  have fin: "final_end lst previous ?b = final_end lst' previous ?b" by (rule final_end_closed [OF b(1)])
  have closed: "validate_windows ph' lst' previous ?b = Inr ()" for ph'
    by (rule validate_windows_closed [OF b(2,1) assms(4)])
  have "validate_windows Capturing lst' previous (?b @ [?w]) = Inr ()"
    unfolding validate_windows_append using b closed assms(3,4) fin by (auto split: if_splits)
  then show "validate_windows Capturing lst' previous ws = Inr ()" using ws by simp
  show "validate_windows ph lst' previous (?b @ [?w\<lparr>aw_end := Some lst'\<rparr>]) = Inr ()"
    unfolding validate_windows_append using b closed assms(3,4) fin by (auto split: if_splits)
qed

lemma validate_windows_resume:
  assumes "validate_windows Paused lst previous ws = Inr ()" "lst \<le> lst'" "previous \<le> lst"
  shows "validate_windows Capturing lst' previous (ws @ [\<lparr>aw_start = lst', aw_end = None\<rparr>]) = Inr ()"
proof -
  have closed: "all_closed ws" by (rule validate_windows_paused [OF assms(1)]) simp
  have "final_end lst previous ws \<le> lst" by (rule validate_windows_final [OF assms(1,3)])
  moreover have "final_end lst previous ws = final_end lst' previous ws" by (rule final_end_closed [OF closed])
  ultimately show ?thesis
    unfolding validate_windows_append
    using closed validate_windows_closed [OF assms(1) closed assms(2)] assms(2) by auto
qed

section \<open>Records and associations\<close>

text \<open>Every window of the first list survives in the second, at least as long.\<close>

definition covers :: "u64 \<Rightarrow> active_window list \<Rightarrow> u64 \<Rightarrow> active_window list \<Rightarrow> bool" where
  "covers lst ws lst' ws' \<longleftrightarrow>
     (\<forall>w \<in> set ws. \<exists>w' \<in> set ws'. aw_start w' = aw_start w \<and> window_end lst w \<le> window_end lst' w')"

lemma coversI:
  "(\<And>w. w \<in> set ws \<Longrightarrow> \<exists>w' \<in> set ws'. aw_start w' = aw_start w \<and> window_end lst w \<le> window_end lst' w') \<Longrightarrow>
     covers lst ws lst' ws'"
  unfolding covers_def by blast

lemma coversD:
  assumes "covers lst ws lst' ws'" "\<exists>w \<in> set ws. a \<ge> aw_start w \<and> b \<le> window_end lst w"
  shows "\<exists>w \<in> set ws'. a \<ge> aw_start w \<and> b \<le> window_end lst' w"
proof -
  obtain w where w: "w \<in> set ws" "a \<ge> aw_start w" "b \<le> window_end lst w" using assms(2) by blast
  then obtain w' where "w' \<in> set ws'" "aw_start w' = aw_start w" "window_end lst w \<le> window_end lst' w'"
    using assms(1) unfolding covers_def by blast
  with w show ?thesis by (intro bexI [of _ w']) auto
qed

lemma window_end_mono: "lst \<le> lst' \<Longrightarrow> window_end lst w \<le> window_end lst' w"
  by (cases "aw_end w") auto

lemma covers_later:
  assumes "covers at ws at ws'" "lst \<le> at"
  shows "covers lst ws at ws'"
proof (rule coversI)
  fix w assume "w \<in> set ws"
  then obtain w' where "w' \<in> set ws'" "aw_start w' = aw_start w" "window_end at w \<le> window_end at w'"
    using assms(1) unfolding covers_def by blast
  then show "\<exists>w' \<in> set ws'. aw_start w' = aw_start w \<and> window_end lst w \<le> window_end at w'"
    using order_trans [OF window_end_mono [OF assms(2)]] by blast
qed

lemma covers_same: "lst \<le> lst' \<Longrightarrow> set ws \<subseteq> set ws' \<Longrightarrow> covers lst ws lst' ws'"
  unfolding covers_def using window_end_mono by blast

lemma covers_close:
  assumes "lst \<le> lst'" "lst' \<le> at" "ws \<noteq> []" "aw_end (last ws) = None"
  shows "covers lst ws lst' (butlast ws @ [(last ws)\<lparr>aw_end := Some at\<rparr>])"
proof (rule coversI)
  fix w assume "w \<in> set ws"
  then consider "w \<in> set (butlast ws)" | "w = last ws"
    using assms(3) by (metis append_butlast_last_id in_set_conv_decomp rotate1.simps(2) set_ConsD set_rotate1)
  then show "\<exists>w' \<in> set (butlast ws @ [(last ws)\<lparr>aw_end := Some at\<rparr>]). aw_start w' = aw_start w \<and> window_end lst w \<le> window_end lst' w'"
  proof cases
    case 1
    then show ?thesis using window_end_mono [OF assms(1)] by auto
  next
    case 2
    then have "window_end lst w \<le> at" using assms by simp
    then show ?thesis using 2 by auto
  qed
qed

lemma validate_record_mono:
  assumes "validate_record F s r = Inr ()" "sv_config s' = sv_config s"
    and "covers (sv_last s) (sv_windows s) (sv_last s') (sv_windows s')"
  shows "validate_record F s' r = Inr ()"
proof -
  have "\<exists>w \<in> set (sv_windows s). rec_captured r \<ge> aw_start w \<and> rec_admitted r \<le> window_end (sv_last s) w"
    using assms(1) by (auto simp: validate_record_def Let_def split: if_splits)
  then have "\<exists>w \<in> set (sv_windows s'). rec_captured r \<ge> aw_start w \<and> rec_admitted r \<le> window_end (sv_last s') w"
    by (rule coversD [OF assms(3)])
  with assms(1,2) show ?thesis by (auto simp: validate_record_def Let_def split: if_splits)
qed

definition record_in_order :: "'f point_survey \<Rightarrow> octets set \<Rightarrow> (u64 \<times> octets) set \<Rightarrow> u64 \<Rightarrow> 'f accepted_evidence \<Rightarrow> bool" where
  "record_in_order s ids samples previous r \<longleftrightarrow>
     rec_observation_id r \<notin> ids \<and> (rec_captured r, rec_bssid r) \<notin> samples \<and> rec_captured r \<le> rec_admitted r \<and>
     rec_admitted r \<le> sv_last s \<and> previous \<le> rec_admitted r \<and> \<not> bad_quality (rec_quality r) \<and> length (rec_quality r) \<le> 32"

lemma validate_records_Cons:
  "validate_records F s ids samples previous (r # rs) = Inr ids' \<longleftrightarrow>
     record_in_order s ids samples previous r \<and> validate_record F s r = Inr () \<and>
     validate_records F s (insert (rec_observation_id r) ids) (insert (rec_captured r, rec_bssid r) samples)
       (rec_admitted r) rs = Inr ids'"
  by (auto simp: record_in_order_def split: if_splits)

declare validate_records.simps(2) [simp del]

lemma validate_records_mono:
  assumes "validate_records F s ids samples previous rs = Inr ids'"
    and "sv_config s' = sv_config s" "sv_last s \<le> sv_last s'"
    and "covers (sv_last s) (sv_windows s) (sv_last s') (sv_windows s')"
  shows "validate_records F s' ids samples previous rs = Inr ids'"
  using assms(1)
proof (induction rs arbitrary: ids samples previous)
  case (Cons r rs)
  then have "record_in_order s' ids samples previous r" "validate_record F s' r = Inr ()"
    using assms(3) validate_record_mono [OF _ assms(2,4)] by (auto simp: validate_records_Cons record_in_order_def)
  with Cons show ?case by (simp add: validate_records_Cons)
qed simp

lemma validate_records_append:
  "validate_records F s ids samples previous (rs @ [r]) = Inr ids' \<longleftrightarrow>
     validate_records F s ids samples previous rs = Inr (ids \<union> rec_observation_id ` set rs) \<and>
     validate_records F s (ids \<union> rec_observation_id ` set rs)
       (samples \<union> (\<lambda>r. (rec_captured r, rec_bssid r)) ` set rs) (if rs = [] then previous else rec_admitted (last rs)) [r] = Inr ids'"
proof (induction rs arbitrary: ids samples previous)
  case (Cons q rs)
  have eqs: "insert (rec_observation_id q) ids \<union> rec_observation_id ` set rs = ids \<union> rec_observation_id ` set (q # rs)"
    "insert (rec_captured q, rec_bssid q) samples \<union> (\<lambda>r. (rec_captured r, rec_bssid r)) ` set rs =
     samples \<union> (\<lambda>r. (rec_captured r, rec_bssid r)) ` set (q # rs)" by auto
  have lst: "(if rs = [] then rec_admitted q else rec_admitted (last rs)) = (if q # rs = [] then previous else rec_admitted (last (q # rs)))" by simp
  show ?case
    unfolding append_Cons validate_records_Cons [of F s ids samples previous q] Cons.IH eqs lst by blast
qed simp

lemma validate_records_ids:
  "validate_records F s ids samples previous rs = Inr ids' \<Longrightarrow> ids' = ids \<union> rec_observation_id ` set rs"
  by (induction rs arbitrary: ids samples previous) (fastforce simp: validate_records_Cons)+

lemma validate_records_last:
  "validate_records F s ids samples previous rs = Inr ids' \<Longrightarrow> previous \<le> sv_last s \<Longrightarrow>
     (if rs = [] then previous else rec_admitted (last rs)) \<le> sv_last s"
proof (induction rs arbitrary: ids samples previous)
  case (Cons r rs)
  from Cons.prems(1) have "rec_admitted r \<le> sv_last s" by (simp add: validate_records_Cons record_in_order_def)
  moreover from this Cons.prems(1) Cons.IH have "(if rs = [] then rec_admitted r else rec_admitted (last rs)) \<le> sv_last s"
    unfolding validate_records_Cons by blast
  ultimately show ?case by (auto split: if_splits)
qed simp

definition association_covered :: "'f point_survey \<Rightarrow> 'f point_association \<Rightarrow> bool" where
  "association_covered s a \<longleftrightarrow>
     (\<exists>w \<in> set (sv_windows s). fst (time_bounds a) \<ge> aw_start w \<and> snd (time_bounds a) \<le> window_end (event_last s) w)"

lemma validate_associations_Cons:
  "validate_associations F s ids (a # as) = Inr () \<longleftrightarrow>
     as_observation_id a \<notin> ids \<and> validate_for_config F (sv_config s) a = Inr () \<and> association_covered s a \<and>
     validate_associations F s (insert (as_observation_id a) ids) as = Inr ()"
  by (auto simp: Let_def association_covered_def window_end_def validate_for_config_def split: if_splits)

declare validate_associations.simps(2) [simp del]

lemma validate_associations_mono:
  assumes "validate_associations F s ids as = Inr ()" "sv_config s' = sv_config s"
    and "covers (event_last s) (sv_windows s) (event_last s') (sv_windows s')"
  shows "validate_associations F s' ids as = Inr ()"
  using assms(1)
proof (induction as arbitrary: ids)
  case (Cons a as)
  then have "association_covered s a" by (simp add: validate_associations_Cons)
  then have "association_covered s' a" unfolding association_covered_def by (rule coversD [OF assms(3)])
  with Cons assms(2) show ?case by (simp add: validate_associations_Cons)
qed simp

lemma validate_associations_append:
  "validate_associations F s ids (as @ [a]) = Inr () \<longleftrightarrow>
     validate_associations F s ids as = Inr () \<and>
     validate_associations F s (ids \<union> as_observation_id ` set as) [a] = Inr ()"
proof (induction as arbitrary: ids)
  case (Cons b as)
  have "insert (as_observation_id b) ids \<union> as_observation_id ` set as = ids \<union> as_observation_id ` set (b # as)" by auto
  then show ?case unfolding append_Cons validate_associations_Cons [of F s ids b] Cons.IH by auto
qed simp

lemma validate_associations_ids:
  assumes "validate_associations F s ids as = Inr ()" "i \<notin> as_observation_id ` set as"
  shows "validate_associations F s (insert i ids) as = Inr ()"
  using assms
proof (induction as arbitrary: ids)
  case (Cons a as)
  then show ?case by (auto simp: validate_associations_Cons insert_commute)
qed simp

section \<open>The event watermark\<close>

abbreviation watermark :: "'f point_survey \<Rightarrow> u64 option" where
  "watermark s \<equiv>
     (case max_association_time (sv_associations s) of None \<Rightarrow> None | Some t \<Rightarrow> if t > sv_last s then Some t else None)"

lemma max_association_time_None: "max_association_time as = None \<longleftrightarrow> as = []"
  by (simp add: max_association_time_def)

lemma max_association_time_le:
  "a \<in> set as \<Longrightarrow> \<exists>t. max_association_time as = Some t \<and> snd (time_bounds a) \<le> t"
  by (auto simp: max_association_time_def intro!: Max_ge)

lemma max_association_time_mem:
  "max_association_time as = Some t \<Longrightarrow> \<exists>a \<in> set as. t = snd (time_bounds a)"
  using Max_in [of "set (map (snd \<circ> time_bounds) as)"]
  by (fastforce simp: max_association_time_def image_iff split: if_splits)

lemma watermark_bound:
  assumes "sv_event_last s = watermark s" "a \<in> set (sv_associations s)"
  shows "snd (time_bounds a) \<le> event_last s"
  using max_association_time_le [OF assms(2)] assms(1) by (auto simp: event_last_def split: if_splits)

lemma watermark_last: "sv_event_last s = watermark s \<Longrightarrow> sv_last s \<le> event_last s"
  by (auto simp: event_last_def split: option.splits if_splits)

lemma watermark_reset:
  assumes "\<And>a. a \<in> set (sv_associations s) \<Longrightarrow> snd (time_bounds a) \<le> sv_last s"
  shows "watermark s = None"
  using max_association_time_mem [of "sv_associations s"] assms by (fastforce split: option.splits)

lemma watermark_append:
  assumes "sv_event_last s = watermark s" "event_last s \<le> snd (time_bounds a)"
    and s': "s' = s\<lparr>sv_event_last := (if snd (time_bounds a) > event_last s then Some (snd (time_bounds a)) else sv_event_last s),
             sv_associations := sv_associations s @ [a]\<rparr>"
  shows "sv_event_last s' = watermark s'" "event_last s' = snd (time_bounds a)"
proof -
  let ?p = "snd (time_bounds a)"
  have "b \<in> set (sv_associations s @ [a]) \<Longrightarrow> snd (time_bounds b) \<le> ?p" for b
    using watermark_bound [OF assms(1)] assms(2) by (fastforce intro: order_trans)
  then have "Max (set (map (snd \<circ> time_bounds) (sv_associations s @ [a]))) = ?p"
    by (intro Max_eqI) auto
  then have m: "max_association_time (sv_associations s') = Some ?p" by (simp add: s' max_association_time_def)
  have "sv_last s \<le> event_last s" by (rule watermark_last [OF assms(1)])
  show "sv_event_last s' = watermark s'"
    unfolding m using s' assms(1,2) \<open>sv_last s \<le> event_last s\<close>
    by (auto simp: event_last_def split: option.splits if_splits)
  show "event_last s' = ?p" using s' assms(2) by (auto simp: event_last_def split: option.splits if_splits)
qed

section \<open>Valid states\<close>

definition completed_ready :: "'f f64_ops \<Rightarrow> 'f point_survey \<Rightarrow> bool" where
  "completed_ready F s \<longleftrightarrow> (sv_phase s = Completed \<longrightarrow> (\<exists>p. progress F s = Inr p \<and> pr_ready p))"

lemma validate_iff:
  "validate F s = Inr () \<longleftrightarrow>
     preflight (sv_config s) = Inr () \<and> length (sv_records s) \<le> MAX_RECORDS \<and> sv_windows s \<noteq> [] \<and>
     length (sv_windows s) \<le> MAX_WINDOWS \<and> sv_started s \<le> sv_last s \<and> aw_start (hd (sv_windows s)) = sv_started s \<and>
     validate_windows (sv_phase s) (sv_last s) (sv_started s) (sv_windows s) = Inr () \<and>
     (sv_phase s = Capturing \<longrightarrow> aw_end (last (sv_windows s)) = None) \<and>
     validate_records F s {} {} (sv_started s) (sv_records s) = Inr (rec_observation_id ` set (sv_records s)) \<and>
     completed_ready F s \<and> length (sv_associations s) \<le> MAX_RECORDS \<and> sv_event_last s = watermark s \<and>
     validate_associations F s (rec_observation_id ` set (sv_records s)) (sv_associations s) = Inr ()"
proof -
  have phase: "(if sv_phase s = Completed then bindE (progress F s) (\<lambda>p. if \<not> pr_ready p then Inl InvalidSnapshot else Inr ())
      else Inr ()) = Inr () \<longleftrightarrow> completed_ready F s"
    by (cases "progress F s") (simp_all add: completed_ready_def)
  let ?ids = "rec_observation_id ` set (sv_records s)"
  have recs: "(\<exists>ids. validate_records F s {} {} (sv_started s) (sv_records s) = Inr ids \<and> Q ids) \<longleftrightarrow>
      validate_records F s {} {} (sv_started s) (sv_records s) = Inr ?ids \<and> Q ?ids" for Q
    using validate_records_ids [of F s "{}" "{}" "sv_started s" "sv_records s"] by auto
  have water: "\<not> (case watermark s of None \<Rightarrow> False | Some t \<Rightarrow> t < sv_last s)"
    by (auto split: option.splits)
  then have mark: "(\<not> (case sv_event_last s of None \<Rightarrow> False | Some t \<Rightarrow> t < sv_last s) \<and> sv_event_last s = watermark s \<and> R) \<longleftrightarrow>
      sv_event_last s = watermark s \<and> R" for R by metis
  show ?thesis
    unfolding validate_def
    by (simp only: bindE_Inr_iff if_Inl_iff ex_unit recs phase de_Morgan_disj de_Morgan_conj not_less not_not conj_assoc mark
        imp_conv_disj)
qed

lemmas validateD = validate_iff [THEN iffD1]

lemma check_timeD: "check_time s at = Inr u \<Longrightarrow> ts_epoch at = cfg_epoch (sv_config s) \<and> event_last s \<le> nanoseconds at"
  by (auto simp: check_time_def split: if_splits)

lemma advanceD:
  assumes "advance s at = Inr s'"
  shows "sv_phase s \<in> {Capturing, Paused}" "event_last s \<le> nanoseconds at"
    "s' = s\<lparr>sv_last := nanoseconds at, sv_event_last := None\<rparr>"
  using assms check_timeD [of s at] by (auto simp: advance_def split: if_splits)

text \<open>
  A step that moves the clock to \<open>at\<close>, keeps the records and associations, and changes the windows to
  \<open>ws\<close> keeps a state valid if the windows are valid and cover the old ones.
\<close>

lemma valid_moved:
  assumes v: "validate F s = Inr ()" and t: "event_last s \<le> at"
    and s': "s' = s\<lparr>sv_last := at, sv_event_last := None, sv_windows := ws, sv_phase := ph\<rparr>"
    and ws: "ws \<noteq> []" "length ws \<le> MAX_WINDOWS" "aw_start (hd ws) = sv_started s"
      "validate_windows ph at (sv_started s) ws = Inr ()" "ph = Capturing \<Longrightarrow> aw_end (last ws) = None"
    and cov: "covers at (sv_windows s) at ws"
    and ready: "completed_ready F s'"
  shows "validate F s' = Inr ()"
proof -
  note d = validateD [OF v]
  have last: "sv_last s \<le> at" using watermark_last [of s] d t by auto
  have ev: "event_last s' = at" by (simp add: s' event_last_def)
  have cov1: "covers (sv_last s) (sv_windows s) (sv_last s') (sv_windows s')"
    "covers (event_last s) (sv_windows s) (event_last s') (sv_windows s')"
    using covers_later [OF cov last] covers_later [OF cov t] ev by (simp_all add: s')
  have "watermark s' = None"
    using watermark_bound [of s] d t by (intro watermark_reset) (auto simp: s' intro: order_trans)
  moreover have "validate_records F s' {} {} (sv_started s) (sv_records s) = Inr (rec_observation_id ` set (sv_records s))"
    using d last by (intro validate_records_mono [OF _ _ _ cov1(1)]) (auto simp: s')
  moreover have "validate_associations F s' (rec_observation_id ` set (sv_records s)) (sv_associations s) = Inr ()"
    using d by (intro validate_associations_mono [OF _ _ cov1(2)]) (auto simp: s')
  ultimately show ?thesis
    unfolding validate_iff using d ws ready last by (auto simp: s')
qed

lemma valid_advance:
  assumes "validate F s = Inr ()" "advance s at = Inr s'"
  shows "validate F s' = Inr ()"
proof (rule valid_moved [OF assms(1) advanceD(2) [OF assms(2)]])
  note d = validateD [OF assms(1)] and a = advanceD [OF assms(2)]
  have last: "sv_last s \<le> nanoseconds at" using watermark_last [of s] d a(2) by auto
  show "s' = s\<lparr>sv_last := nanoseconds at, sv_event_last := None, sv_windows := sv_windows s, sv_phase := sv_phase s\<rparr>"
    using a(3) by simp
  show "validate_windows (sv_phase s) (nanoseconds at) (sv_started s) (sv_windows s) = Inr ()"
  proof (cases "sv_phase s = Capturing")
    case True
    with d have "validate_windows Capturing (sv_last s) (sv_started s) (sv_windows s) = Inr ()" by simp
    from validate_windows_capturing(1) [OF this _ _ last] d True show ?thesis by simp
  next
    case False
    from d have w: "validate_windows (sv_phase s) (sv_last s) (sv_started s) (sv_windows s) = Inr ()" by simp
    show ?thesis by (rule validate_windows_closed [OF w validate_windows_paused [OF w False] last])
  qed
  show "completed_ready F s'" using a by (auto simp: completed_ready_def)
qed (use validateD [OF assms(1)] in \<open>auto intro: covers_same\<close>)

lemma close_window_eq:
  assumes "sv_windows s \<noteq> []"
  shows "close_window at s =
    s\<lparr>sv_windows := (if aw_end (last (sv_windows s)) = None then butlast (sv_windows s) @ [(last (sv_windows s))\<lparr>aw_end := Some at\<rparr>]
                    else sv_windows s)\<rparr>"
  using assms by (auto simp: close_window_def split: list.splits)

text \<open>Pause, finish, cancel and fail close the open window, if there is one, and leave the capturing phase.\<close>

lemma valid_close:
  assumes v: "validate F s = Inr ()" and a: "advance s at = Inr s1" and ph: "ph \<noteq> Capturing"
    and s': "s' = (close_window (nanoseconds at) s1)\<lparr>sv_phase := ph\<rparr>" and ready: "completed_ready F s'"
  shows "validate F s' = Inr ()"
proof -
  note d = validateD [OF v] and a = advanceD [OF a]
  let ?ws = "sv_windows s" and ?at = "nanoseconds at"
  let ?new = "butlast ?ws @ [(last ?ws)\<lparr>aw_end := Some ?at\<rparr>]"
  have last: "sv_last s \<le> ?at" using watermark_last [of s] d a(2) by auto
  have ne: "sv_windows s1 \<noteq> []" using d a(3) by simp
  show ?thesis
  proof (cases "aw_end (last ?ws) = None")
    case True
    then have cap: "sv_phase s = Capturing"
      using d validate_windows_paused [of "sv_phase s" "sv_last s" "sv_started s" ?ws] by (metis last_in_set)
    show ?thesis
    proof (rule valid_moved [OF v a(2), where ws = ?new and ph = ph])
      show "s' = s\<lparr>sv_last := ?at, sv_event_last := None, sv_windows := ?new, sv_phase := ph\<rparr>"
        using True a(3) s' close_window_eq [OF ne] by simp
      show "validate_windows ph ?at (sv_started s) ?new = Inr ()"
        using d cap True last by (intro validate_windows_capturing(2)) auto
      show "covers ?at ?ws ?at ?new" using d True by (intro covers_close) auto
      show "aw_start (hd ?new) = sv_started s" "length ?new \<le> MAX_WINDOWS" using d by (cases ?ws; auto)+
    qed (use ph ready in auto)
  next
    case False
    then have cap: "sv_phase s = Paused" using d a(1) by auto
    show ?thesis
    proof (rule valid_moved [OF v a(2), where ws = ?ws and ph = ph])
      show "s' = s\<lparr>sv_last := ?at, sv_event_last := None, sv_windows := ?ws, sv_phase := ph\<rparr>"
        using False a(3) s' close_window_eq [OF ne] by auto
      show "validate_windows ph ?at (sv_started s) ?ws = Inr ()"
      proof (rule validate_windows_closed [OF _ _ last])
        show "validate_windows Paused (sv_last s) (sv_started s) ?ws = Inr ()" using d cap by simp
        then show "all_closed ?ws" by (rule validate_windows_paused) simp
      qed
    qed (use d ph ready in \<open>auto intro: covers_same\<close>)
  qed
qed

lemma valid_resume:
  assumes v: "validate F s = Inr ()" and r: "resume s at = Inr s'"
  shows "validate F s' = Inr ()"
proof -
  note d = validateD [OF v]
  from r obtain s1 where ph: "sv_phase s = Paused" and len: "length (sv_windows s) < MAX_WINDOWS" and a: "advance s at = Inr s1"
    and s': "s' = s1\<lparr>sv_windows := sv_windows s1 @ [\<lparr>aw_start = nanoseconds at, aw_end = None\<rparr>], sv_phase := Capturing\<rparr>"
    by (auto simp: resume_def split: if_splits)
  note a = advanceD [OF a]
  have last: "sv_last s \<le> nanoseconds at" using watermark_last [of s] d a(2) by auto
  show ?thesis
  proof (rule valid_moved [OF v a(2), where ph = Capturing])
    show "s' = s\<lparr>sv_last := nanoseconds at, sv_event_last := None,
        sv_windows := sv_windows s @ [\<lparr>aw_start = nanoseconds at, aw_end = None\<rparr>], sv_phase := Capturing\<rparr>"
      using s' a(3) by simp
    show "validate_windows Capturing (nanoseconds at) (sv_started s) (sv_windows s @ [\<lparr>aw_start = nanoseconds at, aw_end = None\<rparr>]) = Inr ()"
      using d ph last by (intro validate_windows_resume [OF _ last]) auto
  qed (use d len in \<open>auto simp: s' completed_ready_def intro: covers_same\<close>)
qed

section \<open>Admission\<close>

text \<open>The record an admission appends.\<close>

definition admitted_record ::
    "'f envelope_data \<Rightarrow> u64 \<Rightarrow> u64 \<Rightarrow> 'f signal_reading \<Rightarrow> octets \<Rightarrow> 'f option \<Rightarrow> monotonic_window option \<Rightarrow> 'f evidence
       \<Rightarrow> 'f accepted_evidence" where
  "admitted_record d captured received signal bssid age dwell tuned =
     \<lparr>rec_observation_id = env_id d, rec_captured = captured, rec_result_age = age, rec_admitted = received,
      rec_bssid = bssid, rec_rssi = rssi_dbm signal, rec_noise = noise_dbm signal, rec_pose = env_pose d,
      rec_calibration = sig_calibration signal, rec_raw_source = env_raw_source d,
      rec_source_version = src_source_version (env_source d), rec_parser_version = src_parser_version (env_source d),
      rec_quality = env_quality d, rec_dwell = dwell, rec_tuned_frequency = tuned\<rparr>"

lemma admitted_record_simps [simp]:
  "rec_observation_id (admitted_record d c r sg b a dw tn) = env_id d"
  "rec_captured (admitted_record d c r sg b a dw tn) = c"
  "rec_admitted (admitted_record d c r sg b a dw tn) = r"
  "rec_result_age (admitted_record d c r sg b a dw tn) = a"
  "rec_bssid (admitted_record d c r sg b a dw tn) = b"
  "rec_rssi (admitted_record d c r sg b a dw tn) = rssi_dbm sg"
  "rec_noise (admitted_record d c r sg b a dw tn) = noise_dbm sg"
  "rec_pose (admitted_record d c r sg b a dw tn) = env_pose d"
  "rec_calibration (admitted_record d c r sg b a dw tn) = sig_calibration sg"
  "rec_raw_source (admitted_record d c r sg b a dw tn) = env_raw_source d"
  "rec_source_version (admitted_record d c r sg b a dw tn) = src_source_version (env_source d)"
  "rec_parser_version (admitted_record d c r sg b a dw tn) = src_parser_version (env_source d)"
  "rec_quality (admitted_record d c r sg b a dw tn) = env_quality d"
  "rec_dwell (admitted_record d c r sg b a dw tn) = dw"
  "rec_tuned_frequency (admitted_record d c r sg b a dw tn) = tn"
  by (simp_all add: admitted_record_def)

lemma admitD:
  assumes "admit F s d received = Inr s'"
  obtains captured signal identity age bssid dwell tuned where
    "sv_phase s = Capturing" "check_time s received = Inr ()" "length (sv_records s) < MAX_RECORDS"
    "check_source (sv_config s) d = Inr ()" "\<not> bad_quality (env_quality d)" "monotonic (env_time d) = Known captured"
    "ts_epoch captured = cfg_epoch (sv_config s)" "nanoseconds captured \<le> nanoseconds received"
    "check_pose F (sv_config s) (env_pose d) = Inr ()"
    "payload_parts F (sv_config s) (env_payload d) = Inr (signal, identity, age)" "rid_bssid identity = Known bssid"
    "check_scan_age F (sv_config s) (nanoseconds captured) (nanoseconds received) age = Inr ()" "sv_windows s \<noteq> []"
    "aw_start (last (sv_windows s)) \<le> nanoseconds captured" "\<not> has_record s (env_id d)"
    "env_id d \<notin> as_observation_id ` set (sv_associations s)"
    "(nanoseconds captured, bssid) \<notin> (\<lambda>r. (rec_captured r, rec_bssid r)) ` set (sv_records s)"
    "admit_dwell (sv_config s) d (nanoseconds received) = Inr (dwell, tuned)"
    "s' = s\<lparr>sv_last := nanoseconds received, sv_event_last := None, sv_records := sv_records s @
       [admitted_record d (nanoseconds captured) (nanoseconds received) signal bssid age dwell tuned]\<rparr>"
proof -
  note run = assms [unfolded admit_def Let_def]
  from run show thesis
    unfolding if_Inl_iff bindE_Inr_iff ex_unit de_Morgan_disj not_not not_le not_less case_prod_beta sum.inject
    apply (elim exE conjE)
    subgoal for captured parts bssid dt
      by (rule that [of captured "fst parts" "fst (snd parts)" "snd (snd parts)" bssid "fst dt" "snd dt"])
        (assumption | simp add: admitted_record_def | fastforce simp: image_iff)+
    done
qed

lemma check_source_synthetic:
  "check_source cfg d = Inr u \<Longrightarrow> cfg_allow_synthetic cfg \<or> SyntheticFixture \<notin> set (env_quality d)"
  by (auto simp: check_source_def split: if_splits)

lemma payload_parts_mode:
  "payload_parts F cfg p = Inr (signal, identity, age) \<Longrightarrow>
     cfg_mode cfg = ScanMode \<and> age \<noteq> None \<or> cfg_mode cfg = FrameMode \<and> age = None"
  by (auto simp: payload_parts_def split: observation_payload.splits capture_mode.splits if_splits)

lemma check_scan_age_record:
  assumes "check_scan_age F cfg captured received age = Inr ()" "cfg_mode cfg = ScanMode \<and> age \<noteq> None \<or> cfg_mode cfg = FrameMode \<and> age = None"
  shows "validate_age F cfg captured received age = Inr ()"
  using assms by (auto simp: check_scan_age_def validate_age_def split: option.splits if_splits)

lemma admit_dwell_record:
  assumes "admit_dwell cfg d received = Inr (dwell, tuned)" "envelope_new d = Inr d"
    and "monotonic (env_time d) = Known captured" "ts_epoch captured = cfg_epoch cfg"
  shows "dwell = Some window \<Longrightarrow> \<not> incomplete_dwell (env_quality d) \<and> ts_epoch (win_start window) = cfg_epoch cfg \<and>
    nanoseconds (win_end window) \<le> received \<and>
    window_contains window \<lparr>ts_epoch = cfg_epoch cfg, nanoseconds = nanoseconds captured\<rparr>"
  using assms envelope_new_dwell [OF assms(2,3)]
  by (auto simp: admit_dwell_def window_contains_def split: if_splits evidence.splits)

lemma valid_admit:
  assumes v: "validate F s = Inr ()" and env: "envelope_new d = Inr d" and run: "admit F s d received = Inr s'"
  shows "validate F s' = Inr ()"
proof -
  note d = validateD [OF v]
  from run obtain captured signal identity age bssid dwell tuned where
    r: "sv_phase s = Capturing" "check_time s received = Inr ()" "length (sv_records s) < MAX_RECORDS"
    "check_source (sv_config s) d = Inr ()" "\<not> bad_quality (env_quality d)" "monotonic (env_time d) = Known captured"
    "ts_epoch captured = cfg_epoch (sv_config s)" "nanoseconds captured \<le> nanoseconds received"
    "check_pose F (sv_config s) (env_pose d) = Inr ()"
    "payload_parts F (sv_config s) (env_payload d) = Inr (signal, identity, age)" "rid_bssid identity = Known bssid"
    "check_scan_age F (sv_config s) (nanoseconds captured) (nanoseconds received) age = Inr ()" "sv_windows s \<noteq> []"
    "aw_start (last (sv_windows s)) \<le> nanoseconds captured" "\<not> has_record s (env_id d)"
    "env_id d \<notin> as_observation_id ` set (sv_associations s)"
    "(nanoseconds captured, bssid) \<notin> (\<lambda>r. (rec_captured r, rec_bssid r)) ` set (sv_records s)"
    "admit_dwell (sv_config s) d (nanoseconds received) = Inr (dwell, tuned)"
    and s': "s' = s\<lparr>sv_last := nanoseconds received, sv_event_last := None, sv_records := sv_records s @
       [admitted_record d (nanoseconds captured) (nanoseconds received) signal bssid age dwell tuned]\<rparr>"
    by (rule admitD)
  let ?at = "nanoseconds received"
  let ?new = "admitted_record d (nanoseconds captured) ?at signal bssid age dwell tuned"
  let ?ids = "rec_observation_id ` set (sv_records s)"
  define s1 where "s1 = s\<lparr>sv_last := ?at, sv_event_last := None\<rparr>"
  have "advance s received = Inr s1" using r(1,2) by (simp add: advance_def s1_def)
  then have v1: "validate F s1 = Inr ()" by (rule valid_advance [OF v])
  note d1 = validateD [OF v1]
  have eqs: "sv_config s' = sv_config s1" "sv_last s' = sv_last s1" "sv_windows s' = sv_windows s1" "event_last s' = event_last s1"
    "sv_associations s' = sv_associations s1" "sv_records s1 = sv_records s" "sv_last s1 = ?at"
    by (simp_all add: s' s1_def event_last_def)
  have same: "covers (sv_last s1) (sv_windows s1) (sv_last s') (sv_windows s')"
    "covers (event_last s1) (sv_windows s1) (event_last s') (sv_windows s')" by (simp_all add: eqs covers_same)
  have open': "last (sv_windows s) \<in> set (sv_windows s')" "window_end ?at (last (sv_windows s)) = ?at"
    using d r(1,13) by (simp_all add: s')
  have dw: "dwell = Some window \<Longrightarrow> \<not> incomplete_dwell (env_quality d) \<and> ts_epoch (win_start window) = cfg_epoch (sv_config s) \<and>
      nanoseconds (win_end window) \<le> ?at \<and>
      window_contains window \<lparr>ts_epoch = cfg_epoch (sv_config s), nanoseconds = nanoseconds captured\<rparr>" for window
    by (rule admit_dwell_record [OF r(18) env r(6,7)])
  have rec: "validate_record F s' ?new = Inr ()"
  proof -
    have "\<exists>w \<in> set (sv_windows s'). rec_captured ?new \<ge> aw_start w \<and> rec_admitted ?new \<le> window_end (sv_last s') w"
      using open' r(14) by (intro bexI [of _ "last (sv_windows s)"]) (simp_all add: s')
    moreover have "cfg_allow_synthetic (sv_config s') \<or> SyntheticFixture \<notin> set (rec_quality ?new)"
      using check_source_synthetic [OF r(4)] by (simp add: s')
    moreover note check_scan_age_record [OF r(12) payload_parts_mode [OF r(10)]]
    ultimately show ?thesis
      using r(9) dw by (auto simp: validate_record_def Let_def s' split: option.split)
  qed
  have "record_in_order s' ?ids ((\<lambda>r. (rec_captured r, rec_bssid r)) ` set (sv_records s))
      (if sv_records s = [] then sv_started s else rec_admitted (last (sv_records s))) ?new"
  proof -
    have "(if sv_records s = [] then sv_started s else rec_admitted (last (sv_records s))) \<le> sv_last s"
      by (rule validate_records_last) (use d in auto)
    also have "\<dots> \<le> ?at" using watermark_last [of s] d check_timeD [OF r(2)] by auto
    finally show ?thesis
      using r(5,8,15,17) envelope_new_quality [OF env] by (auto simp: record_in_order_def s' has_record_def)
  qed
  then have "validate_records F s' {} {} (sv_started s) (sv_records s @ [?new]) = Inr (insert (env_id d) ?ids)"
    unfolding validate_records_append
    using rec validate_records_mono [OF _ eqs(1) _ same(1)] d1 by (simp add: eqs validate_records_Cons s1_def)
  moreover have "validate_associations F s' (insert (env_id d) ?ids) (sv_associations s) = Inr ()"
    using validate_associations_mono [OF validate_associations_ids eqs(1) same(2)] d1 r(16) by (simp add: s1_def)
  moreover have "sv_event_last s' = watermark s'"
  proof -
    have "sv_event_last s' = sv_event_last s1" by (simp add: s' s1_def)
    then show ?thesis using d1 by (simp only: eqs)
  qed
  ultimately show ?thesis
    unfolding validate_iff using d1 r(1,3) by (simp add: s' s1_def completed_ready_def)
qed

end
