(* ===== verification/Survey_Reach.thy ===== *)
theory Survey_Reach
  imports Survey_Invariant
begin

text \<open>
  The remaining operations of a point survey keep a state valid: receipt associations
  (\<open>crates/survey/src/association.rs\<close>) and completion. The states of a survey are an inductive
  predicate over its operations; every one of them passes the validation of stored snapshots.
\<close>

section \<open>Receipt associations\<close>

lemma association_basisD:
  assumes "association_basis response epoch active_start lst = Inr (basis, t)"
  shows "lst \<le> t" "active_start \<le> fst (time_bounds (a\<lparr>as_time_basis := basis\<rparr>))"
    "snd (time_bounds (a\<lparr>as_time_basis := basis\<rparr>)) = t"
    "\<not> (case basis of ApiWindow window \<Rightarrow> ts_epoch (win_start window) \<noteq> epoch | Receipt returned \<Rightarrow> ts_epoch returned \<noteq> epoch)"
  using assms by (auto simp: association_basis_def time_bounds_def Let_def split: option.splits if_splits)

lemma text_new_same: "text_new t = Inr t' \<Longrightarrow> t' = t"
  by (auto simp: text_new_def split: if_splits)

lemma association_newD:
  assumes "association_new p d basis response anchor = Inr a"
  shows "validate_local a = Inr ()" "as_point_id a = p" "as_observation_id a = env_id d" "as_session_id a = env_session_id d"
    "as_source_id a = src_source_id (env_source d)" "as_assigned_position a = anchor" "as_time_basis a = basis"
    "as_position_basis a = SelectedPointAnchor ASSOCIATION_METHOD_VERSION" "as_observation_pose a = env_pose d"
    "as_quality a = env_quality d"
  using assms text_new_same [of ASSOCIATION_METHOD_VERSION]
  by (auto simp: association_new_def Let_def case_prod_beta split: sum.splits)

lemma associate_receivedD:
  assumes "associate_received F s received = Inr (s', a)"
  obtains response basis t where
    "sv_phase s = Capturing" "length (sv_associations s) < MAX_RECORDS"
    "check_source (sv_config s) (rcv_envelope received) = Inr ()"
    "(case env_pose (rcv_envelope received) of Known pose \<Rightarrow> check_pose F (sv_config s) (Known pose) | Unknown _ \<Rightarrow> Inr ()) = Inr ()"
    "sv_windows s \<noteq> []" "aw_end (last (sv_windows s)) = None"
    "association_basis response (cfg_epoch (sv_config s)) (aw_start (last (sv_windows s))) (event_last s) = Inr (basis, t)"
    "env_id (rcv_envelope received) \<notin> as_observation_id ` set (sv_associations s)"
    "\<not> has_record s (env_id (rcv_envelope received))"
    "association_new (cfg_point_id (sv_config s)) (rcv_envelope received) basis response (cfg_anchor (sv_config s)) = Inr a"
    "s' = s\<lparr>sv_event_last := (if t > event_last s then Some t else sv_event_last s), sv_associations := sv_associations s @ [a]\<rparr>"
proof -
  note run = assms [unfolded associate_received_def Let_def]
  from run show thesis
    unfolding if_Inl_iff bindE_Inr_iff ex_unit de_Morgan_disj not_not not_le case_prod_beta sum.inject prod.inject
    apply (elim exE conjE)
    subgoal for response bt a'
      by (rule that [of response "fst bt" "snd bt"]) (assumption | simp | fastforce simp: image_iff)+
    done
qed

lemma valid_associate:
  assumes v: "validate F s = Inr ()" and run: "associate_received F s received = Inr (s', a)"
  shows "validate F s' = Inr ()"
proof -
  let ?d = "rcv_envelope received" and ?ids = "rec_observation_id ` set (sv_records s)"
  note d = validateD [OF v]
  from run obtain response basis t where
    r: "sv_phase s = Capturing" "length (sv_associations s) < MAX_RECORDS" "check_source (sv_config s) ?d = Inr ()"
    "(case env_pose ?d of Known pose \<Rightarrow> check_pose F (sv_config s) (Known pose) | Unknown _ \<Rightarrow> Inr ()) = Inr ()"
    "sv_windows s \<noteq> []" "aw_end (last (sv_windows s)) = None"
    and basis: "association_basis response (cfg_epoch (sv_config s)) (aw_start (last (sv_windows s))) (event_last s) = Inr (basis, t)"
    and fresh: "env_id ?d \<notin> as_observation_id ` set (sv_associations s)" "\<not> has_record s (env_id ?d)"
    and new: "association_new (cfg_point_id (sv_config s)) ?d basis response (cfg_anchor (sv_config s)) = Inr a"
    and s': "s' = s\<lparr>sv_event_last := (if t > event_last s then Some t else sv_event_last s), sv_associations := sv_associations s @ [a]\<rparr>"
    by (rule associate_receivedD)
  note n = association_newD [OF new] and b = association_basisD [OF basis]
  have a: "a\<lparr>as_time_basis := basis\<rparr> = a" using n(7) by simp
  have bounds: "event_last s \<le> t" "aw_start (last (sv_windows s)) \<le> fst (time_bounds a)" "snd (time_bounds a) = t"
    using b(1) b(2) [of a] b(3) [of a] a by simp_all
  have mark: "sv_event_last s' = watermark s'" "event_last s' = t"
  proof -
    have "sv_event_last s = watermark s" using d by blast
    moreover have "event_last s \<le> snd (time_bounds a)" using bounds by simp
    ultimately show "sv_event_last s' = watermark s'" "event_last s' = t"
      using watermark_append [of s a s'] s' bounds(3) by blast+
  qed
  have src: "env_session_id ?d = cfg_session_id (sv_config s)" "src_source_id (env_source ?d) = cfg_source_id (sv_config s)"
    using r(3) by (auto simp: check_source_def split: if_splits)
  have cfg: "validate_for_config F (sv_config s) a = Inr ()"
    using n src b(4) r(4) check_source_synthetic [OF r(3)] by (auto simp: validate_for_config_def)
  have "association_covered s' a"
    unfolding association_covered_def
    using bounds r(5,6) mark(2) by (intro bexI [of _ "last (sv_windows s)"]) (simp_all add: s')
  moreover have "as_observation_id a \<notin> ?ids \<union> as_observation_id ` set (sv_associations s)"
    using fresh n(3) by (auto simp: has_record_def)
  ultimately have one: "validate_associations F s' (?ids \<union> as_observation_id ` set (sv_associations s)) [a] = Inr ()"
    using cfg by (simp add: validate_associations_Cons s')
  have cov: "covers (sv_last s) (sv_windows s) (sv_last s') (sv_windows s')"
    "covers (event_last s) (sv_windows s) (event_last s') (sv_windows s')"
    using mark(2) bounds(1) by (auto simp: s' intro: covers_same)
  have "validate_associations F s' ?ids (sv_associations s @ [a]) = Inr ()"
    unfolding validate_associations_append
    using one validate_associations_mono [OF _ _ cov(2)] d by (simp add: s')
  moreover have "validate_records F s' {} {} (sv_started s) (sv_records s) = Inr ?ids"
    using d by (intro validate_records_mono [OF _ _ _ cov(1)]) (auto simp: s')
  moreover have "sv_associations s' = sv_associations s @ [a]" "sv_records s' = sv_records s" "sv_config s' = sv_config s"
    "sv_windows s' = sv_windows s" "sv_phase s' = sv_phase s" "sv_started s' = sv_started s" "sv_last s' = sv_last s"
    by (simp_all add: s')
  ultimately show ?thesis
    unfolding validate_iff using d r(1,2) mark(1) by (simp add: completed_ready_def)
qed

section \<open>Completion\<close>

text \<open>Closing the open window at the current time changes nothing that the progress reads.\<close>

definition closed_at :: "u64 \<Rightarrow> active_window \<Rightarrow> active_window" where
  "closed_at lst w = w\<lparr>aw_end := Some (window_end lst w)\<rparr>"

lemma closed_at_simps [simp]: "aw_start (closed_at lst w) = aw_start w" "window_end lst (closed_at lst w) = window_end lst w"
  by (simp_all add: closed_at_def)

lemma closed_at_closed: "aw_end w \<noteq> None \<Longrightarrow> closed_at lst w = w"
  by (auto simp: closed_at_def)

lemma sum_windows_closed: "sum_windows lst (map (closed_at lst) ws) = sum_windows lst ws"
proof (induction ws)
  case (Cons w ws)
  then show ?case by (intro ext) simp
qed simp

lemma sweep_interval_closed:
  "sweep_interval lst a b (map (closed_at lst) ws) t =
     map_sum id (map_prod (map (closed_at lst)) id) (sweep_interval lst a b ws t)"
proof (induction ws arbitrary: t)
  case (Cons w ws)
  then show ?case by (auto simp: bindE_def word_add_def u64_sub_def some_or_def split: option.splits sum.splits)
qed simp

lemma sweep_closed: "sweep lst joined (map (closed_at lst) ws) t = sweep lst joined ws t"
proof (induction joined arbitrary: ws t)
  case (Cons i joined)
  obtain a b where i: "i = (a, b)" by fastforce
  show ?case
    unfolding i sweep.simps sweep_interval_closed
    by (cases "sweep_interval lst a b ws t") (auto simp: Cons)
qed simp

lemma mapE_map: "mapE f (map g xs) = mapE (f \<circ> g) xs"
  by (induction xs) simp_all

lemma progress_closed:
  "progress F (s\<lparr>sv_windows := map (closed_at (sv_last s)) (sv_windows s), sv_phase := ph\<rparr>) = progress F s"
proof -
  have "dwell_total (s\<lparr>sv_windows := map (closed_at (sv_last s)) (sv_windows s), sv_phase := ph\<rparr>) = dwell_total s"
    by (rule ext) (simp add: dwell_total_def sweep_closed)
  then show ?thesis by (simp add: progress_def sum_windows_closed mapE_map comp_def)
qed

lemma map_closed_last:
  assumes "all_closed (butlast ws)" "ws \<noteq> []" "aw_end (last ws) = None"
  shows "map (closed_at lst) ws = butlast ws @ [(last ws)\<lparr>aw_end := Some lst\<rparr>]"
proof -
  have "map (closed_at lst) (butlast ws @ [last ws]) = map (closed_at lst) (butlast ws) @ [(last ws)\<lparr>aw_end := Some lst\<rparr>]"
    using assms(3) by (simp add: closed_at_def)
  moreover have "map (closed_at lst) (butlast ws) = butlast ws"
    using assms(1) by (intro map_idI) (auto intro: closed_at_closed)
  ultimately show ?thesis using assms(2) by simp
qed

lemma valid_finish:
  assumes v: "validate F s = Inr ()" and run: "finish F s at = Inr s'"
  shows "validate F s' = Inr ()"
proof -
  from run obtain s1 p where ph: "sv_phase s = Capturing" and adv: "advance s at = Inr s1" and p: "progress F s1 = Inr p" "pr_ready p"
    and s': "s' = (close_window (nanoseconds at) s1)\<lparr>sv_phase := Completed\<rparr>"
    by (auto simp: finish_def split: if_splits)
  note d = validateD [OF valid_advance [OF v adv]] and a = advanceD [OF adv]
  have s1: "sv_phase s1 = Capturing" "sv_last s1 = nanoseconds at" using a(3) ph by simp_all
  have ws: "sv_windows s1 \<noteq> []" "aw_end (last (sv_windows s1)) = None" using d s1 by auto
  have "all_closed (butlast (sv_windows s1))"
    using d validate_windows_append [of Capturing "sv_last s1" "sv_started s1" "butlast (sv_windows s1)" "last (sv_windows s1)"] ws s1
    by simp
  then have "s' = s1\<lparr>sv_windows := map (closed_at (sv_last s1)) (sv_windows s1), sv_phase := Completed\<rparr>"
    using close_window_eq [OF ws(1), of "nanoseconds at"] ws s' s1 map_closed_last [of "sv_windows s1" "sv_last s1"] by simp
  then have "completed_ready F s'" using p by (auto simp: completed_ready_def progress_closed)
  then show ?thesis by (intro valid_close [OF v adv _ s']) auto
qed

section \<open>Reachable states\<close>

lemma valid_start:
  assumes "survey_start cfg at = Inr s"
  shows "validate F s = Inr ()"
  using assms
  by (auto simp: survey_start_def validate_iff completed_ready_def max_association_time_def MAX_WINDOWS_def split: if_splits)

lemma valid_left:
  assumes "validate F s = Inr ()" "bindE (advance s at) (\<lambda>s1. Inr ((close_window (nanoseconds at) s1)\<lparr>sv_phase := ph\<rparr>)) = Inr s'"
    and "ph \<noteq> Capturing" "ph \<noteq> Completed"
  shows "validate F s' = Inr ()"
proof -
  from assms(2) obtain s1 where s1: "advance s at = Inr s1" "s' = (close_window (nanoseconds at) s1)\<lparr>sv_phase := ph\<rparr>"
    by (auto simp del: bindE_simps)
  show ?thesis
    by (rule valid_close [OF assms(1) s1(1) assms(3) s1(2)]) (use assms(4) s1(2) in \<open>simp add: completed_ready_def\<close>)
qed

text \<open>
  A survey starts from a checked configuration, or is restored from a stored snapshot; after that it
  changes through its operations, which take checked envelopes.
\<close>

inductive survey_step :: "'f f64_ops \<Rightarrow> 'f point_survey \<Rightarrow> 'f point_survey \<Rightarrow> bool" for F where
  advanced: "advance s at = Inr s' \<Longrightarrow> survey_step F s s'"
| paused: "pause s at = Inr s' \<Longrightarrow> survey_step F s s'"
| resumed: "resume s at = Inr s' \<Longrightarrow> survey_step F s s'"
| finished: "finish F s at = Inr s' \<Longrightarrow> survey_step F s s'"
| cancelled: "cancel s at = Inr s' \<Longrightarrow> survey_step F s s'"
| failed: "fail_survey s at reason = Inr s' \<Longrightarrow> survey_step F s s'"
| admitted: "envelope_new d = Inr d \<Longrightarrow> admit F s d received = Inr s' \<Longrightarrow> survey_step F s s'"
| associated: "envelope_new (rcv_envelope received) = Inr (rcv_envelope received) \<Longrightarrow>
    associate_received F s received = Inr (s', a) \<Longrightarrow> survey_step F s s'"

inductive survey_state :: "'f f64_ops \<Rightarrow> 'f point_survey \<Rightarrow> bool" for F where
  started: "point_config_new F cfg = Inr cfg \<Longrightarrow> survey_start cfg at = Inr s \<Longrightarrow> survey_state F s"
| restored: "point_config_new F (sv_config s) = Inr (sv_config s) \<Longrightarrow> survey_try_from F s = Inr s \<Longrightarrow> survey_state F s"
| stepped: "survey_state F s \<Longrightarrow> survey_step F s s' \<Longrightarrow> survey_state F s'"

lemma pause_leaves:
  "pause s at = Inr s' \<Longrightarrow>
     bindE (advance s at) (\<lambda>s1. Inr ((close_window (nanoseconds at) s1)\<lparr>sv_phase := Paused\<rparr>)) = Inr s'"
  unfolding pause_def if_Inl_iff by blast

lemma valid_step: "survey_step F s s' \<Longrightarrow> validate F s = Inr () \<Longrightarrow> validate F s' = Inr ()"
proof (induction rule: survey_step.induct)
  case (paused s at s')
  show ?case by (rule valid_left [OF paused.prems pause_leaves [OF paused.hyps]]) simp_all
next
  case (cancelled s at s')
  show ?case by (rule valid_left [OF cancelled.prems cancelled.hyps [unfolded cancel_def]]) simp_all
next
  case (failed s at reason s')
  show ?case by (rule valid_left [OF failed.prems failed.hyps [unfolded fail_survey_def]]) simp_all
qed (blast intro: valid_advance valid_resume valid_finish valid_admit valid_associate)+

lemma survey_state_valid: "survey_state F s \<Longrightarrow> validate F s = Inr ()"
proof (induction rule: survey_state.induct)
  case (restored s)
  then show ?case by (simp add: survey_try_from_def)
qed (auto intro: valid_start valid_step)

section \<open>What a step keeps\<close>

text \<open>The configuration, the start, and everything recorded so far.\<close>

definition survey_extends :: "'f point_survey \<Rightarrow> 'f point_survey \<Rightarrow> bool" where
  "survey_extends s s' \<longleftrightarrow>
     sv_config s' = sv_config s \<and> sv_started s' = sv_started s \<and>
     (\<exists>rs. sv_records s' = sv_records s @ rs) \<and> (\<exists>as. sv_associations s' = sv_associations s @ as)"

lemma survey_extends_refl [simp]: "survey_extends s s"
  by (simp add: survey_extends_def)

lemma survey_extends_trans: "survey_extends s s' \<Longrightarrow> survey_extends s' s'' \<Longrightarrow> survey_extends s s''"
  by (auto simp: survey_extends_def)

lemma close_window_keeps [simp]:
  "sv_config (close_window at s) = sv_config s" "sv_started (close_window at s) = sv_started s"
  "sv_records (close_window at s) = sv_records s" "sv_associations (close_window at s) = sv_associations s"
  "sv_last (close_window at s) = sv_last s" "sv_event_last (close_window at s) = sv_event_last s"
  by (simp_all add: close_window_def split: list.split)

lemma advance_extends: "advance s at = Inr s' \<Longrightarrow> survey_extends s s'"
  using advanceD(3) [of s at s'] by (simp add: survey_extends_def)

lemma leave_extends:
  assumes "bindE (advance s at) (\<lambda>s1. Inr ((close_window t s1)\<lparr>sv_phase := ph\<rparr>)) = Inr s'"
  shows "survey_extends s s'"
proof -
  from assms obtain s1 where s1: "advance s at = Inr s1" "s' = (close_window t s1)\<lparr>sv_phase := ph\<rparr>"
    unfolding bindE_Inr_iff by blast
  from advance_extends [OF s1(1)] s1(2) show ?thesis by (simp add: survey_extends_def)
qed

lemma step_extends: "survey_step F s s' \<Longrightarrow> survey_extends s s'"
proof (induction rule: survey_step.induct)
  case (resumed s at s')
  then obtain s1 where s1: "advance s at = Inr s1"
    "s' = s1\<lparr>sv_windows := sv_windows s1 @ [\<lparr>aw_start = nanoseconds at, aw_end = None\<rparr>], sv_phase := Capturing\<rparr>"
    unfolding resume_def if_Inl_iff bindE_Inr_iff sum.inject by blast
  from advance_extends [OF s1(1)] s1(2) show ?case by (simp add: survey_extends_def)
next
  case (finished s at s')
  then obtain s1 where s1: "advance s at = Inr s1" "s' = (close_window (nanoseconds at) s1)\<lparr>sv_phase := Completed\<rparr>"
    unfolding finish_def if_Inl_iff bindE_Inr_iff sum.inject by blast
  from advance_extends [OF s1(1)] s1(2) show ?case by (simp add: survey_extends_def)
next
  case (paused s at s')
  show ?case by (rule leave_extends [OF pause_leaves [OF paused]])
next
  case (cancelled s at s')
  show ?case by (rule leave_extends [OF cancelled [unfolded cancel_def]])
next
  case (failed s at reason s')
  show ?case by (rule leave_extends [OF failed [unfolded fail_survey_def]])
next
  case (admitted d s received s')
  from admitted(2) show ?case by (rule admitD) (simp add: survey_extends_def)
next
  case (associated received s s' a)
  from associated(2) show ?case by (rule associate_receivedD) (simp add: survey_extends_def)
qed (rule advance_extends)

lemma steps_extend: "(survey_step F)\<^sup>*\<^sup>* s s' \<Longrightarrow> survey_extends s s'"
  by (induction rule: rtranclp_induct) (auto intro: survey_extends_trans step_extends)

lemma steps_valid: "(survey_step F)\<^sup>*\<^sup>* s s' \<Longrightarrow> validate F s = Inr () \<Longrightarrow> validate F s' = Inr ()"
  by (induction rule: rtranclp_induct) (auto intro: valid_step)

lemma survey_state_config: "survey_state F s \<Longrightarrow> point_config_new F (sv_config s) = Inr (sv_config s)"
proof (induction rule: survey_state.induct)
  case (started cfg at s)
  then show ?case by (auto simp: survey_start_def split: if_splits)
next
  case (stepped s s')
  then show ?case using step_extends [of F s s'] by (simp add: survey_extends_def)
qed

end
