(* ===== verification/Survey_Samples.thy ===== *)
theory Survey_Samples
  imports Survey_Reach
begin

text \<open>
  A small point survey on which the properties of \<open>Survey_Point\<close> are instantiated: a configuration with
  one metric and one channel, a frame observation received from its source, and the states before and
  after its admission.
\<close>

section \<open>A concrete survey\<close>

definition sample_capture_time :: "u64 \<Rightarrow> int capture_time" where
  "sample_capture_time t =
     \<lparr>wall = Unknown NotMeasured, monotonic = Known \<lparr>ts_epoch = [1], nanoseconds = t\<rparr>, synchronization = Unknown NotMeasured\<rparr>"

definition sample_config :: "int point_config" where
  "sample_config =
     \<lparr>cfg_point_id = [1], cfg_session_id = [2],
      cfg_anchor = \<lparr>pose_id = [3], pose_frame_id = [4], assignment_version = [118], pose_position = \<lparr>pt_x = 0, pt_y = 0, pt_z = 0\<rparr>,
        pose_covariance = Unknown NotMeasured, pose_orientation = Unknown NotMeasured, pose_method_version = [118]\<rparr>,
      cfg_map_calibration = Unknown NotMeasured, cfg_source_id = [5], cfg_collector_id = [6], cfg_adapter_version = [118],
      cfg_epoch = [1],
      cfg_capabilities = \<lparr>cap_collector_id = [6], cap_collector_version = [118], cap_probed_at = sample_capture_time 0,
        cap_entries = [MonitorFrames \<mapsto> Available [118]], cap_raw_payload_policy = DiscardPayload\<rparr>,
      cfg_mode = FrameMode, cfg_required_capabilities = [], cfg_metrics = [(Rssi, 1)],
      cfg_channels = [\<lparr>cr_frequency = 2412, cr_minimum_dwell = 1\<rparr>], cfg_minimum_active_time = 1, cfg_maximum_scan_age = 10,
      cfg_target = AnyBssid, cfg_pose_policy = ManualAnchor 1, cfg_allow_synthetic = False, cfg_method_version = [118]\<rparr>"

definition sample_channel :: "int channel_context" where
  "sample_channel =
     \<lparr>ch_band = Unknown NotMeasured, ch_primary_channel = Unknown NotMeasured, ch_primary_frequency = Known 2412,
      ch_center_frequency = Unknown NotMeasured, ch_second_center_frequency = Unknown NotMeasured,
      ch_width = Unknown NotMeasured, ch_puncturing = Unknown NotMeasured\<rparr>"

definition sample_dwell :: monotonic_window where
  "sample_dwell = \<lparr>win_start = \<lparr>ts_epoch = [1], nanoseconds = 1000000000\<rparr>, win_end = \<lparr>ts_epoch = [1], nanoseconds = 3000000000\<rparr>\<rparr>"

definition sample_signal :: "int signal_reading" where
  "sample_signal = \<lparr>rssi_dbm = Known (- 60), noise_dbm = Unknown NotMeasured, chains = [],
     sig_calibration = Unknown NotMeasured, measurement_method = [118]\<rparr>"

definition sample_identity :: radio_identity_evidence where
  "sample_identity =
     \<lparr>rid_physical_device = Unknown NotMeasured, rid_radio = Unknown NotMeasured, rid_bss = Unknown NotMeasured,
      rid_bssid = Known [7], rid_ess = Unknown NotMeasured, rid_mld = Unknown NotMeasured, rid_link_id = Unknown NotMeasured,
      rid_client = Unknown NotMeasured, rid_grouping_evidence = Unknown NotMeasured\<rparr>"

definition sample_envelope :: "int envelope_data" where
  "sample_envelope =
     \<lparr>env_id = [8], env_session_id = [2],
      env_source = \<lparr>src_source_id = [5], src_collector_id = [6], src_sensor_id = Unknown NotMeasured,
        src_adapter_id = Unknown NotMeasured, src_kind = NativeMonitor, src_source_name = [118],
        src_source_version = Unknown NotMeasured, src_source_schema_version = [118], src_adapter_name = [118],
        src_adapter_version = [118], src_parser_version = [118], src_driver_version = Unknown NotMeasured,
        src_os_version = Unknown NotMeasured\<rparr>,
      env_time = sample_capture_time 2000000000, env_pose = Unknown NotMeasured, env_channel = Unknown NotMeasured,
      env_dwell = Known \<lparr>dw_schedule_id = Unknown NotMeasured, dw_cycle_index = Unknown NotMeasured,
        dw_tuned_channel = sample_channel, dw_window = Known sample_dwell, dw_reported_duration = Unknown NotMeasured,
        dw_method_version = [118]\<rparr>,
      env_privacy = \<lparr>policy_version = [118], identifiers = RedactedIds, priv_payload = Discarded\<rparr>,
      env_quality = [], env_raw_source = Unknown NotMeasured,
      env_payload = Frame \<lparr>fm_identity = sample_identity, fm_signal = sample_signal, fm_frame_type = Known 0,
        fm_frame_subtype = Known 8, fm_retry = Unknown NotMeasured, fm_length_bytes = 100, fm_phy_rate_mbps = Unknown NotMeasured,
        fm_raw_information_elements = Unknown NotMeasured\<rparr>\<rparr>"

abbreviation sample_at :: "u64 \<Rightarrow> monotonic_timestamp" where
  "sample_at t \<equiv> \<lparr>ts_epoch = [1], nanoseconds = t\<rparr>"

definition fresh_survey :: "int point_survey" where
  "fresh_survey = \<lparr>sv_config = sample_config, sv_phase = Capturing, sv_started = 0, sv_last = 0, sv_event_last = None,
     sv_windows = [\<lparr>aw_start = 0, aw_end = None\<rparr>], sv_records = [], sv_associations = []\<rparr>"

definition admitted_survey :: "int point_survey" where
  "admitted_survey = fresh_survey\<lparr>sv_last := 4000000000, sv_records :=
     [admitted_record sample_envelope 2000000000 4000000000 sample_signal [7] None (Some sample_dwell) (Known 2412)]\<rparr>"

lemma uint_u64_max: "uint (- 1 :: u64) = 2 ^ 64 - 1"
  by (simp add: unsigned_minus_1_eq_mask mask_eq_exp_minus_1)

lemma sample_config_new: "point_config_new int_ops sample_config = Inr sample_config"
  by (simp add: uint_u64_max point_config_new_def sample_config_def nanos_def Let_def MAX_RECORDS_def)

lemma sample_envelope_new: "envelope_new sample_envelope = Inr sample_envelope"
  by (simp add: envelope_new_def sample_envelope_def sample_capture_time_def window_contains_def sample_dwell_def
      payload_signal_def sample_signal_def)

lemma fresh_survey_start: "survey_start sample_config (sample_at 0) = Inr fresh_survey"
  by (simp add: survey_start_def preflight_def fresh_survey_def sample_config_def Let_def)

lemma sample_admit: "admit int_ops fresh_survey sample_envelope (sample_at 4000000000) = Inr admitted_survey"
  by (simp add: admit_def fresh_survey_def admitted_survey_def check_time_def event_last_def sample_config_def
      sample_envelope_def sample_capture_time_def check_source_def bad_quality_def check_pose_def payload_parts_def
      sample_identity_def check_scan_age_def has_record_def admit_dwell_def incomplete_dwell_def sample_dwell_def
      sample_channel_def admitted_record_def MAX_RECORDS_def Let_def)

lemma sample_states: "survey_state int_ops fresh_survey" "survey_state int_ops admitted_survey"
proof -
  show fresh: "survey_state int_ops fresh_survey"
    by (rule survey_state.started [OF sample_config_new fresh_survey_start])
  show "survey_state int_ops admitted_survey"
    by (rule survey_state.stepped [OF fresh survey_step.admitted [OF sample_envelope_new sample_admit]])
qed

end
