(* ===== verification/Survey_Progress.thy ===== *)
theory Survey_Progress
  imports Survey_Invariant
begin

text \<open>
  What the progress of a point survey measures (\<open>PointSurvey::progress\<close> in
  \<open>crates/survey/src/state.rs\<close>): the joined dwell intervals and the two-pointer sweep compute the
  number of nanoseconds that lie both in a dwell interval and in an active window.
\<close>

section \<open>Intervals as sets of nanoseconds\<close>

definition span :: "u64 \<Rightarrow> u64 \<Rightarrow> nat set" where
  "span a b = {unat a..<unat b}"

definition interval_union :: "(u64 \<times> u64) list \<Rightarrow> nat set" where
  "interval_union is = (\<Union>(a, b) \<in> set is. span a b)"

definition window_union :: "u64 \<Rightarrow> active_window list \<Rightarrow> nat set" where
  "window_union lst ws = (\<Union>w \<in> set ws. span (aw_start w) (window_end lst w))"

lemma u64_lt: "unat (x :: u64) < 2 ^ 64"
  using unsigned_less [of x, where ?'a = nat] by simp

lemma span_subset: "span a b \<subseteq> {0..<2 ^ 64 - 1}"
  using u64_lt [of b] by (auto simp: span_def)

lemma finite_span [simp]: "finite (span a b)"
  by (simp add: span_def)

lemma finite_unions [simp]: "finite (interval_union is)" "finite (window_union lst ws)"
  by (auto simp: interval_union_def window_union_def)

lemma interval_union_simps [simp]:
  "interval_union [] = {}" "interval_union ((a, b) # is) = span a b \<union> interval_union is"
  "interval_union (is @ js) = interval_union is \<union> interval_union js"
  by (auto simp: interval_union_def)

lemma window_union_simps [simp]:
  "window_union lst [] = {}"
  "window_union lst (w # ws) = span (aw_start w) (window_end lst w) \<union> window_union lst ws"
  by (auto simp: window_union_def)

lemma card_within: "(A :: nat set) \<subseteq> {0..<2 ^ 64 - 1} \<Longrightarrow> card A < 2 ^ 64"
proof -
  assume "(A :: nat set) \<subseteq> {0..<2 ^ 64 - 1}"
  then have "card A \<le> card {0..<2 ^ 64 - 1 :: nat}" by (intro card_mono) auto
  then show ?thesis by simp
qed

lemma interval_union_within: "interval_union is \<subseteq> {0..<2 ^ 64 - 1}"
  using span_subset by (fastforce simp: interval_union_def)

lemma window_union_within: "window_union lst ws \<subseteq> {0..<2 ^ 64 - 1}"
  using span_subset by (fastforce simp: window_union_def)

lemma u64_sub_Inr: "b \<le> a \<Longrightarrow> u64_sub a b = Inr (a - b)"
  by (simp add: u64_sub_def)

lemma unat_sub: "b \<le> (a :: u64) \<Longrightarrow> unat (a - b) = unat a - unat b"
  by (simp add: unat_sub_if_size word_le_nat_alt)

lemma word_add_Inr:
  fixes a b :: "'a::len word"
  assumes "unat a + unat b < 2 ^ LENGTH('a)"
  shows "word_add a b = Inr (a + b)" "unat (a + b) = unat a + unat b"
  using assms by (auto simp: word_add_def checked_add_word_def unat_word_ariths)

section \<open>Active time\<close>

text \<open>Ordered windows: each starts no earlier than the one before it ends.\<close>

fun ordered_windows :: "u64 \<Rightarrow> u64 \<Rightarrow> active_window list \<Rightarrow> bool" where
  "ordered_windows lst previous [] \<longleftrightarrow> True"
| "ordered_windows lst previous (w # ws) \<longleftrightarrow>
     previous \<le> aw_start w \<and> aw_start w \<le> window_end lst w \<and> ordered_windows lst (window_end lst w) ws"

lemma validate_windows_ordered: "validate_windows ph lst previous ws = Inr () \<Longrightarrow> ordered_windows lst previous ws"
  by (induction ph lst previous ws rule: validate_windows.induct) (auto simp: not_less split: if_splits)

lemma window_union_above: "ordered_windows lst previous ws \<Longrightarrow> window_union lst ws \<subseteq> {unat previous..}"
proof (induction lst previous ws rule: ordered_windows.induct)
  case (2 lst previous w ws)
  then have "unat previous \<le> unat (aw_start w)" "unat previous \<le> unat (window_end lst w)"
    by (auto simp: word_le_nat_alt)
  with 2 show ?case by (fastforce simp: span_def)
qed simp

lemma sum_windows_card:
  "ordered_windows lst previous ws \<Longrightarrow> unat acc \<le> unat previous \<Longrightarrow>
     \<exists>n. sum_windows lst ws acc = Inr n \<and> unat n = unat acc + card (window_union lst ws)"
proof (induction ws arbitrary: previous acc)
  case (Cons w ws)
  let ?e = "window_end lst w" and ?s = "aw_start w"
  have o: "unat previous \<le> unat ?s" "?s \<le> ?e" "unat ?s \<le> unat ?e" "ordered_windows lst ?e ws"
    using Cons.prems by (auto simp: word_le_nat_alt)
  have len: "unat (?e - ?s) = unat ?e - unat ?s" by (rule unat_sub [OF o(2)])
  have bound: "unat acc + unat (?e - ?s) \<le> unat ?e" using Cons.prems(2) o len by simp
  then have "unat acc + unat (?e - ?s) < 2 ^ LENGTH(64)" using u64_lt [of ?e] by simp
  note add = word_add_Inr [OF this]
  from Cons.IH [OF o(4), of "acc + (?e - ?s)"] add(2) bound obtain n
    where n: "sum_windows lst ws (acc + (?e - ?s)) = Inr n" "unat n = unat acc + unat (?e - ?s) + card (window_union lst ws)"
    by auto
  have "span ?s ?e \<inter> window_union lst ws = {}" using window_union_above [OF o(4)] by (auto simp: span_def)
  then have "card (window_union lst (w # ws)) = unat (?e - ?s) + card (window_union lst ws)"
    using len by (simp add: card_Un_disjoint span_def)
  with n show ?case using add(1) u64_sub_Inr [OF o(2)] by simp
qed simp

section \<open>Joining dwell intervals\<close>

text \<open>Disjoint intervals with gaps between them, in order.\<close>

fun gapped :: "(u64 \<times> u64) list \<Rightarrow> bool" where
  "gapped [] \<longleftrightarrow> True"
| "gapped [(a, b)] \<longleftrightarrow> a \<le> b"
| "gapped ((a, b) # (c, d) # is) \<longleftrightarrow> a \<le> b \<and> b < c \<and> gapped ((c, d) # is)"

lemma gapped_snoc:
  "gapped (is @ [(a, b)]) \<Longrightarrow> b < c \<Longrightarrow> c \<le> d \<Longrightarrow> gapped (is @ [(a, b), (c, d)])"
  by (induction "is" rule: gapped.induct) auto

lemma gapped_extend: "gapped (is @ [(a, b)]) \<Longrightarrow> b \<le> b' \<Longrightarrow> gapped (is @ [(a, b')])"
  by (induction "is" rule: gapped.induct) auto

lemma sorted_fst:
  fixes a b :: u64
  assumes "sorted ((a, b) # is)"
  shows "\<forall>(c, d) \<in> set is. a \<le> c"
proof -
  have "(a, b) \<le> (c, d) \<Longrightarrow> a \<le> c" for c d :: u64 by (auto simp: less_eq_prod_def)
  then show ?thesis using assms unfolding sorted_simps by fast
qed

lemma merge_intervals_gapped:
  assumes "sorted is" "\<forall>(c, d) \<in> set is. c \<le> d"
  shows "gapped (joined @ [(a, b)]) \<Longrightarrow> \<forall>(c, d) \<in> set is. a \<le> c \<Longrightarrow>
     gapped (merge_intervals (Some (a, b)) is joined) \<and>
     interval_union (merge_intervals (Some (a, b)) is joined) = interval_union joined \<union> span a b \<union> interval_union is"
  using assms
proof (induction "is" arbitrary: a b joined)
  case (Cons i "is")
  obtain c d where i: "i = (c, d)" by fastforce
  have cd: "c \<le> d" "a \<le> c" "sorted is" "\<forall>(c, d) \<in> set is. c \<le> d" "\<forall>(c', d') \<in> set is. c \<le> c'"
    using Cons.prems sorted_fst [of c d "is"] by (simp_all add: i)
  show ?case
  proof (cases "c \<le> b")
    case True
    have "\<forall>(c, d) \<in> set is. a \<le> c" using Cons.prems(2) by (simp add: i)
    moreover have "gapped (joined @ [(a, max b d)])" by (rule gapped_extend [OF Cons.prems(1)]) simp
    moreover have "span a (max b d) = span a b \<union> span c d"
      using True cd unfolding span_def word_le_nat_alt max_def by auto
    ultimately show ?thesis using Cons.IH [OF _ _ cd(3,4)] True by (auto simp: i)
  next
    case False
    then have "gapped ((joined @ [(a, b)]) @ [(c, d)])" using gapped_snoc [OF Cons.prems(1)] cd(1) by simp
    with Cons.IH [OF _ cd(5) cd(3,4), of "joined @ [(a, b)]" d] show ?thesis using False by (auto simp: i)
  qed
qed simp

lemma joined_intervals:
  assumes "\<forall>(c, d) \<in> set is. c \<le> d"
  shows "gapped (merge_intervals None (sort is) [])" "interval_union (merge_intervals None (sort is) []) = interval_union is"
proof -
  have "interval_union (sort is) = interval_union is" by (simp add: interval_union_def)
  moreover have "gapped (merge_intervals None (sort is) []) \<and>
      interval_union (merge_intervals None (sort is) []) = interval_union (sort is)"
  proof (cases "sort is")
    case (Cons i js)
    obtain a b where i: "i = (a, b)" by fastforce
    have "sorted (i # js)" using sorted_sort [of "is"] Cons by simp
    moreover have ab: "\<forall>(c, d) \<in> set (i # js). c \<le> d" using assms Cons by (metis set_sort)
    ultimately have "sorted js" "\<forall>(c, d) \<in> set js. a \<le> c" using sorted_fst [of a b js] by (simp_all add: i)
    with merge_intervals_gapped [of js "[]" a b] ab show ?thesis by (simp add: Cons i)
  qed simp
  ultimately show "gapped (merge_intervals None (sort is) [])" "interval_union (merge_intervals None (sort is) []) = interval_union is"
    by simp_all
qed

section \<open>The sweep\<close>

lemma sweep_interval_card:
  assumes "s \<le> e"
  shows "ordered_windows lst previous ws \<Longrightarrow> unat t + card (span s e \<inter> window_union lst ws) < 2 ^ 64 \<Longrightarrow>
     \<exists>ws' t' previous'. sweep_interval lst s e ws t = Inr (ws', t') \<and> ordered_windows lst previous' ws' \<and>
       unat t' = unat t + card (span s e \<inter> window_union lst ws) \<and>
       (\<forall>X. X \<subseteq> {unat e..} \<longrightarrow> X \<inter> window_union lst ws' = X \<inter> window_union lst ws)"
proof (induction ws arbitrary: previous t)
  case (Cons w ws)
  let ?a = "aw_start w" and ?b = "window_end lst w"
  have o: "previous \<le> ?a" "?a \<le> ?b" "ordered_windows lst ?b ws" using Cons.prems(1) by auto
  note above = window_union_above [OF o(3)]
  consider "?b \<le> s" | "\<not> ?b \<le> s" "e \<le> ?a" | "\<not> ?b \<le> s" "\<not> e \<le> ?a" by blast
  then show ?case
  proof cases
    case 1
    then have "span s e \<inter> span ?a ?b = {}" "X \<subseteq> {unat e..} \<Longrightarrow> X \<inter> span ?a ?b = {}" for X
      using assms by (auto simp: span_def word_le_nat_alt)
    then have eqs: "span s e \<inter> window_union lst (w # ws) = span s e \<inter> window_union lst ws"
      "X \<subseteq> {unat e..} \<Longrightarrow> X \<inter> window_union lst (w # ws) = X \<inter> window_union lst ws" for X by auto
    from Cons.IH [OF o(3), of t] Cons.prems(2) eqs show ?thesis using 1 by auto
  next
    case 2
    then have "span s e \<inter> span ?a ?b = {}" "span s e \<inter> window_union lst ws = {}"
      using above o(2) by (auto simp: span_def word_le_nat_alt)
    then have "span s e \<inter> window_union lst (w # ws) = {}" by auto
    then show ?thesis using 2 Cons.prems(1) by auto
  next
    case 3
    let ?d = "min e ?b - max s ?a"
    have le: "max s ?a \<le> min e ?b" using 3 assms o(2) by auto
    have cut: "span s e \<inter> span ?a ?b = span (max s ?a) (min e ?b)"
      unfolding span_def word_le_nat_alt max_def min_def by auto
    have d: "unat ?d = card (span s e \<inter> span ?a ?b)" unfolding cut unat_sub [OF le] by (simp add: span_def)
    have disj: "span ?a ?b \<inter> window_union lst ws = {}" using above by (auto simp: span_def)
    then have card: "card (span s e \<inter> window_union lst (w # ws)) = unat ?d + card (span s e \<inter> window_union lst ws)"
      unfolding d by (subst card_Un_disjoint [symmetric]) (auto simp: Int_Un_distrib)
    have "unat t + unat ?d < 2 ^ LENGTH(64)" using Cons.prems(2) card by simp
    note add = word_add_Inr [OF this]
    show ?thesis
    proof (cases "?b \<ge> e")
      case True
      then have "span s e \<inter> window_union lst ws = {}" using above by (auto simp: span_def word_le_nat_alt)
      then show ?thesis
        using 3 True add card Cons.prems(1) u64_sub_Inr [OF le] by (simp add: not_le [symmetric]) blast
    next
      case False
      then have "X \<subseteq> {unat e..} \<Longrightarrow> X \<inter> span ?a ?b = {}" for X by (auto simp: span_def word_le_nat_alt)
      then have keep: "X \<subseteq> {unat e..} \<Longrightarrow> X \<inter> window_union lst (w # ws) = X \<inter> window_union lst ws" for X by auto
      have "unat (t + ?d) + card (span s e \<inter> window_union lst ws) < 2 ^ 64" using Cons.prems(2) card add(2) by simp
      from Cons.IH [OF o(3) this] card add(2) keep show ?thesis
        using 3 False add(1) u64_sub_Inr [OF le] by auto
    qed
  qed
qed auto

lemma gapped_above: "gapped ((a, b) # is) \<Longrightarrow> interval_union is \<subseteq> {unat b..}"
proof (induction "is" arbitrary: a b)
  case (Cons i "is")
  obtain c d where i: "i = (c, d)" by fastforce
  have "unat b \<le> unat c" "unat c \<le> unat d" "gapped ((c, d) # is)"
    using Cons.prems by (cases "is"; auto simp: i word_le_nat_alt word_less_nat_alt)+
  note o = this
  have "interval_union is \<subseteq> {unat d..}" by (rule Cons.IH [OF o(3)])
  then have "interval_union is \<subseteq> {unat b..}" using o(1,2) by (meson atLeast_subset_iff order_trans)
  moreover have "span c d \<subseteq> {unat b..}" using o(1) by (auto simp: span_def)
  ultimately show ?case by (simp add: i)
qed simp

lemma gapped_Cons: "gapped ((a, b) # is) \<Longrightarrow> a \<le> b \<and> gapped is"
  by (cases "is") auto

lemma sweep_card:
  "gapped is \<Longrightarrow> ordered_windows lst previous ws \<Longrightarrow>
     unat t + card (interval_union is \<inter> window_union lst ws) < 2 ^ 64 \<Longrightarrow>
     \<exists>n. sweep lst is ws t = Inr n \<and> unat n = unat t + card (interval_union is \<inter> window_union lst ws)"
proof (induction "is" arbitrary: ws t previous)
  case (Cons i "is")
  obtain a b where i: "i = (a, b)" by fastforce
  have ab: "a \<le> b" "gapped is" using gapped_Cons [of a b "is"] Cons.prems(1) by (simp_all add: i)
  have above: "interval_union is \<subseteq> {unat b..}" using gapped_above [of a b "is"] Cons.prems(1) by (simp add: i)
  then have "span a b \<inter> interval_union is = {}" by (auto simp: span_def)
  then have card: "card (interval_union (i # is) \<inter> window_union lst ws) =
      card (span a b \<inter> window_union lst ws) + card (interval_union is \<inter> window_union lst ws)"
    by (subst card_Un_disjoint [symmetric]) (auto simp: i Int_Un_distrib2)
  then have "unat t + card (span a b \<inter> window_union lst ws) < 2 ^ 64" using Cons.prems(3) by simp
  from sweep_interval_card [OF ab(1) Cons.prems(2) this] obtain ws' t' previous'
    where one: "sweep_interval lst a b ws t = Inr (ws', t')" "ordered_windows lst previous' ws'"
      "unat t' = unat t + card (span a b \<inter> window_union lst ws)"
      and keep: "\<And>X. X \<subseteq> {unat b..} \<Longrightarrow> X \<inter> window_union lst ws' = X \<inter> window_union lst ws"
    by blast
  from Cons.IH [OF ab(2) one(2), of t'] keep [OF above] one(1,3) card Cons.prems(3) show ?case
    by (auto simp: i)
qed simp

section \<open>Dwell and metrics\<close>

text \<open>The nanoseconds of a channel's dwell that fall into active windows.\<close>

definition dwell_spec :: "'f point_survey \<Rightarrow> 'f \<Rightarrow> nat" where
  "dwell_spec s frequency =
     card (interval_union (dwell_intervals (sv_records s) frequency) \<inter> window_union (sv_last s) (sv_windows s))"

definition active_spec :: "'f point_survey \<Rightarrow> nat" where
  "active_spec s = card (window_union (sv_last s) (sv_windows s))"

definition metric_spec :: "'f f64_ops \<Rightarrow> 'f point_survey \<Rightarrow> point_metric \<Rightarrow> nat" where
  "metric_spec F s m = length (filter (\<lambda>r. matches_target (sv_config s) r \<and> metric_present F r m) (sv_records s))"

definition dwells_forward :: "'f accepted_evidence list \<Rightarrow> bool" where
  "dwells_forward records \<longleftrightarrow>
     (\<forall>r \<in> set records. \<forall>w. rec_dwell r = Some w \<longrightarrow> nanoseconds (win_start w) \<le> nanoseconds (win_end w))"

lemma dwell_total_spec:
  assumes "dwells_forward (sv_records s)" "ordered_windows (sv_last s) previous (sv_windows s)"
  shows "\<exists>n. dwell_total s ch = Inr n \<and> unat n = dwell_spec s (cr_frequency ch)"
proof -
  let ?is = "dwell_intervals (sv_records s) (cr_frequency ch)"
  let ?W = "window_union (sv_last s) (sv_windows s)"
  have fw: "\<forall>(c, d) \<in> set ?is. c \<le> d"
    using assms(1) by (auto simp: dwells_forward_def dwell_intervals_def List.map_filter_def split: if_splits)
  note j = joined_intervals [OF fw]
  have "card (interval_union ?is \<inter> ?W) < 2 ^ 64"
    by (rule card_within) (use interval_union_within in blast)
  then show ?thesis
    using sweep_card [OF j(1) assms(2), of 0] by (simp add: j(2) dwell_total_def dwell_spec_def)
qed

lemma mapE_Inr: "(\<And>x. x \<in> set xs \<Longrightarrow> f x = Inr (g x)) \<Longrightarrow> mapE f xs = Inr (map g xs)"
  by (induction xs) simp_all

lemma count_metrics_spec:
  "(\<And>m n. (m, n) \<in> set ms \<Longrightarrow> unat n + length rs < 2 ^ 32) \<Longrightarrow>
     count_metrics F cfg rs ms =
       Inr (map (\<lambda>(m, n). (m, n + of_nat (length (filter (\<lambda>r. matches_target cfg r \<and> metric_present F r m) rs)))) ms)"
proof (induction rs arbitrary: ms)
  case (Cons r rs)
  let ?inc = "\<lambda>m. if matches_target cfg r \<and> metric_present F r m then 1 else 0 :: u32"
  have step: "(if matches_target cfg r
            then mapE (\<lambda>(metric, count).
                   bindE (word_add count (if metric_present F r metric then 1 else 0)) (\<lambda>n. Inr (metric, n))) ms
            else Inr ms) = Inr (map (\<lambda>(m, n). (m, n + ?inc m)) ms)"
  proof (cases "matches_target cfg r")
    case True
    have "word_add n (if metric_present F r m then 1 else 0 :: u32) = Inr (n + ?inc m)" if "(m, n) \<in> set ms" for m n
      using Cons.prems [OF that] True by (intro word_add_Inr(1) [THEN trans]) auto
    with True show ?thesis by (auto intro!: mapE_Inr)
  qed (simp add: case_prod_unfold)
  have small: "unat n' + length rs < 2 ^ 32" if "(m, n') \<in> set (map (\<lambda>(m, n). (m, n + ?inc m)) ms)" for m n'
  proof -
    from that obtain n where n: "(m, n) \<in> set ms" "n' = n + ?inc m" by auto
    have "unat n' \<le> unat n + 1" unfolding n(2) by (simp add: unat_word_ariths) (metis Suc_eq_plus1 le_SucI mod_less_eq_dividend add.right_neutral order_refl)
    then show ?thesis using Cons.prems [OF n(1)] by simp
  qed
  have "count_metrics F cfg (r # rs) ms = count_metrics F cfg rs (map (\<lambda>(m, n). (m, n + ?inc m)) ms)"
    unfolding count_metrics.simps step bindE_simps ..
  also have "\<dots> = Inr (map (\<lambda>(m, n). (m, n + of_nat (length (filter (\<lambda>r. matches_target cfg r \<and> metric_present F r m) rs))))
      (map (\<lambda>(m, n). (m, n + ?inc m)) ms))"
    by (rule Cons.IH) (rule small)
  finally show ?case by (auto simp: case_prod_unfold)
qed (simp add: case_prod_unfold)

end
