(* ===== verification/Survey_Point.thy ===== *)
theory Survey_Point
  imports Survey_Samples Survey_Progress
begin

text \<open>
  The properties of the point survey of \<open>crates/survey\<close>: its states are valid snapshots, its progress
  is exact, its final phases are final, and an admitted observation stays attached to its record.
\<close>

section \<open>Exact progress\<close>

text \<open>What the code relies on of IEEE 754: a nanosecond count divided by \<open>1e9\<close> is finite and not negative.\<close>

definition f64_durations :: "'f f64_ops \<Rightarrow> bool" where
  "f64_durations F \<longleftrightarrow>
     (\<forall>n. f_is_finite F (f_div F (f_of_u64 F n) (f_lit F 1000000000)) \<and>
          f_le F (f_lit F 0) (f_div F (f_of_u64 F n) (f_lit F 1000000000)))"

lemma seconds_returns: "f64_durations F \<Longrightarrow> \<exists>x. seconds F n = Inr x"
  by (simp add: seconds_def quantity_new_def quantity_valid_def f64_durations_def)

lemma window_new_returns:
  "f64_durations F \<Longrightarrow> ts_epoch a = ts_epoch b \<Longrightarrow> nanoseconds a \<le> nanoseconds b \<Longrightarrow>
     window_new F a b = Inr \<lparr>win_start = a, win_end = b\<rparr>"
  by (auto simp: window_new_def elapsed_since_def quantity_new_def quantity_valid_def f64_durations_def)

lemma validate_records_each:
  "validate_records F s ids samples previous rs = Inr ids' \<Longrightarrow> r \<in> set rs \<Longrightarrow> validate_record F s r = Inr ()"
  by (induction rs arbitrary: ids samples previous) (auto simp: validate_records_Cons)

lemma validate_record_forward:
  "validate_record F s r = Inr () \<Longrightarrow> rec_dwell r = Some w \<Longrightarrow> nanoseconds (win_start w) \<le> nanoseconds (win_end w)"
  by (auto simp: validate_record_def Let_def window_contains_def if_Inl_iff)

lemma valid_dwells_forward:
  assumes "validate F s = Inr ()"
  shows "dwells_forward (sv_records s)"
  using validateD [OF assms] validate_records_each [of F s "{}" "{}" "sv_started s" "sv_records s"] validate_record_forward
  unfolding dwells_forward_def by blast

lemma ordered_windows_each:
  "ordered_windows lst previous ws \<Longrightarrow> w \<in> set ws \<Longrightarrow> aw_start w \<le> window_end lst w"
  by (induction ws arbitrary: previous) auto

lemma expect_Inr: "r = Inr x \<Longrightarrow> expect r = Inr x"
  by (simp add: expect_def)

lemma bm_get_mem: "bm_inv ms \<Longrightarrow> (m, n) \<in> set ms \<Longrightarrow> bm_get ms m = Some n"
  using bm.entries_iff [of ms m n] by simp

lemma of_nat_u32: "n \<le> MAX_RECORDS \<Longrightarrow> unat (of_nat n :: u32) = n"
  by (simp add: unat_of_nat MAX_RECORDS_def)

lemma metric_spec_le: "metric_spec F s m \<le> length (sv_records s)"
  by (simp add: metric_spec_def)

text \<open>The point is ready when every requirement of its configuration is met by what was measured.\<close>

definition ready_spec :: "'f f64_ops \<Rightarrow> 'f point_survey \<Rightarrow> bool" where
  "ready_spec F s \<longleftrightarrow>
     (\<forall>(m, n) \<in> set (cfg_metrics (sv_config s)). unat n \<le> metric_spec F s m) \<and>
     (\<exists>n. nanos F (cfg_minimum_active_time (sv_config s)) = Inr n \<and> unat n \<le> active_spec s) \<and>
     (\<forall>ch \<in> set (cfg_channels (sv_config s)).
        \<exists>n. nanos F (cr_minimum_dwell ch) = Inr n \<and> unat n \<le> dwell_spec s (cr_frequency ch))"

lemma progress_of_valid:
  fixes F :: "'f f64_ops" and s :: "'f point_survey"
  assumes v: "validate F s = Inr ()" and cfg: "point_config_new F (sv_config s) = Inr (sv_config s)"
    and fl: "f64_durations F" and bm: "bm_inv (cfg_metrics (sv_config s))"
  shows "\<exists>p active dwells. progress F s = Inr p \<and>
    pr_metrics p = map (\<lambda>(m, _). (m, of_nat (metric_spec F s m))) (cfg_metrics (sv_config s)) \<and>
    unat active = active_spec s \<and> seconds F active = Inr (pr_active_seconds p) \<and>
    map unat dwells = map (dwell_spec s \<circ> cr_frequency) (cfg_channels (sv_config s)) \<and>
    mapE (seconds F) dwells = Inr (pr_dwell_seconds p) \<and>
    (pr_ready p \<longleftrightarrow> ready_spec F s)"
proof -
  let ?cfg = "sv_config s" and ?ws = "sv_windows s"
  note d = validateD [OF v]
  have ord: "ordered_windows (sv_last s) (sv_started s) ?ws" using d validate_windows_ordered by blast
  have recs: "length (sv_records s) \<le> MAX_RECORDS" using d by blast
  let ?ms = "map (\<lambda>(m, _). (m, of_nat (metric_spec F s m) :: u32)) (cfg_metrics ?cfg)"
  have "count_metrics F ?cfg (sv_records s) (map (\<lambda>(m, _). (m, 0)) (cfg_metrics ?cfg)) = Inr ?ms"
    using recs by (subst count_metrics_spec) (auto simp: MAX_RECORDS_def metric_spec_def case_prod_unfold)
  note metrics = this
  obtain active where active: "sum_windows (sv_last s) ?ws 0 = Inr active" "unat active = active_spec s"
    using sum_windows_card [OF ord, of 0] by (auto simp: active_spec_def)
  define dwell_of where "dwell_of ch = (SOME n. dwell_total s ch = Inr n \<and> unat n = dwell_spec s (cr_frequency ch))" for ch :: "'f channel_requirement"
  have dwell: "dwell_total s ch = Inr (dwell_of ch)" "unat (dwell_of ch) = dwell_spec s (cr_frequency ch)" for ch
    using someI_ex [OF dwell_total_spec [OF valid_dwells_forward [OF v] ord, of ch]] by (simp_all add: dwell_of_def)
  let ?dwells = "map dwell_of (cfg_channels ?cfg)"
  have dwells: "mapE (dwell_total s) (cfg_channels ?cfg) = Inr ?dwells" by (rule mapE_Inr) (rule dwell(1))
  have counted: "mapE (\<lambda>(m, count). bindE (some_or (bm_get (cfg_metrics ?cfg) m) SE_Panic) (\<lambda>n. Inr (count \<ge> n))) ?ms =
      Inr (map (\<lambda>(m, count). count \<ge> the (bm_get (cfg_metrics ?cfg) m)) ?ms)"
    by (rule mapE_Inr) (auto simp: bm_get_mem [OF bm])
  obtain minimum where minimum: "nanos F (cfg_minimum_active_time ?cfg) = Inr minimum"
    using point_config_newD(2) [OF cfg] by blast
  define need where "need ch = (SOME n. nanos F (cr_minimum_dwell ch) = Inr n)" for ch :: "'f channel_requirement"
  have need: "nanos F (cr_minimum_dwell ch) = Inr (need ch)" if "ch \<in> set (cfg_channels ?cfg)" for ch
    using someI_ex [OF point_config_channels [OF cfg that]] by (simp add: need_def)
  have dwelt: "all_channels_dwelt F (zip ?dwells (cfg_channels ?cfg)) =
      Inr (map (\<lambda>(tot, ch). tot \<ge> need ch) (zip ?dwells (cfg_channels ?cfg)))"
    unfolding all_channels_dwelt_def
    by (rule mapE_Inr) (auto dest!: set_zip_rightD simp: need expect_def)
  define sec where "sec n = (SOME x. seconds F n = Inr x)" for n
  have sec: "seconds F n = Inr (sec n)" for n using someI_ex [OF seconds_returns [OF fl, of n]] by (simp add: sec_def)
  have secs: "mapE (seconds F) ?dwells = Inr (map sec ?dwells)" by (rule mapE_Inr) (rule sec)
  have wins: "mapE (\<lambda>w. expect (window_new F \<lparr>ts_epoch = cfg_epoch ?cfg, nanoseconds = aw_start w\<rparr>
        \<lparr>ts_epoch = cfg_epoch ?cfg, nanoseconds = window_end (sv_last s) w\<rparr>)) ?ws =
      Inr (map (\<lambda>w. \<lparr>win_start = \<lparr>ts_epoch = cfg_epoch ?cfg, nanoseconds = aw_start w\<rparr>,
        win_end = \<lparr>ts_epoch = cfg_epoch ?cfg, nanoseconds = window_end (sv_last s) w\<rparr>\<rparr>) ?ws)"
    by (intro mapE_Inr expect_Inr window_new_returns [OF fl]) (use ordered_windows_each [OF ord] in auto)
  have ready: "list_all id (map (\<lambda>(m, count). count \<ge> the (bm_get (cfg_metrics ?cfg) m)) ?ms) \<and> active \<ge> minimum \<and>
      list_all id (map (\<lambda>(tot, ch). tot \<ge> need ch) (zip ?dwells (cfg_channels ?cfg))) \<longleftrightarrow> ready_spec F s"
  proof -
    have "list_all id (map (\<lambda>(m, count). count \<ge> the (bm_get (cfg_metrics ?cfg) m)) ?ms) \<longleftrightarrow>
        (\<forall>(m, n) \<in> set (cfg_metrics ?cfg). unat n \<le> metric_spec F s m)"
      using bm_get_mem [OF bm] order_trans [OF metric_spec_le recs]
      by (auto simp: list_all_iff word_le_nat_alt of_nat_u32)
    moreover have "list_all id (map (\<lambda>(tot, ch). tot \<ge> need ch) (zip ?dwells (cfg_channels ?cfg))) \<longleftrightarrow>
        (\<forall>ch \<in> set (cfg_channels ?cfg). unat (need ch) \<le> dwell_spec s (cr_frequency ch))"
      by (auto simp: list_all_iff word_le_nat_alt dwell(2) zip_map1 zip_same_conv_map)
    ultimately show ?thesis
      using need minimum active(2) by (auto simp: ready_spec_def word_le_nat_alt)
  qed
  show ?thesis
    unfolding progress_def Let_def metrics active(1) dwells counted dwelt secs sec [of active] wins bindE_simps
      expect_Inr [OF minimum]
    by (rule exI, rule exI [of _ active], rule exI [of _ ?dwells], intro conjI, rule refl)
      (use ready active(2) secs sec dwell(2) in \<open>simp_all add: comp_def\<close>)
qed

section \<open>Properties\<close>

text \<open>
  Claim C8. Every state of a point survey is a valid snapshot: a survey that was started or restored
  and then went through any sequence of operations (advance, pause, resume, finish, cancel, fail,
  admission of evidence, association of receipts) passes all the checks that a stored snapshot has to
  pass, so it can be stored and restored at any time. In particular its windows are ordered, its records
  and associations are unique and lie in active windows, and a completed survey is ready.
\<close>

theorem survey_states_restorable:
  assumes "survey_state F s"
  shows "survey_try_from F s = Inr s"
  using survey_state_valid [OF assms] by (simp add: survey_try_from_def)

theorem survey_states_restorable_witness: "survey_try_from int_ops admitted_survey = Inr admitted_survey"
  by (rule survey_states_restorable [OF sample_states(2)])

text \<open>
  Claim C9. The progress of a survey never panics and is exact: each metric counts the target's
  records that have it, the active time is the number of nanoseconds in active windows, the dwell of a
  channel is the number of nanoseconds that lie both in one of its dwell intervals and in an active
  window (overlapping intervals and pauses counted once), and the point is ready exactly when all these
  meet the configured minimum. Overflow is impossible.
\<close>

theorem progress_exact:
  assumes "survey_state F s" "f64_durations F" "bm_inv (cfg_metrics (sv_config s))"
  shows "\<exists>p active dwells. progress F s = Inr p \<and>
    pr_metrics p = map (\<lambda>(m, _). (m, of_nat (metric_spec F s m))) (cfg_metrics (sv_config s)) \<and>
    unat active = active_spec s \<and> seconds F active = Inr (pr_active_seconds p) \<and>
    map unat dwells = map (dwell_spec s \<circ> cr_frequency) (cfg_channels (sv_config s)) \<and>
    mapE (seconds F) dwells = Inr (pr_dwell_seconds p) \<and>
    (pr_ready p \<longleftrightarrow> ready_spec F s)"
  by (rule progress_of_valid [OF survey_state_valid survey_state_config]) (rule assms)+

lemma int_ops_durations: "f64_durations int_ops"
  by (simp add: f64_durations_def pos_imp_zdiv_nonneg_iff)

theorem progress_exact_witness:
  "\<exists>p active dwells. progress int_ops admitted_survey = Inr p \<and>
    pr_metrics p = map (\<lambda>(m, _). (m, of_nat (metric_spec int_ops admitted_survey m))) (cfg_metrics (sv_config admitted_survey)) \<and>
    unat active = active_spec admitted_survey \<and> seconds int_ops active = Inr (pr_active_seconds p) \<and>
    map unat dwells = map (dwell_spec admitted_survey \<circ> cr_frequency) (cfg_channels (sv_config admitted_survey)) \<and>
    mapE (seconds int_ops) dwells = Inr (pr_dwell_seconds p) \<and>
    (pr_ready p \<longleftrightarrow> ready_spec int_ops admitted_survey)"
  by (rule progress_exact [OF sample_states(2) int_ops_durations])
    (simp add: admitted_survey_def fresh_survey_def sample_config_def)

text \<open>
  Claim C30. A survey ends once: after it is completed, cancelled or failed, every operation is refused
  with \<open>InvalidTransition\<close>; and a survey can only be completed from the capturing phase, with its
  progress ready at the time of completion.
\<close>

theorem final_phases_final:
  "(sv_phase s \<notin> {Capturing, Paused} \<longrightarrow>
      advance s at = Inl InvalidTransition \<and> pause s at = Inl InvalidTransition \<and> resume s at = Inl InvalidTransition \<and>
      finish F s at = Inl InvalidTransition \<and> cancel s at = Inl InvalidTransition \<and>
      fail_survey s at reason = Inl InvalidTransition \<and> admit F s d at = Inl InvalidTransition \<and>
      associate_received F s received = Inl InvalidTransition) \<and>
   (survey_step F s s' \<and> sv_phase s' = Completed \<longrightarrow>
      sv_phase s = Capturing \<and> (\<exists>p. progress F (s\<lparr>sv_last := sv_last s', sv_event_last := None\<rparr>) = Inr p \<and> pr_ready p))"
proof (intro conjI impI)
  assume "sv_phase s \<notin> {Capturing, Paused}"
  then show "advance s at = Inl InvalidTransition" "pause s at = Inl InvalidTransition" "resume s at = Inl InvalidTransition"
    "finish F s at = Inl InvalidTransition" "cancel s at = Inl InvalidTransition" "fail_survey s at reason = Inl InvalidTransition"
    "admit F s d at = Inl InvalidTransition" "associate_received F s received = Inl InvalidTransition"
    by (auto simp: advance_def pause_def resume_def finish_def cancel_def fail_survey_def admit_def associate_received_def)
next
  assume "survey_step F s s' \<and> sv_phase s' = Completed"
  then have "survey_step F s s'" "sv_phase s' = Completed" by auto
  then have "sv_phase s = Capturing \<and> (\<exists>p. progress F (s\<lparr>sv_last := sv_last s', sv_event_last := None\<rparr>) = Inr p \<and> pr_ready p)"
  proof (induction rule: survey_step.induct)
    case (finished s at s')
    then obtain s1 p where s1: "sv_phase s = Capturing" "advance s at = Inr s1" "progress F s1 = Inr p" "pr_ready p"
      "s' = (close_window (nanoseconds at) s1)\<lparr>sv_phase := Completed\<rparr>"
      unfolding finish_def if_Inl_iff bindE_Inr_iff sum.inject by blast
    with advanceD(3) [OF s1(2)] show ?case by auto
  next
    case (admitted d s received s')
    then show ?case by (auto elim!: admitD)
  next
    case (associated received s s' a)
    then show ?case by (auto elim!: associate_receivedD)
  next
    case (advanced s at s')
    then show ?case using advanceD(1,3) [of s at s'] by auto
  qed (auto simp: pause_def resume_def cancel_def fail_survey_def split: if_splits)
  then show "sv_phase s = Capturing" "\<exists>p. progress F (s\<lparr>sv_last := sv_last s', sv_event_last := None\<rparr>) = Inr p \<and> pr_ready p"
    by auto
qed

theorem final_phases_final_witness:
  "advance (admitted_survey\<lparr>sv_phase := Cancelled\<rparr>) (sample_at 5000000000) = Inl InvalidTransition"
  using final_phases_final [of "admitted_survey\<lparr>sv_phase := Cancelled\<rparr>" "sample_at 5000000000"] by simp

section \<open>Admitted observations\<close>

lemma admitted_found:
  assumes "validate F s = Inr ()" "sv_records s = rs @ r # rest"
  shows "find (\<lambda>q. rec_observation_id q = rec_observation_id r) (sv_records s) = Some r"
proof -
  have "validate_records F s ids samples previous qs = Inr ids' \<Longrightarrow> distinct (map rec_observation_id qs) \<and>
      rec_observation_id ` set qs \<inter> ids = {}" for ids samples previous qs ids'
  proof (induction qs arbitrary: ids samples previous)
    case (Cons q qs)
    then have "rec_observation_id q \<notin> ids" by (simp add: validate_records_Cons record_in_order_def)
    moreover from Cons have "distinct (map rec_observation_id qs) \<and> rec_observation_id ` set qs \<inter> insert (rec_observation_id q) ids = {}"
      unfolding validate_records_Cons by blast
    ultimately show ?case by auto
  qed simp
  then have "distinct (map rec_observation_id (sv_records s))" using validateD [OF assms(1)] by blast
  then show ?thesis unfolding assms(2) by (induction rs) auto
qed

text \<open>
  Claim C29. Evidence stays attached to its observation: once an envelope was admitted, the comparison
  of that envelope with the survey succeeds in the state that admitted it and in every later state.
\<close>

theorem admitted_observation_validates:
  assumes "survey_state F s" "envelope_new d = Inr d" "admit F s d received = Inr s1" "(survey_step F)\<^sup>*\<^sup>* s1 s2"
  shows "validate_admitted_observation F s2 d = Inr ()"
proof -
  have v: "validate F s2 = Inr ()"
    using steps_valid [OF assms(4)] valid_admit [OF survey_state_valid [OF assms(1)] assms(2,3)] by simp
  from assms(3) obtain captured signal identity age bssid dwell tuned where
    r: "check_source (sv_config s) d = Inr ()" "\<not> bad_quality (env_quality d)" "monotonic (env_time d) = Known captured"
    "ts_epoch captured = cfg_epoch (sv_config s)" "nanoseconds captured \<le> nanoseconds received"
    "check_pose F (sv_config s) (env_pose d) = Inr ()"
    "payload_parts F (sv_config s) (env_payload d) = Inr (signal, identity, age)" "rid_bssid identity = Known bssid"
    "check_scan_age F (sv_config s) (nanoseconds captured) (nanoseconds received) age = Inr ()"
    "admit_dwell (sv_config s) d (nanoseconds received) = Inr (dwell, tuned)"
    and s1: "s1 = s\<lparr>sv_last := nanoseconds received, sv_event_last := None, sv_records := sv_records s @
       [admitted_record d (nanoseconds captured) (nanoseconds received) signal bssid age dwell tuned]\<rparr>"
    by (rule admitD)
  let ?r = "admitted_record d (nanoseconds captured) (nanoseconds received) signal bssid age dwell tuned"
  obtain rest where cfg: "sv_config s2 = sv_config s" and recs: "sv_records s2 = sv_records s @ ?r # rest"
    using steps_extend [OF assms(4)] s1 by (auto simp: survey_extends_def)
  have found: "find (\<lambda>q. rec_observation_id q = env_id d) (sv_records s2) = Some ?r"
    using admitted_found [OF v recs] by simp
  have age: "(case age of None \<Rightarrow> Inr () | Some a \<Rightarrow> bindE (nanos F a) (\<lambda>n. bindE (u64_sub (nanoseconds received) (nanoseconds captured)) (\<lambda>actual.
      if n > actual then Inl InconsistentScanAge else Inr ()))) = Inr ()"
    using r(9) by (auto simp: check_scan_age_def if_Inl_iff split: option.split)
  have dw: "(if \<not> incomplete_dwell (env_quality d) then
        (case env_dwell d of
           Known context \<Rightarrow>
             (case dw_window context of
                Known window \<Rightarrow>
                  if ts_epoch (win_start window) \<noteq> cfg_epoch (sv_config s) \<or> nanoseconds (win_end window) > nanoseconds received \<or>
                     \<not> window_contains window captured
                  then Inl InvalidSnapshot
                  else Inr (Some window, ch_primary_frequency (dw_tuned_channel context))
              | Unknown _ \<Rightarrow> Inr (None, Unknown NotObservable))
         | Unknown _ \<Rightarrow> Inr (None, Unknown NotObservable))
      else Inr (None, Unknown NotObservable)) = Inr (dwell, tuned)"
    using r(10) envelope_new_dwell [OF assms(2) r(3)]
    by (auto simp: admit_dwell_def split: evidence.splits if_splits)
  show ?thesis
    unfolding validate_admitted_observation_def Let_def found cfg r(1,3,6,7) as_known.simps some_or_simps bindE_simps
      prod.case r(8) admitted_record_simps age dw
    using r(2,4) by simp
qed

theorem admitted_observation_validates_witness: "validate_admitted_observation int_ops admitted_survey sample_envelope = Inr ()"
  by (rule admitted_observation_validates [OF sample_states(1) sample_envelope_new sample_admit]) simp

end
