(* ===== verification/Domain_Project.thy ===== *)
theory Domain_Project
  imports Domain_Observation BTree_Map
begin

text \<open>
  The project aggregate of \<open>crates/domain\<close>: the entities and their checked constructors
  (\<open>project/entities.rs\<close>, \<open>spatial/calibration.rs\<close>), the aggregate with its validation
  (\<open>project.rs\<close>) and its commands (\<open>project/commands.rs\<close>).

  A command is a function from a project to an error or to the changed project, the event and the
  undo command. The source changes a clone that it drops on an error, so a refused command leaves no
  trace. As elsewhere, floating-point numbers are the type parameter \<open>'f\<close>.
\<close>

section \<open>Calibrations\<close>

record 'f pixel_point =
  px_x :: 'f
  px_y :: 'f

record 'f point2 =
  p2_x :: 'f
  p2_y :: 'f

datatype image_y_axis = AxisDown | AxisUp

definition axis_sign :: "'f f64_ops \<Rightarrow> image_y_axis \<Rightarrow> 'f" where
  "axis_sign F a = (if a = AxisDown then f_lit F (- 1) else f_lit F 1)"

record 'f calibration_controls =
  cc_source_frame :: frame_id
  cc_target_frame :: frame_id
  cc_image_first :: "'f pixel_point"
  cc_image_second :: "'f pixel_point"
  cc_target_origin :: "'f point2"
  cc_known_distance :: 'f
  cc_target_direction :: 'f
  cc_image_y_axis :: image_y_axis
  cc_distance_uncertainty :: "'f evidence"
  cc_control_point_uncertainty :: "'f evidence"

record 'f two_point_calibration =
  tp_controls :: "'f calibration_controls"
  tp_scale :: 'f
  tp_cosine :: 'f
  tp_sine :: 'f

definition two_point_new :: "'f f64_ops \<Rightarrow> 'f calibration_controls \<Rightarrow> validation_error + 'f two_point_calibration" where
  "two_point_new F c =
     (if cc_source_frame c = cc_target_frame c then Inl (Inconsistent ''calibration frame loop'')
      else if f_eq F (cc_known_distance c) (f_lit F 0) then Inl (OutOfRange ''known calibration distance'')
      else if (case cc_control_point_uncertainty c of Known p \<Rightarrow> f_lt F p (f_lit F 0) | Unknown _ \<Rightarrow> False)
      then Inl (OutOfRange ''pixel uncertainty'')
      else
        let dx = f_sub F (px_x (cc_image_second c)) (px_x (cc_image_first c));
            dy = f_mul F (f_sub F (px_y (cc_image_second c)) (px_y (cc_image_first c)))
                   (axis_sign F (cc_image_y_axis c));
            len = f_hypot F dx dy
        in
        if \<not> f_is_finite F len \<or> f_eq F len (f_lit F 0) then Inl (OutOfRange ''degenerate calibration controls'')
        else
          bindE (quantity_new F MetersPerPixel (f_div F (cc_known_distance c) len)) (\<lambda>scale.
          case f_sin_cos F (cc_target_direction c) of (target_sine, target_cosine) \<Rightarrow>
            let control_cosine = f_div F dx len; control_sine = f_div F dy len in
            Inr \<lparr>tp_controls = c, tp_scale = scale,
                 tp_cosine = f_add F (f_mul F target_cosine control_cosine) (f_mul F target_sine control_sine),
                 tp_sine = f_sub F (f_mul F target_sine control_cosine) (f_mul F target_cosine control_sine)\<rparr>))"

definition to_floor ::
    "'f f64_ops \<Rightarrow> 'f two_point_calibration \<Rightarrow> frame_id \<Rightarrow> 'f pixel_point \<Rightarrow> validation_error + 'f point2" where
  "to_floor F t source_frame pixel =
     (let c = tp_controls t in
      if source_frame \<noteq> cc_source_frame c then Inl (Inconsistent ''image frame mismatch'')
      else
        let x = f_sub F (px_x pixel) (px_x (cc_image_first c));
            y = f_mul F (f_sub F (px_y pixel) (px_y (cc_image_first c))) (axis_sign F (cc_image_y_axis c))
        in
        bindE (quantity_new F CoordinateMeters (f_add F (p2_x (cc_target_origin c))
          (f_mul F (f_sub F (f_mul F x (tp_cosine t)) (f_mul F y (tp_sine t))) (tp_scale t)))) (\<lambda>fx.
        bindE (quantity_new F CoordinateMeters (f_add F (p2_y (cc_target_origin c))
          (f_mul F (f_add F (f_mul F x (tp_sine t)) (f_mul F y (tp_cosine t))) (tp_scale t)))) (\<lambda>fy.
        Inr \<lparr>p2_x = fx, p2_y = fy\<rparr>)))"

definition to_image ::
    "'f f64_ops \<Rightarrow> 'f two_point_calibration \<Rightarrow> frame_id \<Rightarrow> 'f point2 \<Rightarrow> validation_error + 'f pixel_point" where
  "to_image F t target_frame point =
     (let c = tp_controls t in
      if target_frame \<noteq> cc_target_frame c then Inl (Inconsistent ''floor frame mismatch'')
      else
        let x = f_div F (f_sub F (p2_x point) (p2_x (cc_target_origin c))) (tp_scale t);
            y = f_div F (f_sub F (p2_y point) (p2_y (cc_target_origin c))) (tp_scale t)
        in
        bindE (quantity_new F Pixels (f_add F (f_add F (px_x (cc_image_first c)) (f_mul F x (tp_cosine t)))
          (f_mul F y (tp_sine t)))) (\<lambda>ix.
        bindE (quantity_new F Pixels (f_add F (px_y (cc_image_first c))
          (f_mul F (f_add F (f_mul F (f_neg F x) (tp_sine t)) (f_mul F y (tp_cosine t)))
             (axis_sign F (cc_image_y_axis c))))) (\<lambda>iy.
        Inr \<lparr>px_x = ix, px_y = iy\<rparr>)))"

section \<open>Entities\<close>

type_synonym building_id = octets

record site =
  site_id :: site_id
  site_name :: utext

record building =
  bd_id :: building_id
  bd_site_id :: site_id
  bd_name :: utext
  bd_frame :: coordinate_frame

definition building_new :: "building \<Rightarrow> validation_error + building" where
  "building_new d =
     (if cf_kind (bd_frame d) \<noteq> BuildingLocalMeters
      then Inl (Inconsistent ''building requires metric building frame'') else Inr d)"

record 'f floor_data =
  fl_id :: floor_id
  fl_building_id :: building_id
  fl_name :: utext
  fl_frame :: coordinate_frame
  fl_building_frame :: frame_id
  fl_origin :: "'f point3"
  fl_yaw :: 'f
  fl_clear_height :: 'f

definition floor_new :: "'f f64_ops \<Rightarrow> 'f floor_data \<Rightarrow> validation_error + 'f floor_data" where
  "floor_new F d =
     (if cf_kind (fl_frame d) \<noteq> FloorLocalMeters \<or> cf_id (fl_frame d) = fl_building_frame d
      then Inl (Inconsistent ''floor frame must be distinct metric frame'')
      else if f_eq F (fl_clear_height d) (f_lit F 0) then Inl (OutOfRange ''floor clear height'')
      else Inr d)"

definition to_building ::
    "'f f64_ops \<Rightarrow> 'f floor_data \<Rightarrow> frame_id \<Rightarrow> 'f point3 \<Rightarrow> validation_error + 'f point3" where
  "to_building F d source_frame p =
     (if source_frame \<noteq> cf_id (fl_frame d) then Inl (Inconsistent ''floor frame mismatch'')
      else case f_sin_cos F (fl_yaw d) of (s, c) \<Rightarrow>
        bindE (quantity_new F CoordinateMeters
          (f_sub F (f_add F (pt_x (fl_origin d)) (f_mul F (pt_x p) c)) (f_mul F (pt_y p) s))) (\<lambda>x.
        bindE (quantity_new F CoordinateMeters
          (f_add F (f_add F (pt_y (fl_origin d)) (f_mul F (pt_x p) s)) (f_mul F (pt_y p) c))) (\<lambda>y.
        bindE (quantity_new F CoordinateMeters (f_add F (pt_z (fl_origin d)) (pt_z p))) (\<lambda>z.
        Inr \<lparr>pt_x = x, pt_y = y, pt_z = z\<rparr>))))"

definition from_building ::
    "'f f64_ops \<Rightarrow> 'f floor_data \<Rightarrow> frame_id \<Rightarrow> 'f point3 \<Rightarrow> validation_error + 'f point3" where
  "from_building F d source_frame p =
     (if source_frame \<noteq> fl_building_frame d then Inl (Inconsistent ''building frame mismatch'')
      else case f_sin_cos F (fl_yaw d) of (s, c) \<Rightarrow>
        let x = f_sub F (pt_x p) (pt_x (fl_origin d)); y = f_sub F (pt_y p) (pt_y (fl_origin d)) in
        bindE (quantity_new F CoordinateMeters (f_add F (f_mul F x c) (f_mul F y s))) (\<lambda>x'.
        bindE (quantity_new F CoordinateMeters (f_add F (f_mul F (f_neg F x) s) (f_mul F y c))) (\<lambda>y'.
        bindE (quantity_new F CoordinateMeters (f_sub F (pt_z p) (pt_z (fl_origin d)))) (\<lambda>z'.
        Inr \<lparr>pt_x = x', pt_y = y', pt_z = z'\<rparr>))))"

record 'f initial_project_hierarchy =
  ih_site :: site
  ih_building :: building
  ih_floor :: "'f floor_data"

type_synonym 'f calibration = "'f two_point_calibration map_calibration"

section \<open>The aggregate\<close>

datatype project_schema_version = PV1 | PV2

datatype project_error =
  PE_InvalidValue validation_error
| PE_WrongProject
| PE_DuplicateEntity
| PE_MissingEntity
| PE_InvalidReference
| PE_DuplicateFrame
| PE_HasDependents
| PE_FrameMigrationRequired
| PE_DuplicateOperation
| PE_RevisionConflict u64 u64
| PE_StaleLogicalTime
| PE_InvalidReceipt
| PE_Limit

definition MAX_ENTITIES :: nat where "MAX_ENTITIES = 10000"
definition MAX_OPERATIONS :: nat where "MAX_OPERATIONS = 100000"

record 'f project =
  pj_schema_version :: project_schema_version
  pj_id :: project_id
  pj_name :: utext
  pj_revision :: u64
  pj_logical_time :: u64
  pj_sites :: "(site_id, site) btree_map"
  pj_buildings :: "(building_id, building) btree_map"
  pj_floors :: "(floor_id, 'f floor_data) btree_map"
  pj_maps :: "(map_asset_id, map_asset) btree_map"
  pj_calibrations :: "(calibration_id, 'f calibration) btree_map"
  pj_active_calibrations :: "(map_asset_id, calibration_id evidence) btree_map"
  pj_bound_evidence :: "(floor_id, artifact_reference) btree_map"
  pj_applied_operations :: "(operation_id, u64) btree_map"

definition project_new :: "project_id \<Rightarrow> utext \<Rightarrow> 'f project" where
  "project_new i name =
     \<lparr>pj_schema_version = PV1, pj_id = i, pj_name = name, pj_revision = 0, pj_logical_time = 0, pj_sites = [],
      pj_buildings = [], pj_floors = [], pj_maps = [], pj_calibrations = [], pj_active_calibrations = [],
      pj_bound_evidence = [], pj_applied_operations = []\<rparr>"

text \<open>\<open>f64::from(u32)\<close> is exact, as is the conversion of the same number from \<open>u64\<close>.\<close>

definition control_in_image :: "'f f64_ops \<Rightarrow> map_asset \<Rightarrow> 'f pixel_point \<Rightarrow> bool" where
  "control_in_image F m p \<longleftrightarrow>
     \<not> (f_lt F (px_x p) (f_lit F 0) \<or> f_lt F (px_y p) (f_lit F 0) \<or>
        f_lt F (f_of_u64 F (ucast (ma_width m))) (px_x p) \<or> f_lt F (f_of_u64 F (ucast (ma_height m))) (px_y p))"

definition check_calibration :: "'f f64_ops \<Rightarrow> 'f project \<Rightarrow> 'f calibration \<Rightarrow> project_error + unit" where
  "check_calibration F p cal =
     bindE (some_or (bm_get (pj_maps p) (mc_map_id cal)) PE_MissingEntity) (\<lambda>m.
     bindE (some_or (bm_get (pj_floors p) (ma_floor_id m)) PE_MissingEntity) (\<lambda>fl.
     let controls = tp_controls (mc_transform cal) in
     if cc_source_frame controls \<noteq> cf_id (ma_image_frame m) \<or> cc_target_frame controls \<noteq> cf_id (fl_frame fl)
     then Inl PE_InvalidReference
     else forE (\<lambda>c. if control_in_image F m c then Inr () else Inl PE_InvalidReference)
            [cc_image_first controls, cc_image_second controls]))"

definition check_calibration_ref ::
    "'f project \<Rightarrow> map_asset_id \<Rightarrow> calibration_id evidence \<Rightarrow> project_error + unit" where
  "check_calibration_ref p map_id ref =
     (case ref of
        Known i \<Rightarrow>
          bindE (some_or (bm_get (pj_calibrations p) i) PE_MissingEntity) (\<lambda>cal.
          if mc_map_id cal \<noteq> map_id then Inl PE_InvalidReference else Inr ())
      | Unknown NotMeasured \<Rightarrow> Inr ()
      | Unknown _ \<Rightarrow> Inl PE_InvalidReference)"

definition validate_building :: "'f project \<Rightarrow> building_id \<times> building \<Rightarrow> frame_id set \<Rightarrow> project_error + frame_id set" where
  "validate_building p e frames =
     (case e of (i, d) \<Rightarrow>
        if i \<noteq> bd_id d \<or> bm_get (pj_sites p) (bd_site_id d) = None \<or> cf_kind (bd_frame d) \<noteq> BuildingLocalMeters
        then Inl PE_InvalidReference
        else if cf_id (bd_frame d) \<in> frames then Inl PE_DuplicateFrame
        else Inr (insert (cf_id (bd_frame d)) frames))"

definition validate_floor :: "'f project \<Rightarrow> floor_id \<times> 'f floor_data \<Rightarrow> frame_id set \<Rightarrow> project_error + frame_id set" where
  "validate_floor p e frames =
     (case e of (i, d) \<Rightarrow>
        bindE (some_or (bm_get (pj_buildings p) (fl_building_id d)) PE_MissingEntity) (\<lambda>b.
        if i \<noteq> fl_id d \<or> fl_building_frame d \<noteq> cf_id (bd_frame b) then Inl PE_InvalidReference
        else if cf_id (fl_frame d) \<in> frames then Inl PE_DuplicateFrame
        else Inr (insert (cf_id (fl_frame d)) frames)))"

definition validate_map :: "'f project \<Rightarrow> map_asset_id \<times> map_asset \<Rightarrow> frame_id set \<Rightarrow> project_error + frame_id set" where
  "validate_map p e frames =
     (case e of (i, d) \<Rightarrow>
        if i \<noteq> ma_id d \<or> bm_get (pj_floors p) (ma_floor_id d) = None then Inl PE_InvalidReference
        else if cf_id (ma_image_frame d) \<in> frames then Inl PE_DuplicateFrame
        else
          bindE (some_or (bm_get (pj_active_calibrations p) i) PE_InvalidReference) (\<lambda>ref.
          bindE (check_calibration_ref p i ref) (\<lambda>_.
          Inr (insert (cf_id (ma_image_frame d)) frames))))"

text \<open>The \<open>BTreeSet\<close> of the recorded revisions is iterated in ascending order.\<close>

definition validate_receipts :: "'f project \<Rightarrow> project_error + unit" where
  "validate_receipts p =
     (let ops = pj_applied_operations p; revisions = sorted_list_of_set (set (bm_values ops)) in
      if pj_revision p \<noteq> of_nat (length ops) then Inl PE_InvalidReceipt
      else if pj_revision p > 0 \<and> pj_logical_time p = 0 then Inl PE_InvalidReceipt
      else if pj_schema_version p = PV1 \<and> pj_logical_time p < pj_revision p then Inl PE_InvalidReceipt
      else if length revisions \<noteq> length ops \<or> revisions \<noteq> map of_nat [1..<Suc (unat (pj_revision p))]
      then Inl PE_InvalidReceipt else Inr ())"

definition project_validate :: "'f f64_ops \<Rightarrow> 'f project \<Rightarrow> project_error + unit" where
  "project_validate F p =
     (if length (pj_sites p) + length (pj_buildings p) + length (pj_floors p) + length (pj_maps p) +
           length (pj_calibrations p) > MAX_ENTITIES \<or> length (pj_applied_operations p) > MAX_OPERATIONS
      then Inl PE_Limit
      else
        bindE (validate_receipts p) (\<lambda>_.
        bindE (forE (\<lambda>(i, s). if i \<noteq> site_id s then Inl PE_InvalidReference else Inr ()) (pj_sites p)) (\<lambda>_.
        bindE (foldE (validate_building p) (pj_buildings p) {}) (\<lambda>frames.
        bindE (foldE (validate_floor p) (pj_floors p) frames) (\<lambda>frames.
        bindE (foldE (validate_map p) (pj_maps p) frames) (\<lambda>_.
        if length (pj_maps p) \<noteq> length (pj_active_calibrations p) then Inl PE_InvalidReference
        else
        bindE (forE (\<lambda>(i, c). if i \<noteq> mc_id c then Inl PE_InvalidReference else check_calibration F p c)
                 (pj_calibrations p)) (\<lambda>_.
        forE (\<lambda>(i, e). if bm_get (pj_floors p) i = None \<or> art_byte_length e = 0
                        then Inl PE_InvalidReference else Inr ()) (pj_bound_evidence p))))))))"

definition project_try_from :: "'f f64_ops \<Rightarrow> 'f project \<Rightarrow> project_error + 'f project" where
  "project_try_from F p = bindE (project_validate F p) (\<lambda>_. Inr p)"

definition with_initial_hierarchy ::
    "'f f64_ops \<Rightarrow> project_id \<Rightarrow> utext \<Rightarrow> 'f initial_project_hierarchy \<Rightarrow> project_error + 'f project" where
  "with_initial_hierarchy F i name h =
     (let p = (project_new i name)
            \<lparr>pj_sites := [(site_id (ih_site h), ih_site h)],
             pj_buildings := [(bd_id (ih_building h), ih_building h)],
             pj_floors := [(fl_id (ih_floor h), ih_floor h)]\<rparr>
      in bindE (project_validate F p) (\<lambda>_. Inr p))"

section \<open>Commands\<close>

datatype 'f project_command =
  PC_SetProjectName utext
| PC_SetSiteName site_id utext
| PC_CreateSite site
| PC_RemoveSite site_id
| PC_CreateBuilding building
| PC_RemoveBuilding building_id
| PC_CreateFloor "'f floor_data"
| PC_RemoveFloor floor_id
| PC_ImportMap map_asset
| PC_RemoveMap map_asset_id
| PC_CalibrateMap "'f calibration"
| PC_RemoveCalibration calibration_id "calibration_id evidence"
| PC_ActivateCalibration map_asset_id "calibration_id evidence"
| PC_BindFloorEvidence floor_id artifact_reference

record 'f command_request =
  cr_operation_id :: operation_id
  cr_project_id :: project_id
  cr_actor_id :: actor_id
  cr_device_id :: device_id
  cr_logical_time :: u64
  cr_expected_revision :: u64
  cr_wall_time :: "int evidence"
  cr_command :: "'f project_command"

datatype entity_ref =
  ER_Site site_id
| ER_Building building_id
| ER_Floor floor_id
| ER_Map map_asset_id
| ER_Calibration calibration_id

datatype project_event =
  ProjectNameChanged utext utext
| SiteNameChanged site_id utext utext
| Created entity_ref
| Removed entity_ref
| CalibrationActivated map_asset_id "calibration_id evidence" "calibration_id evidence"
| FloorEvidenceBound floor_id content_hash

record 'f operation_record =
  or_request :: "'f command_request"
  or_revision_after :: u64
  or_event :: project_event
  or_undo :: "'f project_command evidence"

definition unlocked :: "'f project \<Rightarrow> floor_id \<Rightarrow> project_error + unit" where
  "unlocked p floor =
     (if bm_get (pj_floors p) floor = None then Inl PE_MissingEntity
      else if bm_get (pj_bound_evidence p) floor \<noteq> None then Inl PE_FrameMigrationRequired
      else Inr ())"

type_synonym 'f applied = "'f project \<times> project_event \<times> 'f project_command evidence"

definition activate :: "'f project \<Rightarrow> map_asset_id \<Rightarrow> calibration_id evidence \<Rightarrow> project_error + 'f applied" where
  "activate p map_id current =
     bindE (some_or (bm_get (pj_maps p) map_id) PE_MissingEntity) (\<lambda>m.
     bindE (unlocked p (ma_floor_id m)) (\<lambda>_.
     bindE (check_calibration_ref p map_id current) (\<lambda>_.
     bindE (some_or (bm_get (pj_active_calibrations p) map_id) PE_MissingEntity) (\<lambda>previous.
     Inr (p\<lparr>pj_active_calibrations := bm_insert map_id current (pj_active_calibrations p)\<rparr>,
          CalibrationActivated map_id previous current,
          Known (PC_ActivateCalibration map_id previous))))))"

fun apply_command :: "'f f64_ops \<Rightarrow> 'f project \<Rightarrow> 'f project_command \<Rightarrow> project_error + 'f applied" where
  "apply_command F p (PC_SetProjectName name) =
     Inr (p\<lparr>pj_name := name\<rparr>, ProjectNameChanged (pj_name p) name, Known (PC_SetProjectName (pj_name p)))"
| "apply_command F p (PC_SetSiteName i name) =
     bindE (some_or (bm_get (pj_sites p) i) PE_MissingEntity) (\<lambda>s.
     Inr (p\<lparr>pj_sites := bm_insert i (s\<lparr>site_name := name\<rparr>) (pj_sites p)\<rparr>,
          SiteNameChanged i (site_name s) name, Known (PC_SetSiteName i (site_name s))))"
| "apply_command F p (PC_CreateSite s) =
     (if bm_get (pj_sites p) (site_id s) \<noteq> None then Inl PE_DuplicateEntity
      else Inr (p\<lparr>pj_sites := bm_insert (site_id s) s (pj_sites p)\<rparr>,
                Created (ER_Site (site_id s)), Known (PC_RemoveSite (site_id s))))"
| "apply_command F p (PC_RemoveSite i) =
     (if list_ex (\<lambda>b. bd_site_id b = i) (bm_values (pj_buildings p)) then Inl PE_HasDependents
      else bindE (some_or (bm_get (pj_sites p) i) PE_MissingEntity) (\<lambda>old.
        Inr (p\<lparr>pj_sites := bm_remove i (pj_sites p)\<rparr>, Removed (ER_Site i), Known (PC_CreateSite old))))"
| "apply_command F p (PC_CreateBuilding b) =
     (if bm_get (pj_buildings p) (bd_id b) \<noteq> None then Inl PE_DuplicateEntity
      else Inr (p\<lparr>pj_buildings := bm_insert (bd_id b) b (pj_buildings p)\<rparr>,
                Created (ER_Building (bd_id b)), Known (PC_RemoveBuilding (bd_id b))))"
| "apply_command F p (PC_RemoveBuilding i) =
     (if list_ex (\<lambda>f. fl_building_id f = i) (bm_values (pj_floors p)) then Inl PE_HasDependents
      else bindE (some_or (bm_get (pj_buildings p) i) PE_MissingEntity) (\<lambda>old.
        Inr (p\<lparr>pj_buildings := bm_remove i (pj_buildings p)\<rparr>, Removed (ER_Building i),
             Known (PC_CreateBuilding old))))"
| "apply_command F p (PC_CreateFloor f) =
     (if bm_get (pj_floors p) (fl_id f) \<noteq> None then Inl PE_DuplicateEntity
      else Inr (p\<lparr>pj_floors := bm_insert (fl_id f) f (pj_floors p)\<rparr>,
                Created (ER_Floor (fl_id f)), Known (PC_RemoveFloor (fl_id f))))"
| "apply_command F p (PC_RemoveFloor i) =
     bindE (unlocked p i) (\<lambda>_.
     if list_ex (\<lambda>m. ma_floor_id m = i) (bm_values (pj_maps p)) then Inl PE_HasDependents
     else bindE (some_or (bm_get (pj_floors p) i) PE_MissingEntity) (\<lambda>old.
       Inr (p\<lparr>pj_floors := bm_remove i (pj_floors p)\<rparr>, Removed (ER_Floor i), Known (PC_CreateFloor old))))"
| "apply_command F p (PC_ImportMap m) =
     bindE (unlocked p (ma_floor_id m)) (\<lambda>_.
     if bm_get (pj_maps p) (ma_id m) \<noteq> None then Inl PE_DuplicateEntity
     else Inr (p\<lparr>pj_maps := bm_insert (ma_id m) m (pj_maps p),
                 pj_active_calibrations := bm_insert (ma_id m) (Unknown NotMeasured) (pj_active_calibrations p)\<rparr>,
               Created (ER_Map (ma_id m)), Known (PC_RemoveMap (ma_id m))))"
| "apply_command F p (PC_RemoveMap i) =
     bindE (some_or (bm_get (pj_maps p) i) PE_MissingEntity) (\<lambda>m.
     bindE (unlocked p (ma_floor_id m)) (\<lambda>_.
     if list_ex (\<lambda>c. mc_map_id c = i) (bm_values (pj_calibrations p)) then Inl PE_HasDependents
     else Inr (p\<lparr>pj_maps := bm_remove i (pj_maps p),
                 pj_active_calibrations := bm_remove i (pj_active_calibrations p)\<rparr>,
               Removed (ER_Map i), Known (PC_ImportMap m))))"
| "apply_command F p (PC_CalibrateMap c) =
     (if bm_get (pj_calibrations p) (mc_id c) \<noteq> None then Inl PE_DuplicateEntity
      else bindE (check_calibration F p c) (\<lambda>_.
        activate (p\<lparr>pj_calibrations := bm_insert (mc_id c) c (pj_calibrations p)\<rparr>) (mc_map_id c) (Known (mc_id c))))"
| "apply_command F p (PC_RemoveCalibration i active) =
     bindE (some_or (bm_get (pj_calibrations p) i) PE_MissingEntity) (\<lambda>c.
     bindE (some_or (bm_get (pj_maps p) (mc_map_id c)) PE_MissingEntity) (\<lambda>m.
     bindE (unlocked p (ma_floor_id m)) (\<lambda>_.
     bindE (check_calibration_ref p (mc_map_id c) active) (\<lambda>_.
     if active = Known i then Inl PE_InvalidReference
     else Inr (p\<lparr>pj_calibrations := bm_remove i (pj_calibrations p),
                 pj_active_calibrations := bm_insert (mc_map_id c) active (pj_active_calibrations p)\<rparr>,
               Removed (ER_Calibration i), Known (PC_CalibrateMap c))))))"
| "apply_command F p (PC_ActivateCalibration map_id calibration) = activate p map_id calibration"
| "apply_command F p (PC_BindFloorEvidence i e) =
     bindE (unlocked p i) (\<lambda>_.
     if art_byte_length e = 0 then Inl PE_InvalidReference
     else Inr (p\<lparr>pj_bound_evidence := bm_insert i e (pj_bound_evidence p)\<rparr>,
               FloorEvidenceBound i (art_sha256 e), Unknown NotApplicable))"

definition execute ::
    "'f f64_ops \<Rightarrow> 'f project \<Rightarrow> 'f command_request \<Rightarrow> project_error + 'f project \<times> 'f operation_record" where
  "execute F p request =
     (if cr_project_id request \<noteq> pj_id p then Inl PE_WrongProject
      else if bm_get (pj_applied_operations p) (cr_operation_id request) \<noteq> None then Inl PE_DuplicateOperation
      else if cr_expected_revision request \<noteq> pj_revision p
      then Inl (PE_RevisionConflict (cr_expected_revision request) (pj_revision p))
      else if cr_logical_time request \<le> pj_logical_time p then Inl PE_StaleLogicalTime
      else
        bindE (some_or (checked_add_word (pj_revision p) 1) PE_Limit) (\<lambda>revision_after.
        bindE (apply_command F p (cr_command request)) (\<lambda>(changed, event, undo).
        let q = changed
              \<lparr>pj_revision := revision_after, pj_logical_time := cr_logical_time request,
               pj_applied_operations := bm_insert (cr_operation_id request) revision_after (pj_applied_operations changed)\<rparr>
        in
        bindE (project_validate F q) (\<lambda>_.
        Inr (q, \<lparr>or_request = request, or_revision_after = revision_after, or_event = event, or_undo = undo\<rparr>)))))"

text \<open>The replay of an untrusted receipt, which must be exactly the one that the execution yields.\<close>

definition replay_record :: "'f f64_ops \<Rightarrow> 'f project \<Rightarrow> 'f operation_record \<Rightarrow> project_error + 'f project" where
  "replay_record F p r =
     bindE (execute F p (or_request r)) (\<lambda>(q, r'). if r' \<noteq> r then Inl PE_InvalidReceipt else Inr q)"

definition apply_materialized ::
    "'f f64_ops \<Rightarrow> 'f project \<Rightarrow> operation_id \<Rightarrow> u64 \<Rightarrow> 'f project_command \<Rightarrow> project_error + 'f project" where
  "apply_materialized F p i time command =
     (if time = 0 then Inl PE_StaleLogicalTime
      else if bm_get (pj_applied_operations p) i \<noteq> None then Inl PE_DuplicateOperation
      else
        bindE (some_or (checked_add_word (pj_revision p) 1) PE_Limit) (\<lambda>revision_after.
        bindE (apply_command F (p\<lparr>pj_schema_version := PV2\<rparr>) command) (\<lambda>(changed, _, _).
        let q = changed
              \<lparr>pj_revision := revision_after, pj_logical_time := max (pj_logical_time changed) time,
               pj_applied_operations := bm_insert i revision_after (pj_applied_operations changed)\<rparr>
        in bindE (project_validate F q) (\<lambda>_. Inr q))))"

end
