(* ===== verification/Domain_Project_Valid.thy ===== *)
theory Domain_Project_Valid
  imports Domain_Project
begin

text \<open>
  The validation of a project aggregate is equivalent to a predicate on its content (references,
  frames) and its bookkeeping (receipts, limits).
\<close>

section \<open>What a valid project is\<close>

definition project_wf :: "'f project \<Rightarrow> bool" where
  "project_wf p \<longleftrightarrow>
     bm_inv (pj_sites p) \<and> bm_inv (pj_buildings p) \<and> bm_inv (pj_floors p) \<and> bm_inv (pj_maps p) \<and>
     bm_inv (pj_calibrations p) \<and> bm_inv (pj_active_calibrations p) \<and> bm_inv (pj_bound_evidence p) \<and>
     bm_inv (pj_applied_operations p)"

definition frames_of :: "'f project \<Rightarrow> frame_id list" where
  "frames_of p = map (cf_id \<circ> bd_frame \<circ> snd) (pj_buildings p) @ map (cf_id \<circ> fl_frame \<circ> snd) (pj_floors p) @
     map (cf_id \<circ> ma_image_frame \<circ> snd) (pj_maps p)"

text \<open>Referential integrity: what every entity may rely on.\<close>

definition refs_ok :: "'f f64_ops \<Rightarrow> 'f project \<Rightarrow> bool" where
  "refs_ok F p \<longleftrightarrow>
     (\<forall>i s. bm_get (pj_sites p) i = Some s \<longrightarrow> site_id s = i) \<and>
     (\<forall>i b. bm_get (pj_buildings p) i = Some b \<longrightarrow>
        bd_id b = i \<and> bm_get (pj_sites p) (bd_site_id b) \<noteq> None \<and> cf_kind (bd_frame b) = BuildingLocalMeters) \<and>
     (\<forall>i f. bm_get (pj_floors p) i = Some f \<longrightarrow>
        fl_id f = i \<and> (\<exists>b. bm_get (pj_buildings p) (fl_building_id f) = Some b \<and> fl_building_frame f = cf_id (bd_frame b))) \<and>
     (\<forall>i m. bm_get (pj_maps p) i = Some m \<longrightarrow>
        ma_id m = i \<and> bm_get (pj_floors p) (ma_floor_id m) \<noteq> None \<and>
        (\<exists>ref. bm_get (pj_active_calibrations p) i = Some ref \<and> check_calibration_ref p i ref = Inr ())) \<and>
     dom (bm_get (pj_active_calibrations p)) = dom (bm_get (pj_maps p)) \<and>
     (\<forall>i c. bm_get (pj_calibrations p) i = Some c \<longrightarrow> mc_id c = i \<and> check_calibration F p c = Inr ()) \<and>
     (\<forall>i e. bm_get (pj_bound_evidence p) i = Some e \<longrightarrow> bm_get (pj_floors p) i \<noteq> None \<and> art_byte_length e \<noteq> 0) \<and>
     distinct (frames_of p)"

text \<open>The receipts number the applied operations from one to the revision.\<close>

definition receipts_ok :: "'f project \<Rightarrow> bool" where
  "receipts_ok p \<longleftrightarrow>
     pj_revision p = of_nat (length (pj_applied_operations p)) \<and>
     (pj_applied_operations p \<noteq> [] \<longrightarrow> pj_logical_time p \<noteq> 0) \<and>
     (pj_schema_version p = PV1 \<longrightarrow> pj_revision p \<le> pj_logical_time p) \<and>
     set (bm_values (pj_applied_operations p)) = of_nat ` {1..length (pj_applied_operations p)}"

definition entity_count :: "'f project \<Rightarrow> nat" where
  "entity_count p = length (pj_sites p) + length (pj_buildings p) + length (pj_floors p) + length (pj_maps p) +
     length (pj_calibrations p)"

definition project_ok :: "'f f64_ops \<Rightarrow> 'f project \<Rightarrow> bool" where
  "project_ok F p \<longleftrightarrow>
     entity_count p \<le> MAX_ENTITIES \<and> length (pj_applied_operations p) \<le> MAX_OPERATIONS \<and> receipts_ok p \<and> refs_ok F p"

lemma unat_of_nat_u64: "n < 2 ^ 64 \<Longrightarrow> unat (of_nat n :: u64) = n"
  by (simp add: unat_of_nat)

lemma of_nat_u64_less: "i < j \<Longrightarrow> j < 2 ^ 64 \<Longrightarrow> (of_nat i :: u64) < of_nat j"
  by (simp only: word_less_nat_alt unat_of_nat_u64 less_trans)

lemma inj_on_of_nat_u64: "n < 2 ^ 64 \<Longrightarrow> inj_on (of_nat :: nat \<Rightarrow> u64) {1..n}"
  by (rule inj_on_inverseI [where g = unat]) (simp add: unat_of_nat_u64)

lemma sorted_list_of_nat_words:
  assumes "n < 2 ^ 64" "finite S"
  shows "sorted_list_of_set S = map of_nat [1..<Suc n] \<longleftrightarrow> S = (of_nat ` {1..n} :: u64 set)"
proof -
  have "sorted_wrt (\<lambda>i j. (of_nat i :: u64) < of_nat j) [1..<Suc n]"
    by (rule sorted_wrt_mono_rel [OF _ sorted_wrt_upt]) (use assms in \<open>auto intro: of_nat_u64_less\<close>)
  then have "sorted_wrt (<) (map (of_nat :: nat \<Rightarrow> u64) [1..<Suc n])" by (simp only: sorted_wrt_map)
  then have "sorted (map (of_nat :: nat \<Rightarrow> u64) [1..<Suc n]) \<and> distinct (map (of_nat :: nat \<Rightarrow> u64) [1..<Suc n])"
    by (rule iffD1 [OF strict_sorted_iff])
  then have "sorted_list_of_set (set (map (of_nat :: nat \<Rightarrow> u64) [1..<Suc n])) = map of_nat [1..<Suc n]"
    by (intro sorted_list_of_set.idem_if_sorted_distinct) blast+
  then have "sorted_list_of_set (of_nat ` {1..n}) = map (of_nat :: nat \<Rightarrow> u64) [1..<Suc n]"
    by (simp add: atLeastLessThanSuc_atLeastAtMost del: upt_Suc)
  then show ?thesis
    using assms(2) by (metis finite_atLeastAtMost finite_imageI sorted_list_of_set_inject)
qed

lemma validate_receipts_iff:
  assumes "length (pj_applied_operations p) \<le> MAX_OPERATIONS"
  shows "validate_receipts p = Inr () \<longleftrightarrow> receipts_ok p"
proof -
  let ?n = "length (pj_applied_operations p)"
  have n: "?n < 2 ^ 64" using assms by (simp add: MAX_OPERATIONS_def)
  then have u: "unat (of_nat ?n :: u64) = ?n" by (simp add: unat_of_nat)
  have inj: "card ((of_nat :: nat \<Rightarrow> u64) ` {1..?n}) = ?n"
    by (simp only: card_image [OF inj_on_of_nat_u64 [OF n]] card_atLeastAtMost diff_Suc_1)
  have pos: "0 < (of_nat ?n :: u64) \<longleftrightarrow> pj_applied_operations p \<noteq> []"
    unfolding word_less_nat_alt u by simp
  note sorted = sorted_list_of_nat_words [OF n finite_set]
  show ?thesis
  proof (cases "pj_revision p = of_nat ?n")
    case True
    then show ?thesis
      unfolding validate_receipts_def receipts_ok_def Let_def
      by (simp only: u sorted pos if_Inl_iff) (auto simp: inj [unfolded One_nat_def] pos sorted_list_of_set.length_sorted_key_list_of_set not_less)
  qed (simp add: validate_receipts_def receipts_ok_def)
qed

lemma foldE_frames:
  assumes "\<And>x s s'. x \<in> set xs \<Longrightarrow> f x s = Inr s' \<longleftrightarrow> ok x \<and> key x \<notin> s \<and> s' = insert (key x) s"
  shows "(\<exists>s'. foldE f xs s = Inr s' \<and> Q s') \<longleftrightarrow>
    (\<forall>x \<in> set xs. ok x) \<and> distinct (map key xs) \<and> key ` set xs \<inter> s = {} \<and> Q (key ` set xs \<union> s)"
proof -
  have "foldE f xs s = Inr s' \<longleftrightarrow>
      (\<forall>x \<in> set xs. ok x) \<and> distinct (map key xs) \<and> key ` set xs \<inter> s = {} \<and> s' = key ` set xs \<union> s" for s'
    by (rule foldE_insert_iff) (rule assms)
  then show ?thesis by auto
qed

lemma validate_building_iff:
  "validate_building p (i, b) s = Inr s' \<longleftrightarrow>
     (bd_id b = i \<and> bm_get (pj_sites p) (bd_site_id b) \<noteq> None \<and> cf_kind (bd_frame b) = BuildingLocalMeters) \<and>
     cf_id (bd_frame b) \<notin> s \<and> s' = insert (cf_id (bd_frame b)) s"
  by (auto simp: validate_building_def if_Inl_iff)

lemma validate_floor_iff:
  "validate_floor p (i, f) s = Inr s' \<longleftrightarrow>
     (fl_id f = i \<and> (\<exists>b. bm_get (pj_buildings p) (fl_building_id f) = Some b \<and> fl_building_frame f = cf_id (bd_frame b))) \<and>
     cf_id (fl_frame f) \<notin> s \<and> s' = insert (cf_id (fl_frame f)) s"
  by (auto simp: validate_floor_def if_Inl_iff)

lemma validate_map_iff:
  "validate_map p (i, m) s = Inr s' \<longleftrightarrow>
     (ma_id m = i \<and> bm_get (pj_floors p) (ma_floor_id m) \<noteq> None \<and>
        (\<exists>ref. bm_get (pj_active_calibrations p) i = Some ref \<and> check_calibration_ref p i ref = Inr ())) \<and>
     cf_id (ma_image_frame m) \<notin> s \<and> s' = insert (cf_id (ma_image_frame m)) s"
  by (auto simp: validate_map_def if_Inl_iff)

lemma dom_eq_length_iff:
  assumes "bm_inv m" "bm_inv a" "dom (bm_get m) \<subseteq> dom (bm_get a)"
  shows "length m = length a \<longleftrightarrow> dom (bm_get a) = dom (bm_get m)"
  using assms card_subset_eq [of "dom (bm_get a)" "dom (bm_get m)"] by (auto simp: length_bm_card finite_dom_map_of)

lemma project_validate_iff:
  assumes "project_wf p"
  shows "project_validate F p = Inr () \<longleftrightarrow> project_ok F p"
proof -
  let ?b = "\<lambda>(i, b). bd_id b = i \<and> bm_get (pj_sites p) (bd_site_id b) \<noteq> None \<and> cf_kind (bd_frame b) = BuildingLocalMeters"
  let ?f = "\<lambda>(i, f). fl_id f = i \<and> (\<exists>b. bm_get (pj_buildings p) (fl_building_id f) = Some b \<and> fl_building_frame f = cf_id (bd_frame b))"
  let ?m = "\<lambda>(i, m). ma_id m = i \<and> bm_get (pj_floors p) (ma_floor_id m) \<noteq> None \<and>
        (\<exists>ref. bm_get (pj_active_calibrations p) i = Some ref \<and> check_calibration_ref p i ref = Inr ())"
  have b: "(\<exists>s'. foldE (validate_building p) (pj_buildings p) s = Inr s' \<and> Q s') \<longleftrightarrow>
      (\<forall>x \<in> set (pj_buildings p). ?b x) \<and> distinct (map (cf_id \<circ> bd_frame \<circ> snd) (pj_buildings p)) \<and>
      (cf_id \<circ> bd_frame \<circ> snd) ` set (pj_buildings p) \<inter> s = {} \<and> Q ((cf_id \<circ> bd_frame \<circ> snd) ` set (pj_buildings p) \<union> s)"
    for s Q by (rule foldE_frames) (auto simp: validate_building_iff)
  have f: "(\<exists>s'. foldE (validate_floor p) (pj_floors p) s = Inr s' \<and> Q s') \<longleftrightarrow>
      (\<forall>x \<in> set (pj_floors p). ?f x) \<and> distinct (map (cf_id \<circ> fl_frame \<circ> snd) (pj_floors p)) \<and>
      (cf_id \<circ> fl_frame \<circ> snd) ` set (pj_floors p) \<inter> s = {} \<and> Q ((cf_id \<circ> fl_frame \<circ> snd) ` set (pj_floors p) \<union> s)"
    for s Q by (rule foldE_frames) (auto simp: validate_floor_iff)
  have m: "(\<exists>s'. foldE (validate_map p) (pj_maps p) s = Inr s' \<and> Q s') \<longleftrightarrow>
      (\<forall>x \<in> set (pj_maps p). ?m x) \<and> distinct (map (cf_id \<circ> ma_image_frame \<circ> snd) (pj_maps p)) \<and>
      (cf_id \<circ> ma_image_frame \<circ> snd) ` set (pj_maps p) \<inter> s = {} \<and> Q ((cf_id \<circ> ma_image_frame \<circ> snd) ` set (pj_maps p) \<union> s)"
    for s Q by (rule foldE_frames) (auto simp: validate_map_iff)
  have wf: "bm_inv (pj_sites p)" "bm_inv (pj_buildings p)" "bm_inv (pj_floors p)" "bm_inv (pj_maps p)"
    "bm_inv (pj_calibrations p)" "bm_inv (pj_active_calibrations p)" "bm_inv (pj_bound_evidence p)"
    using assms by (simp_all add: project_wf_def)
  have sites: "(\<forall>x \<in> set (pj_sites p). (case x of (i, s) \<Rightarrow> if i \<noteq> site_id s then Inl PE_InvalidReference else Inr ()) = Inr ()) \<longleftrightarrow>
      (\<forall>i s. bm_get (pj_sites p) i = Some s \<longrightarrow> site_id s = i)"
    unfolding bm_ball_entries [OF wf(1)] by (auto simp: if_Inl_iff)
  have cals: "(\<forall>x \<in> set (pj_calibrations p). (case x of (i, c) \<Rightarrow>
        if i \<noteq> mc_id c then Inl PE_InvalidReference else check_calibration F p c) = Inr ()) \<longleftrightarrow>
      (\<forall>i c. bm_get (pj_calibrations p) i = Some c \<longrightarrow> mc_id c = i \<and> check_calibration F p c = Inr ())"
    unfolding bm_ball_entries [OF wf(5)] by (auto simp: if_Inl_iff)
  have bound: "(\<forall>x \<in> set (pj_bound_evidence p). (case x of (i, e) \<Rightarrow>
        if bm_get (pj_floors p) i = None \<or> art_byte_length e = 0 then Inl PE_InvalidReference else Inr ()) = Inr ()) \<longleftrightarrow>
      (\<forall>i e. bm_get (pj_bound_evidence p) i = Some e \<longrightarrow> bm_get (pj_floors p) i \<noteq> None \<and> art_byte_length e \<noteq> 0)"
    unfolding bm_ball_entries [OF wf(7)] by (auto simp: if_Inl_iff)
  have dom: "(\<forall>i m. bm_get (pj_maps p) i = Some m \<longrightarrow> ?m (i, m)) \<Longrightarrow>
      length (pj_maps p) = length (pj_active_calibrations p) \<longleftrightarrow> dom (bm_get (pj_active_calibrations p)) = dom (bm_get (pj_maps p))"
    using wf(4,6) by (intro dom_eq_length_iff) auto
  have frames: "distinct (frames_of p) \<longleftrightarrow>
      distinct (map (cf_id \<circ> bd_frame \<circ> snd) (pj_buildings p)) \<and> distinct (map (cf_id \<circ> fl_frame \<circ> snd) (pj_floors p)) \<and>
      distinct (map (cf_id \<circ> ma_image_frame \<circ> snd) (pj_maps p)) \<and>
      (cf_id \<circ> fl_frame \<circ> snd) ` set (pj_floors p) \<inter> ((cf_id \<circ> bd_frame \<circ> snd) ` set (pj_buildings p) \<union> {}) = {} \<and>
      (cf_id \<circ> ma_image_frame \<circ> snd) ` set (pj_maps p) \<inter>
        ((cf_id \<circ> fl_frame \<circ> snd) ` set (pj_floors p) \<union> ((cf_id \<circ> bd_frame \<circ> snd) ` set (pj_buildings p) \<union> {})) = {}"
    unfolding frames_of_def distinct_append set_append set_map by blast
  show ?thesis
  proof (cases "length (pj_applied_operations p) \<le> MAX_OPERATIONS")
    case True
    show ?thesis
      unfolding project_validate_def project_ok_def refs_ok_def entity_count_def frames if_Inl_iff bindE_Inr_iff ex_unit
        validate_receipts_iff [OF True] b f m forE_Inr_iff sites cals bound bm_ball_entries [OF wf(2)]
        bm_ball_entries [OF wf(3)] bm_ball_entries [OF wf(4)] de_Morgan_disj not_not not_less prod.case inf_bot_right
      using dom refl [of "{} :: frame_id set"] unfolding prod.case by satx
  qed (simp add: project_validate_def project_ok_def)
qed


section \<open>Content and bookkeeping\<close>

type_synonym 'f content =
  "(site_id, site) btree_map \<times> (building_id, building) btree_map \<times> (floor_id, 'f floor_data) btree_map \<times>
   (map_asset_id, map_asset) btree_map \<times> (calibration_id, 'f calibration) btree_map \<times>
   (map_asset_id, calibration_id evidence) btree_map \<times> (floor_id, artifact_reference) btree_map"

definition content :: "'f project \<Rightarrow> 'f content" where
  "content p = (pj_sites p, pj_buildings p, pj_floors p, pj_maps p, pj_calibrations p, pj_active_calibrations p,
     pj_bound_evidence p)"

lemma check_cong:
  "pj_maps p = pj_maps q \<Longrightarrow> pj_floors p = pj_floors q \<Longrightarrow> check_calibration F p = check_calibration F q"
  "pj_calibrations p = pj_calibrations q \<Longrightarrow> check_calibration_ref p = check_calibration_ref q"
  by (simp_all add: fun_eq_iff check_calibration_def check_calibration_ref_def cong: evidence.case_cong)

lemma content_cong:
  assumes "content p = content q"
  shows "refs_ok F p = refs_ok F q" "entity_count p = entity_count q" "unlocked p = unlocked q"
proof -
  have eqs: "pj_sites p = pj_sites q" "pj_buildings p = pj_buildings q" "pj_floors p = pj_floors q" "pj_maps p = pj_maps q"
    "pj_calibrations p = pj_calibrations q" "pj_active_calibrations p = pj_active_calibrations q"
    "pj_bound_evidence p = pj_bound_evidence q"
    using assms by (simp_all add: content_def)
  show "refs_ok F p = refs_ok F q" "entity_count p = entity_count q" "unlocked p = unlocked q"
    unfolding refs_ok_def entity_count_def frames_of_def unlocked_def eqs check_cong(1) [OF eqs(4,3)] check_cong(2) [OF eqs(5)]
    by (rule refl)+
qed

text \<open>A command leaves the bookkeeping of the aggregate alone.\<close>

lemma activateD:
  assumes "activate p map_id current = Inr (c, ev, u)"
  obtains m previous where "bm_get (pj_maps p) map_id = Some m" "unlocked p (ma_floor_id m) = Inr ()"
    "check_calibration_ref p map_id current = Inr ()" "bm_get (pj_active_calibrations p) map_id = Some previous"
    "c = p\<lparr>pj_active_calibrations := bm_insert map_id current (pj_active_calibrations p)\<rparr>"
    "u = Known (PC_ActivateCalibration map_id previous)"
  using assms by (auto simp: activate_def)

lemma apply_command_bookkeeping:
  assumes "apply_command F p cmd = Inr (c, ev, u)"
  shows "pj_schema_version c = pj_schema_version p" "pj_id c = pj_id p" "pj_revision c = pj_revision p"
    "pj_logical_time c = pj_logical_time p" "pj_applied_operations c = pj_applied_operations p"
  using assms by (cases cmd; auto simp: if_Inl_iff elim!: activateD)+

lemma apply_command_wf:
  assumes "project_wf p" "apply_command F p cmd = Inr (c, ev, u)"
  shows "project_wf c"
  using assms by (cases cmd) (auto simp: project_wf_def if_Inl_iff elim!: activateD)

end
