(* ===== verification/Domain_Project_Undo.thy ===== *)
theory Domain_Project_Undo
  imports Domain_Project_Valid
begin

text \<open>
  The undo command that a project command yields takes the content back, case by case over the commands.
\<close>

lemma unlocked_iff:
  "unlocked p i = Inr u \<longleftrightarrow> bm_get (pj_floors p) i \<noteq> None \<and> bm_get (pj_bound_evidence p) i = None"
  by (auto simp: unlocked_def if_Inl_iff)

lemma refs_okD:
  assumes "refs_ok F p"
  shows "bm_get (pj_sites p) i = Some s \<Longrightarrow> site_id s = i"
    "bm_get (pj_buildings p) i = Some b \<Longrightarrow> bd_id b = i"
    "bm_get (pj_buildings p) i = Some b \<Longrightarrow> bm_get (pj_sites p) (bd_site_id b) \<noteq> None"
    "bm_get (pj_floors p) i = Some f \<Longrightarrow> fl_id f = i"
    "bm_get (pj_floors p) i = Some f \<Longrightarrow> bm_get (pj_buildings p) (fl_building_id f) \<noteq> None"
    "bm_get (pj_maps p) i = Some m \<Longrightarrow> ma_id m = i"
    "bm_get (pj_maps p) i = Some m \<Longrightarrow> bm_get (pj_floors p) (ma_floor_id m) \<noteq> None"
    "bm_get (pj_maps p) i = Some m \<Longrightarrow>
       \<exists>ref. bm_get (pj_active_calibrations p) i = Some ref \<and> check_calibration_ref p i ref = Inr ()"
    "dom (bm_get (pj_active_calibrations p)) = dom (bm_get (pj_maps p))"
    "bm_get (pj_calibrations p) i = Some c \<Longrightarrow> mc_id c = i"
    "bm_get (pj_calibrations p) i = Some c \<Longrightarrow> check_calibration F p c = Inr ()"
    "bm_get (pj_bound_evidence p) i = Some e \<Longrightarrow> bm_get (pj_floors p) i \<noteq> None"
  using assms unfolding refs_ok_def by blast+

lemma refs_ok_activate:
  assumes "refs_ok F p" "bm_get (pj_maps p) i = Some m" "check_calibration_ref p i ref = Inr ()"
  shows "refs_ok F (p\<lparr>pj_active_calibrations := bm_insert i ref (pj_active_calibrations p)\<rparr>)"
proof -
  let ?q = "p\<lparr>pj_active_calibrations := bm_insert i ref (pj_active_calibrations p)\<rparr>"
  have eqs: "pj_sites ?q = pj_sites p" "pj_buildings ?q = pj_buildings p" "pj_floors ?q = pj_floors p" "pj_maps ?q = pj_maps p"
    "pj_calibrations ?q = pj_calibrations p" "pj_bound_evidence ?q = pj_bound_evidence p"
    "pj_active_calibrations ?q = bm_insert i ref (pj_active_calibrations p)"
    by simp_all
  show ?thesis
    using assms unfolding refs_ok_def frames_of_def eqs check_cong(1) [OF eqs(4,3)] check_cong(2) [OF eqs(5)]
    by auto
qed

definition undone :: "'f project \<Rightarrow> 'f project_command \<Rightarrow> 'f content" where
  "undone p cmd =
     (case cmd of
        PC_CalibrateMap c \<Rightarrow> content (p\<lparr>pj_calibrations := bm_insert (mc_id c) c (pj_calibrations p)\<rparr>)
      | PC_RemoveCalibration i _ \<Rightarrow>
          content (p\<lparr>pj_active_calibrations :=
            bm_insert (mc_map_id (the (bm_get (pj_calibrations p) i))) (Known i) (pj_active_calibrations p)\<rparr>)
      | _ \<Rightarrow> content p)"

lemma check_ref_not_measured:
  assumes "check_calibration_ref p i ref = Inr ()" "\<And>k c. bm_get (pj_calibrations p) k = Some c \<Longrightarrow> mc_map_id c \<noteq> i"
  shows "ref = Unknown NotMeasured"
  using assms by (auto simp: check_calibration_ref_def if_Inl_iff split: evidence.splits unknown_reason.splits)

text \<open>The undo command \<open>u\<close> is accepted by \<open>q\<close> and takes it back.\<close>

definition undoes :: "'f f64_ops \<Rightarrow> 'f project \<Rightarrow> 'f project_command \<Rightarrow> 'f project \<Rightarrow> 'f project_command \<Rightarrow> bool" where
  "undoes F p cmd q u \<longleftrightarrow>
     (\<exists>c ev u'. apply_command F q u = Inr (c, ev, u') \<and> pj_name c = pj_name p \<and> content c = undone p cmd \<and> refs_ok F c)"

lemma undoesI:
  assumes "apply_command F q u = Inr (c, ev, u')" "pj_name c = pj_name p" "content c = undone p cmd"
    "undone p cmd = content p" "refs_ok F p"
  shows "undoes F p cmd q u"
  using assms content_cong(1) unfolding undoes_def by metis

lemmas undo_simps = content_def undone_def if_Inl_iff list_ex_values_iff bm_insert_remove bm_remove_insert
  bm_insert_insert bm.insert_same

lemma wf_maps:
  assumes "project_wf p"
  shows "bm_inv (pj_sites p)" "bm_inv (pj_buildings p)" "bm_inv (pj_floors p)" "bm_inv (pj_maps p)"
    "bm_inv (pj_calibrations p)" "bm_inv (pj_active_calibrations p)" "bm_inv (pj_bound_evidence p)"
    "bm_inv (pj_applied_operations p)"
  using assms by (simp_all add: project_wf_def)

lemma undo_activate:
  assumes ok: "refs_ok F p" and wf: "project_wf p" and act: "activate p i r = Inr (c, ev, Known u)"
    and q: "content q = content c" "pj_name q = pj_name c"
  shows "undoes F p (PC_ActivateCalibration i r) q u"
proof -
  from act obtain m previous where m: "bm_get (pj_maps p) i = Some m" "unlocked p (ma_floor_id m) = Inr ()"
    "bm_get (pj_active_calibrations p) i = Some previous"
    "c = p\<lparr>pj_active_calibrations := bm_insert i r (pj_active_calibrations p)\<rparr>" "u = PC_ActivateCalibration i previous"
    by (rule activateD) auto
  have "check_calibration_ref q i previous = check_calibration_ref p i previous"
    using q m(4) by (subst check_cong(2) [of q p]) (simp_all add: content_def)
  then have "check_calibration_ref q i previous = Inr ()" using refs_okD(8) [OF ok m(1)] m(3) by auto
  then have "apply_command F q u = Inr (q\<lparr>pj_active_calibrations := bm_insert i previous (pj_active_calibrations q)\<rparr>,
      CalibrationActivated i r previous, Known (PC_ActivateCalibration i r))"
    using m q by (auto simp: activate_def unlocked_iff content_def)
  then show ?thesis
    by (rule undoesI) (use q m wf ok in \<open>auto simp: undo_simps wf_maps\<close>)
qed

lemma undo_calibrate:
  assumes ok: "refs_ok F p" and wf: "project_wf p" and app: "apply_command F p (PC_CalibrateMap cal) = Inr (c, ev, Known u)"
    and q: "content q = content c" "pj_name q = pj_name c" and okq: "refs_ok F q"
  shows "undoes F p (PC_CalibrateMap cal) q u"
proof -
  let ?p = "p\<lparr>pj_calibrations := bm_insert (mc_id cal) cal (pj_calibrations p)\<rparr>"
  from app have none: "bm_get (pj_calibrations p) (mc_id cal) = None"
    and act: "activate ?p (mc_map_id cal) (Known (mc_id cal)) = Inr (c, ev, Known u)"
    by (auto simp: if_Inl_iff)
  from act obtain m previous where m: "bm_get (pj_maps p) (mc_map_id cal) = Some m" "unlocked ?p (ma_floor_id m) = Inr ()"
    "bm_get (pj_active_calibrations p) (mc_map_id cal) = Some previous"
    "c = ?p\<lparr>pj_active_calibrations := bm_insert (mc_map_id cal) (Known (mc_id cal)) (pj_active_calibrations ?p)\<rparr>"
    "u = PC_ActivateCalibration (mc_map_id cal) previous"
    by (rule activateD) auto
  let ?c = "q\<lparr>pj_active_calibrations := bm_insert (mc_map_id cal) previous (pj_active_calibrations q)\<rparr>"
  have "check_calibration_ref p (mc_map_id cal) previous = Inr ()" using refs_okD(8) [OF ok m(1)] m(3) by auto
  then have ref: "check_calibration_ref q (mc_map_id cal) previous = Inr ()"
    using none q m(4) by (auto simp: check_calibration_ref_def content_def if_Inl_iff split: evidence.splits)
  then have "apply_command F q u = Inr (?c, CalibrationActivated (mc_map_id cal) (Known (mc_id cal)) previous,
      Known (PC_ActivateCalibration (mc_map_id cal) (Known (mc_id cal))))"
    using m q by (auto simp: activate_def unlocked_iff content_def)
  moreover have "content ?c = undone p (PC_CalibrateMap cal)" "pj_name ?c = pj_name p"
    using q m wf by (simp_all add: undo_simps wf_maps)
  moreover have "refs_ok F ?c" using m(1,4) q by (intro refs_ok_activate [OF okq _ ref]) (auto simp: content_def)
  ultimately show ?thesis unfolding undoes_def by blast
qed

lemma undo_remove_calibration:
  assumes ok: "refs_ok F p" and wf: "project_wf p"
    and app: "apply_command F p (PC_RemoveCalibration i active) = Inr (c, ev, Known u)"
    and q: "content q = content c" "pj_name q = pj_name c"
  shows "undoes F p (PC_RemoveCalibration i active) q u"
proof -
  from app obtain cal m where cal: "bm_get (pj_calibrations p) i = Some cal"
    "bm_get (pj_maps p) (mc_map_id cal) = Some m" "unlocked p (ma_floor_id m) = Inr ()" "u = PC_CalibrateMap cal"
    "c = p\<lparr>pj_calibrations := bm_remove i (pj_calibrations p),
           pj_active_calibrations := bm_insert (mc_map_id cal) active (pj_active_calibrations p)\<rparr>"
    by (auto simp: if_Inl_iff)
  have "check_calibration F q cal = Inr ()"
    using refs_okD(11) [OF ok cal(1)] cal(5) q by (auto simp: check_calibration_def content_def)
  then obtain c' ev' u' where c': "apply_command F q u = Inr (c', ev', u')" "pj_name c' = pj_name p"
    "content c' = undone p (PC_RemoveCalibration i active)"
    using cal refs_okD(10) [OF ok cal(1)] q wf
    by (auto simp: undo_simps wf_maps activate_def unlocked_iff check_calibration_ref_def)
  moreover have "refs_ok F (p\<lparr>pj_active_calibrations := bm_insert (mc_map_id cal) (Known i) (pj_active_calibrations p)\<rparr>)"
    using cal by (intro refs_ok_activate [OF ok cal(2)]) (simp add: check_calibration_ref_def)
  then have "refs_ok F c'" using c'(3) cal(1) by (subst content_cong(1)) (simp_all add: undone_def)
  ultimately show ?thesis unfolding undoes_def by blast
qed

lemma undo_remove_map:
  assumes ok: "refs_ok F p" and wf: "project_wf p" and app: "apply_command F p (PC_RemoveMap i) = Inr (c, ev, Known u)"
    and q: "content q = content c" "pj_name q = pj_name c"
  shows "undoes F p (PC_RemoveMap i) q u"
proof -
  from app obtain m where m: "bm_get (pj_maps p) i = Some m" "unlocked p (ma_floor_id m) = Inr ()"
    "\<forall>k c. bm_get (pj_calibrations p) k = Some c \<longrightarrow> mc_map_id c \<noteq> i" "u = PC_ImportMap m"
    "c = p\<lparr>pj_maps := bm_remove i (pj_maps p), pj_active_calibrations := bm_remove i (pj_active_calibrations p)\<rparr>"
    by (auto simp: if_Inl_iff list_ex_values_iff wf_maps [OF wf])
  have active: "bm_get (pj_active_calibrations p) i = Some (Unknown NotMeasured)"
    using refs_okD(8) [OF ok m(1)] check_ref_not_measured m(3) by blast
  have "apply_command F q u = Inr (q\<lparr>pj_maps := bm_insert (ma_id m) m (pj_maps q),
      pj_active_calibrations := bm_insert (ma_id m) (Unknown NotMeasured) (pj_active_calibrations q)\<rparr>,
      Created (ER_Map (ma_id m)), Known (PC_RemoveMap (ma_id m)))"
    using m q refs_okD(6) [OF ok m(1)] wf by (auto simp: unlocked_iff content_def wf_maps)
  then show ?thesis
    by (rule undoesI) (use q m active wf ok refs_okD(6) [OF ok m(1)] in \<open>auto simp: undo_simps wf_maps\<close>)
qed

lemma undo_import_map:
  assumes ok: "refs_ok F p" and wf: "project_wf p" and app: "apply_command F p (PC_ImportMap m) = Inr (c, ev, Known u)"
    and q: "content q = content c" "pj_name q = pj_name c"
  shows "undoes F p (PC_ImportMap m) q u"
proof -
  from app have m: "bm_get (pj_maps p) (ma_id m) = None" "unlocked p (ma_floor_id m) = Inr ()" "u = PC_RemoveMap (ma_id m)"
    "c = p\<lparr>pj_maps := bm_insert (ma_id m) m (pj_maps p),
           pj_active_calibrations := bm_insert (ma_id m) (Unknown NotMeasured) (pj_active_calibrations p)\<rparr>"
    by (auto simp: if_Inl_iff)
  have active: "bm_get (pj_active_calibrations p) (ma_id m) = None"
    using m(1) refs_okD(9) [OF ok] by (metis domIff)
  have cals: "mc_map_id cal \<noteq> ma_id m" if "bm_get (pj_calibrations p) k = Some cal" for k cal
    using refs_okD(11) [OF ok that] m(1) by (auto simp: check_calibration_def)
  then have "apply_command F q u = Inr (q\<lparr>pj_maps := bm_remove (ma_id m) (pj_maps q),
      pj_active_calibrations := bm_remove (ma_id m) (pj_active_calibrations q)\<rparr>,
      Removed (ER_Map (ma_id m)), Known (PC_ImportMap m))"
    using m q wf by (auto simp: unlocked_iff content_def wf_maps list_ex_values_iff)
  then show ?thesis
    by (rule undoesI) (use q m active wf ok in \<open>auto simp: undo_simps wf_maps\<close>)
qed

lemma undo_create:
  assumes ok: "refs_ok F p" and wf: "project_wf p" and app: "apply_command F p cmd = Inr (c, ev, Known u)"
    and q: "content q = content c" "pj_name q = pj_name c" and cmd: "cmd \<in> {PC_CreateSite s, PC_CreateBuilding b, PC_CreateFloor f}"
  shows "undoes F p cmd q u"
proof -
  have site: "bd_site_id b \<noteq> site_id s" if "bm_get (pj_sites p) (site_id s) = None" "bm_get (pj_buildings p) k = Some b" for k b
    using refs_okD(3) [OF ok that(2)] that(1) by auto
  have building: "fl_building_id f \<noteq> bd_id b" if "bm_get (pj_buildings p) (bd_id b) = None" "bm_get (pj_floors p) k = Some f" for k f
    using refs_okD(5) [OF ok that(2)] that(1) by auto
  have map: "ma_floor_id m \<noteq> fl_id f" if "bm_get (pj_floors p) (fl_id f) = None" "bm_get (pj_maps p) k = Some m" for k m
    using refs_okD(7) [OF ok that(2)] that(1) by auto
  have bound: "bm_get (pj_bound_evidence p) (fl_id f) = None" if "bm_get (pj_floors p) (fl_id f) = None"
    using refs_okD(12) [OF ok, of "fl_id f"] that by (cases "bm_get (pj_bound_evidence p) (fl_id f)") auto
  obtain c' ev' u' where "apply_command F q u = Inr (c', ev', u')" "pj_name c' = pj_name p" "content c' = undone p cmd"
    using app q cmd wf site building map bound by (auto simp: undo_simps wf_maps unlocked_iff)
  then show ?thesis by (rule undoesI) (use cmd ok in \<open>auto simp: undone_def\<close>)
qed

lemma undo_simple:
  assumes ok: "refs_ok F p" and wf: "project_wf p" and app: "apply_command F p cmd = Inr (c, ev, Known u)"
    and q: "content q = content c" "pj_name q = pj_name c"
    and cmd: "cmd \<in> {PC_SetProjectName name, PC_SetSiteName i name, PC_RemoveSite i, PC_RemoveBuilding i, PC_RemoveFloor i}"
  shows "undoes F p cmd q u"
proof -
  note ids = refs_okD(1,2,4) [OF ok]
  obtain c' ev' u' where "apply_command F q u = Inr (c', ev', u')" "pj_name c' = pj_name p" "content c' = undone p cmd"
    using app q cmd wf ids by (auto simp: undo_simps wf_maps)
  then show ?thesis by (rule undoesI) (use cmd ok in \<open>auto simp: undone_def\<close>)
qed

lemma apply_undo:
  assumes "refs_ok F p" "project_wf p" "apply_command F p cmd = Inr (c, ev, Known u)"
    "content q = content c" "pj_name q = pj_name c" "refs_ok F q"
  shows "undoes F p cmd q u"
proof (cases cmd)
  case (PC_BindFloorEvidence i e)
  then show ?thesis using assms(3) by (auto simp: if_Inl_iff)
next
  case (PC_ActivateCalibration i r)
  then show ?thesis using undo_activate [OF assms(1,2) _ assms(4,5), of i r] assms(3) by simp
next
  case (PC_CalibrateMap cal)
  then show ?thesis using undo_calibrate [OF assms(1,2) _ assms(4-6)] assms(3) by simp
next
  case (PC_RemoveCalibration i active)
  then show ?thesis using undo_remove_calibration [OF assms(1,2) _ assms(4,5)] assms(3) by simp
next
  case (PC_RemoveMap i)
  then show ?thesis using undo_remove_map [OF assms(1,2) _ assms(4,5)] assms(3) by simp
next
  case (PC_ImportMap m)
  then show ?thesis using undo_import_map [OF assms(1,2) _ assms(4,5)] assms(3) by simp
qed (rule undo_create [OF assms(1-5)] undo_simple [OF assms(1-5)], blast)+

end
