(* ===== verification/Domain_Project_States.thy ===== *)
theory Domain_Project_States
  imports Domain_Project_Undo
begin

text \<open>
  The states a project goes through and the properties of the aggregate: every state is valid, undo
  commands restore what they undo, and a floor with bound evidence does not change any more.
\<close>

section \<open>Reachable projects\<close>

inductive project_step :: "'f f64_ops \<Rightarrow> 'f project \<Rightarrow> 'f project \<Rightarrow> bool" for F where
  executed: "execute F p request = Inr (q, r) \<Longrightarrow> project_step F p q"
| replayed: "replay_record F p r = Inr q \<Longrightarrow> project_step F p q"
| materialized: "apply_materialized F p i t cmd = Inr q \<Longrightarrow> project_step F p q"

inductive project_state :: "'f f64_ops \<Rightarrow> 'f project \<Rightarrow> bool" for F where
  created: "project_state F (project_new i name)"
| planned: "with_initial_hierarchy F i name h = Inr p \<Longrightarrow> project_state F p"
| restored: "project_wf d \<Longrightarrow> project_try_from F d = Inr p \<Longrightarrow> project_state F p"
| stepped: "project_state F p \<Longrightarrow> project_step F p q \<Longrightarrow> project_state F q"

lemma executeD:
  assumes "execute F p request = Inr (q, r)"
  obtains c ev u where "apply_command F p (cr_command request) = Inr (c, ev, u)"
    "bm_get (pj_applied_operations p) (cr_operation_id request) = None"
    "pj_logical_time p < cr_logical_time request"
    "q = c\<lparr>pj_revision := pj_revision p + 1, pj_logical_time := cr_logical_time request,
           pj_applied_operations := bm_insert (cr_operation_id request) (pj_revision p + 1) (pj_applied_operations p)\<rparr>"
    "project_validate F q = Inr ()" "or_undo r = u"
proof -
  from assms obtain c ev u n where *: "checked_add_word (pj_revision p) 1 = Some n"
    "apply_command F p (cr_command request) = Inr (c, ev, u)"
    "bm_get (pj_applied_operations p) (cr_operation_id request) = None" "\<not> cr_logical_time request \<le> pj_logical_time p"
    "q = c\<lparr>pj_revision := n, pj_logical_time := cr_logical_time request,
           pj_applied_operations := bm_insert (cr_operation_id request) n (pj_applied_operations c)\<rparr>"
    "project_validate F q = Inr ()" "or_undo r = u"
    unfolding execute_def Let_def if_Inl_iff bindE_Inr_iff by (auto simp: not_le)
  with checked_add_word_SomeD(1) [OF *(1)] apply_command_bookkeeping(5) [OF *(2)] show thesis
    by (intro that) auto
qed

lemma apply_materializedD:
  assumes "apply_materialized F p i t cmd = Inr q"
  obtains c ev u where "apply_command F (p\<lparr>pj_schema_version := PV2\<rparr>) cmd = Inr (c, ev, u)" "t \<noteq> 0"
    "bm_get (pj_applied_operations p) i = None"
    "q = c\<lparr>pj_revision := pj_revision p + 1, pj_logical_time := max (pj_logical_time p) t,
           pj_applied_operations := bm_insert i (pj_revision p + 1) (pj_applied_operations p)\<rparr>"
    "project_validate F q = Inr ()"
proof -
  from assms obtain c ev u n where *: "checked_add_word (pj_revision p) 1 = Some n" "t \<noteq> 0"
    "bm_get (pj_applied_operations p) i = None" "apply_command F (p\<lparr>pj_schema_version := PV2\<rparr>) cmd = Inr (c, ev, u)"
    "q = c\<lparr>pj_revision := n, pj_logical_time := max (pj_logical_time c) t,
           pj_applied_operations := bm_insert i n (pj_applied_operations c)\<rparr>"
    "project_validate F q = Inr ()"
    unfolding apply_materialized_def Let_def if_Inl_iff bindE_Inr_iff by auto
  with checked_add_word_SomeD(1) [OF *(1)] apply_command_bookkeeping(4,5) [OF *(4)] show thesis
    by (intro that) auto
qed

text \<open>Every step applies one command to the content and records it.\<close>

lemma project_stepE:
  assumes "project_step F p q"
  obtains p' cmd c ev u where "content p' = content p" "project_wf p' = project_wf p"
    "apply_command F p' cmd = Inr (c, ev, u)" "content q = content c" "project_validate F q = Inr ()"
    "project_wf p \<longrightarrow> project_wf q"
  using assms
proof cases
  case (executed request r)
  then obtain c ev u where c: "apply_command F p (cr_command request) = Inr (c, ev, u)"
    "q = c\<lparr>pj_revision := pj_revision p + 1, pj_logical_time := cr_logical_time request,
           pj_applied_operations := bm_insert (cr_operation_id request) (pj_revision p + 1) (pj_applied_operations p)\<rparr>"
    "project_validate F q = Inr ()"
    by (rule executeD)
  then show thesis
    using apply_command_wf [OF _ c(1)] by (intro that [OF refl refl c(1)]) (auto simp: content_def project_wf_def)
next
  case (replayed r)
  then have "execute F p (or_request r) = Inr (q, r)" by (auto simp: replay_record_def if_Inl_iff split: prod.splits if_splits)
  then obtain c ev u where c: "apply_command F p (cr_command (or_request r)) = Inr (c, ev, u)"
    "q = c\<lparr>pj_revision := pj_revision p + 1, pj_logical_time := cr_logical_time (or_request r),
           pj_applied_operations := bm_insert (cr_operation_id (or_request r)) (pj_revision p + 1) (pj_applied_operations p)\<rparr>"
    "project_validate F q = Inr ()"
    by (rule executeD)
  then show thesis
    using apply_command_wf [OF _ c(1)] by (intro that [OF refl refl c(1)]) (auto simp: content_def project_wf_def)
next
  case (materialized i t cmd)
  then obtain c ev u where c: "apply_command F (p\<lparr>pj_schema_version := PV2\<rparr>) cmd = Inr (c, ev, u)"
    "q = c\<lparr>pj_revision := pj_revision p + 1, pj_logical_time := max (pj_logical_time p) t,
           pj_applied_operations := bm_insert i (pj_revision p + 1) (pj_applied_operations p)\<rparr>"
    "project_validate F q = Inr ()"
    by (rule apply_materializedD)
  have "content (p\<lparr>pj_schema_version := PV2\<rparr>) = content p" "project_wf (p\<lparr>pj_schema_version := PV2\<rparr>) = project_wf p"
    by (simp_all add: content_def project_wf_def)
  then show thesis
    using c(2,3) apply_command_wf [OF _ c(1)] by (intro that [OF _ _ c(1)]) (auto simp: content_def project_wf_def)
qed

lemma project_state_valid:
  assumes "project_state F p"
  shows "project_wf p \<and> project_validate F p = Inr ()"
  using assms
proof induction
  case (created i name)
  have "project_ok F (project_new i name)"
    by (simp add: project_ok_def project_new_def entity_count_def receipts_ok_def refs_ok_def frames_of_def)
  moreover have "project_wf (project_new i name :: 'a project)" by (simp add: project_wf_def project_new_def)
  ultimately show ?case by (simp add: project_validate_iff)
next
  case (planned i name h p)
  then show ?case by (auto simp: with_initial_hierarchy_def Let_def project_wf_def project_new_def)
next
  case (restored d p)
  then show ?case by (auto simp: project_try_from_def)
next
  case (stepped p q)
  then show ?case using project_stepE [OF stepped(2)] by metis
qed

lemma project_state_ok: "project_state F p \<Longrightarrow> project_wf p \<and> project_ok F p"
  using project_state_valid project_validate_iff by blast


section \<open>Undo\<close>

lemma receipts_step:
  assumes ok: "receipts_ok q" and len: "length (pj_applied_operations q) < MAX_OPERATIONS"
    and fresh: "bm_get (pj_applied_operations q) i = None" and later: "pj_logical_time q < t"
    and c: "pj_schema_version c = pj_schema_version q" "pj_revision c = pj_revision q + 1" "pj_logical_time c = t"
      "pj_applied_operations c = bm_insert i (pj_revision q + 1) (pj_applied_operations q)"
  shows "receipts_ok c"
proof -
  let ?n = "length (pj_applied_operations q)"
  have n: "length (pj_applied_operations c) = Suc ?n" using fresh c(4) by (simp add: length_bm_insert)
  have "pj_revision q + 1 \<le> t" if "pj_revision q \<le> pj_logical_time q"
    using that later by (simp add: inc_le)
  moreover have "t \<noteq> 0" using later by auto
  moreover have "set (bm_values (pj_applied_operations c)) = of_nat ` {1..Suc ?n}"
    using ok fresh c(4) by (simp add: receipts_ok_def set_bm_values_insert atLeastAtMostSuc_conv add.commute)
  ultimately show ?thesis using ok n c by (auto simp: receipts_ok_def)
qed

lemma undone_count:
  assumes "apply_command F p cmd = Inr (d, ev, u)" "content s = undone p cmd"
  shows "entity_count s \<le> max (entity_count p) (entity_count d)"
proof (cases "undone p cmd = content p")
  case True
  then show ?thesis using content_cong(2) [of s p] assms(2) by simp
next
  case False
  then obtain c where "cmd = PC_CalibrateMap c \<or> (\<exists>i a. cmd = PC_RemoveCalibration i a)"
    by (cases cmd) (auto simp: undone_def)
  then show ?thesis using assms by (auto simp: undone_def content_def entity_count_def if_Inl_iff elim!: activateD)
qed

section \<open>Bound floors\<close>

text \<open>The spatial reference of a floor: itself, its building, its maps and their calibrations.\<close>

definition floor_view :: "'f project \<Rightarrow> floor_id \<Rightarrow> artifact_reference option \<times> ('f floor_data \<times> building option) option \<times>
    (map_asset_id \<Rightarrow> (map_asset \<times> calibration_id evidence option \<times> (calibration_id \<times> 'f calibration) set) option)" where
  "floor_view p floor =
     (bm_get (pj_bound_evidence p) floor,
      map_option (\<lambda>f. (f, bm_get (pj_buildings p) (fl_building_id f))) (bm_get (pj_floors p) floor),
      \<lambda>i. case bm_get (pj_maps p) i of
            Some m \<Rightarrow>
              if ma_floor_id m = floor
              then Some (m, bm_get (pj_active_calibrations p) i,
                {(k, c). bm_get (pj_calibrations p) k = Some c \<and> mc_map_id c = i}) else None
          | None \<Rightarrow> None)"

lemma content_floor_view: "content p = content q \<Longrightarrow> floor_view p = floor_view q"
  by (auto simp: content_def floor_view_def fun_eq_iff split: option.splits)

lemma floor_view_eqI:
  assumes "bm_get (pj_bound_evidence c) floor = bm_get (pj_bound_evidence p) floor"
    "bm_get (pj_floors c) floor = bm_get (pj_floors p) floor"
    "\<And>f. bm_get (pj_floors p) floor = Some f \<Longrightarrow> bm_get (pj_buildings c) (fl_building_id f) = bm_get (pj_buildings p) (fl_building_id f)"
    "\<And>i m. ma_floor_id m = floor \<Longrightarrow> bm_get (pj_maps c) i = Some m \<longleftrightarrow> bm_get (pj_maps p) i = Some m"
    "\<And>i m. ma_floor_id m = floor \<Longrightarrow> bm_get (pj_maps p) i = Some m \<Longrightarrow>
       bm_get (pj_active_calibrations c) i = bm_get (pj_active_calibrations p) i"
    "\<And>i m k cal. ma_floor_id m = floor \<Longrightarrow> bm_get (pj_maps p) i = Some m \<Longrightarrow> mc_map_id cal = i \<Longrightarrow>
       bm_get (pj_calibrations c) k = Some cal \<longleftrightarrow> bm_get (pj_calibrations p) k = Some cal"
  shows "floor_view c floor = floor_view p floor"
proof -
  let ?view = "\<lambda>p i. case bm_get (pj_maps p) i of Some m \<Rightarrow> if ma_floor_id m = floor then Some (m, bm_get (pj_active_calibrations p) i,
    {(k, c). bm_get (pj_calibrations p) k = Some c \<and> mc_map_id c = i}) else None | None \<Rightarrow> None"
  have "?view c i = ?view p i" for i
  proof (cases "\<exists>m. bm_get (pj_maps p) i = Some m \<and> ma_floor_id m = floor")
    case True
    then obtain m where m: "bm_get (pj_maps p) i = Some m" "ma_floor_id m = floor" by blast
    have "bm_get (pj_maps c) i = Some m" using assms(4) [OF m(2)] m(1) by simp
    moreover have "{(k, cal). bm_get (pj_calibrations c) k = Some cal \<and> mc_map_id cal = i} =
        {(k, cal). bm_get (pj_calibrations p) k = Some cal \<and> mc_map_id cal = i}"
      using assms(6) [OF m(2,1)] by blast
    ultimately show ?thesis using m assms(5) [OF m(2,1)] by simp
  next
    case False
    then have "\<not> (\<exists>m. bm_get (pj_maps c) i = Some m \<and> ma_floor_id m = floor)" using assms(4) by blast
    with False show ?thesis by (auto split: option.splits)
  qed
  moreover have "map_option (\<lambda>f. (f, bm_get (pj_buildings c) (fl_building_id f))) (bm_get (pj_floors c) floor) =
      map_option (\<lambda>f. (f, bm_get (pj_buildings p) (fl_building_id f))) (bm_get (pj_floors p) floor)"
    using assms(2,3) by (cases "bm_get (pj_floors p) floor") auto
  ultimately show ?thesis unfolding floor_view_def assms(1) by (simp only: fun_eq_iff)
qed

lemma apply_floor_view:
  assumes ok: "refs_ok F p" and wf: "project_wf p" and bound: "bm_get (pj_bound_evidence p) floor \<noteq> None"
    and app: "apply_command F p cmd = Inr (c, ev, u)"
  shows "floor_view c floor = floor_view p floor"
proof (rule floor_view_eqI)
  note inv = wf_maps [OF wf]
  note simps = if_Inl_iff unlocked_iff list_ex_values_iff inv
  show "bm_get (pj_bound_evidence c) floor = bm_get (pj_bound_evidence p) floor"
    using app bound by (cases cmd) (auto simp: simps elim!: activateD)
  show "bm_get (pj_floors c) floor = bm_get (pj_floors p) floor"
    using app bound refs_okD(12) [OF ok, of floor] by (cases cmd) (auto simp: simps elim!: activateD)
  show "bm_get (pj_buildings c) (fl_building_id f) = bm_get (pj_buildings p) (fl_building_id f)"
    if "bm_get (pj_floors p) floor = Some f" for f
    using app refs_okD(5) [OF ok that] that by (cases cmd) (auto simp: simps elim!: activateD)
  show "bm_get (pj_maps c) i = Some m \<longleftrightarrow> bm_get (pj_maps p) i = Some m" if "ma_floor_id m = floor" for i m
    using app bound that by (cases cmd) (auto simp: simps elim!: activateD split: if_splits)
  show "bm_get (pj_active_calibrations c) i = bm_get (pj_active_calibrations p) i"
    if "ma_floor_id m = floor" "bm_get (pj_maps p) i = Some m" for i m
    using app bound that by (cases cmd) (auto simp: simps elim!: activateD split: if_splits)
  show "bm_get (pj_calibrations c) k = Some cal \<longleftrightarrow> bm_get (pj_calibrations p) k = Some cal"
    if "ma_floor_id m = floor" "bm_get (pj_maps p) i = Some m" "mc_map_id cal = i" for i m k cal
    using app bound that by (cases cmd) (auto simp: simps elim!: activateD split: if_splits)
qed

lemma step_floor_view:
  assumes "project_wf p" "refs_ok F p" "bm_get (pj_bound_evidence p) floor \<noteq> None" "project_step F p q"
  shows "floor_view q floor = floor_view p floor"
proof -
  from assms(4) obtain p' cmd c ev u where s: "content p' = content p" "project_wf p' = project_wf p"
    "apply_command F p' cmd = Inr (c, ev, u)" "content q = content c"
    by (rule project_stepE)
  have "floor_view c floor = floor_view p' floor"
    using s(1,2) assms content_cong(1) [OF s(1)] by (intro apply_floor_view [OF _ _ _ s(3)]) (auto simp: content_def)
  then show ?thesis using content_floor_view [OF s(1)] content_floor_view [OF s(4)] by simp
qed

section \<open>A small project\<close>

definition sample_frame :: "u8 \<Rightarrow> frame_kind \<Rightarrow> coordinate_frame" where
  "sample_frame i kind = \<lparr>cf_id = [i], cf_name = [118], cf_kind = kind\<rparr>"

definition sample_hierarchy :: "int initial_project_hierarchy" where
  "sample_hierarchy =
     \<lparr>ih_site = \<lparr>site_id = [1], site_name = [118]\<rparr>,
      ih_building = \<lparr>bd_id = [2], bd_site_id = [1], bd_name = [118], bd_frame = sample_frame 3 BuildingLocalMeters\<rparr>,
      ih_floor = \<lparr>fl_id = [4], fl_building_id = [2], fl_name = [118], fl_frame = sample_frame 5 FloorLocalMeters,
        fl_building_frame = [3], fl_origin = \<lparr>pt_x = 0, pt_y = 0, pt_z = 0\<rparr>, fl_yaw = 0, fl_clear_height = 3\<rparr>\<rparr>"

definition sample_artifact :: artifact_reference where
  "sample_artifact = \<lparr>art_sha256 = [9], art_media_type = [118], art_byte_length = 10\<rparr>"

definition sample_map :: map_asset where
  "sample_map = \<lparr>ma_id = [6], ma_floor_id = [4], ma_name = [118], ma_image_frame = sample_frame 7 ImagePixels, ma_width = 100,
     ma_height = 100, ma_source = sample_artifact, ma_provenance = [118]\<rparr>"

definition sample_request :: "u8 \<Rightarrow> u64 \<Rightarrow> int project_command \<Rightarrow> int command_request" where
  "sample_request i revision cmd =
     \<lparr>cr_operation_id = [i], cr_project_id = [8], cr_actor_id = [1], cr_device_id = [1], cr_logical_time = revision + 3,
      cr_expected_revision = revision, cr_wall_time = Unknown NotMeasured, cr_command = cmd\<rparr>"

definition planned_project :: "int project" where
  "planned_project = (project_new [8] [118])\<lparr>pj_sites := [([1], ih_site sample_hierarchy)],
     pj_buildings := [([2], ih_building sample_hierarchy)], pj_floors := [([4], ih_floor sample_hierarchy)]\<rparr>"

definition mapped_project :: "int project" where
  "mapped_project = planned_project\<lparr>pj_maps := [([6], sample_map)], pj_active_calibrations := [([6], Unknown NotMeasured)],
     pj_revision := 1, pj_logical_time := 3, pj_applied_operations := [([1], 1)]\<rparr>"

definition bound_project :: "int project" where
  "bound_project = planned_project\<lparr>pj_bound_evidence := [([4], sample_artifact)],
     pj_revision := 1, pj_logical_time := 3, pj_applied_operations := [([1], 1)]\<rparr>"

definition named_project :: "int project" where
  "named_project = bound_project\<lparr>pj_name := [119], pj_revision := 2, pj_logical_time := 4,
     pj_applied_operations := [([1], 1), ([2], 2)]\<rparr>"

lemmas sample_defs = sample_frame_def sample_hierarchy_def sample_artifact_def sample_map_def sample_request_def
  planned_project_def mapped_project_def bound_project_def named_project_def

lemmas validate_defs = project_validate_def validate_receipts_def validate_building_def validate_floor_def validate_map_def
  check_calibration_ref_def MAX_ENTITIES_def MAX_OPERATIONS_def

lemma sample_validate:
  "project_validate int_ops planned_project = Inr ()" "project_validate int_ops mapped_project = Inr ()"
  "project_validate int_ops bound_project = Inr ()" "project_validate int_ops named_project = Inr ()"
  by (simp_all add: validate_defs sample_defs project_new_def Let_def upt_rec)

lemma planned_project_state: "project_state int_ops planned_project"
proof (rule project_state.planned)
  have "planned_project = (project_new [8] [118])\<lparr>pj_sites := [(site_id (ih_site sample_hierarchy), ih_site sample_hierarchy)],
      pj_buildings := [(bd_id (ih_building sample_hierarchy), ih_building sample_hierarchy)],
      pj_floors := [(fl_id (ih_floor sample_hierarchy), ih_floor sample_hierarchy)]\<rparr>"
    by (simp add: sample_defs)
  then show "with_initial_hierarchy int_ops [8] [118] sample_hierarchy = Inr planned_project"
    using sample_validate(1) by (simp add: with_initial_hierarchy_def Let_def)
qed

lemma sample_executions:
  "\<exists>r. execute int_ops planned_project (sample_request 1 0 (PC_ImportMap sample_map)) = Inr (mapped_project, r) \<and>
     or_undo r = Known (PC_RemoveMap [6])"
  "\<exists>r. execute int_ops planned_project (sample_request 1 0 (PC_BindFloorEvidence [4] sample_artifact)) = Inr (bound_project, r)"
  "\<exists>r. execute int_ops bound_project (sample_request 2 1 (PC_SetProjectName [119])) = Inr (named_project, r)"
  using sample_validate
  by (simp_all add: execute_def sample_defs project_new_def Let_def checked_add_word_def unlocked_def)

section \<open>Properties\<close>

text \<open>
  Claim C11. Every project that was created, restored or changed by any sequence of executed, replayed or
  materialized commands is valid and can be stored and restored at any time: all references between
  sites, buildings, floors, maps, calibrations and bound evidence resolve, every map has an admissible
  active calibration, coordinate frames are unique, and the receipts are numbered from one to the revision.
\<close>

theorem project_states_valid:
  assumes "project_state F p"
  shows "project_try_from F p = Inr p \<and> project_ok F p"
  using project_state_valid [OF assms] project_state_ok [OF assms] by (simp add: project_try_from_def)

theorem project_states_valid_witness:
  "project_try_from int_ops planned_project = Inr planned_project \<and> project_ok int_ops planned_project"
  by (rule project_states_valid [OF planned_project_state])

text \<open>
  Claim C12. Undo commands work: after an accepted command, the undo command in its receipt is accepted
  whenever its envelope is in order, and restores the name and all the content of the project. There are
  two exceptions, both about calibrations: the undo of a calibration keeps the calibration as history and
  only restores which one is active, and the undo of the removal of a calibration always makes the
  restored calibration the active one, also when another one was active before the removal.
\<close>

theorem undo_restores:
  assumes "project_state F p" "execute F p request = Inr (q, r)" "or_undo r = Known u"
    "cr_command again = u" "cr_project_id again = pj_id p"
    "bm_get (pj_applied_operations q) (cr_operation_id again) = None" "cr_expected_revision again = pj_revision q"
    "pj_logical_time q < cr_logical_time again" "length (pj_applied_operations q) < MAX_OPERATIONS"
  shows "\<exists>s r'. execute F q again = Inr (s, r') \<and> pj_name s = pj_name p \<and> content s = undone p (cr_command request)"
proof -
  have p: "project_wf p" "refs_ok F p" "entity_count p \<le> MAX_ENTITIES"
    using project_state_ok [OF assms(1)] by (simp_all add: project_ok_def)
  have q: "project_wf q" "project_ok F q"
    using project_state_ok [OF project_state.stepped [OF assms(1) project_step.executed [OF assms(2)]]] by auto
  from assms(2) obtain c ev where c: "apply_command F p (cr_command request) = Inr (c, ev, Known u)"
    and qc: "q = c\<lparr>pj_revision := pj_revision p + 1, pj_logical_time := cr_logical_time request,
       pj_applied_operations := bm_insert (cr_operation_id request) (pj_revision p + 1) (pj_applied_operations p)\<rparr>"
    using assms(3) by (auto elim!: executeD)
  have "undoes F p (cr_command request) q u"
    using q qc by (intro apply_undo [OF p(2,1) c]) (auto simp: content_def project_ok_def)
  then obtain d ev' u' where d: "apply_command F q u = Inr (d, ev', u')" "pj_name d = pj_name p"
    "content d = undone p (cr_command request)" "refs_ok F d"
    unfolding undoes_def by blast
  let ?s = "d\<lparr>pj_revision := pj_revision q + 1, pj_logical_time := cr_logical_time again,
    pj_applied_operations := bm_insert (cr_operation_id again) (pj_revision q + 1) (pj_applied_operations q)\<rparr>"
  note book = apply_command_bookkeeping [OF d(1)]
  have content: "content ?s = content d" by (simp add: content_def)
  have "entity_count ?s \<le> max (entity_count p) (entity_count c)"
    using undone_count [OF c, of ?s] d(3) content by simp
  also have "entity_count c = entity_count q" using qc by (simp add: entity_count_def)
  finally have "entity_count ?s \<le> MAX_ENTITIES" using p(3) q(2) by (auto simp: project_ok_def max_def split: if_splits)
  moreover have "receipts_ok ?s"
  proof (rule receipts_step [OF _ assms(9,6,8)])
    show "receipts_ok q" using q(2) by (simp add: project_ok_def)
  qed (simp_all add: book(1))
  moreover have "length (pj_applied_operations ?s) \<le> MAX_OPERATIONS"
    using assms(6,9) by (simp add: length_bm_insert)
  moreover have "refs_ok F ?s" using content_cong(1) [OF content] d(4) by simp
  moreover have "project_wf ?s" using apply_command_wf [OF q(1) d(1)] q(1) by (simp add: project_wf_def)
  ultimately have "project_validate F ?s = Inr ()" by (simp add: project_validate_iff project_ok_def)
  moreover have "checked_add_word (pj_revision q) 1 = Some (pj_revision q + 1)"
    using q(2) assms(9) by (simp add: checked_add_word_def project_ok_def receipts_ok_def unat_of_nat_u64 MAX_OPERATIONS_def)
  moreover have "pj_id q = pj_id p" using qc apply_command_bookkeeping(2) [OF c] by simp
  ultimately have "execute F q again = Inr (?s, \<lparr>or_request = again, or_revision_after = pj_revision q + 1, or_event = ev', or_undo = u'\<rparr>)"
    using assms(4-8) d(1) book(5) by (simp add: execute_def Let_def)
  then show ?thesis using d(2,3) content by auto
qed

theorem undo_restores_witness:
  "\<exists>s r'. execute int_ops mapped_project (sample_request 2 1 (PC_RemoveMap [6])) = Inr (s, r') \<and>
     pj_name s = pj_name planned_project \<and> content s = undone planned_project (PC_ImportMap sample_map)"
proof -
  obtain r where r: "execute int_ops planned_project (sample_request 1 0 (PC_ImportMap sample_map)) = Inr (mapped_project, r)"
    "or_undo r = Known (PC_RemoveMap [6])"
    using sample_executions(1) by blast
  have "\<exists>s r'. execute int_ops mapped_project (sample_request 2 1 (PC_RemoveMap [6])) = Inr (s, r') \<and>
      pj_name s = pj_name planned_project \<and>
      content s = undone planned_project (cr_command (sample_request 1 0 (PC_ImportMap sample_map)))"
    by (rule undo_restores [OF planned_project_state r]) (simp_all add: sample_defs project_new_def MAX_OPERATIONS_def)
  then show ?thesis by (simp add: sample_request_def)
qed

text \<open>
  Claim C13. A floor to which evidence was bound is frozen: whatever commands follow, the evidence stays
  bound, and the floor, its building, the maps on it, their active calibrations and all their
  calibration revisions stay exactly as they are.
\<close>

theorem bound_floor_frozen:
  assumes "project_state F p" "bm_get (pj_bound_evidence p) floor \<noteq> None" "(project_step F)\<^sup>*\<^sup>* p q"
  shows "floor_view q floor = floor_view p floor"
proof -
  from assms(3) have "project_state F q \<and> floor_view q floor = floor_view p floor"
  proof induction
    case base
    then show ?case using assms(1) by simp
  next
    case (step y z)
    then have y: "project_state F y" "floor_view y floor = floor_view p floor" by auto
    then have "bm_get (pj_bound_evidence y) floor \<noteq> None" using assms(2) by (simp add: floor_view_def)
    moreover have "project_wf y" "refs_ok F y" using project_state_ok [OF y(1)] by (simp_all add: project_ok_def)
    ultimately have "floor_view z floor = floor_view y floor" using step(2) by (intro step_floor_view)
    then show ?case using y project_state.stepped [OF y(1) step(2)] by simp
  qed
  then show ?thesis by simp
qed

theorem bound_floor_frozen_witness: "floor_view named_project [4] = floor_view bound_project [4]"
proof (rule bound_floor_frozen)
  obtain r where "execute int_ops planned_project (sample_request 1 0 (PC_BindFloorEvidence [4] sample_artifact)) = Inr (bound_project, r)"
    using sample_executions(2) by blast
  then show "project_state int_ops bound_project"
    by (rule project_state.stepped [OF planned_project_state project_step.executed])
  obtain r where "execute int_ops bound_project (sample_request 2 1 (PC_SetProjectName [119])) = Inr (named_project, r)"
    using sample_executions(3) by blast
  then show "(project_step int_ops)\<^sup>*\<^sup>* bound_project named_project"
    by (intro r_into_rtranclp project_step.executed)
qed (simp add: sample_defs)

end
