(* ===== verification/Materialization_Identity.thy ===== *)
theory Materialization_Identity
  imports Operation_Graph Domain_Project
begin

text \<open>
  The identities of materialization inputs (\<open>crates/materialization-identity/src/lib.rs\<close>): a project
  baseline and an operation set each have canonical bytes, a magic number, a version, a header and the
  JSON of the project or of every operation, and a content hash of those bytes.

  \<open>serde_json\<close> on projects is third-party code, as on operations: \<open>project_writes\<close> are the buffers its
  serializer hands to a writer, with a flag telling whether it then finished, and \<open>project_parse\<close> is
  its deserializer before the conversion \<open>try_from\<close>, which validates the aggregate. SHA-256 is the one
  of the \<open>wire_format\<close>.
\<close>

record 'f project_format =
  project_writes :: "'f project \<Rightarrow> octets list \<times> bool"
  project_parse :: "octets \<Rightarrow> 'f project option"

section \<open>Constants and errors\<close>

definition ascii :: "string \<Rightarrow> octets" where
  "ascii s = map of_char s"

definition BASELINE_MAGIC :: octets where
  "BASELINE_MAGIC = ascii ''KYBERIA'' @ [0] @ ascii ''PROJECT-BASELINE'' @ [0]"
definition OPERATION_SET_MAGIC :: octets where
  "OPERATION_SET_MAGIC = ascii ''KYBERIA'' @ [0] @ ascii ''OPERATION-SET'' @ [0]"
definition BASELINE_DOMAIN :: octets where
  "BASELINE_DOMAIN = ascii ''kyberia:materialization:project-baseline:v1'' @ [0]"
definition OPERATION_SET_DOMAIN :: octets where
  "OPERATION_SET_DOMAIN = ascii ''kyberia:materialization:operation-set:v1'' @ [0]"
definition IDENTITY_VERSION :: u8 where "IDENTITY_VERSION = 1"
definition MAX_IDENTITY_BYTES :: nat where "MAX_IDENTITY_BYTES = 64 * 1024 * 1024"
definition BASELINE_HEADER_BYTES :: nat where
  "BASELINE_HEADER_BYTES = length BASELINE_MAGIC + 1 + 16 + 8 + 8 + 8"
definition MAX_PROJECT_BYTES :: nat where
  "MAX_PROJECT_BYTES = MAX_IDENTITY_BYTES - BASELINE_HEADER_BYTES"
definition OPERATION_SET_HEADER_BYTES :: nat where
  "OPERATION_SET_HEADER_BYTES = length OPERATION_SET_MAGIC + 1 + 16 + 8"
definition OPERATION_ENTRY_HEADER_BYTES :: nat where
  "OPERATION_ENTRY_HEADER_BYTES = 16 + 32 + 8"

datatype identity_error =
  IE_Project project_error
| IE_Operation operation_error
| IE_MalformedEncoding
| IE_NonCanonicalEncoding
| IE_HashMismatch
| IE_WrongProject
| IE_ResourceLimit string
| IE_Cancelled

fun identity_budget_error :: "resource_budget_error \<Rightarrow> identity_error" where
  "identity_budget_error Cancelled = IE_Cancelled"
| "identity_budget_error (LimitExceeded limit) = IE_ResourceLimit (budget_label (rle_kind limit))"

record baseline_identity =
  bi_project_id :: project_id
  bi_revision :: u64
  bi_logical_time :: u64
  bi_project_bytes :: octets
  bi_canonical :: octets
  bi_content_hash :: content_hash

record operation_set_identity =
  si_project_id :: project_id
  si_operation_count :: nat
  si_canonical :: octets
  si_content_hash :: content_hash

record materialization_identity =
  mi_project_id :: project_id
  mi_baseline :: content_hash
  mi_baseline_revision :: u64
  mi_baseline_logical_time :: u64
  mi_operation_set :: content_hash
  mi_operation_count :: nat

text \<open>The octets of these texts, for evaluation.\<close>

lemma magic_octets [code]:
  "BASELINE_MAGIC =
     [75, 89, 66, 69, 82, 73, 65, 0, 80, 82, 79, 74, 69, 67, 84, 45, 66, 65, 83, 69, 76, 73, 78, 69, 0]"
  "OPERATION_SET_MAGIC =
     [75, 89, 66, 69, 82, 73, 65, 0, 79, 80, 69, 82, 65, 84, 73, 79, 78, 45, 83, 69, 84, 0]"
  "BASELINE_DOMAIN =
     [107, 121, 98, 101, 114, 105, 97, 58, 109, 97, 116, 101, 114, 105, 97, 108, 105, 122, 97, 116, 105,
      111, 110, 58, 112, 114, 111, 106, 101, 99, 116, 45, 98, 97, 115, 101, 108, 105, 110, 101, 58, 118,
      49, 0]"
  "OPERATION_SET_DOMAIN =
     [107, 121, 98, 101, 114, 105, 97, 58, 109, 97, 116, 101, 114, 105, 97, 108, 105, 122, 97, 116, 105,
      111, 110, 58, 111, 112, 101, 114, 97, 116, 105, 111, 110, 45, 115, 101, 116, 58, 118, 49, 0]"
  by (simp_all add: BASELINE_MAGIC_def OPERATION_SET_MAGIC_def BASELINE_DOMAIN_def OPERATION_SET_DOMAIN_def ascii_def)

section \<open>Bytes\<close>

definition to_be_bytes :: "u64 \<Rightarrow> octets" where
  "to_be_bytes v = rev (to_le_bytes 8 v)"

definition from_be_bytes :: "octets \<Rightarrow> u64" where
  "from_be_bytes bytes = from_le_bytes (rev bytes)"

text \<open>\<open>u64::try_from(usize)\<close>\<close>

definition u64_try_from :: "nat \<Rightarrow> u64 option" where
  "u64_try_from n = (if n < 2 ^ 64 then Some (of_nat n) else None)"

definition usize_from_u64 :: "u64 \<Rightarrow> string \<Rightarrow> identity_error + nat" where
  "usize_from_u64 v lbl = (if unat v \<le> usize_MAX then Inr (unat v) else Inl (IE_ResourceLimit lbl))"

definition checked_len :: "nat \<Rightarrow> nat \<Rightarrow> identity_error + nat" where
  "checked_len v remaining = (if v > remaining then Inl IE_MalformedEncoding else Inr v)"

definition identity_digest :: "'t wire_format \<Rightarrow> octets \<Rightarrow> octets \<Rightarrow> content_hash" where
  "identity_digest fmt domain bytes = sha256 fmt (domain @ bytes)"

section \<open>Writers\<close>

record bounded_writer =
  bw_bytes :: octets
  bw_limit :: nat
  bw_limit_exceeded :: bool

definition bounded_writer_new :: "nat \<Rightarrow> bounded_writer" where
  "bounded_writer_new limit = \<lparr>bw_bytes = [], bw_limit = limit, bw_limit_exceeded = False\<rparr>"

definition bounded_write :: "octets \<Rightarrow> (bounded_writer, io_error, nat) rsm" where
  "bounded_write bytes w =
     (case checked_add (length (bw_bytes w)) (length bytes) of
        None \<Rightarrow> (Inl (IoOther ''bounded identity writer overflow''), w\<lparr>bw_limit_exceeded := True\<rparr>)
      | Some stop \<Rightarrow>
          if stop > bw_limit w
          then (Inl (IoOther ''bounded identity writer limit''), w\<lparr>bw_limit_exceeded := True\<rparr>)
          else (Inr (length bytes), w\<lparr>bw_bytes := bw_bytes w @ bytes\<rparr>))"

record budgeted_writer =
  gw_writer :: bounded_writer
  gw_budget :: resource_budget
  gw_budget_error :: "resource_budget_error option"

definition budgeted_write :: "octets \<Rightarrow> (budgeted_writer, io_error, nat) rsm" where
  "budgeted_write bytes g =
     (case charge WorkingSetBytes (length bytes) (gw_budget g) of
        (Inl e, b) \<Rightarrow> (Inl (IoOther ''shared identity budget exhausted''),
                         g\<lparr>gw_budget := b, gw_budget_error := Some e\<rparr>)
      | (Inr _, b) \<Rightarrow>
          (case bounded_write bytes (gw_writer g) of
             (r, w) \<Rightarrow> (r, g\<lparr>gw_budget := b, gw_writer := w\<rparr>)))"

text \<open>\<open>serde_json::to_writer\<close> calls \<open>write_all\<close>, which calls \<open>write\<close> once per non-empty buffer.\<close>

fun write_each :: "(octets \<Rightarrow> ('w, io_error, nat) rsm) \<Rightarrow> octets list \<Rightarrow> ('w, io_error, unit) rsm" where
  "write_each write [] = ret ()"
| "write_each write (b # bs) =
     (if b = [] then write_each write bs else bindR (write b) (\<lambda>_. write_each write bs))"

definition canonical_project_bytes_with_limit ::
    "'f project_format \<Rightarrow> 'f project \<Rightarrow> nat \<Rightarrow> identity_error + octets" where
  "canonical_project_bytes_with_limit pf p limit =
     (let (buffers, finished) = project_writes pf p
      in case write_each bounded_write buffers (bounded_writer_new limit) of
           (r, w) \<Rightarrow>
             if isl r \<or> \<not> finished then
               Inl (if bw_limit_exceeded w then IE_ResourceLimit ''project_baseline_bytes''
                    else IE_NonCanonicalEncoding)
             else Inr (bw_bytes w))"

definition canonical_project_bytes :: "'f project_format \<Rightarrow> 'f project \<Rightarrow> identity_error + octets" where
  "canonical_project_bytes pf p = canonical_project_bytes_with_limit pf p MAX_PROJECT_BYTES"

definition canonical_project_bytes_with_budget ::
    "'f project_format \<Rightarrow> 'f project \<Rightarrow> (resource_budget, identity_error, octets) rsm" where
  "canonical_project_bytes_with_budget pf p b =
     (let (buffers, finished) = project_writes pf p
      in case write_each budgeted_write buffers
                \<lparr>gw_writer = bounded_writer_new MAX_PROJECT_BYTES, gw_budget = b, gw_budget_error = None\<rparr> of
           (r, g) \<Rightarrow>
             (if isl r \<or> \<not> finished then
                (case gw_budget_error g of
                   Some e \<Rightarrow> Inl (identity_budget_error e)
                 | None \<Rightarrow>
                     Inl (if bw_limit_exceeded (gw_writer g) then IE_ResourceLimit ''project_baseline_bytes''
                          else IE_NonCanonicalEncoding))
              else Inr (bw_bytes (gw_writer g)),
              gw_budget g))"

section \<open>The baseline\<close>

definition encode_baseline :: "project_id \<Rightarrow> u64 \<Rightarrow> u64 \<Rightarrow> octets \<Rightarrow> identity_error + octets" where
  "encode_baseline project revision time project_bytes =
     bindE (some_or (u64_try_from (length project_bytes)) (IE_ResourceLimit ''project_baseline_bytes'')) (\<lambda>len.
     let bytes = BASELINE_MAGIC @ [IDENTITY_VERSION] @ project @ to_be_bytes revision @ to_be_bytes time @
                 to_be_bytes len @ project_bytes
     in if length bytes > MAX_IDENTITY_BYTES then Inl (IE_ResourceLimit ''baseline_identity_bytes'')
        else Inr bytes)"

definition baseline_size :: "octets \<Rightarrow> identity_error + nat" where
  "baseline_size project_bytes =
     bindE (some_or (checked_add BASELINE_HEADER_BYTES (length project_bytes))
              (IE_ResourceLimit ''baseline_identity_bytes'')) (\<lambda>sz.
     if sz > MAX_IDENTITY_BYTES then Inl (IE_ResourceLimit ''baseline_identity_bytes'') else Inr sz)"

definition baseline_from_parts ::
    "'t wire_format \<Rightarrow> project_id \<Rightarrow> u64 \<Rightarrow> u64 \<Rightarrow> octets \<Rightarrow> identity_error + baseline_identity" where
  "baseline_from_parts fmt project revision time project_bytes =
     bindE (baseline_size project_bytes) (\<lambda>_.
     bindE (encode_baseline project revision time project_bytes) (\<lambda>canon.
     Inr \<lparr>bi_project_id = project, bi_revision = revision, bi_logical_time = time,
          bi_project_bytes = project_bytes, bi_canonical = canon,
          bi_content_hash = identity_digest fmt BASELINE_DOMAIN canon\<rparr>))"

definition lift_result :: "'e + 'a \<Rightarrow> ('s, 'e, 'a) rsm" where
  "lift_result r = (case r of Inl e \<Rightarrow> fail e | Inr x \<Rightarrow> ret x)"

definition id_charge :: "budget_kind \<Rightarrow> nat \<Rightarrow> (resource_budget, identity_error, unit) rsm" where
  "id_charge kind amount = map_err identity_budget_error (charge kind amount)"

definition id_check_cancelled :: "(resource_budget, identity_error, unit) rsm" where
  "id_check_cancelled = map_err identity_budget_error check_cancelled"

definition baseline_from_parts_with_budget ::
    "'t wire_format \<Rightarrow> project_id \<Rightarrow> u64 \<Rightarrow> u64 \<Rightarrow> octets
       \<Rightarrow> (resource_budget, identity_error, baseline_identity) rsm" where
  "baseline_from_parts_with_budget fmt project revision time project_bytes =
     bindR (lift_result (baseline_size project_bytes)) (\<lambda>sz.
     bindR (id_charge WorkingSetBytes sz) (\<lambda>_.
     lift_result (baseline_from_parts fmt project revision time project_bytes)))"

definition baseline_from_project ::
    "'t wire_format \<Rightarrow> 'f project_format \<Rightarrow> 'f project \<Rightarrow> identity_error + baseline_identity" where
  "baseline_from_project fmt pf p =
     bindE (canonical_project_bytes pf p) (\<lambda>bytes.
     baseline_from_parts fmt (pj_id p) (pj_revision p) (pj_logical_time p) bytes)"

definition baseline_from_project_with_budget ::
    "'t wire_format \<Rightarrow> 'f project_format \<Rightarrow> 'f project
       \<Rightarrow> (resource_budget, identity_error, baseline_identity) rsm" where
  "baseline_from_project_with_budget fmt pf p =
     bindR (canonical_project_bytes_with_budget pf p) (\<lambda>bytes.
     baseline_from_parts_with_budget fmt (pj_id p) (pj_revision p) (pj_logical_time p) bytes)"

section \<open>The reader\<close>

record reader =
  rd_bytes :: octets
  rd_offset :: nat

text \<open>An offset is at most the length of the slice, so the additions of \<open>expect\<close> do not overflow.\<close>

definition rd_expect :: "octets \<Rightarrow> (reader, identity_error, unit) rsm" where
  "rd_expect expected r =
     (if slice_get (rd_bytes r) (rd_offset r) (rd_offset r + length expected) \<noteq> Some expected
      then (Inl IE_MalformedEncoding, r)
      else (Inr (), r\<lparr>rd_offset := rd_offset r + length expected\<rparr>))"

definition rd_take :: "nat \<Rightarrow> (reader, identity_error, octets) rsm" where
  "rd_take n r =
     (case checked_add (rd_offset r) n of
        None \<Rightarrow> (Inl IE_MalformedEncoding, r)
      | Some stop \<Rightarrow>
          (case slice_get (rd_bytes r) (rd_offset r) stop of
             None \<Rightarrow> (Inl IE_MalformedEncoding, r)
           | Some bytes \<Rightarrow> (Inr bytes, r\<lparr>rd_offset := stop\<rparr>)))"

definition rd_expect_byte :: "u8 \<Rightarrow> (reader, identity_error, unit) rsm" where
  "rd_expect_byte expected =
     bindR (rd_take 1) (\<lambda>bytes. guardR (bytes ! 0 = expected) IE_MalformedEncoding)"

definition rd_array :: "nat \<Rightarrow> (reader, identity_error, octets) rsm" where
  "rd_array n = bindR (rd_take n) (\<lambda>bytes. if length bytes = n then ret bytes else fail IE_MalformedEncoding)"

definition rd_u64 :: "(reader, identity_error, u64) rsm" where
  "rd_u64 = bindR (rd_take 8) (\<lambda>bytes. if length bytes = 8 then ret (from_be_bytes bytes) else fail IE_MalformedEncoding)"

definition rd_remaining :: "(reader, identity_error, nat) rsm" where
  "rd_remaining r = (Inr (length (rd_bytes r) - rd_offset r), r)"

definition rd_finish :: "(reader, identity_error, unit) rsm" where
  "rd_finish r =
     (if rd_offset r = length (rd_bytes r) then (Inr (), r) else (Inl IE_NonCanonicalEncoding, r))"

definition rd_id :: "(reader, identity_error, octets) rsm" where
  "rd_id = bindR (rd_array 16) (\<lambda>bytes.
     case id_from_bytes bytes of Inl _ \<Rightarrow> fail IE_MalformedEncoding | Inr i \<Rightarrow> ret i)"

definition read_baseline :: "(reader, identity_error, project_id \<times> u64 \<times> u64 \<times> octets) rsm" where
  "read_baseline =
     bindR (rd_expect BASELINE_MAGIC) (\<lambda>_.
     bindR (rd_expect_byte IDENTITY_VERSION) (\<lambda>_.
     bindR rd_id (\<lambda>project.
     bindR rd_u64 (\<lambda>revision.
     bindR rd_u64 (\<lambda>time.
     bindR rd_u64 (\<lambda>encoded_len.
     bindR (lift_result (usize_from_u64 encoded_len ''identity_bytes'')) (\<lambda>project_len.
     bindR (guardR (\<not> project_len > MAX_PROJECT_BYTES) (IE_ResourceLimit ''project_baseline_bytes'')) (\<lambda>_.
     bindR rd_remaining (\<lambda>remaining.
     bindR (lift_result (checked_len project_len remaining)) (\<lambda>project_len.
     bindR (rd_take project_len) (\<lambda>project_bytes.
     bindR rd_finish (\<lambda>_.
     ret (project, revision, time, project_bytes)))))))))))))"

definition baseline_from_canonical_bytes ::
    "'f f64_ops \<Rightarrow> 't wire_format \<Rightarrow> 'f project_format \<Rightarrow> octets \<Rightarrow> identity_error + baseline_identity" where
  "baseline_from_canonical_bytes F fmt pf bytes =
     (if length bytes > MAX_IDENTITY_BYTES then Inl (IE_ResourceLimit ''baseline_identity_bytes'')
      else
        bindE (fst (read_baseline \<lparr>rd_bytes = bytes, rd_offset = 0\<rparr>)) (\<lambda>(project_id, revision, time, project_bytes).
        bindE (case project_parse pf project_bytes of
                 None \<Rightarrow> Inl (IE_Project PE_InvalidReceipt)
               | Some w \<Rightarrow> (case project_try_from F w of
                     Inl _ \<Rightarrow> Inl (IE_Project PE_InvalidReceipt) | Inr p \<Rightarrow> Inr p)) (\<lambda>p.
        bindE (canonical_project_bytes pf p) (\<lambda>again.
        if again \<noteq> project_bytes \<or> pj_id p \<noteq> project_id \<or> pj_revision p \<noteq> revision \<or> pj_logical_time p \<noteq> time
        then Inl IE_NonCanonicalEncoding
        else
          bindE (baseline_from_parts fmt project_id revision time project_bytes) (\<lambda>identity.
          if bi_canonical identity \<noteq> bytes then Inl IE_NonCanonicalEncoding else Inr identity)))))"

section \<open>The operation set\<close>

type_synonym identity_entry = "operation_id \<times> content_hash \<times> octets"

fun encode_entries :: "identity_entry list \<Rightarrow> identity_error + octets" where
  "encode_entries [] = Inr []"
| "encode_entries ((oid, hash, bytes) # rest) =
     bindE (some_or (u64_try_from (length bytes)) (IE_ResourceLimit ''operation_wire_bytes'')) (\<lambda>len.
     bindE (encode_entries rest) (\<lambda>more.
     Inr (oid @ hash @ to_be_bytes len @ bytes @ more)))"

definition encode_operation_set :: "project_id \<Rightarrow> identity_entry list \<Rightarrow> identity_error + octets" where
  "encode_operation_set project entries =
     bindE (some_or (u64_try_from (length entries)) (IE_ResourceLimit ''operation_set_operations'')) (\<lambda>count.
     bindE (encode_entries entries) (\<lambda>body.
     let bytes = OPERATION_SET_MAGIC @ [IDENTITY_VERSION] @ project @ to_be_bytes count @ body
     in if length bytes > MAX_IDENTITY_BYTES then Inl (IE_ResourceLimit ''operation_set_identity_bytes'')
        else Inr bytes))"

fun identity_entries ::
    "'t wire_format \<Rightarrow> 't operation list \<Rightarrow> nat \<Rightarrow> identity_entry list \<Rightarrow> identity_error + identity_entry list" where
  "identity_entries fmt [] sz entries = Inr entries"
| "identity_entries fmt (op # rest) sz entries =
     bindE (map_sum IE_Operation id (to_bytes fmt op)) (\<lambda>bytes.
     bindE (some_or (case checked_add sz OPERATION_ENTRY_HEADER_BYTES of
                       None \<Rightarrow> None | Some s \<Rightarrow> checked_add s (length bytes))
              (IE_ResourceLimit ''operation_set_identity_bytes'')) (\<lambda>sz'.
     if sz' > MAX_IDENTITY_BYTES then Inl (IE_ResourceLimit ''operation_set_identity_bytes'')
     else identity_entries fmt rest sz' (entries @ [(operation_id op, content_hash op, bytes)])))"

definition identity_of_operation_set ::
    "'t wire_format \<Rightarrow> 't operation_set \<Rightarrow> identity_error + operation_set_identity" where
  "identity_of_operation_set fmt s =
     bindE (identity_entries fmt (bm_values (set_operations s)) OPERATION_SET_HEADER_BYTES []) (\<lambda>entries.
     if length entries > MAX_OPERATION_COUNT then Inl (IE_ResourceLimit ''operation_set_operations'')
     else
       bindE (encode_operation_set (set_project_id s) entries) (\<lambda>canon.
       Inr \<lparr>si_project_id = set_project_id s, si_operation_count = length entries, si_canonical = canon,
            si_content_hash = identity_digest fmt OPERATION_SET_DOMAIN canon\<rparr>))"

text \<open>The loop of the size preflight, which returns the number of operations and of their octets.\<close>

fun preflight_operations ::
    "'t wire_format \<Rightarrow> 't operation list \<Rightarrow> nat \<Rightarrow> nat \<Rightarrow> (resource_budget, identity_error, nat \<times> nat) rsm" where
  "preflight_operations fmt [] wire count = ret (wire, count)"
| "preflight_operations fmt (op # rest) wire count =
     bindR (ok_or (checked_add count 1) (IE_ResourceLimit ''operation_set_operations'')) (\<lambda>count'.
     bindR (guardR (\<not> count' > MAX_OPERATION_COUNT) (IE_ResourceLimit ''operation_set_operations'')) (\<lambda>_.
     bindR id_check_cancelled (\<lambda>_.
     bindR (id_charge WorkingSetBytes OPERATION_ENTRY_HEADER_BYTES) (\<lambda>_.
     bindR (lift_result (map_sum IE_Operation id (wire_bytes_len fmt op))) (\<lambda>wire_bytes.
     bindR (ok_or (checked_add wire wire_bytes) (IE_ResourceLimit ''operation_set_identity_bytes'')) (\<lambda>wire'.
     bindR (id_charge WorkingSetBytes wire_bytes) (\<lambda>_.
     preflight_operations fmt rest wire' count')))))))"

definition identity_of_operation_set_with_budget ::
    "'t wire_format \<Rightarrow> 't operation_set \<Rightarrow> (resource_budget, identity_error, operation_set_identity) rsm" where
  "identity_of_operation_set_with_budget fmt s =
     bindR id_check_cancelled (\<lambda>_.
     bindR (id_charge WorkingSetBytes OPERATION_SET_HEADER_BYTES) (\<lambda>_.
     bindR (preflight_operations fmt (bm_values (set_operations s)) 0 0) (\<lambda>(wire, count).
     bindR (ok_or (checked_mul count OPERATION_ENTRY_HEADER_BYTES)
              (IE_ResourceLimit ''operation_set_identity_bytes'')) (\<lambda>headers.
     bindR (ok_or (case checked_add OPERATION_SET_HEADER_BYTES headers of
                     None \<Rightarrow> None | Some s \<Rightarrow> checked_add s wire)
              (IE_ResourceLimit ''operation_set_identity_bytes'')) (\<lambda>canonical_bytes.
     bindR (guardR (\<not> canonical_bytes > MAX_IDENTITY_BYTES)
              (IE_ResourceLimit ''operation_set_identity_bytes'')) (\<lambda>_.
     bindR (id_charge WorkingSetBytes wire) (\<lambda>_.
     bindR id_check_cancelled (\<lambda>_.
     lift_result (identity_of_operation_set fmt s)))))))))"

fun read_operations ::
    "'t wire_format \<Rightarrow> project_id \<Rightarrow> nat \<Rightarrow> operation_id option \<Rightarrow> 't operation list
       \<Rightarrow> (reader, identity_error, 't operation list) rsm" where
  "read_operations fmt project 0 previous acc = ret acc"
| "read_operations fmt project (Suc n) previous acc =
     bindR rd_id (\<lambda>oid.
     bindR (guardR (\<not> (case previous of None \<Rightarrow> False | Some prev \<Rightarrow> oid \<le> prev)) IE_NonCanonicalEncoding) (\<lambda>_.
     bindR (rd_array 32) (\<lambda>hash.
     bindR rd_u64 (\<lambda>encoded_len.
     bindR (lift_result (usize_from_u64 encoded_len ''operation_wire_bytes'')) (\<lambda>operation_len.
     bindR (guardR (\<not> operation_len > MAX_OPERATION_WIRE_BYTES) (IE_ResourceLimit ''operation_wire_bytes'')) (\<lambda>_.
     bindR (rd_take operation_len) (\<lambda>operation_bytes.
     bindR (lift_result (map_sum IE_Operation id (from_bytes fmt operation_bytes))) (\<lambda>op.
     bindR (guardR (op_project_id op = project) IE_WrongProject) (\<lambda>_.
     bindR (guardR (operation_id op = oid) IE_NonCanonicalEncoding) (\<lambda>_.
     bindR (guardR (content_hash op = hash) IE_HashMismatch) (\<lambda>_.
     read_operations fmt project n (Some oid) (acc @ [op]))))))))))))"

definition read_operation_set :: "'t wire_format \<Rightarrow> (reader, identity_error, project_id \<times> 't operation list) rsm" where
  "read_operation_set fmt =
     bindR (rd_expect OPERATION_SET_MAGIC) (\<lambda>_.
     bindR (rd_expect_byte IDENTITY_VERSION) (\<lambda>_.
     bindR rd_id (\<lambda>project.
     bindR rd_u64 (\<lambda>encoded_count.
     bindR (lift_result (usize_from_u64 encoded_count ''operation_set_operations'')) (\<lambda>count.
     bindR (guardR (\<not> count > MAX_OPERATION_COUNT) (IE_ResourceLimit ''operation_set_operations'')) (\<lambda>_.
     bindR (read_operations fmt project count None []) (\<lambda>operations.
     bindR rd_finish (\<lambda>_. ret (project, operations)))))))))"

definition operation_set_identity_from_canonical_bytes ::
    "'t wire_format \<Rightarrow> octets \<Rightarrow> identity_error + operation_set_identity" where
  "operation_set_identity_from_canonical_bytes fmt bytes =
     (if length bytes > MAX_IDENTITY_BYTES then Inl (IE_ResourceLimit ''operation_set_identity_bytes'')
      else
        bindE (fst (read_operation_set fmt \<lparr>rd_bytes = bytes, rd_offset = 0\<rparr>)) (\<lambda>(project, operations).
        bindE (if operations = [] then Inr (operation_set_empty project)
               else map_sum IE_Operation id (from_operations operations)) (\<lambda>s.
        bindE (identity_of_operation_set fmt s) (\<lambda>identity.
        if si_canonical identity \<noteq> bytes then Inl IE_NonCanonicalEncoding else Inr identity))))"

section \<open>The pair\<close>

definition identity_bind ::
    "baseline_identity \<Rightarrow> operation_set_identity \<Rightarrow> identity_error + materialization_identity" where
  "identity_bind b s =
     (if bi_project_id b \<noteq> si_project_id s then Inl IE_WrongProject
      else Inr \<lparr>mi_project_id = bi_project_id b, mi_baseline = bi_content_hash b,
                mi_baseline_revision = bi_revision b, mi_baseline_logical_time = bi_logical_time b,
                mi_operation_set = si_content_hash s, mi_operation_count = si_operation_count s\<rparr>)"

end
