(* ===== verification/Causal_Materializer.thy ===== *)
theory Causal_Materializer
  imports Materialization_Identity Operation_Replay Domain_Project_States
begin

text \<open>
  The causal materializer (\<open>crates/causal-materializer/src/lib.rs\<close>): it applies a validated operation
  set to a project. Every inverse prior is checked against the state that the causal ancestors of the
  operation form, evidence bindings are checked against concurrent changes of the same floor, and the
  effects of the replay are then applied to the baseline in their deterministic order.

  Programs run on the caller's budget and on the usage of this materialization. A stack has its top at
  the head of the list; a \<open>BTreeSet\<close> that is only filled and queried is the list of its elements.
\<close>

section \<open>Effects\<close>

type_synonym 'f transform = "'f two_point_calibration"

datatype 't local_effect_value =
  LE_Mutation "'t mutation"
| LE_Calibration map_asset_id "calibration_id evidence"

record 't local_effect =
  le_operation_id :: operation_id
  le_value :: "'t local_effect_value"

fun semantically_equal :: "'t local_effect_value \<Rightarrow> 't local_effect_value \<Rightarrow> bool" where
  "semantically_equal (LE_Mutation l) (LE_Mutation r) \<longleftrightarrow> l = r"
| "semantically_equal (LE_Calibration lm (Known lc)) (LE_Mutation (ActivateCalibration rm rc)) \<longleftrightarrow>
     lm = rm \<and> lc = rc"
| "semantically_equal (LE_Mutation (ActivateCalibration lm lc)) (LE_Calibration rm (Known rc)) \<longleftrightarrow>
     lm = rm \<and> lc = rc"
| "semantically_equal (LE_Calibration lm lc) (LE_Calibration rm rc) \<longleftrightarrow> lm = rm \<and> lc = rc"
| "semantically_equal _ _ = False"

definition MAX_MATERIALIZATION_OPERATIONS :: nat where "MAX_MATERIALIZATION_OPERATIONS = 8192"
definition MAX_CAUSAL_WITNESS_WORK :: nat where "MAX_CAUSAL_WITNESS_WORK = 2000000"
definition MAX_AGGREGATE_CONFLICT_CHECKS :: nat where "MAX_AGGREGATE_CONFLICT_CHECKS = 1000000"
definition MAX_CAUSAL_COPY_BYTES :: nat where "MAX_CAUSAL_COPY_BYTES = 256 * 1024 * 1024"
definition MAX_ESTIMATED_PROJECT_BYTES :: nat where "MAX_ESTIMATED_PROJECT_BYTES = 64 * 1024 * 1024"

datatype 't materialization_error =
  MZ_Identity identity_error
| MZ_Merge "'t merge_error"
| MZ_Domain project_error
| MZ_WrongProject
| MZ_BaselineLogicalTimeConflict operation_id u64 u64
| MZ_BaselineOperationCollision operation_id
| MZ_CausalPriorMismatch operation_id field_key
| MZ_AmbiguousCausalState operation_id field_key
| MZ_AggregateConflict floor_id operation_id operation_id
| MZ_UnsupportedOperation operation_id string
| MZ_ResourceLimit string
| MZ_Cancelled

record 'f materialized_project =
  mz_project :: "'f project"
  mz_identity :: materialization_identity

fun materialization_budget_error :: "resource_budget_error \<Rightarrow> 't materialization_error" where
  "materialization_budget_error Cancelled = MZ_Cancelled"
| "materialization_budget_error (LimitExceeded limit) =
     MZ_ResourceLimit (case rle_kind limit of
         ProjectCopyBytes \<Rightarrow> ''causal_copy_bytes''
       | CausalWitnessWork \<Rightarrow> ''causal_witness_work''
       | AggregateConflictChecks \<Rightarrow> ''aggregate_conflict_work''
       | kind \<Rightarrow> budget_label kind)"

fun materialization_identity_error :: "identity_error \<Rightarrow> 't materialization_error" where
  "materialization_identity_error IE_Cancelled = MZ_Cancelled"
| "materialization_identity_error (IE_Operation e) =
     (if e = OE_Cancelled then MZ_Cancelled else MZ_Identity (IE_Operation e))"
| "materialization_identity_error (IE_ResourceLimit lbl) =
     (if lbl = ''working_set_bytes'' then MZ_ResourceLimit ''working_set_bytes''
      else MZ_Identity (IE_ResourceLimit lbl))"
| "materialization_identity_error other = MZ_Identity other"

fun materialization_merge_error :: "'t merge_error \<Rightarrow> 't materialization_error" where
  "materialization_merge_error ME_Cancelled = MZ_Cancelled"
| "materialization_merge_error (ME_Operation e) =
     (if e = OE_Cancelled then MZ_Cancelled else MZ_Merge (ME_Operation e))"
| "materialization_merge_error (ME_ResourceLimit lbl) = MZ_ResourceLimit lbl"
| "materialization_merge_error other = MZ_Merge other"

definition default_materialization_budget :: resource_budget where
  "default_materialization_budget =
     resource_budget_new (resource_limits_new (saturating_mul MAX_ANCESTRY_WORK 3) MAX_CAUSAL_WITNESS_WORK
       MAX_AGGREGATE_CONFLICT_CHECKS usize_MAX MAX_CAUSAL_COPY_BYTES MAX_ESTIMATED_PROJECT_BYTES)"

type_synonym ('t, 'a) mz = "(resource_budget \<times> resource_usage, 't materialization_error, 'a) rsm"

definition mz_check_cancelled :: "('t, unit) mz" where
  "mz_check_cancelled = map_err materialization_budget_error (on_fst check_cancelled)"

definition mz_charge :: "budget_kind \<Rightarrow> nat \<Rightarrow> ('t, unit) mz" where
  "mz_charge kind amount = map_err materialization_budget_error (on_fst (charge kind amount))"

definition mz_charge_with_limit :: "budget_kind \<Rightarrow> nat \<Rightarrow> nat \<Rightarrow> ('t, unit) mz" where
  "mz_charge_with_limit kind amount limit =
     map_err materialization_budget_error (charge_with_limit kind amount limit)"

text \<open>The two charges that most of the source makes.\<close>

definition mz_working :: "nat \<Rightarrow> ('t, unit) mz" where
  "mz_working amount = mz_charge_with_limit WorkingSetBytes amount MAX_ESTIMATED_PROJECT_BYTES"

definition mz_witness_step :: "('t, unit) mz" where
  "mz_witness_step = mz_charge_with_limit CausalWitnessWork 1 MAX_CAUSAL_WITNESS_WORK"

section \<open>The copy budget\<close>

record copy_budget =
  baseline_project_bytes :: nat

definition copy_budget_new :: "nat \<Rightarrow> 't materialization_error + copy_budget" where
  "copy_budget_new n =
     (if n > MAX_ESTIMATED_PROJECT_BYTES then Inl (MZ_ResourceLimit ''causal_project_bytes'')
      else Inr \<lparr>baseline_project_bytes = n\<rparr>)"

definition charge_clone :: "nat \<Rightarrow> ('t, unit) mz" where
  "charge_clone n = mz_charge_with_limit ProjectCopyBytes n MAX_CAUSAL_COPY_BYTES"

definition clone_baseline :: "copy_budget \<Rightarrow> 'f project \<Rightarrow> ('t, 'f project) mz" where
  "clone_baseline cb baseline = bindR (charge_clone (baseline_project_bytes cb)) (\<lambda>_. ret baseline)"

definition before_apply :: "nat \<Rightarrow> 't operation \<Rightarrow> ('t, nat) mz" where
  "before_apply estimated op =
     bindR (ok_or (checked_add estimated (length (canonical op))) (MZ_ResourceLimit ''causal_project_bytes'')) (\<lambda>next'.
     bindR (guardR (\<not> next' > MAX_ESTIMATED_PROJECT_BYTES) (MZ_ResourceLimit ''causal_project_bytes'')) (\<lambda>_.
     bindR (charge_clone estimated) (\<lambda>_. ret next')))"

section \<open>Local effects\<close>

definition direct_mutation_effect_by_id :: "operation_id \<Rightarrow> 't mutation \<Rightarrow> 't local_effect" where
  "direct_mutation_effect_by_id oid m = \<lparr>le_operation_id = oid, le_value = LE_Mutation m\<rparr>"

definition direct_mutation_effect :: "'t operation \<Rightarrow> 't mutation \<Rightarrow> 't local_effect" where
  "direct_mutation_effect op m = \<lparr>le_operation_id = operation_id op, le_value = LE_Mutation m\<rparr>"

fun resolution_local_effect :: "operation_id \<Rightarrow> 't resolution_value \<Rightarrow> 't local_effect" where
  "resolution_local_effect oid (RV_Mutation m) = direct_mutation_effect_by_id oid m"
| "resolution_local_effect oid (RV_Calibration map_id calibration) =
     \<lparr>le_operation_id = oid, le_value = LE_Calibration map_id calibration\<rparr>"

definition inverse_effect :: "'t operation \<Rightarrow> operation_id \<Rightarrow> 't materialization_error + 't local_effect" where
  "inverse_effect op oid =
     (case inverse_of op of
        Inv_Apply m \<Rightarrow> Inr (direct_mutation_effect_by_id oid m)
      | Inv_ApplyV2 prior \<Rightarrow>
          (case prior of
             Prior_MapCalibration map_id calibration \<Rightarrow>
               Inr (resolution_local_effect oid (RV_Calibration map_id calibration))
           | Prior_ProjectName name \<Rightarrow> Inr (direct_mutation_effect_by_id oid (SetProjectName name))
           | Prior_SiteName site name \<Rightarrow> Inr (direct_mutation_effect_by_id oid (SetSiteName site name))
           | _ \<Rightarrow> bindE (map_sum (\<lambda>e. MZ_Merge (ME_Operation e)) id (as_mutation prior)) (\<lambda>m.
                  Inr (direct_mutation_effect_by_id oid m)))
      | Inv_NonReversible reason \<Rightarrow>
          Inl (MZ_UnsupportedOperation oid ''non-reversible operation was used as an inverse'')
      | Inv_Toggle target direction \<Rightarrow>
          Inl (MZ_UnsupportedOperation oid ''toggle metadata cannot be a domain effect''))"

fun local_effect_of :: "'t applied_effect \<Rightarrow> 't local_effect" where
  "local_effect_of (Eff_Mutation applied) =
     \<lparr>le_operation_id = am_operation_id applied, le_value = LE_Mutation (am_mutation applied)\<rparr>"
| "local_effect_of (Eff_Calibration oid map_id calibration) =
     \<lparr>le_operation_id = oid, le_value = LE_Calibration map_id calibration\<rparr>"

definition effect_field :: "'t local_effect \<Rightarrow> field_key" where
  "effect_field eff =
     (case le_value eff of
        LE_Mutation m \<Rightarrow> mutation_field_key m
      | LE_Calibration map_id calibration \<Rightarrow> FK_MapCalibration map_id)"

fun effect_command ::
    "'f transform operation \<Rightarrow> 'f transform local_effect_value
       \<Rightarrow> 'f transform materialization_error + 'f project_command" where
  "effect_command op (LE_Mutation (SetProjectName name)) = Inr (PC_SetProjectName name)"
| "effect_command op (LE_Mutation (SetSiteName site name)) = Inr (PC_SetSiteName site name)"
| "effect_command op (LE_Mutation (ActivateCalibration map_id calibration)) =
     Inr (PC_ActivateCalibration map_id (Known calibration))"
| "effect_command op (LE_Mutation (BindFloorEvidence floor reference)) =
     (if schema_version op = V1
      then Inl (MZ_UnsupportedOperation (operation_id op) ''V1 floor-evidence binding lacks a non-reversible inverse'')
      else Inr (PC_BindFloorEvidence floor
             \<lparr>art_sha256 = ir_hash reference, art_media_type = ir_media_type reference,
              art_byte_length = ir_byte_length reference\<rparr>))"
| "effect_command op (LE_Mutation (ImportMap m)) = Inr (PC_ImportMap m)"
| "effect_command op (LE_Mutation (RemoveMap map_id)) = Inr (PC_RemoveMap map_id)"
| "effect_command op (LE_Mutation (CalibrateMap calibration)) = Inr (PC_CalibrateMap calibration)"
| "effect_command op (LE_Mutation (RemoveCalibration calibration map_id active)) =
     Inr (PC_RemoveCalibration calibration active)"
| "effect_command op (LE_Calibration map_id calibration) = Inr (PC_ActivateCalibration map_id calibration)"

definition apply_local_effect ::
    "'f f64_ops \<Rightarrow> 'f project \<Rightarrow> 'f transform operation \<Rightarrow> 'f transform local_effect
       \<Rightarrow> 'f transform materialization_error + 'f project" where
  "apply_local_effect F p op eff =
     bindE (effect_command op (le_value eff)) (\<lambda>command.
     map_sum MZ_Domain id (apply_materialized F p (le_operation_id eff) (logical_time op) command))"

definition apply_effect ::
    "'f f64_ops \<Rightarrow> 'f project \<Rightarrow> 'f transform operation \<Rightarrow> 'f transform applied_effect
       \<Rightarrow> 'f transform materialization_error + 'f project" where
  "apply_effect F p op applied = apply_local_effect F p op (local_effect_of applied)"

section \<open>Causal replay\<close>

record 't causal_event =
  ce_operation_id :: operation_id
  ce_field :: field_key
  ce_value :: "'t local_effect_value"

record 'f causal_replay =
  cz_project :: "'f project"
  cz_estimated_project_bytes :: nat
  cz_active :: "(operation_id, bool) btree_map"
  cz_events :: "'f transform causal_event list"

definition causal_replay_new :: "'f project \<Rightarrow> nat \<Rightarrow> 'f causal_replay" where
  "causal_replay_new p n =
     \<lparr>cz_project = p, cz_estimated_project_bytes = n, cz_active = [], cz_events = []\<rparr>"

definition replay_apply_effect ::
    "'f f64_ops \<Rightarrow> 'f transform operation \<Rightarrow> 'f transform local_effect \<Rightarrow> 'f causal_replay
       \<Rightarrow> ('f transform, 'f causal_replay) mz" where
  "replay_apply_effect F op eff st =
     bindR (mz_working ESTIMATED_STRUCTURAL_ENTRY_BYTES) (\<lambda>_.
     let event = \<lparr>ce_operation_id = le_operation_id eff, ce_field = effect_field eff, ce_value = le_value eff\<rparr> in
     bindR (before_apply (cz_estimated_project_bytes st) op) (\<lambda>next'.
     bindR (lift_result (apply_local_effect F (cz_project st) op eff)) (\<lambda>p.
     ret (st\<lparr>cz_project := p, cz_estimated_project_bytes := next', cz_events := cz_events st @ [event]\<rparr>))))"

definition replay_apply ::
    "'f f64_ops \<Rightarrow> 'f transform operation_map \<Rightarrow> 'f transform operation \<Rightarrow> 'f causal_replay
       \<Rightarrow> ('f transform, 'f causal_replay) mz" where
  "replay_apply F ops op st =
     (case payload op of
        Apply m \<Rightarrow>
          bindR (mz_working ESTIMATED_STRUCTURAL_ENTRY_BYTES) (\<lambda>_.
          replay_apply_effect F op (direct_mutation_effect op m)
            (st\<lparr>cz_active := bm_insert (operation_id op) True (cz_active st)\<rparr>))
      | Undo target \<Rightarrow>
          if bm_get (cz_active st) (ref_operation_id target) \<noteq> Some True then ret st
          else
            bindR (ok_or (bm_get ops (ref_operation_id target))
                     (MZ_UnsupportedOperation (operation_id op) ''toggle target is absent'')) (\<lambda>target_op.
            bindR (mz_charge WorkingSetBytes (length (canonical target_op))) (\<lambda>_.
            bindR (mz_working ESTIMATED_STRUCTURAL_ENTRY_BYTES) (\<lambda>_.
            bindR (lift_result (inverse_effect target_op (operation_id op))) (\<lambda>eff.
            replay_apply_effect F op eff
              (st\<lparr>cz_active := bm_insert (ref_operation_id target) False (cz_active st)\<rparr>)))))
      | Redo target \<Rightarrow>
          if bm_get (cz_active st) (ref_operation_id target) \<noteq> Some False then ret st
          else
            bindR (ok_or (bm_get ops (ref_operation_id target))
                     (MZ_UnsupportedOperation (operation_id op) ''redo target is absent'')) (\<lambda>target_op.
            bindR (case payload target_op of
                     Apply m \<Rightarrow> ret m
                   | _ \<Rightarrow> fail (MZ_UnsupportedOperation (operation_id op) ''redo target is not an apply'')) (\<lambda>m.
            bindR (mz_charge WorkingSetBytes (length (canonical target_op))) (\<lambda>_.
            bindR (mz_working ESTIMATED_STRUCTURAL_ENTRY_BYTES) (\<lambda>_.
            replay_apply_effect F op (direct_mutation_effect_by_id (operation_id op) m)
              (st\<lparr>cz_active := bm_insert (ref_operation_id target) True (cz_active st)\<rparr>)))))
      | Resolve l r m \<Rightarrow> replay_apply_effect F op (direct_mutation_effect op m) st
      | ResolveV2 l r value \<Rightarrow> replay_apply_effect F op (resolution_local_effect (operation_id op) value) st)"

section \<open>Searches\<close>

function ancestor_loop ::
    "'t operation_map \<Rightarrow> operation_id list \<Rightarrow> operation_id list \<Rightarrow> ('t, operation_id list) mz" where
  "ancestor_loop ops [] result = ret result"
| "ancestor_loop ops (oid # stack) result =
     (if oid \<in> set result then ancestor_loop ops stack result
      else
        bindR mz_witness_step (\<lambda>_.
        bindR (mz_working ESTIMATED_STRUCTURAL_ENTRY_BYTES) (\<lambda>_.
        case bm_get ops oid of
          None \<Rightarrow> fail (MZ_UnsupportedOperation oid ''causal parent is absent'')
        | Some parent \<Rightarrow>
            bindR (mz_working (estimated_structural_bytes (length (parents parent)))) (\<lambda>_.
            ancestor_loop ops (rev (parents parent) @ stack) (oid # result)))))"
  by pat_completeness auto

termination
  by (relation "measures [\<lambda>(ops, stack, result). card (fst ` set ops - set result),
        \<lambda>(ops, stack, result). length stack]") (auto simp: search_progress)

definition ancestor_ids :: "'t operation_map \<Rightarrow> 't operation \<Rightarrow> ('t, operation_id list) mz" where
  "ancestor_ids ops op =
     bindR (mz_working (estimated_structural_bytes (length (parents op)))) (\<lambda>_.
     ancestor_loop ops (rev (parents op)) [])"

fun mz_scan_parents ::
    "operation_id \<Rightarrow> operation_id list \<Rightarrow> operation_id list \<Rightarrow> ('t, operation_id list option) mz" where
  "mz_scan_parents ancestor [] stack = ret (Some stack)"
| "mz_scan_parents ancestor (parent # ps) stack =
     (if parent = ancestor then ret None
      else bindR (mz_working ESTIMATED_STRUCTURAL_ENTRY_BYTES) (\<lambda>_.
           mz_scan_parents ancestor ps (parent # stack)))"

function mz_search ::
    "'t operation_map \<Rightarrow> operation_id \<Rightarrow> operation_id list \<Rightarrow> operation_id list \<Rightarrow> ('t, bool) mz" where
  "mz_search ops ancestor [] visited = ret False"
| "mz_search ops ancestor (oid # stack) visited =
     (if oid \<in> set visited then mz_search ops ancestor stack visited
      else
        bindR mz_witness_step (\<lambda>_.
        bindR (mz_working ESTIMATED_STRUCTURAL_ENTRY_BYTES) (\<lambda>_.
        case bm_get ops oid of
          None \<Rightarrow> fail (MZ_UnsupportedOperation oid ''causal operation is absent'')
        | Some op \<Rightarrow>
            bindR (mz_scan_parents ancestor (parents op) stack) (\<lambda>r.
            case r of
              None \<Rightarrow> ret True
            | Some stack' \<Rightarrow> mz_search ops ancestor stack' (oid # visited)))))"
  by pat_completeness auto

termination
  by (relation "measures [\<lambda>(ops, ancestor, stack, visited). card (fst ` set ops - set visited),
        \<lambda>(ops, ancestor, stack, visited). length stack]") (auto simp: search_progress)

definition mz_is_ancestor :: "'t operation_map \<Rightarrow> operation_id \<Rightarrow> operation_id \<Rightarrow> ('t, bool) mz" where
  "mz_is_ancestor ops ancestor descendant =
     (if ancestor = descendant then ret False else mz_search ops ancestor [descendant] [])"

section \<open>States of causal ancestors\<close>

fun replay_selected ::
    "'f f64_ops \<Rightarrow> 'f transform operation_map \<Rightarrow> operation_id list \<Rightarrow> 'f transform operation list \<Rightarrow> 'f causal_replay
       \<Rightarrow> ('f transform, 'f causal_replay) mz" where
  "replay_selected F ops selected [] st = ret st"
| "replay_selected F ops selected (candidate # rest) st =
     bindR mz_witness_step (\<lambda>_.
     bindR (if operation_id candidate \<in> set selected then replay_apply F ops candidate st else ret st)
       (replay_selected F ops selected rest))"

definition causal_before ::
    "'f f64_ops \<Rightarrow> 'f project \<Rightarrow> 'f transform operation_map \<Rightarrow> 'f transform operation list
       \<Rightarrow> 'f transform operation \<Rightarrow> copy_budget \<Rightarrow> ('f transform, 'f causal_replay) mz" where
  "causal_before F baseline ops ord_ops op cb =
     (if parents op = [] then
        bindR (clone_baseline cb baseline) (\<lambda>p. ret (causal_replay_new p (baseline_project_bytes cb)))
      else
        bindR (ancestor_ids ops op) (\<lambda>ancestors.
        bindR (clone_baseline cb baseline) (\<lambda>p.
        replay_selected F ops ancestors ord_ops (causal_replay_new p (baseline_project_bytes cb)))))"

definition common_causal_state ::
    "'f f64_ops \<Rightarrow> 'f transform operation_map \<Rightarrow> 'f transform operation list \<Rightarrow> operation_id list
       \<Rightarrow> operation_reference \<Rightarrow> operation_reference \<Rightarrow> operation_id \<Rightarrow> 'f project \<Rightarrow> copy_budget
       \<Rightarrow> ('f transform, 'f causal_replay) mz" where
  "common_causal_state F ops ord_ops witness_ids left right oid baseline cb =
     bindR (guardR (\<not> (ref_operation_id left \<notin> set witness_ids \<or> ref_operation_id right \<notin> set witness_ids))
              (MZ_UnsupportedOperation oid ''resolution reference is absent from causal witnesses'')) (\<lambda>_.
     bindR (ok_or (bm_get ops (ref_operation_id left))
              (MZ_UnsupportedOperation oid ''resolution left operation is absent'')) (\<lambda>left_op.
     bindR (ok_or (bm_get ops (ref_operation_id right))
              (MZ_UnsupportedOperation oid ''resolution right operation is absent'')) (\<lambda>right_op.
     bindR (ancestor_ids ops left_op) (\<lambda>left_ancestors.
     bindR (ancestor_ids ops right_op) (\<lambda>right_ancestors.
     bindR (mz_working (estimated_structural_bytes
              (min usize_MAX (length left_ancestors + length right_ancestors)))) (\<lambda>_.
     let common = filter (\<lambda>i. i \<in> set right_ancestors) left_ancestors in
     bindR (clone_baseline cb baseline) (\<lambda>p.
     replay_selected F ops common ord_ops (causal_replay_new p (baseline_project_bytes cb)))))))))"

section \<open>Ambiguous states\<close>

fun find_superseding ::
    "'t operation_map \<Rightarrow> nat \<times> 't causal_event \<Rightarrow> (nat \<times> 't causal_event) list \<Rightarrow> ('t, bool) mz" where
  "find_superseding ops candidate [] = ret False"
| "find_superseding ops candidate (other # rest) =
     (if fst candidate \<noteq> fst other then
        bindR (mz_is_ancestor ops (ce_operation_id (snd candidate)) (ce_operation_id (snd other))) (\<lambda>anc.
        if anc then ret True else find_superseding ops candidate rest)
      else find_superseding ops candidate rest)"

fun collect_maximal ::
    "'t operation_map \<Rightarrow> (nat \<times> 't causal_event) list \<Rightarrow> (nat \<times> 't causal_event) list
       \<Rightarrow> 't causal_event list \<Rightarrow> ('t, 't causal_event list) mz" where
  "collect_maximal ops relevant [] maximal = ret maximal"
| "collect_maximal ops relevant (candidate # rest) maximal =
     bindR (find_superseding ops candidate relevant) (\<lambda>superseded.
     collect_maximal ops relevant rest (if superseded then maximal else maximal @ [snd candidate]))"

fun all_semantically_equal :: "'t causal_event list \<Rightarrow> bool" where
  "all_semantically_equal [] = True"
| "all_semantically_equal (left # rest) \<longleftrightarrow>
     list_all (\<lambda>right. semantically_equal (ce_value left) (ce_value right)) rest \<and> all_semantically_equal rest"

definition reject_ambiguous_prior ::
    "'t operation \<Rightarrow> 't causal_event list \<Rightarrow> field_key \<Rightarrow> 't operation_map \<Rightarrow> ('t, unit) mz" where
  "reject_ambiguous_prior op events field ops =
     bindR (mz_working (estimated_structural_bytes (length events))) (\<lambda>_.
     let relevant = enumerate 0 (filter (\<lambda>event. ce_field event = field) events) in
     bindR (collect_maximal ops relevant relevant []) (\<lambda>maximal.
     guardR (all_semantically_equal maximal) (MZ_AmbiguousCausalState (operation_id op) field)))"

section \<open>Priors\<close>

datatype causal_value =
  CV_ProjectName utext
| CV_SiteName utext
| CV_Calibration "calibration_id evidence"
| CV_MapPresent

fun field_value :: "'f project \<Rightarrow> field_key \<Rightarrow> causal_value option" where
  "field_value p FK_ProjectName = Some (CV_ProjectName (pj_name p))"
| "field_value p (FK_SiteName site) =
     map_option (\<lambda>s. CV_SiteName (site_name s)) (bm_get (pj_sites p) site)"
| "field_value p (FK_MapCalibration map_id) =
     (case bm_get (pj_maps p) map_id of
        None \<Rightarrow> None
      | Some m \<Rightarrow> map_option CV_Calibration (bm_get (pj_active_calibrations p) map_id))"
| "field_value p (FK_FloorEvidence floor) = None"
| "field_value p (FK_MapAsset map_id) = map_option (\<lambda>m. CV_MapPresent) (bm_get (pj_maps p) map_id)"

fun legacy_prior_matches :: "'f project \<Rightarrow> 't mutation \<Rightarrow> bool" where
  "legacy_prior_matches p (SetProjectName name) \<longleftrightarrow> field_value p FK_ProjectName = Some (CV_ProjectName name)"
| "legacy_prior_matches p (SetSiteName site name) \<longleftrightarrow>
     field_value p (FK_SiteName site) = Some (CV_SiteName name)"
| "legacy_prior_matches p (ActivateCalibration map_id calibration) \<longleftrightarrow>
     field_value p (FK_MapCalibration map_id) = Some (CV_Calibration (Known calibration))"
| "legacy_prior_matches p _ = False"

definition validate_legacy_prior ::
    "operation_id \<Rightarrow> 'f project \<Rightarrow> 't mutation \<Rightarrow> 't materialization_error + unit" where
  "validate_legacy_prior oid before prior =
     (if legacy_prior_matches before prior then Inr ()
      else Inl (MZ_CausalPriorMismatch oid (mutation_field_key prior)))"

fun typed_prior_matches :: "'f project \<Rightarrow> inverse_prior \<Rightarrow> bool" where
  "typed_prior_matches p (Prior_ProjectName name) \<longleftrightarrow>
     field_value p FK_ProjectName = Some (CV_ProjectName name)"
| "typed_prior_matches p (Prior_SiteName site name) \<longleftrightarrow>
     field_value p (FK_SiteName site) = Some (CV_SiteName name)"
| "typed_prior_matches p (Prior_MapCalibration map_id calibration) \<longleftrightarrow>
     field_value p (FK_MapCalibration map_id) = Some (CV_Calibration calibration)"
| "typed_prior_matches p (Prior_MapAbsent map_id) \<longleftrightarrow> field_value p (FK_MapAsset map_id) = None"
| "typed_prior_matches p (Prior_CalibrationAbsent calibration map_id active) \<longleftrightarrow>
     bm_get (pj_calibrations p) calibration = None \<and>
     field_value p (FK_MapCalibration map_id) = Some (CV_Calibration active)"

definition validate_typed_prior ::
    "operation_id \<Rightarrow> 'f project \<Rightarrow> inverse_prior \<Rightarrow> 't materialization_error + unit" where
  "validate_typed_prior oid before prior =
     (if typed_prior_matches before prior then Inr ()
      else Inl (MZ_CausalPriorMismatch oid (prior_field_key prior)))"

definition validate_resolution_prior ::
    "'f f64_ops \<Rightarrow> 'f transform operation \<Rightarrow> operation_reference \<Rightarrow> operation_reference \<Rightarrow> field_key
       \<Rightarrow> operation_id list \<Rightarrow> 'f transform mutation option \<Rightarrow> inverse_prior option
       \<Rightarrow> 'f transform operation_map \<Rightarrow> 'f transform operation list \<Rightarrow> 'f project \<Rightarrow> copy_budget
       \<Rightarrow> ('f transform, unit) mz" where
  "validate_resolution_prior F op left right field witness_ids legacy_prior typed_prior ops ord_ops baseline cb =
     bindR (common_causal_state F ops ord_ops witness_ids left right (operation_id op) baseline cb) (\<lambda>common.
     bindR (reject_ambiguous_prior op (cz_events common) field ops) (\<lambda>_.
     bindR (case legacy_prior of None \<Rightarrow> ret ()
            | Some prior \<Rightarrow> lift_result (validate_legacy_prior (operation_id op) (cz_project common) prior)) (\<lambda>_.
     bindR (case typed_prior of None \<Rightarrow> ret ()
            | Some prior \<Rightarrow> lift_result (validate_typed_prior (operation_id op) (cz_project common) prior)) (\<lambda>_.
     guardR (field_value (cz_project common) field \<noteq> None) (MZ_CausalPriorMismatch (operation_id op) field)))))"

definition is_bind_floor_evidence :: "'t mutation \<Rightarrow> bool" where
  "is_bind_floor_evidence m = (case m of BindFloorEvidence f r \<Rightarrow> True | _ \<Rightarrow> False)"

definition validate_operation_prior ::
    "'f f64_ops \<Rightarrow> 'f transform operation \<Rightarrow> 'f project \<Rightarrow> 'f causal_replay \<Rightarrow> operation_id list
       \<Rightarrow> 'f transform operation_map \<Rightarrow> 'f transform operation list \<Rightarrow> copy_budget \<Rightarrow> ('f transform, unit) mz" where
  "validate_operation_prior F op baseline causal witness_ids ops ord_ops cb =
     (case payload op of
        Apply m \<Rightarrow>
          (case inverse_of op of
             Inv_Apply prior \<Rightarrow>
               bindR (guardR (\<not> is_bind_floor_evidence m) (MZ_UnsupportedOperation (operation_id op)
                        ''V1 floor-evidence binding has no executable inverse'')) (\<lambda>_.
               bindR (reject_ambiguous_prior op (cz_events causal) (mutation_field_key prior) ops) (\<lambda>_.
               lift_result (validate_legacy_prior (operation_id op) (cz_project causal) prior)))
           | Inv_ApplyV2 prior \<Rightarrow>
               bindR (reject_ambiguous_prior op (cz_events causal) (prior_field_key prior) ops) (\<lambda>_.
               lift_result (validate_typed_prior (operation_id op) (cz_project causal) prior))
           | Inv_NonReversible reason \<Rightarrow>
               guardR (\<not> (schema_version op \<noteq> V2 \<or> \<not> is_bind_floor_evidence m \<or> reason \<noteq> FloorEvidenceBinding))
                 (MZ_UnsupportedOperation (operation_id op) ''invalid non-reversible operation'')
           | Inv_Toggle target direction \<Rightarrow>
               fail (MZ_UnsupportedOperation (operation_id op) ''apply has toggle inverse metadata''))
      | Resolve left right m \<Rightarrow>
          bindR (case inverse_of op of
                   Inv_Apply prior \<Rightarrow> ret prior
                 | _ \<Rightarrow> fail (MZ_UnsupportedOperation (operation_id op) ''V1 resolution has no mutation prior'')) (\<lambda>prior.
          validate_resolution_prior F op left right (mutation_field_key m) witness_ids (Some prior) None
            ops ord_ops baseline cb)
      | ResolveV2 left right value \<Rightarrow>
          bindR (case inverse_of op of
                   Inv_ApplyV2 prior \<Rightarrow> ret prior
                 | _ \<Rightarrow> fail (MZ_UnsupportedOperation (operation_id op) ''V2 resolution has no typed prior'')) (\<lambda>prior.
          validate_resolution_prior F op left right (resolution_field_key value) witness_ids None (Some prior)
            ops ord_ops baseline cb)
      | Undo target \<Rightarrow> ret ()
      | Redo target \<Rightarrow> ret ())"

section \<open>Evidence bindings and concurrent changes\<close>

definition map_floor ::
    "'f project \<Rightarrow> (map_asset_id, floor_id option) btree_map \<Rightarrow> map_asset_id \<Rightarrow> floor_id option" where
  "map_floor baseline overrides map_id =
     (case bm_get overrides map_id of
        Some floor \<Rightarrow> floor
      | None \<Rightarrow> map_option ma_floor_id (bm_get (pj_maps baseline) map_id))"

text \<open>\<open>map.entry(k).or_default().push(v)\<close>\<close>

definition push_entry :: "'k::linorder \<Rightarrow> 'v \<Rightarrow> ('k, 'v list) btree_map \<Rightarrow> ('k, 'v list) btree_map" where
  "push_entry k v m = bm_insert k ((case bm_get m k of None \<Rightarrow> [] | Some vs \<Rightarrow> vs) @ [v]) m"

definition effect_lock :: "'t applied_effect \<Rightarrow> floor_id option" where
  "effect_lock eff = (case effect_mutation eff of Some (BindFloorEvidence floor r) \<Rightarrow> Some floor | _ \<Rightarrow> None)"

definition effect_floor ::
    "'f project \<Rightarrow> (map_asset_id, floor_id option) btree_map \<Rightarrow> 't applied_effect \<Rightarrow> floor_id option" where
  "effect_floor baseline overrides eff =
     (case eff of
        Eff_Calibration oid map_id calibration \<Rightarrow> map_floor baseline overrides map_id
      | Eff_Mutation applied \<Rightarrow>
          (case am_mutation applied of
             ActivateCalibration map_id calibration \<Rightarrow> map_floor baseline overrides map_id
           | RemoveCalibration calibration map_id active \<Rightarrow> map_floor baseline overrides map_id
           | RemoveMap map_id \<Rightarrow> map_floor baseline overrides map_id
           | CalibrateMap calibration \<Rightarrow> map_floor baseline overrides (mc_map_id calibration)
           | ImportMap m \<Rightarrow> Some (ma_floor_id m)
           | _ \<Rightarrow> None))"

definition effect_override :: "'t applied_effect \<Rightarrow> (map_asset_id \<times> floor_id option) option" where
  "effect_override eff =
     (case effect_mutation eff of
        Some (ImportMap m) \<Rightarrow> Some (ma_id m, Some (ma_floor_id m))
      | Some (RemoveMap map_id) \<Rightarrow> Some (map_id, None)
      | _ \<Rightarrow> None)"

record floor_index =
  fx_locks :: "(floor_id, operation_id list) btree_map"
  fx_mutations :: "(floor_id, operation_id list) btree_map"
  fx_overrides :: "(map_asset_id, floor_id option) btree_map"

fun index_effects :: "'f project \<Rightarrow> 't applied_effect list \<Rightarrow> floor_index \<Rightarrow> ('t, floor_index) mz" where
  "index_effects baseline [] ix = ret ix"
| "index_effects baseline (eff # rest) ix =
     bindR mz_check_cancelled (\<lambda>_.
     let locks = (case effect_lock eff of
           None \<Rightarrow> fx_locks ix | Some floor \<Rightarrow> push_entry floor (effect_operation_id eff) (fx_locks ix));
         mutations = (case effect_floor baseline (fx_overrides ix) eff of
           None \<Rightarrow> fx_mutations ix | Some floor \<Rightarrow> push_entry floor (effect_operation_id eff) (fx_mutations ix))
     in
     bindR (case effect_override eff of
              None \<Rightarrow> ret (fx_overrides ix)
            | Some (map_id, floor) \<Rightarrow>
                bindR (mz_working ESTIMATED_STRUCTURAL_ENTRY_BYTES) (\<lambda>_.
                ret (bm_insert map_id floor (fx_overrides ix)))) (\<lambda>overrides.
     index_effects baseline rest \<lparr>fx_locks = locks, fx_mutations = mutations, fx_overrides = overrides\<rparr>))"

fun check_lock :: "'t operation_map \<Rightarrow> floor_id \<Rightarrow> operation_id \<Rightarrow> operation_id list \<Rightarrow> ('t, unit) mz" where
  "check_lock ops floor evidence [] = ret ()"
| "check_lock ops floor evidence (mutation # rest) =
     (if evidence = mutation then check_lock ops floor evidence rest
      else
        bindR (mz_charge_with_limit AggregateConflictChecks 1 MAX_AGGREGATE_CONFLICT_CHECKS) (\<lambda>_.
        bindR (mz_is_ancestor ops evidence mutation) (\<lambda>evidence_ancestor.
        bindR (mz_is_ancestor ops mutation evidence) (\<lambda>mutation_ancestor.
        bindR (guardR (\<not> (\<not> evidence_ancestor \<and> \<not> mutation_ancestor))
                 (MZ_AggregateConflict floor evidence mutation)) (\<lambda>_.
        check_lock ops floor evidence rest)))))"

fun check_floor_locks :: "'t operation_map \<Rightarrow> floor_id \<Rightarrow> operation_id list \<Rightarrow> operation_id list \<Rightarrow> ('t, unit) mz" where
  "check_floor_locks ops floor [] mutations = ret ()"
| "check_floor_locks ops floor (evidence # rest) mutations =
     bindR (check_lock ops floor evidence mutations) (\<lambda>_. check_floor_locks ops floor rest mutations)"

fun check_locks ::
    "'t operation_map \<Rightarrow> (floor_id \<times> operation_id list) list \<Rightarrow> (floor_id, operation_id list) btree_map
       \<Rightarrow> ('t, unit) mz" where
  "check_locks ops [] mutations = ret ()"
| "check_locks ops ((floor, lock_ids) # rest) mutations =
     bindR (check_floor_locks ops floor lock_ids
              (case bm_get mutations floor of None \<Rightarrow> [] | Some ids \<Rightarrow> ids)) (\<lambda>_.
     check_locks ops rest mutations)"

definition reject_cross_field_aggregate_conflicts ::
    "'f project \<Rightarrow> 't operation_map \<Rightarrow> 't applied_effect list \<Rightarrow> ('t, unit) mz" where
  "reject_cross_field_aggregate_conflicts baseline ops effects =
     bindR (mz_working (estimated_structural_bytes (saturating_mul (length effects) 2))) (\<lambda>_.
     bindR (index_effects baseline effects \<lparr>fx_locks = [], fx_mutations = [], fx_overrides = []\<rparr>) (\<lambda>ix.
     check_locks ops (fx_locks ix) (fx_mutations ix)))"

section \<open>Materialization\<close>

definition admit_operation :: "'f project \<Rightarrow> 't operation \<Rightarrow> 't materialization_error + unit" where
  "admit_operation baseline op =
     (if bm_get (pj_applied_operations baseline) (operation_id op) \<noteq> None
      then Inl (MZ_BaselineOperationCollision (operation_id op))
      else if parents op = [] \<and> logical_time op \<le> pj_logical_time baseline
      then Inl (MZ_BaselineLogicalTimeConflict (operation_id op) (pj_logical_time baseline) (logical_time op))
      else Inr ())"

definition resolution_refs :: "'t operation list \<Rightarrow> operation_id list" where
  "resolution_refs ord_ops =
     concat (map (\<lambda>op. case resolution_references op of
         None \<Rightarrow> [] | Some (l, r) \<Rightarrow> [ref_operation_id l, ref_operation_id r]) ord_ops)"

fun validate_priors ::
    "'f f64_ops \<Rightarrow> 'f project \<Rightarrow> 'f transform operation_map \<Rightarrow> 'f transform operation list \<Rightarrow> copy_budget
       \<Rightarrow> 'f transform operation list \<Rightarrow> operation_id list \<Rightarrow> ('f transform, unit) mz" where
  "validate_priors F baseline ops ord_ops cb [] witness_ids = ret ()"
| "validate_priors F baseline ops ord_ops cb (op # rest) witness_ids =
     bindR (causal_before F baseline ops ord_ops op cb) (\<lambda>causal.
     bindR (if operation_id op \<in> set (resolution_refs ord_ops) then
              bindR (guardR (\<not> length witness_ids \<ge> MAX_MATERIALIZATION_OPERATIONS div 2)
                       (MZ_ResourceLimit ''causal_witness_ids'')) (\<lambda>_.
              bindR (mz_working ESTIMATED_STRUCTURAL_ENTRY_BYTES) (\<lambda>_.
              ret (List.insert (operation_id op) witness_ids)))
            else ret witness_ids) (\<lambda>witness_ids'.
     bindR (validate_operation_prior F op baseline causal witness_ids' ops ord_ops cb) (\<lambda>_.
     validate_priors F baseline ops ord_ops cb rest witness_ids')))"

fun apply_effects ::
    "'f f64_ops \<Rightarrow> 'f transform operation_map \<Rightarrow> 'f transform applied_effect list \<Rightarrow> nat \<Rightarrow> 'f project
       \<Rightarrow> ('f transform, 'f project) mz" where
  "apply_effects F ops [] estimated p = ret p"
| "apply_effects F ops (eff # rest) estimated p =
     bindR mz_witness_step (\<lambda>_.
     bindR (ok_or (bm_get ops (effect_operation_id eff)) (MZ_UnsupportedOperation (effect_operation_id eff)
              ''effect operation is absent from operation set'')) (\<lambda>op.
     bindR (before_apply estimated op) (\<lambda>next'.
     bindR (lift_result (apply_effect F p op eff)) (\<lambda>p'.
     apply_effects F ops rest next' p'))))"

definition materialize_local ::
    "'f f64_ops \<Rightarrow> 'f transform wire_format \<Rightarrow> 'f project_format \<Rightarrow> 'f project \<Rightarrow> 'f transform operation_set
       \<Rightarrow> ('f transform, 'f materialized_project) mz" where
  "materialize_local F fmt pf baseline s =
     (let ops = set_operations s in
      bindR (guardR (pj_id baseline = set_project_id s) MZ_WrongProject) (\<lambda>_.
      bindR (guardR (\<not> length ops > MAX_MATERIALIZATION_OPERATIONS)
               (MZ_ResourceLimit ''materialization_operations'')) (\<lambda>_.
      bindR (lift_result (forE (admit_operation baseline) (bm_values ops))) (\<lambda>_.
      bindR (map_err materialization_identity_error (on_fst (baseline_from_project_with_budget fmt pf baseline))) (\<lambda>bi.
      bindR (map_err materialization_identity_error (on_fst (identity_of_operation_set_with_budget fmt s))) (\<lambda>si.
      bindR (lift_result (map_sum MZ_Identity id (identity_bind bi si))) (\<lambda>identity.
      bindR (lift_result (copy_budget_new (length (bi_project_bytes bi)))) (\<lambda>cb.
      bindR (map_err materialization_merge_error (on_fst (validate_replay_semantics_with_budget s))) (\<lambda>_.
      bindR (map_err materialization_merge_error (on_fst (replay_effects_with_budget s))) (\<lambda>effects.
      bindR (reject_cross_field_aggregate_conflicts baseline ops effects) (\<lambda>_.
      bindR (mz_working (estimated_structural_bytes (length ops))) (\<lambda>_.
      bindR (lift_result (map_sum (\<lambda>e. MZ_Merge (ME_Operation e)) id (ordered s))) (\<lambda>ord_ops.
      bindR (validate_priors F baseline ops ord_ops cb ord_ops []) (\<lambda>_.
      bindR (clone_baseline cb baseline) (\<lambda>start.
      bindR (apply_effects F ops effects (baseline_project_bytes cb) start) (\<lambda>p.
      bindR (guardR (\<not> (pj_schema_version p \<noteq> PV2 \<and> effects \<noteq> [])) (MZ_Domain PE_InvalidReceipt)) (\<lambda>_.
      ret \<lparr>mz_project = p, mz_identity = identity\<rparr>)))))))))))))))))"

definition materialize_with_budget ::
    "'f f64_ops \<Rightarrow> 'f transform wire_format \<Rightarrow> 'f project_format \<Rightarrow> 'f project \<Rightarrow> 'f transform operation_set
       \<Rightarrow> (resource_budget, 'f transform materialization_error, 'f materialized_project) rsm" where
  "materialize_with_budget F fmt pf baseline s =
     bindR (map_err materialization_budget_error check_cancelled) (\<lambda>_.
     with_local_usage (materialize_local F fmt pf baseline s))"

definition materialize ::
    "'f f64_ops \<Rightarrow> 'f transform wire_format \<Rightarrow> 'f project_format \<Rightarrow> 'f project \<Rightarrow> 'f transform operation_set
       \<Rightarrow> 'f transform materialization_error + 'f materialized_project" where
  "materialize F fmt pf baseline s = fst (materialize_with_budget F fmt pf baseline s default_materialization_budget)"

end
