(* ===== verification/Materializer_Causality.thy ===== *)
theory Materializer_Causality
  imports Causal_Materializer
begin

text \<open>
  What the causal checks of the materializer establish when they pass: its searches compute the causal
  ancestors, the state before an operation is the pure replay of those ancestors, priors hold there,
  and evidence bindings are causally ordered with changes of the same floor.
\<close>

section \<open>Charges\<close>

lemma returns_bind_unit: "returns (f ()) Q \<Longrightarrow> returns (bindR m f) Q"
  by (rule returns_bind_skip) (simp add: old.unit.exhaust)

lemma returns_lift_result: "(\<And>x. r = Inr x \<Longrightarrow> Q x) \<Longrightarrow> returns (lift_result r) Q"
  by (auto simp: lift_result_def intro: returns_rules split: sum.splits)

lemma returns_bind_lift [returns_rules]:
  "(\<And>x. r = Inr x \<Longrightarrow> returns (f x) Q) \<Longrightarrow> returns (bindR (lift_result r) f) Q"
  by (rule returns_bind [OF returns_lift_result [where Q = "\<lambda>x. r = Inr x"]])

lemma returns_bind_ret: "returns (f x) Q \<Longrightarrow> returns (bindR (ret x) f) Q"
  by (rule returns_bind [OF returns_ret [where Q = "\<lambda>y. y = x"]]) auto

section \<open>Searches\<close>

lemma returns_mz_scan_parents:
  "returns (mz_scan_parents a ps stack) (\<lambda>r. r = (if a \<in> set ps then None else Some (rev ps @ stack)))"
  by (induction ps arbitrary: stack) (auto intro!: returns_ret returns_bind_unit elim: returns_mono)

lemma returns_mz_search:
  "search_inv ops a stack visited \<Longrightarrow>
     returns (mz_search ops a stack visited) (\<lambda>r. r = reaches ops a (set stack \<union> set visited))"
proof (induction stack visited rule: search_induct [where ops = ops])
  case (Nil visited)
  then show ?case using search_closed [OF Nil] by (auto intro: returns_ret)
next
  case (visited c stack visited)
  then have "search_inv ops a stack visited" by (auto simp: search_inv_def)
  moreover have "set (c # stack) \<union> set visited = set stack \<union> set visited"
    using visited.hyps by auto
  ultimately show ?case using visited by simp
next
  case (missing c stack visited)
  then show ?case by (auto intro!: returns_bind_unit returns_fail)
next
  case (expand c stack visited op)
  have step: "search_inv ops a (rev (parents op) @ stack) (c # visited)" if "a \<notin> set (parents op)"
    using expand.prems expand.hyps that by (auto simp: search_inv_def parent_rel_iff)
  have reach: "reaches ops a (set (rev (parents op) @ stack) \<union> set (c # visited)) \<longleftrightarrow>
      reaches ops a (set (c # stack) \<union> set visited)"
    using expand.hyps by (auto simp: parent_rel_iff intro: trancl_into_trancl)
  have met: "reaches ops a (set (c # stack) \<union> set visited)" if "a \<in> set (parents op)"
    using expand.hyps that by (auto simp: parent_rel_iff intro!: r_into_trancl)
  have "returns (bindR (mz_scan_parents a (parents op) stack) (\<lambda>r. case r of None \<Rightarrow> ret True
         | Some stack' \<Rightarrow> mz_search ops a stack' (c # visited)))
      (\<lambda>r. r = reaches ops a (set (c # stack) \<union> set visited))"
    using expand.IH [OF step] met unfolding reach
    by (intro returns_bind [OF returns_mz_scan_parents]) (auto intro: returns_ret split: if_splits)
  with expand.hyps show ?case by (auto intro!: returns_bind_unit)
qed

lemma returns_mz_is_ancestor: "returns (mz_is_ancestor ops a d) (\<lambda>r. r = is_ancestor ops a d)"
proof (cases "a = d")
  case True
  then show ?thesis by (simp add: mz_is_ancestor_def is_ancestor_def returns_ret)
next
  case False
  then show ?thesis
    using returns_mz_search [of ops a "[d]" "[]"] by (simp add: mz_is_ancestor_def is_ancestor_def search_inv_def)
qed

lemma ancestor_unfold:
  assumes "bm_get ops c = Some op"
  shows "(x, c) \<in> (parent_rel ops)\<^sup>* \<longleftrightarrow> x = c \<or> (\<exists>p \<in> set (parents op). (x, p) \<in> (parent_rel ops)\<^sup>*)"
    "(x, c) \<in> (parent_rel ops)\<^sup>+ \<longleftrightarrow> (\<exists>p \<in> set (parents op). (x, p) \<in> (parent_rel ops)\<^sup>*)"
proof -
  have edge: "(p, c) \<in> parent_rel ops \<longleftrightarrow> p \<in> set (parents op)" for p using assms by (simp add: parent_rel_iff)
  show star: "(x, c) \<in> (parent_rel ops)\<^sup>* \<longleftrightarrow> x = c \<or> (\<exists>p \<in> set (parents op). (x, p) \<in> (parent_rel ops)\<^sup>*)"
  proof
    assume "(x, c) \<in> (parent_rel ops)\<^sup>*"
    then show "x = c \<or> (\<exists>p \<in> set (parents op). (x, p) \<in> (parent_rel ops)\<^sup>*)"
      by (cases rule: rtranclE) (auto simp: edge)
  next
    assume "x = c \<or> (\<exists>p \<in> set (parents op). (x, p) \<in> (parent_rel ops)\<^sup>*)"
    then show "(x, c) \<in> (parent_rel ops)\<^sup>*" using edge by (auto intro: rtrancl_into_rtrancl)
  qed
  show "(x, c) \<in> (parent_rel ops)\<^sup>+ \<longleftrightarrow> (\<exists>p \<in> set (parents op). (x, p) \<in> (parent_rel ops)\<^sup>*)"
  proof
    assume "(x, c) \<in> (parent_rel ops)\<^sup>+"
    then show "\<exists>p \<in> set (parents op). (x, p) \<in> (parent_rel ops)\<^sup>*"
      by (cases rule: tranclE) (auto simp: edge intro: trancl_into_rtrancl)
  next
    assume "\<exists>p \<in> set (parents op). (x, p) \<in> (parent_rel ops)\<^sup>*"
    then show "(x, c) \<in> (parent_rel ops)\<^sup>+" using edge by (auto intro: rtrancl_into_trancl1)
  qed
qed

abbreviation reachable_from :: "'t operation_map \<Rightarrow> operation_id list \<Rightarrow> operation_id set" where
  "reachable_from ops stack \<equiv> {x. \<exists>d \<in> set stack. (x, d) \<in> (parent_rel ops)\<^sup>*}"

definition collect_inv :: "'t operation_map \<Rightarrow> operation_id list \<Rightarrow> operation_id list \<Rightarrow> bool" where
  "collect_inv ops stack result \<longleftrightarrow>
     (\<forall>c \<in> set result. \<forall>p. (p, c) \<in> parent_rel ops \<longrightarrow> p \<in> set result \<union> set stack)"

lemma collect_closed:
  assumes "collect_inv ops stack result" "c \<in> set result" "(x, c) \<in> (parent_rel ops)\<^sup>*"
  shows "x \<in> set result \<union> reachable_from ops stack"
  using assms(3,2)
proof (induction rule: converse_rtrancl_induct)
  case base
  then show ?case by simp
next
  case (step y z)
  then have "z \<in> set result \<or> z \<in> reachable_from ops stack" by blast
  then show ?case
  proof
    assume "z \<in> set result"
    with step(1) assms(1) show ?thesis by (auto simp: collect_inv_def)
  next
    assume "z \<in> reachable_from ops stack"
    with step(1) show ?thesis by (auto intro: converse_rtrancl_into_rtrancl)
  qed
qed

lemma returns_ancestor_loop:
  "collect_inv ops stack result \<Longrightarrow>
     returns (ancestor_loop ops stack result) (\<lambda>r. set r = set result \<union> reachable_from ops stack)"
proof (induction stack result rule: search_induct [where ops = ops])
  case (Nil result)
  then show ?case by (auto intro: returns_ret)
next
  case (visited c stack result)
  then have inv: "collect_inv ops stack result" by (auto simp: collect_inv_def)
  have "set result \<union> reachable_from ops stack = set result \<union> reachable_from ops (c # stack)"
    using collect_closed [OF inv visited.hyps] by auto
  then show ?case using visited inv by simp
next
  case (missing c stack result)
  then show ?case by (auto intro!: returns_bind_unit returns_fail)
next
  case (expand c stack result op)
  have inv: "collect_inv ops (rev (parents op) @ stack) (c # result)"
    using expand.prems expand.hyps by (auto simp: collect_inv_def parent_rel_iff)
  have "set (c # result) \<union> reachable_from ops (rev (parents op) @ stack) =
      set result \<union> reachable_from ops (c # stack)" using ancestor_unfold(1) [OF expand.hyps(2)] by auto
  then show ?case using expand.hyps expand.IH [OF inv] by (auto intro!: returns_bind_unit)
qed

lemma returns_ancestor_ids:
  assumes "bm_get ops (operation_id op) = Some op" "acyclic (parent_rel ops)"
  shows "returns (ancestor_ids ops op) (\<lambda>r. set r = {a. is_ancestor ops a (operation_id op)})"
proof -
  note ancestor_unfold(2) [OF assms(1)]
  moreover have "(x, operation_id op) \<in> (parent_rel ops)\<^sup>+ \<Longrightarrow> x \<noteq> operation_id op" for x
    using assms(2) by (auto simp: acyclic_def)
  ultimately have "reachable_from ops (rev (parents op)) = {a. is_ancestor ops a (operation_id op)}"
    by (auto simp: is_ancestor_def)
  then show ?thesis
    using returns_ancestor_loop [of ops "rev (parents op)" "[]"]
    by (auto simp: ancestor_ids_def collect_inv_def intro!: returns_bind_unit)
qed

section \<open>The causal state, without a budget\<close>

text \<open>
  The effect of an operation on a replay whose toggles are in the given state: none for a toggle that
  finds its target already in the state it asks for.
\<close>

definition causal_effect ::
    "'t operation_map \<Rightarrow> 't operation \<Rightarrow> (operation_id, bool) btree_map
       \<Rightarrow> ('t local_effect option \<times> (operation_id, bool) btree_map) option" where
  "causal_effect ops op active =
     (case payload op of
        Apply m \<Rightarrow> Some (Some (direct_mutation_effect op m), bm_insert (operation_id op) True active)
      | Undo target \<Rightarrow>
          if bm_get active (ref_operation_id target) \<noteq> Some True then Some (None, active)
          else Option.bind (bm_get ops (ref_operation_id target)) (\<lambda>t.
               case inverse_effect t (operation_id op) of
                 Inl _ \<Rightarrow> None | Inr eff \<Rightarrow> Some (Some eff, bm_insert (ref_operation_id target) False active))
      | Redo target \<Rightarrow>
          if bm_get active (ref_operation_id target) \<noteq> Some False then Some (None, active)
          else Option.bind (bm_get ops (ref_operation_id target)) (\<lambda>t.
               case payload t of
                 Apply m \<Rightarrow> Some (Some (direct_mutation_effect op m), bm_insert (ref_operation_id target) True active)
               | _ \<Rightarrow> None)
      | Resolve l r m \<Rightarrow> Some (Some (direct_mutation_effect op m), active)
      | ResolveV2 l r value \<Rightarrow> Some (Some (resolution_local_effect (operation_id op) value), active))"

type_synonym 'f causal_core = "'f project \<times> (operation_id, bool) btree_map \<times> 'f transform causal_event list"

definition causal_step ::
    "'f f64_ops \<Rightarrow> 'f transform operation_map \<Rightarrow> 'f transform operation \<Rightarrow> 'f causal_core \<Rightarrow> 'f causal_core option" where
  "causal_step F ops op st =
     (case st of (p, active, events) \<Rightarrow>
        Option.bind (causal_effect ops op active) (\<lambda>(effect, active').
        case effect of
          None \<Rightarrow> Some (p, active', events)
        | Some eff \<Rightarrow>
            (case apply_local_effect F p op eff of
               Inl _ \<Rightarrow> None
             | Inr p' \<Rightarrow> Some (p', active', events @
                 [\<lparr>ce_operation_id = le_operation_id eff, ce_field = effect_field eff, ce_value = le_value eff\<rparr>]))))"

fun causal_run ::
    "'f f64_ops \<Rightarrow> 'f transform operation_map \<Rightarrow> 'f transform operation list \<Rightarrow> 'f causal_core \<Rightarrow> 'f causal_core option" where
  "causal_run F ops [] st = Some st"
| "causal_run F ops (op # rest) st = Option.bind (causal_step F ops op st) (causal_run F ops rest)"

definition core :: "'f causal_replay \<Rightarrow> 'f causal_core" where
  "core st = (cz_project st, cz_active st, cz_events st)"

text \<open>The state before an operation: its causal ancestors, replayed in the deterministic order.\<close>

definition causal_state ::
    "'f f64_ops \<Rightarrow> 'f transform operation_map \<Rightarrow> 'f transform operation list \<Rightarrow> operation_id set \<Rightarrow> 'f project
       \<Rightarrow> 'f causal_core option" where
  "causal_state F ops ord_ops S baseline =
     causal_run F ops (filter (\<lambda>op. operation_id op \<in> S) ord_ops) (baseline, [], [])"

lemma returns_apply_effect:
  assumes "causal_effect ops op (cz_active st) = Some (Some eff, active')"
  shows "returns (replay_apply_effect F op eff (st\<lparr>cz_active := active'\<rparr>))
    (\<lambda>st'. causal_step F ops op (core st) = Some (core st'))"
  unfolding replay_apply_effect_def Let_def
  by (intro returns_bind_unit returns_bind_skip returns_rules) (simp add: causal_step_def core_def assms)

lemma returns_replay_apply:
  "returns (replay_apply F ops op st) (\<lambda>st'. causal_step F ops op (core st) = Some (core st'))"
proof (cases "payload op")
  case (Apply m)
  then show ?thesis
    by (auto simp: replay_apply_def causal_effect_def intro!: returns_bind_unit returns_apply_effect)
next
  case (Undo target)
  show ?thesis
  proof (cases "bm_get (cz_active st) (ref_operation_id target) = Some True")
    case False
    with Undo show ?thesis
      by (auto simp: replay_apply_def causal_step_def causal_effect_def core_def intro!: returns_ret)
  next
    case True
    with Undo show ?thesis
      by (auto simp: replay_apply_def causal_effect_def
          intro!: returns_bind_unit returns_apply_effect returns_bind_ok_or returns_bind_lift)
  qed
next
  case (Redo target)
  show ?thesis
  proof (cases "bm_get (cz_active st) (ref_operation_id target) = Some False")
    case False
    with Redo show ?thesis
      by (auto simp: replay_apply_def causal_step_def causal_effect_def core_def intro!: returns_ret)
  next
    case True
    have id: "direct_mutation_effect_by_id (operation_id op) m = direct_mutation_effect op m" for m
      by (simp add: direct_mutation_effect_def direct_mutation_effect_by_id_def)
    have redo_target: "returns (bindR (case payload t of Apply m \<Rightarrow> ret m
        | _ \<Rightarrow> fail (MZ_UnsupportedOperation (operation_id op) ''redo target is not an apply'')) f) Q"
      if "\<And>m. payload t = Apply m \<Longrightarrow> returns (f m) Q" for t f Q
      by (rule returns_bind [where P = "\<lambda>m. payload t = Apply m"])
        (auto intro: returns_rules that split: operation_payload.split)
    from Redo True show ?thesis
      by (auto simp: replay_apply_def causal_effect_def id
          intro!: redo_target returns_bind_unit returns_apply_effect returns_bind_ok_or)
  qed
next
  case (Resolve l r m)
  then show ?thesis
    using returns_apply_effect [of ops op st "direct_mutation_effect op m" "cz_active st" F]
    by (simp add: replay_apply_def causal_effect_def)
next
  case (ResolveV2 l r v)
  then show ?thesis
    using returns_apply_effect [of ops op st "resolution_local_effect (operation_id op) v" "cz_active st" F]
    by (simp add: replay_apply_def causal_effect_def)
qed

lemma returns_replay_selected:
  "returns (replay_selected F ops selected xs st)
     (\<lambda>st'. causal_run F ops (filter (\<lambda>op. operation_id op \<in> set selected) xs) (core st) = Some (core st'))"
proof (induction xs arbitrary: st)
  case Nil
  then show ?case by (auto intro: returns_ret)
next
  case (Cons op xs)
  have "returns (bindR (replay_apply F ops op st) (replay_selected F ops selected xs))
      (\<lambda>st'. causal_run F ops (op # filter (\<lambda>op. operation_id op \<in> set selected) xs) (core st) = Some (core st'))"
    by (rule returns_bind [OF returns_replay_apply]) (auto intro: returns_mono [OF Cons.IH])
  then show ?case using Cons.IH [of st] by (auto intro!: returns_bind_unit returns_bind_ret)
qed

section \<open>The state before an operation\<close>

definition ancestors_of :: "'t operation_map \<Rightarrow> operation_id \<Rightarrow> operation_id set" where
  "ancestors_of ops d = {a. is_ancestor ops a d}"

lemma core_new [simp]: "core (causal_replay_new p n) = (p, [], [])"
  by (simp add: core_def causal_replay_new_def)

lemma returns_clone_baseline: "returns (clone_baseline cb baseline) (\<lambda>p. p = baseline)"
  unfolding clone_baseline_def by (intro returns_bind_unit returns_ret) simp

lemma returns_replay_clone:
  "returns (bindR (clone_baseline cb baseline) (\<lambda>p. replay_selected F ops selected ord_ops (causal_replay_new p n)))
     (\<lambda>st. causal_state F ops ord_ops (set selected) baseline = Some (core st))"
proof (rule returns_bind [OF returns_clone_baseline], simp)
  show "returns (replay_selected F ops selected ord_ops (causal_replay_new baseline n))
     (\<lambda>st. causal_state F ops ord_ops (set selected) baseline = Some (core st))"
    using returns_replay_selected [of F ops selected ord_ops "causal_replay_new baseline n"]
    by (simp add: causal_state_def)
qed

lemma returns_causal_before:
  assumes "bm_get ops (operation_id op) = Some op" "acyclic (parent_rel ops)"
  shows "returns (causal_before F baseline ops ord_ops op cb)
    (\<lambda>st. causal_state F ops ord_ops (ancestors_of ops (operation_id op)) baseline = Some (core st))"
proof (cases "parents op = []")
  case True
  then have none: "ancestors_of ops (operation_id op) = {}"
    using ancestor_unfold(2) [OF assms(1)] by (simp add: ancestors_of_def is_ancestor_def)
  show ?thesis
    unfolding causal_before_def if_P [OF True] none
    by (rule returns_bind [OF returns_clone_baseline]) (auto simp: causal_state_def intro: returns_ret)
next
  case False
  have ids: "returns (ancestor_ids ops op) (\<lambda>r. set r = ancestors_of ops (operation_id op))"
    using returns_ancestor_ids [OF assms] by (simp add: ancestors_of_def)
  show ?thesis
    unfolding causal_before_def if_not_P [OF False]
    by (rule returns_bind [OF ids], drule sym, simp only:) (rule returns_replay_clone)
qed

lemma returns_common_causal_state:
  assumes inv: "ops_inv ops" and acyc: "acyclic (parent_rel ops)"
  shows "returns (common_causal_state F ops ord_ops witness_ids left right oid baseline cb)
    (\<lambda>st. causal_state F ops ord_ops
       (ancestors_of ops (ref_operation_id left) \<inter> ancestors_of ops (ref_operation_id right)) baseline = Some (core st))"
proof -
  have ids: "returns (ancestor_ids ops op) (\<lambda>r. set r = ancestors_of ops k)" if "bm_get ops k = Some op" for op k
    using returns_ancestor_ids [of ops op] acyc ops_inv_get [OF inv that] that by (simp add: ancestors_of_def)
  have both: "ancestors_of ops (ref_operation_id left) \<inter> ancestors_of ops (ref_operation_id right) =
      set (filter (\<lambda>i. i \<in> set rs) ls)"
    if "set ls = ancestors_of ops (ref_operation_id left)" "set rs = ancestors_of ops (ref_operation_id right)" for ls rs
    using that by auto
  show ?thesis
    unfolding common_causal_state_def Let_def
    by (intro returns_bind_guardR returns_bind_ok_or returns_bind [OF ids] returns_bind_unit; assumption?)
      (simp only: both returns_replay_clone)
qed

section \<open>Ambiguity\<close>

lemma semantically_equal_refl: "semantically_equal v v"
  by (cases v rule: local_effect_value.exhaust) (auto elim: evidence.exhaust)

lemma semantically_equal_sym: "semantically_equal v w \<Longrightarrow> semantically_equal w v"
  by (induction v w rule: semantically_equal.induct) auto

lemma all_semantically_equal_iff:
  "all_semantically_equal xs \<longleftrightarrow> (\<forall>l \<in> set xs. \<forall>r \<in> set xs. semantically_equal (ce_value l) (ce_value r))"
  by (induction xs) (auto simp: list_all_iff semantically_equal_refl intro: semantically_equal_sym)

text \<open>The causally latest changes of the field among the events.\<close>

definition latest_events :: "'t operation_map \<Rightarrow> 't causal_event list \<Rightarrow> field_key \<Rightarrow> 't causal_event set" where
  "latest_events ops events field =
     {e \<in> set events. ce_field e = field \<and>
        (\<forall>e' \<in> set events. ce_field e' = field \<longrightarrow> \<not> is_ancestor ops (ce_operation_id e) (ce_operation_id e'))}"

definition unambiguous :: "'t operation_map \<Rightarrow> 't causal_event list \<Rightarrow> field_key \<Rightarrow> bool" where
  "unambiguous ops events field \<longleftrightarrow>
     (\<forall>l \<in> latest_events ops events field. \<forall>r \<in> latest_events ops events field.
        semantically_equal (ce_value l) (ce_value r))"

definition later :: "'t operation_map \<Rightarrow> nat \<times> 't causal_event \<Rightarrow> nat \<times> 't causal_event \<Rightarrow> bool" where
  "later ops c x \<longleftrightarrow> fst c \<noteq> fst x \<and> is_ancestor ops (ce_operation_id (snd c)) (ce_operation_id (snd x))"

lemma returns_find_superseding:
  "returns (find_superseding ops c others) (\<lambda>r. r \<longleftrightarrow> (\<exists>x \<in> set others. later ops c x))"
proof (induction others)
  case (Cons x others)
  show ?case
  proof (cases "fst c = fst x")
    case True
    then have "(\<exists>y \<in> set (x # others). later ops c y) \<longleftrightarrow> (\<exists>y \<in> set others. later ops c y)" by (auto simp: later_def)
    with True Cons.IH show ?thesis by simp
  next
    case False
    have "returns (bindR (mz_is_ancestor ops (ce_operation_id (snd c)) (ce_operation_id (snd x)))
        (\<lambda>anc. if anc then ret True else find_superseding ops c others))
      (\<lambda>r. r \<longleftrightarrow> (\<exists>x \<in> set (x # others). later ops c x))"
      by (rule returns_bind [OF returns_mz_is_ancestor])
        (use False in \<open>auto simp: later_def [of ops c x] intro: returns_ret returns_mono [OF Cons.IH]\<close>)
    with False show ?thesis by simp
  qed
qed (simp add: returns_ret)

lemma returns_collect_maximal:
  "returns (collect_maximal ops relevant todo acc) (\<lambda>r. set r = set acc \<union>
     snd ` {c \<in> set todo. \<forall>x \<in> set relevant. \<not> later ops c x})"
proof (induction todo arbitrary: acc)
  case (Cons c todo)
  have split: "{d \<in> set (c # todo). \<forall>x \<in> set relevant. \<not> later ops d x} =
      (if \<exists>x \<in> set relevant. later ops c x then {} else {c}) \<union> {d \<in> set todo. \<forall>x \<in> set relevant. \<not> later ops d x}"
    by auto
  show ?case
    unfolding collect_maximal.simps split
    by (rule returns_bind [OF returns_find_superseding], rule returns_mono [OF Cons.IH]) (auto split: if_splits)
qed (simp add: returns_ret)

lemma maximal_of_enumerate:
  "snd ` {c \<in> set (enumerate 0 xs). \<forall>x \<in> set (enumerate 0 xs). \<not> later ops c x} =
     {e \<in> set xs. \<forall>e' \<in> set xs. \<not> is_ancestor ops (ce_operation_id e) (ce_operation_id e')}"
proof -
  have mem: "(i, e) \<in> set (enumerate 0 xs) \<longleftrightarrow> i < length xs \<and> e = xs ! i" for i e
    by (auto simp: in_set_enumerate_eq)
  show ?thesis
  proof (intro subset_antisym subsetI)
    fix e assume "e \<in> snd ` {c \<in> set (enumerate 0 xs). \<forall>x \<in> set (enumerate 0 xs). \<not> later ops c x}"
    then obtain i where i: "i < length xs" "e = xs ! i" and max: "\<And>j. j < length xs \<Longrightarrow> \<not> later ops (i, e) (j, xs ! j)"
      by (auto simp: mem)
    have "\<not> is_ancestor ops (ce_operation_id e) (ce_operation_id (xs ! j))" if "j < length xs" for j
      using max [OF that] i by (cases "i = j") (auto simp: later_def is_ancestor_def)
    with i show "e \<in> {e \<in> set xs. \<forall>e' \<in> set xs. \<not> is_ancestor ops (ce_operation_id e) (ce_operation_id e')}"
      by (auto simp: in_set_conv_nth)
  next
    fix e assume e: "e \<in> {e \<in> set xs. \<forall>e' \<in> set xs. \<not> is_ancestor ops (ce_operation_id e) (ce_operation_id e')}"
    then obtain i where i: "i < length xs" "e = xs ! i" by (auto simp: in_set_conv_nth)
    have "\<not> later ops (i, e) (j, xs ! j)" if "j < length xs" for j
      using e that by (auto simp: later_def)
    with i have "(i, e) \<in> {c \<in> set (enumerate 0 xs). \<forall>x \<in> set (enumerate 0 xs). \<not> later ops c x}"
      by (auto simp: mem)
    then show "e \<in> snd ` {c \<in> set (enumerate 0 xs). \<forall>x \<in> set (enumerate 0 xs). \<not> later ops c x}" by force
  qed
qed

lemma returns_reject_ambiguous:
  "returns (reject_ambiguous_prior op events field ops) (\<lambda>_. unambiguous ops events field)"
proof -
  let ?xs = "filter (\<lambda>event. ce_field event = field) events"
  have latest: "{e \<in> set ?xs. \<forall>e' \<in> set ?xs. \<not> is_ancestor ops (ce_operation_id e) (ce_operation_id e')} =
      latest_events ops events field" by (auto simp: latest_events_def)
  have max: "returns (collect_maximal ops (enumerate 0 ?xs) (enumerate 0 ?xs) []) (\<lambda>r. set r = latest_events ops events field)"
    using returns_collect_maximal [of ops "enumerate 0 ?xs" "enumerate 0 ?xs" "[]"]
    unfolding maximal_of_enumerate latest by simp
  have guard: "returns (guardR (all_semantically_equal maximal) e) (\<lambda>_. unambiguous ops events field)"
    if "set maximal = latest_events ops events field" for maximal e
    using that by (intro returnsI) (simp add: all_semantically_equal_iff unambiguous_def split: if_splits)
  show ?thesis
    unfolding reject_ambiguous_prior_def Let_def by (intro returns_bind_unit returns_bind [OF max guard])
qed

section \<open>Priors\<close>

text \<open>
  What it means that the recorded prior of an operation holds: in the state of its causal ancestors, for
  a resolution in the state of the common ancestors of the two operations it resolves, the latest changes
  of the field agree and the field has the recorded value.
\<close>

definition prior_holds ::
    "'f f64_ops \<Rightarrow> 'f project \<Rightarrow> 'f transform operation_map \<Rightarrow> 'f transform operation list
       \<Rightarrow> 'f transform operation \<Rightarrow> bool" where
  "prior_holds F baseline ops ord_ops op \<longleftrightarrow>
     (case payload op of
        Apply m \<Rightarrow>
          (\<exists>p active events. causal_state F ops ord_ops (ancestors_of ops (operation_id op)) baseline = Some (p, active, events) \<and>
            (case inverse_of op of
               Inv_Apply prior \<Rightarrow> unambiguous ops events (mutation_field_key prior) \<and> legacy_prior_matches p prior
             | Inv_ApplyV2 prior \<Rightarrow> unambiguous ops events (prior_field_key prior) \<and> typed_prior_matches p prior
             | Inv_NonReversible reason \<Rightarrow> is_bind_floor_evidence m \<and> schema_version op = V2
             | Inv_Toggle target direction \<Rightarrow> False))
      | Resolve l r m \<Rightarrow>
          (\<exists>p active events. causal_state F ops ord_ops
               (ancestors_of ops (ref_operation_id l) \<inter> ancestors_of ops (ref_operation_id r)) baseline = Some (p, active, events) \<and>
            unambiguous ops events (mutation_field_key m) \<and> field_value p (mutation_field_key m) \<noteq> None \<and>
            (\<exists>prior. inverse_of op = Inv_Apply prior \<and> legacy_prior_matches p prior))
      | ResolveV2 l r v \<Rightarrow>
          (\<exists>p active events. causal_state F ops ord_ops
               (ancestors_of ops (ref_operation_id l) \<inter> ancestors_of ops (ref_operation_id r)) baseline = Some (p, active, events) \<and>
            unambiguous ops events (resolution_field_key v) \<and> field_value p (resolution_field_key v) \<noteq> None \<and>
            (\<exists>prior. inverse_of op = Inv_ApplyV2 prior \<and> typed_prior_matches p prior))
      | _ \<Rightarrow> True)"

lemma returns_guardR: "returns (guardR b e) (\<lambda>_. b)"
  by (auto simp: returns_def split: if_splits)

lemma returns_const_bind: "returns m (\<lambda>_. A) \<Longrightarrow> (A \<Longrightarrow> returns (f ()) Q) \<Longrightarrow> returns (bindR m f) Q"
  by (rule returns_bind [where P = "\<lambda>_. A"]) auto

lemma returns_legacy_prior: "returns (lift_result (validate_legacy_prior oid p prior)) (\<lambda>_. legacy_prior_matches p prior)"
  by (rule returns_lift_result) (auto simp: validate_legacy_prior_def split: if_splits)

lemma returns_typed_prior: "returns (lift_result (validate_typed_prior oid p prior)) (\<lambda>_. typed_prior_matches p prior)"
  by (rule returns_lift_result) (auto simp: validate_typed_prior_def split: if_splits)

lemma returns_resolution_prior:
  assumes "ops_inv ops" "acyclic (parent_rel ops)"
  shows "returns (validate_resolution_prior F op l r field witness_ids legacy typed ops ord_ops baseline cb)
    (\<lambda>_. \<exists>p active events. causal_state F ops ord_ops
         (ancestors_of ops (ref_operation_id l) \<inter> ancestors_of ops (ref_operation_id r)) baseline = Some (p, active, events) \<and>
       unambiguous ops events field \<and> field_value p field \<noteq> None \<and>
       (\<forall>prior. legacy = Some prior \<longrightarrow> legacy_prior_matches p prior) \<and>
       (\<forall>prior. typed = Some prior \<longrightarrow> typed_prior_matches p prior))"
proof -
  have legacy: "returns (case legacy of None \<Rightarrow> ret ()
      | Some prior \<Rightarrow> lift_result (validate_legacy_prior (operation_id op) p prior))
      (\<lambda>_. \<forall>prior. legacy = Some prior \<longrightarrow> legacy_prior_matches p prior)" for p
    by (cases legacy) (auto intro: returns_ret returns_legacy_prior)
  have typed: "returns (case typed of None \<Rightarrow> ret ()
      | Some prior \<Rightarrow> lift_result (validate_typed_prior (operation_id op) p prior))
      (\<lambda>_. \<forall>prior. typed = Some prior \<longrightarrow> typed_prior_matches p prior)" for p
    by (cases typed) (auto intro: returns_ret returns_typed_prior)
  show ?thesis
    unfolding validate_resolution_prior_def
    by (rule returns_bind [OF returns_common_causal_state [OF assms]],
        rule returns_const_bind [OF returns_reject_ambiguous], rule returns_const_bind [OF legacy],
        rule returns_const_bind [OF typed], rule returns_mono [OF returns_guardR])
      (auto simp: core_def)
qed

lemma returns_operation_prior:
  assumes "ops_inv ops" "acyclic (parent_rel ops)"
    and "causal_state F ops ord_ops (ancestors_of ops (operation_id op)) baseline = Some (core causal)"
  shows "returns (validate_operation_prior F op baseline causal witness_ids ops ord_ops cb)
    (\<lambda>_. prior_holds F baseline ops ord_ops op)"
proof (cases "payload op")
  case (Apply m)
  note state = assms(3) [unfolded core_def]
  show ?thesis
  proof (cases "inverse_of op")
    case (Inv_Apply prior)
    show ?thesis
      unfolding validate_operation_prior_def Apply Inv_Apply operation_payload.case inverse_metadata.case
      by (rule returns_bind_guardR, rule returns_const_bind [OF returns_reject_ambiguous],
          rule returns_mono [OF returns_legacy_prior]) (auto simp: prior_holds_def Apply Inv_Apply state)
  next
    case (Inv_ApplyV2 prior)
    show ?thesis
      unfolding validate_operation_prior_def Apply Inv_ApplyV2 operation_payload.case inverse_metadata.case
      by (rule returns_const_bind [OF returns_reject_ambiguous],
          rule returns_mono [OF returns_typed_prior]) (auto simp: prior_holds_def Apply Inv_ApplyV2 state)
  next
    case (Inv_NonReversible reason)
    show ?thesis
      unfolding validate_operation_prior_def Apply Inv_NonReversible operation_payload.case inverse_metadata.case
      by (rule returns_mono [OF returns_guardR]) (auto simp: prior_holds_def Apply Inv_NonReversible state)
  next
    case (Inv_Toggle target direction)
    then show ?thesis by (simp add: validate_operation_prior_def Apply returns_fail)
  qed
next
  case (Resolve l r m)
  have "returns (case inverse_of op of Inv_Apply prior \<Rightarrow> ret prior | _ \<Rightarrow> fail e) (\<lambda>prior. inverse_of op = Inv_Apply prior)"
    for e by (cases "inverse_of op") (auto intro: returns_rules)
  then show ?thesis
    unfolding validate_operation_prior_def Resolve operation_payload.case
    by (rule returns_bind, intro returns_mono [OF returns_resolution_prior [OF assms(1,2)]])
      (auto simp: prior_holds_def Resolve)
next
  case (ResolveV2 l r v)
  have "returns (case inverse_of op of Inv_ApplyV2 prior \<Rightarrow> ret prior | _ \<Rightarrow> fail e) (\<lambda>prior. inverse_of op = Inv_ApplyV2 prior)"
    for e by (cases "inverse_of op") (auto intro: returns_rules)
  then show ?thesis
    unfolding validate_operation_prior_def ResolveV2 operation_payload.case
    by (rule returns_bind, intro returns_mono [OF returns_resolution_prior [OF assms(1,2)]])
      (auto simp: prior_holds_def ResolveV2)
qed (simp_all add: validate_operation_prior_def prior_holds_def returns_ret)

lemma returns_validate_priors:
  assumes inv: "ops_inv ops" and acyc: "acyclic (parent_rel ops)"
  shows "(\<And>op. op \<in> set xs \<Longrightarrow> bm_get ops (operation_id op) = Some op) \<Longrightarrow>
    returns (validate_priors F baseline ops ord_ops cb xs witness_ids)
      (\<lambda>_. \<forall>op \<in> set xs. prior_holds F baseline ops ord_ops op)"
proof (induction xs arbitrary: witness_ids)
  case (Cons op xs)
  have op: "bm_get ops (operation_id op) = Some op" by (simp add: Cons.prems)
  have rest: "returns (validate_priors F baseline ops ord_ops cb xs ids)
      (\<lambda>_. \<forall>op \<in> set xs. prior_holds F baseline ops ord_ops op)" for ids
    by (rule Cons.IH) (simp add: Cons.prems)
  show ?case
    unfolding validate_priors.simps
    by (rule returns_bind [OF returns_causal_before [OF op acyc]], rule returns_bind_skip,
        rule returns_const_bind [OF returns_operation_prior [OF inv acyc]], assumption,
        rule returns_mono [OF rest]) simp
qed (simp add: returns_ret)

end
