(* ===== verification/Materialized_Project.thy ===== *)
theory Materialized_Project
  imports Materializer_Causality Operation_Samples
begin

text \<open>
  What a successful materialization returns: the replay effects applied one by one to the baseline, as
  valid project states, with every causal check passed.
\<close>

section \<open>Evidence bindings\<close>

definition next_overrides ::
    "'t applied_effect \<Rightarrow> (map_asset_id, floor_id option) btree_map \<Rightarrow> (map_asset_id, floor_id option) btree_map" where
  "next_overrides eff ov = (case effect_override eff of None \<Rightarrow> ov | Some (m, floor) \<Rightarrow> bm_insert m floor ov)"

text \<open>The floors that the effects change, with the operations they are attributed to.\<close>

fun floor_changes ::
    "'f project \<Rightarrow> (map_asset_id, floor_id option) btree_map \<Rightarrow> 't applied_effect list \<Rightarrow> (floor_id \<times> operation_id) list" where
  "floor_changes baseline ov [] = []"
| "floor_changes baseline ov (eff # rest) =
     (case effect_floor baseline ov eff of None \<Rightarrow> [] | Some floor \<Rightarrow> [(floor, effect_operation_id eff)]) @
     floor_changes baseline (next_overrides eff ov) rest"

definition entries_at :: "('k, 'v list) btree_map \<Rightarrow> 'k \<Rightarrow> 'v set" where
  "entries_at m k = (case bm_get m k of None \<Rightarrow> {} | Some vs \<Rightarrow> set vs)"

lemma entries_at_push [simp]: "entries_at (push_entry k v m) k' = (if k' = k then insert v (entries_at m k) else entries_at m k')"
  by (auto simp: entries_at_def push_entry_def split: option.splits)

lemma entries_at_Nil [simp]: "entries_at [] k = {}"
  by (simp add: entries_at_def)

lemma returns_index_effects:
  "returns (index_effects baseline effs ix) (\<lambda>ix'.
     (\<forall>floor. entries_at (fx_locks ix') floor = entries_at (fx_locks ix) floor \<union>
        {effect_operation_id e |e. e \<in> set effs \<and> effect_lock e = Some floor}) \<and>
     (\<forall>floor. entries_at (fx_mutations ix') floor = entries_at (fx_mutations ix) floor \<union>
        {i. (floor, i) \<in> set (floor_changes baseline (fx_overrides ix) effs)}))"
proof (induction effs arbitrary: ix)
  case Nil
  then show ?case by (auto intro: returns_ret)
next
  case (Cons eff effs)
  have ov: "returns (case effect_override eff of None \<Rightarrow> ret (fx_overrides ix)
      | Some (map_id, floor) \<Rightarrow> bindR (mz_working ESTIMATED_STRUCTURAL_ENTRY_BYTES) (\<lambda>_. ret (bm_insert map_id floor (fx_overrides ix))))
      (\<lambda>ov. ov = next_overrides eff (fx_overrides ix))"
    by (auto simp: next_overrides_def intro!: returns_ret returns_bind_unit split: option.splits prod.splits)
  show ?case
    unfolding index_effects.simps Let_def
    by (intro returns_bind_unit returns_bind [OF ov] returns_mono [OF Cons.IH])
      (auto split: option.splits)
qed

definition ordered_causally :: "'t operation_map \<Rightarrow> operation_id \<Rightarrow> operation_id \<Rightarrow> bool" where
  "ordered_causally ops a b \<longleftrightarrow> a = b \<or> is_ancestor ops a b \<or> is_ancestor ops b a"

lemma returns_check_lock:
  "returns (check_lock ops floor e ms) (\<lambda>_. \<forall>m \<in> set ms. ordered_causally ops e m)"
proof (induction ms)
  case (Cons m ms)
  show ?case
  proof (cases "e = m")
    case True
    then show ?thesis using Cons.IH by (simp add: ordered_causally_def)
  next
    case False
    have "returns (bindR (mz_charge_with_limit AggregateConflictChecks 1 MAX_AGGREGATE_CONFLICT_CHECKS) (\<lambda>_.
        bindR (mz_is_ancestor ops e m) (\<lambda>ea. bindR (mz_is_ancestor ops m e) (\<lambda>ma.
        bindR (guardR (\<not> (\<not> ea \<and> \<not> ma)) (MZ_AggregateConflict floor e m)) (\<lambda>_. check_lock ops floor e ms)))))
      (\<lambda>_. \<forall>m \<in> set (m # ms). ordered_causally ops e m)"
      by (rule returns_bind_unit, rule returns_bind [OF returns_mz_is_ancestor],
          rule returns_bind [OF returns_mz_is_ancestor], rule returns_bind_guardR, rule returns_mono [OF Cons.IH])
        (auto simp: ordered_causally_def)
    with False show ?thesis by simp
  qed
qed (simp add: returns_ret)

lemma returns_check_floor_locks:
  "returns (check_floor_locks ops floor es ms) (\<lambda>_. \<forall>e \<in> set es. \<forall>m \<in> set ms. ordered_causally ops e m)"
proof (induction es)
  case (Cons e es)
  show ?case
    unfolding check_floor_locks.simps
    by (rule returns_const_bind [OF returns_check_lock], rule returns_mono [OF Cons.IH]) auto
qed (simp add: returns_ret)

lemma returns_check_locks:
  "returns (check_locks ops locks ms) (\<lambda>_. \<forall>(floor, es) \<in> set locks. \<forall>e \<in> set es. \<forall>m \<in> entries_at ms floor.
     ordered_causally ops e m)"
proof (induction locks)
  case (Cons lock locks)
  obtain floor es where lock: "lock = (floor, es)" by fastforce
  show ?case
    unfolding lock check_locks.simps
    by (rule returns_const_bind [OF returns_check_floor_locks], rule returns_mono [OF Cons.IH])
      (auto simp: entries_at_def split: option.splits)
qed (simp add: returns_ret)

lemma returns_reject_aggregate:
  "returns (reject_cross_field_aggregate_conflicts baseline ops effects) (\<lambda>_.
     \<forall>e \<in> set effects. \<forall>floor i. effect_lock e = Some floor \<longrightarrow> (floor, i) \<in> set (floor_changes baseline [] effects) \<longrightarrow>
       ordered_causally ops (effect_operation_id e) i)"
proof -
  have step: "returns (check_locks ops (fx_locks ix) (fx_mutations ix)) (\<lambda>_.
     \<forall>e \<in> set effects. \<forall>floor i. effect_lock e = Some floor \<longrightarrow> (floor, i) \<in> set (floor_changes baseline [] effects) \<longrightarrow>
       ordered_causally ops (effect_operation_id e) i)"
    if locks: "\<forall>floor. entries_at (fx_locks ix) floor = {effect_operation_id e |e. e \<in> set effects \<and> effect_lock e = Some floor}"
      and muts: "\<forall>floor. entries_at (fx_mutations ix) floor = {i. (floor, i) \<in> set (floor_changes baseline [] effects)}" for ix
  proof (rule returns_mono [OF returns_check_locks], intro ballI allI impI)
    fix u e floor i
    assume ok: "\<forall>(floor, es) \<in> set (fx_locks ix). \<forall>e \<in> set es. \<forall>m \<in> entries_at (fx_mutations ix) floor. ordered_causally ops e m"
      and e: "e \<in> set effects" "effect_lock e = Some floor" "(floor, i) \<in> set (floor_changes baseline [] effects)"
    have "effect_operation_id e \<in> entries_at (fx_locks ix) floor" using locks e by auto
    then obtain es where "(floor, es) \<in> set (fx_locks ix)" "effect_operation_id e \<in> set es"
      by (auto simp: entries_at_def dest: map_of_SomeD split: option.splits)
    moreover have "i \<in> entries_at (fx_mutations ix) floor" using muts e by simp
    ultimately show "ordered_causally ops (effect_operation_id e) i" using ok by fastforce
  qed
  show ?thesis
    unfolding reject_cross_field_aggregate_conflicts_def
    by (rule returns_bind_unit, rule returns_bind [OF returns_index_effects], rule step) simp_all
qed

section \<open>Application of the effects\<close>

definition materialize_effect ::
    "'f f64_ops \<Rightarrow> 'f transform operation_map \<Rightarrow> 'f transform applied_effect \<Rightarrow> 'f project
       \<Rightarrow> 'f transform materialization_error + 'f project" where
  "materialize_effect F ops eff p =
     bindE (some_or (bm_get ops (effect_operation_id eff)) (MZ_UnsupportedOperation (effect_operation_id eff)
       ''effect operation is absent from operation set'')) (\<lambda>op. apply_effect F p op eff)"

lemma returns_apply_effects:
  "returns (apply_effects F ops effs n p) (\<lambda>q. foldE (materialize_effect F ops) effs p = Inr q)"
proof (induction effs arbitrary: n p)
  case Nil
  then show ?case by (auto intro: returns_ret)
next
  case (Cons eff effs)
  show ?case
    unfolding apply_effects.simps
    by (intro returns_bind_unit returns_bind_ok_or returns_bind_skip [of _ _ "before_apply _ _"] returns_bind_lift
        returns_mono [OF Cons.IH]) (simp add: materialize_effect_def)
qed

lemma materialize_effectD:
  assumes "materialize_effect F ops eff p = Inr q"
  obtains op cmd where "bm_get ops (effect_operation_id eff) = Some op"
    "effect_command op (le_value (local_effect_of eff)) = Inr cmd"
    "apply_materialized F p (effect_operation_id eff) (logical_time op) cmd = Inr q"
proof -
  have id: "le_operation_id (local_effect_of eff) = effect_operation_id eff" by (cases eff) simp_all
  from assms obtain op cmd where "bm_get ops (effect_operation_id eff) = Some op"
    "effect_command op (le_value (local_effect_of eff)) = Inr cmd"
    "map_sum MZ_Domain id (apply_materialized F p (effect_operation_id eff) (logical_time op) cmd) = Inr q"
    by (auto simp: materialize_effect_def apply_effect_def apply_local_effect_def id)
  then show thesis by (intro that) (auto simp: map_sum_def split: sum.splits)
qed

lemma materialized_bookkeeping:
  assumes "foldE (materialize_effect F ops) effs p = Inr q"
  shows "pj_id q = pj_id p" "pj_revision q = pj_revision p + of_nat (length effs)"
    "dom (bm_get (pj_applied_operations q)) = dom (bm_get (pj_applied_operations p)) \<union> effect_operation_id ` set effs"
    "distinct (map effect_operation_id effs)"
    "effect_operation_id ` set effs \<inter> dom (bm_get (pj_applied_operations p)) = {}"
    "effs \<noteq> [] \<Longrightarrow> pj_schema_version q = PV2"
    "project_state F p \<Longrightarrow> project_state F q"
proof -
  have "pj_id q = pj_id p \<and> pj_revision q = pj_revision p + of_nat (length effs) \<and>
    dom (bm_get (pj_applied_operations q)) = dom (bm_get (pj_applied_operations p)) \<union> effect_operation_id ` set effs \<and>
    distinct (map effect_operation_id effs) \<and>
    effect_operation_id ` set effs \<inter> dom (bm_get (pj_applied_operations p)) = {} \<and>
    (effs \<noteq> [] \<longrightarrow> pj_schema_version q = PV2) \<and> (effs = [] \<longrightarrow> q = p) \<and>
    (pj_schema_version p = PV2 \<longrightarrow> pj_schema_version q = PV2) \<and> (project_state F p \<longrightarrow> project_state F q)"
    using assms
  proof (induction effs arbitrary: p)
    case (Cons eff effs)
    from Cons.prems obtain p' where p': "materialize_effect F ops eff p = Inr p'"
      "foldE (materialize_effect F ops) effs p' = Inr q" by auto
    from p'(1) obtain t cmd where mat: "apply_materialized F p (effect_operation_id eff) t cmd = Inr p'"
      by (rule materialize_effectD) (rule that)
    from mat obtain c ev u where c: "apply_command F (p\<lparr>pj_schema_version := PV2\<rparr>) cmd = Inr (c, ev, u)"
      "bm_get (pj_applied_operations p) (effect_operation_id eff) = None"
      "p' = c\<lparr>pj_revision := pj_revision p + 1, pj_logical_time := max (pj_logical_time p) t,
           pj_applied_operations := bm_insert (effect_operation_id eff) (pj_revision p + 1) (pj_applied_operations p)\<rparr>"
      by (rule apply_materializedD)
    have "project_state F p \<Longrightarrow> project_state F p'"
      using project_state.stepped project_step.materialized [OF mat] by blast
    moreover have "pj_id p' = pj_id p" "pj_schema_version p' = PV2"
      using apply_command_bookkeeping [OF c(1)] c(3) by simp_all
    ultimately show ?case using Cons.IH [OF p'(2)] c(2,3) by (auto simp: dom_def)
  qed auto
  then show "pj_id q = pj_id p" "pj_revision q = pj_revision p + of_nat (length effs)"
    "dom (bm_get (pj_applied_operations q)) = dom (bm_get (pj_applied_operations p)) \<union> effect_operation_id ` set effs"
    "distinct (map effect_operation_id effs)"
    "effect_operation_id ` set effs \<inter> dom (bm_get (pj_applied_operations p)) = {}"
    "effs \<noteq> [] \<Longrightarrow> pj_schema_version q = PV2"
    "project_state F p \<Longrightarrow> project_state F q" by auto
qed

section \<open>The floor index is exact\<close>

lemma materialize_effect_maps:
  assumes "materialize_effect F ops eff p = Inr q" "project_wf p"
  shows "project_wf q" "map_option ma_floor_id (bm_get (pj_maps q) k) =
    (case effect_override eff of
       Some (m, floor) \<Rightarrow> if k = m then floor else map_option ma_floor_id (bm_get (pj_maps p) k)
     | None \<Rightarrow> map_option ma_floor_id (bm_get (pj_maps p) k))"
proof -
  from assms(1) obtain op cmd where cmd: "effect_command op (le_value (local_effect_of eff)) = Inr cmd"
    "apply_materialized F p (effect_operation_id eff) (logical_time op) cmd = Inr q" by (rule materialize_effectD)
  from cmd(2) obtain c ev u where c: "apply_command F (p\<lparr>pj_schema_version := PV2\<rparr>) cmd = Inr (c, ev, u)"
    "q = c\<lparr>pj_revision := pj_revision p + 1, pj_logical_time := max (pj_logical_time p) (logical_time op),
           pj_applied_operations := bm_insert (effect_operation_id eff) (pj_revision p + 1) (pj_applied_operations p)\<rparr>"
    by (rule apply_materializedD)
  show "project_wf q" using project_stepE [OF project_step.materialized [OF cmd(2)]] assms(2) by metis
  have inv: "bm_inv (pj_maps p)" using assms(2) by (simp add: project_wf_def)
  show "map_option ma_floor_id (bm_get (pj_maps q) k) =
    (case effect_override eff of
       Some (m, floor) \<Rightarrow> if k = m then floor else map_option ma_floor_id (bm_get (pj_maps p) k)
     | None \<Rightarrow> map_option ma_floor_id (bm_get (pj_maps p) k))"
  proof (cases eff)
    case (Eff_Mutation am)
    then show ?thesis
      using c cmd(1) inv by (cases "am_mutation am")
        (auto simp: effect_override_def if_Inl_iff elim!: activateD split: if_splits)
  next
    case (Eff_Calibration oid map_id calibration)
    then show ?thesis using c cmd(1) by (auto simp: effect_override_def elim!: activateD)
  qed
qed

definition overrides_agree :: "'f project \<Rightarrow> (map_asset_id, floor_id option) btree_map \<Rightarrow> 'f project \<Rightarrow> bool" where
  "overrides_agree baseline ov p \<longleftrightarrow> (\<forall>k. map_floor baseline ov k = map_option ma_floor_id (bm_get (pj_maps p) k))"

lemma effect_floor_agree:
  "overrides_agree baseline ov p \<Longrightarrow> effect_floor baseline ov eff = effect_floor p [] eff"
  by (auto simp: overrides_agree_def effect_floor_def map_floor_def [of p "[]"] split: applied_effect.split mutation.split)

lemma overrides_agree_step:
  assumes "overrides_agree baseline ov p" "materialize_effect F ops eff p = Inr q" "project_wf p"
  shows "overrides_agree baseline (next_overrides eff ov) q"
  unfolding overrides_agree_def
proof
  fix k
  show "map_floor baseline (next_overrides eff ov) k = map_option ma_floor_id (bm_get (pj_maps q) k)"
    using assms(1) unfolding materialize_effect_maps(2) [OF assms(2,3)]
    by (auto simp: overrides_agree_def next_overrides_def map_floor_def split: option.splits)
qed

lemma floor_changes_exact:
  assumes "overrides_agree baseline ov p" "project_wf p"
    and "n < length effs" "foldE (materialize_effect F ops) (take n effs) p = Inr r"
    and "effect_floor r [] (effs ! n) = Some floor"
  shows "(floor, effect_operation_id (effs ! n)) \<in> set (floor_changes baseline ov effs)"
  using assms
proof (induction effs arbitrary: ov p n)
  case (Cons eff effs)
  show ?case
  proof (cases n)
    case 0
    with Cons.prems show ?thesis using effect_floor_agree [OF Cons.prems(1), of eff] by simp
  next
    case (Suc j)
    with Cons.prems(4) obtain p' where p': "materialize_effect F ops eff p = Inr p'"
      "foldE (materialize_effect F ops) (take j effs) p' = Inr r" by auto
    have "(floor, effect_operation_id (effs ! j)) \<in> set (floor_changes baseline (next_overrides eff ov) effs)"
      using Cons.prems Suc p' overrides_agree_step [OF _ p'(1)] materialize_effect_maps(1) [OF p'(1)]
      by (intro Cons.IH) auto
    with Suc show ?thesis by simp
  qed
qed simp

section \<open>Identities without a budget\<close>

lemma write_each_budgeted:
  "write_each budgeted_write bs g = (Inr u, g') \<Longrightarrow> write_each bounded_write bs (gw_writer g) = (Inr u, gw_writer g')"
proof (induction bs arbitrary: g)
  case (Cons b bs)
  show ?case
  proof (cases "b = []")
    case False
    with Cons.prems obtain n g1 where step: "budgeted_write b g = (Inr n, g1)" "write_each budgeted_write bs g1 = (Inr u, g')"
      by (auto simp: bindR_Inr_iff)
    from step(1) have "bounded_write b (gw_writer g) = (Inr n, gw_writer g1)"
      by (auto simp: budgeted_write_def split: prod.splits sum.splits)
    with False Cons.IH [OF step(2)] show ?thesis by (simp add: bindR_Inr)
  qed (use Cons in simp)
qed simp

lemma returns_project_bytes:
  "returns (canonical_project_bytes_with_budget pf p) (\<lambda>bytes. canonical_project_bytes pf p = Inr bytes)"
proof (rule returnsI)
  fix b bytes t assume run: "canonical_project_bytes_with_budget pf p b = (Inr bytes, t)"
  obtain buffers finished where w: "project_writes pf p = (buffers, finished)" by fastforce
  let ?g = "\<lparr>gw_writer = bounded_writer_new MAX_PROJECT_BYTES, gw_budget = b, gw_budget_error = None\<rparr>"
  obtain r g where g: "write_each budgeted_write buffers ?g = (r, g)" by fastforce
  from run have "\<not> isl r" "finished" "bytes = bw_bytes (gw_writer g)"
    by (auto simp: canonical_project_bytes_with_budget_def w g split: if_splits option.splits)
  moreover from this obtain u where "r = Inr u" by (cases r) auto
  ultimately show "canonical_project_bytes pf p = Inr bytes"
    using write_each_budgeted [of buffers ?g u g] g
    by (simp add: canonical_project_bytes_def canonical_project_bytes_with_limit_def w)
qed

lemma returns_baseline_identity:
  "returns (baseline_from_project_with_budget fmt pf p) (\<lambda>bi. baseline_from_project fmt pf p = Inr bi)"
  unfolding baseline_from_project_with_budget_def baseline_from_parts_with_budget_def
  by (rule returns_bind [OF returns_project_bytes], intro returns_bind_lift returns_bind_unit returns_lift_result)
    (simp add: baseline_from_project_def)

lemma returns_set_identity:
  "returns (identity_of_operation_set_with_budget fmt s) (\<lambda>si. identity_of_operation_set fmt s = Inr si)"
  unfolding identity_of_operation_set_with_budget_def case_prod_unfold
  by (intro returns_bind_skip returns_lift_result)

section \<open>Materialization\<close>

lemma returns_exact: "returns m (\<lambda>x. \<exists>s t. m s = (Inr x, t))"
  by (auto simp: returns_def)

definition materialization_of ::
    "'f f64_ops \<Rightarrow> 'f transform wire_format \<Rightarrow> 'f project_format \<Rightarrow> 'f project \<Rightarrow> 'f transform operation_set
       \<Rightarrow> 'f materialized_project \<Rightarrow> 'f transform applied_effect list \<Rightarrow> 'f transform operation list \<Rightarrow> bool" where
  "materialization_of F fmt pf baseline s m effects ord_ops \<longleftrightarrow>
     pj_id baseline = set_project_id s \<and>
     (\<forall>op \<in> set (bm_values (set_operations s)). admit_operation baseline op = Inr ()) \<and>
     (\<exists>bi si. baseline_from_project fmt pf baseline = Inr bi \<and> identity_of_operation_set fmt s = Inr si \<and>
        identity_bind bi si = Inr (mz_identity m)) \<and>
     (\<exists>b b'. replay_effects_with_budget s b = (Inr effects, b')) \<and> ordered s = Inr ord_ops \<and>
     (\<forall>e \<in> set effects. \<forall>floor i. effect_lock e = Some floor \<longrightarrow>
        (floor, i) \<in> set (floor_changes baseline [] effects) \<longrightarrow> ordered_causally (set_operations s) (effect_operation_id e) i) \<and>
     (\<exists>cb b b'. validate_priors F baseline (set_operations s) ord_ops cb ord_ops [] b = (Inr (), b')) \<and>
     foldE (materialize_effect F (set_operations s)) effects baseline = Inr (mz_project m)"

lemma map_sum_id_iff: "map_sum f id r = Inr x \<longleftrightarrow> r = Inr x"
  by (cases r) auto

lemma returns_materialize_local:
  "returns (materialize_local F fmt pf baseline s) (\<lambda>m. \<exists>effects ord_ops. materialization_of F fmt pf baseline s m effects ord_ops)"
proof -
  let ?ops = "set_operations s"
  note inner = returns_map_err [OF returns_on_fst]
  show ?thesis
    unfolding materialize_local_def Let_def
  proof (rule returns_bind_guardR, rule returns_bind_guardR, rule returns_bind_lift,
      rule returns_bind [OF inner [OF returns_baseline_identity]], rule returns_bind [OF inner [OF returns_set_identity]],
      rule returns_bind_lift, rule returns_bind_lift, rule returns_bind_unit,
      rule returns_bind [OF inner [OF returns_exact]], rule returns_const_bind [OF returns_reject_aggregate],
      rule returns_bind_unit, rule returns_bind_lift, rule returns_bind [OF returns_exact],
      rule returns_bind [OF returns_clone_baseline], rule returns_bind [OF returns_apply_effects],
      rule returns_bind_guardR, rule returns_ret, goal_cases)
    case (1 u bi si identity cb effects ord_ops w start p)
    then show ?case
      by (intro exI [of _ effects] exI [of _ ord_ops]) (auto simp: materialization_of_def map_sum_id_iff; blast)
  qed
qed

lemma materialize_with_budgetD:
  assumes "materialize_with_budget F fmt pf baseline s b = (Inr m, b')"
  obtains effects ord_ops where "materialization_of F fmt pf baseline s m effects ord_ops"
proof -
  have "returns (materialize_with_budget F fmt pf baseline s)
      (\<lambda>m. \<exists>effects ord_ops. materialization_of F fmt pf baseline s m effects ord_ops)"
    unfolding materialize_with_budget_def
    by (rule returns_bind_unit, rule returnsI)
      (auto simp: with_local_usage_Inr dest: returnsD [OF returns_materialize_local])
  from returnsD [OF this assms] that show thesis by blast
qed

section \<open>A small materialization\<close>

definition plan_op ::
    "u8 \<Rightarrow> operation_schema_version \<Rightarrow> logical_timestamp \<Rightarrow> causal_depth \<Rightarrow> operation_id list \<Rightarrow> int transform mutation
       \<Rightarrow> int transform inverse_metadata \<Rightarrow> int transform operation" where
  "plan_op n v time depth ps m undo =
     \<lparr>schema_version = v, operation_id = [n], op_project_id = [8], actor_id = [1], device_id = [1], logical_time = time,
      causal_depth = depth, parents = ps, payload = Apply m, inverse_of = undo, content_hash = [n], canonical = [n]\<rparr>"

definition plan_rename :: "int transform operation" where
  "plan_rename = plan_op 11 V2 1 0 [] (SetProjectName [119]) (Inv_ApplyV2 (Prior_ProjectName [118]))"

definition plan_set :: "int transform operation_set" where
  "plan_set = \<lparr>set_project_id = [8], set_operations = [([11], plan_rename)]\<rparr>"

definition plan_format :: "int transform wire_format" where
  "plan_format = \<lparr>unsigned_to_vec = (\<lambda>u. Some (operation_id u)), wire_to_vec = (\<lambda>w. Some (operation_id w)),
     wire_writes = (\<lambda>w. ([operation_id w], True)), wire_parse = (\<lambda>b. None), sha256 = (\<lambda>b. b)\<rparr>"

definition plan_project_format :: "int project_format" where
  "plan_project_format = \<lparr>project_writes = (\<lambda>p. ([[0]], True)), project_parse = (\<lambda>b. None)\<rparr>"

lemma plan_materialized:
  "case fst (materialize_with_budget int_ops plan_format plan_project_format (project_new [8] [118]) plan_set
      default_materialization_budget) of Inr m \<Rightarrow> pj_name (mz_project m) = [119] | Inl e \<Rightarrow> False"
  by code_simp

lemma plan_run:
  obtains m b' where "materialize_with_budget int_ops plan_format plan_project_format (project_new [8] [118]) plan_set
      default_materialization_budget = (Inr m, b')" "pj_name (mz_project m) = [119]"
  using plan_materialized
  by (cases "materialize_with_budget int_ops plan_format plan_project_format (project_new [8] [118]) plan_set
      default_materialization_budget") (auto split: sum.splits)

text \<open>A map is imported and evidence is then bound to its floor.\<close>

definition plan_binding :: "int transform operation_map" where
  "plan_binding =
     [([11], plan_op 11 V3 1 0 [] (ImportMap sample_map) (Inv_ApplyV2 (Prior_MapAbsent [6]))),
      ([12], plan_op 12 V2 2 1 [[11]] (BindFloorEvidence [4] \<lparr>ir_hash = [9], ir_media_type = [118], ir_byte_length = 10\<rparr>)
        (Inv_NonReversible FloorEvidenceBinding))]"

definition plan_effects :: "int transform applied_effect list" where
  "plan_effects =
     [Eff_Mutation \<lparr>am_operation_id = [11], am_mutation = ImportMap sample_map\<rparr>,
      Eff_Mutation \<lparr>am_operation_id = [12],
        am_mutation = BindFloorEvidence [4] \<lparr>ir_hash = [9], ir_media_type = [118], ir_byte_length = 10\<rparr>\<rparr>]"

lemma plan_binding_accepted:
  "\<not> isl (fst (reject_cross_field_aggregate_conflicts planned_project plan_binding plan_effects
     (default_materialization_budget, resource_usage_default)))"
  by code_simp

section \<open>Properties\<close>

text \<open>
  Claim C14. A successful materialization is the replay of the operation set on the baseline: its project
  is reached from the baseline by applying the replay effects one after the other, each as a materialized
  command of the operation it is attributed to, so it is a valid project state of the same project; the
  revision grows by the number of effects, every effect has its own fresh receipt, and no receipt of the
  baseline is lost.
\<close>

theorem materialize_sound:
  assumes "materialize_with_budget F fmt pf baseline s b = (Inr m, b')" "project_state F baseline"
  shows "\<exists>effects c c'. replay_effects_with_budget s c = (Inr effects, c') \<and>
    foldE (materialize_effect F (set_operations s)) effects baseline = Inr (mz_project m) \<and>
    project_state F (mz_project m) \<and> project_ok F (mz_project m) \<and>
    pj_id (mz_project m) = set_project_id s \<and>
    pj_revision (mz_project m) = pj_revision baseline + of_nat (length effects) \<and>
    distinct (map effect_operation_id effects) \<and>
    effect_operation_id ` set effects \<inter> dom (bm_get (pj_applied_operations baseline)) = {} \<and>
    dom (bm_get (pj_applied_operations (mz_project m))) =
      dom (bm_get (pj_applied_operations baseline)) \<union> effect_operation_id ` set effects"
proof -
  from assms(1) obtain effects ord_ops where mz: "materialization_of F fmt pf baseline s m effects ord_ops"
    by (rule materialize_with_budgetD)
  then have fold: "foldE (materialize_effect F (set_operations s)) effects baseline = Inr (mz_project m)"
    and id: "pj_id baseline = set_project_id s" and "\<exists>c c'. replay_effects_with_budget s c = (Inr effects, c')"
    by (auto simp: materialization_of_def)
  moreover from this obtain c c' where "replay_effects_with_budget s c = (Inr effects, c')" by blast
  moreover note materialized_bookkeeping [OF fold]
  moreover from this(7) assms(2) have "project_state F (mz_project m)" "project_ok F (mz_project m)"
    using project_state_ok by blast+
  ultimately show ?thesis by (intro exI [of _ effects] exI [of _ c] exI [of _ c']) simp
qed

theorem materialize_sound_witness:
  "\<exists>m b' effects. materialize_with_budget int_ops plan_format plan_project_format (project_new [8] [118]) plan_set
      default_materialization_budget = (Inr m, b') \<and> pj_name (mz_project m) = [119] \<and>
     foldE (materialize_effect int_ops (set_operations plan_set)) effects (project_new [8] [118]) = Inr (mz_project m) \<and>
     project_ok int_ops (mz_project m) \<and> pj_revision (mz_project m) = of_nat (length effects)"
proof -
  obtain m b' where run: "materialize_with_budget int_ops plan_format plan_project_format (project_new [8] [118]) plan_set
      default_materialization_budget = (Inr m, b')" "pj_name (mz_project m) = [119]" by (rule plan_run)
  from materialize_sound [OF run(1) project_state.created] run show ?thesis
    by (auto simp: project_new_def)
qed

text \<open>
  Claim C15. A materialization never trusts a recorded prior: when it succeeds on an accepted set, every
  prior holds where it was recorded. For an apply the causal ancestors of the operation, and nothing else,
  are replayed on the baseline in the deterministic order; the causally latest changes of the edited field
  agree there and the field has exactly the recorded value. For a resolution the same is true of the common
  ancestors of the two operations it resolves, and the resolved field exists there. An evidence binding,
  which has to be of the second operation schema, is the only change without a prior.
\<close>

theorem causal_priors_hold:
  assumes "\<And>op. op \<in> set xs \<Longrightarrow> distinct (parents op) \<and> length (parents op) \<le> MAX_PARENTS"
    and "from_operations_with_budget xs c = (Inr s, c')"
    and "materialize_with_budget F fmt pf baseline s b = (Inr m, b')"
  shows "\<exists>ord_ops. kahn_order (set_operations s) ord_ops \<and> set ord_ops = set (bm_values (set_operations s)) \<and>
    (\<forall>op \<in> set (bm_values (set_operations s)). prior_holds F baseline (set_operations s) ord_ops op)"
proof -
  let ?ops = "set_operations s"
  note acc = from_operations_Inr [OF assms(1,2)]
  note acyc = graph_ok_acyclic [OF acc(3,4)]
  have "set (bm_values ?ops) \<subseteq> set xs"
    using acc(2) ops_value_iff [OF acc(3)] by (auto simp: union_map_get find_Some_iff)
  with assms(1) have small: "length (parents op) \<le> 2 ^ 32" if "op \<in> set (bm_values ?ops)" for op
    using that by (fastforce simp: MAX_PARENTS_def)
  from assms(3) obtain effects ord_ops where mz: "materialization_of F fmt pf baseline s m effects ord_ops"
    by (rule materialize_with_budgetD)
  then have "ordered s = Inr ord_ops" by (simp add: materialization_of_def)
  then obtain t where run: "ordered_with_budget ?ops default_operation_budget = (Inr ord_ops, t)"
    by (cases "ordered_with_budget ?ops default_operation_budget") (simp add: ordered_def)
  from refines_ordered [OF acc(3) small] obtain ys where ys: "kahn_order ?ops ys"
    "refines op_resource (ordered_with_budget ?ops) (if length ys = length ?ops then Inr ys else Inl OE_CyclicCausality)" by blast
  then have order: "kahn_order ?ops ord_ops" "length ord_ops = length ?ops"
    using refinesD(1) [OF ys(2) run] by (auto split: if_splits)
  then have all: "set ord_ops = set (bm_values ?ops)" using kahn_order_length [OF acc(3)] by blast
  from mz obtain cb st st' where "validate_priors F baseline ?ops ord_ops cb ord_ops [] st = (Inr (), st')"
    by (auto simp: materialization_of_def)
  moreover have "bm_get ?ops (operation_id op) = Some op" if "op \<in> set ord_ops" for op
    using that all ops_value_iff [OF acc(3)] by simp
  ultimately have "\<forall>op \<in> set ord_ops. prior_holds F baseline ?ops ord_ops op"
    using returnsD [OF returns_validate_priors [OF acc(3) acyc]] by blast
  with order(1) all show ?thesis by metis
qed

lemma plan_set_accepted: "from_operations [plan_rename] = Inr plan_set"
  by code_simp

theorem causal_priors_hold_witness:
  "\<exists>ord_ops. kahn_order (set_operations plan_set) ord_ops \<and>
     prior_holds int_ops (project_new [8] [118]) (set_operations plan_set) ord_ops plan_rename"
proof -
  obtain m b' where run: "materialize_with_budget int_ops plan_format plan_project_format (project_new [8] [118]) plan_set
      default_materialization_budget = (Inr m, b')" by (rule plan_run)
  obtain c' where acc: "from_operations_with_budget [plan_rename] default_operation_budget = (Inr plan_set, c')"
    using plan_set_accepted
    by (cases "from_operations_with_budget [plan_rename] default_operation_budget") (simp add: from_operations_def)
  have "plan_rename \<in> set (bm_values (set_operations plan_set))" by (simp add: plan_set_def)
  moreover have "distinct (parents plan_rename) \<and> length (parents plan_rename) \<le> MAX_PARENTS"
    by (simp add: plan_rename_def plan_op_def MAX_PARENTS_def)
  ultimately show ?thesis using causal_priors_hold [OF _ acc run] by auto
qed

text \<open>
  Claim C16. Evidence never depends on the order of independent changes. Once the check of aggregate
  conflicts has passed, take any effect of the replay that binds evidence to a floor, and any effect that,
  in the project state in which it is applied, changes a map or a calibration of that floor or imports a
  map on it: the two operations are the same or one is a causal ancestor of the other. The index of
  imported and removed maps from which the check reads the floors agrees with the project states.
\<close>

theorem evidence_changes_ordered:
  assumes "reject_cross_field_aggregate_conflicts baseline ops effects st = (Inr (), st')" "project_state F baseline"
    and "n < length effects" "foldE (materialize_effect F ops) (take n effects) baseline = Inr p"
    and "effect_floor p [] (effects ! n) = Some floor"
    and "e \<in> set effects" "effect_lock e = Some floor"
  shows "ordered_causally ops (effect_operation_id e) (effect_operation_id (effects ! n))"
proof -
  have "overrides_agree baseline [] baseline" by (simp add: overrides_agree_def map_floor_def)
  then have "(floor, effect_operation_id (effects ! n)) \<in> set (floor_changes baseline [] effects)"
    using project_state_valid [OF assms(2)] assms(3-5) by (intro floor_changes_exact) auto
  then show ?thesis using returnsD [OF returns_reject_aggregate assms(1)] assms(6,7) by blast
qed

theorem evidence_changes_ordered_witness: "ordered_causally plan_binding [12] [11]"
proof -
  obtain r st' where check: "reject_cross_field_aggregate_conflicts planned_project plan_binding plan_effects
      (default_materialization_budget, resource_usage_default) = (r, st')" by (meson surj_pair)
  moreover from this plan_binding_accepted have "r = Inr ()" by (cases r) simp_all
  ultimately have run: "reject_cross_field_aggregate_conflicts planned_project plan_binding plan_effects
      (default_materialization_budget, resource_usage_default) = (Inr (), st')" by simp
  have "ordered_causally plan_binding (effect_operation_id (plan_effects ! 1)) (effect_operation_id (plan_effects ! 0))"
    by (rule evidence_changes_ordered [OF run planned_project_state, where p = planned_project and floor = "[4]"])
      (simp_all add: plan_effects_def effect_floor_def effect_lock_def sample_map_def)
  then show ?thesis by (simp add: plan_effects_def)
qed

end
