(* ===== verification/Identity_Binding.thy ===== *)
theory Identity_Binding
  imports Materialization_Identity Operation_Samples Domain_Project_Valid
begin

text \<open>
  A materialization identity binds its inputs: equal identities stem from the same baseline and the
  same operation set, unless the hash collides.
\<close>

section \<open>Fixed-width fields\<close>

lemma length_to_be_bytes [simp]: "length (to_be_bytes v) = 8"
  by (simp add: to_be_bytes_def)

lemma from_be_bytes_to_be_bytes [simp]: "from_be_bytes (to_be_bytes v) = v"
  by (simp add: to_be_bytes_def from_be_bytes_def from_le_bytes_to_le_bytes)

lemma to_be_bytes_inject [simp]: "to_be_bytes v = to_be_bytes w \<longleftrightarrow> v = w"
  using from_be_bytes_to_be_bytes by metis

lemma u64_try_from_inject:
  "u64_try_from m = Some v \<Longrightarrow> u64_try_from n = Some v \<Longrightarrow> m = n"
  using unat_of_nat_u64 [of m] unat_of_nat_u64 [of n] by (simp add: u64_try_from_def split: if_splits)

lemma be_field_eq:
  "to_be_bytes v @ xs = to_be_bytes w @ ys \<longleftrightarrow> v = w \<and> xs = ys"
  by (simp add: append_eq_append_conv)

section \<open>Baselines\<close>

lemma write_each_bounded:
  "write_each bounded_write bs w = (Inr u, w') \<Longrightarrow> bw_bytes w' = bw_bytes w @ concat bs"
proof (induction bs arbitrary: w)
  case (Cons b bs)
  show ?case
  proof (cases "b = []")
    case False
    with Cons.prems obtain n w1 where step: "bounded_write b w = (Inr n, w1)" "write_each bounded_write bs w1 = (Inr u, w')"
      by (auto simp: bindR_Inr_iff)
    then have "bw_bytes w1 = bw_bytes w @ b"
      by (auto simp: bounded_write_def split: option.splits if_splits)
    with Cons.IH [OF step(2)] show ?thesis by simp
  qed (use Cons in simp)
qed simp

lemma canonical_project_bytesD:
  assumes "canonical_project_bytes pf p = Inr bytes"
  obtains bs where "project_writes pf p = (bs, True)" "bytes = concat bs"
proof -
  obtain bs finished where w: "project_writes pf p = (bs, finished)" by fastforce
  obtain r w' where r: "write_each bounded_write bs (bounded_writer_new MAX_PROJECT_BYTES) = (r, w')" by fastforce
  from assms w r have "\<not> isl r" "finished" "bytes = bw_bytes w'"
    by (auto simp: canonical_project_bytes_def canonical_project_bytes_with_limit_def split: if_splits)
  moreover from this obtain u where "r = Inr u" by (cases r) auto
  ultimately show thesis
    using that [of bs] w write_each_bounded [of bs _ u w'] r by (simp add: bounded_writer_new_def)
qed

lemma encode_baseline_inject:
  assumes "encode_baseline i v t bytes = Inr c" "encode_baseline i' v' t' bytes' = Inr c" "length i = 16" "length i' = 16"
  shows "i = i' \<and> v = v' \<and> t = t' \<and> bytes = bytes'"
proof -
  from assms(1) obtain n where n: "c = BASELINE_MAGIC @ [IDENTITY_VERSION] @ i @ to_be_bytes v @ to_be_bytes t @ to_be_bytes n @ bytes"
    by (auto simp: encode_baseline_def Let_def split: if_splits)
  from assms(2) obtain n' where "c = BASELINE_MAGIC @ [IDENTITY_VERSION] @ i' @ to_be_bytes v' @ to_be_bytes t' @ to_be_bytes n' @ bytes'"
    by (auto simp: encode_baseline_def Let_def split: if_splits)
  with n assms(3,4) show ?thesis by (simp add: append_eq_append_conv be_field_eq)
qed

lemma baseline_from_projectD:
  assumes "baseline_from_project fmt pf p = Inr b"
  obtains bs where "project_writes pf p = (bs, True)"
    "encode_baseline (pj_id p) (pj_revision p) (pj_logical_time p) (concat bs) = Inr (bi_canonical b)"
    "bi_content_hash b = identity_digest fmt BASELINE_DOMAIN (bi_canonical b)" "bi_project_id b = pj_id p"
proof -
  from assms obtain bytes canon where *: "canonical_project_bytes pf p = Inr bytes"
    "encode_baseline (pj_id p) (pj_revision p) (pj_logical_time p) bytes = Inr canon"
    "b = \<lparr>bi_project_id = pj_id p, bi_revision = pj_revision p, bi_logical_time = pj_logical_time p,
          bi_project_bytes = bytes, bi_canonical = canon, bi_content_hash = identity_digest fmt BASELINE_DOMAIN canon\<rparr>"
    by (auto simp: baseline_from_project_def baseline_from_parts_def bindE_Inr_iff)
  then show thesis using canonical_project_bytesD [OF *(1)] that by (metis baseline_identity.select_convs(1,5,6))
qed

section \<open>Operation sets\<close>

definition entry_of :: "'t wire_format \<Rightarrow> 't operation \<Rightarrow> identity_entry \<Rightarrow> bool" where
  "entry_of fmt op e \<longleftrightarrow> (\<exists>bytes. to_bytes fmt op = Inr bytes \<and> e = (operation_id op, content_hash op, bytes))"

lemma identity_entriesD:
  "identity_entries fmt xs sz acc = Inr entries \<Longrightarrow> \<exists>es. entries = acc @ es \<and> list_all2 (entry_of fmt) xs es"
proof (induction xs arbitrary: sz acc)
  case (Cons op xs)
  then obtain bytes sz' where "to_bytes fmt op = Inr bytes"
    "identity_entries fmt xs sz' (acc @ [(operation_id op, content_hash op, bytes)]) = Inr entries"
    by (auto simp: bindE_Inr_iff map_sum_def split: sum.splits if_splits)
  with Cons.IH obtain es where "entries = acc @ [(operation_id op, content_hash op, bytes)] @ es" "list_all2 (entry_of fmt) xs es"
    by fastforce
  with \<open>to_bytes fmt op = Inr bytes\<close> show ?case
    by (intro exI [of _ "(operation_id op, content_hash op, bytes) # es"]) (simp add: entry_of_def [of fmt op])
qed simp

lemma entry_widths:
  assumes "list_all2 (entry_of fmt) xs es"
    and "\<forall>op \<in> set xs. length (operation_id op) = 16 \<and> length (content_hash op) = 32"
  shows "\<forall>(i, h, b) \<in> set es. length i = 16 \<and> length h = 32"
  using assms by (induction rule: list_all2_induct) (auto simp: entry_of_def)

lemma encode_entries_inject:
  assumes "encode_entries es = Inr c" "encode_entries es' = Inr c" "length es = length es'"
    and "\<forall>(i, h, b) \<in> set es. length i = 16 \<and> length h = 32" "\<forall>(i, h, b) \<in> set es'. length i = 16 \<and> length h = 32"
  shows "es = es'"
  using assms(3,1,2,4,5)
proof (induction es es' arbitrary: c rule: list_induct2)
  case (Cons e es e' es')
  obtain i h b where e: "e = (i, h, b)" by (cases e)
  obtain i' h' b' where e': "e' = (i', h', b')" by (cases e')
  from Cons.prems(1) obtain n more where n: "u64_try_from (length b) = Some n" "encode_entries es = Inr more"
    "c = i @ h @ to_be_bytes n @ b @ more" by (auto simp: e bindE_Inr_iff)
  from Cons.prems(2) obtain n' more' where n': "u64_try_from (length b') = Some n'" "encode_entries es' = Inr more'"
    "c = i' @ h' @ to_be_bytes n' @ b' @ more'" by (auto simp: e' bindE_Inr_iff)
  have "length i = length i'" "length h = length h'" using Cons.prems(3,4) by (auto simp: e e')
  then have eq: "i = i'" "h = h'" "n = n'" "b @ more = b' @ more'"
    using n(3) n'(3) by (simp_all add: append_eq_append_conv be_field_eq)
  moreover from eq(3) have "length b = length b'" using u64_try_from_inject [OF n(1)] n'(1) by simp
  ultimately have "b = b'" "more = more'" by (simp_all add: append_eq_append_conv)
  with eq n(2) n'(2) Cons.IH [of more] Cons.prems(3,4) show ?case by (simp add: e e')
qed simp

lemma encode_operation_setD:
  assumes "encode_operation_set i es = Inr c"
  obtains n body where "u64_try_from (length es) = Some n" "encode_entries es = Inr body"
    "c = OPERATION_SET_MAGIC @ [IDENTITY_VERSION] @ i @ to_be_bytes n @ body"
  using assms by (auto simp: encode_operation_set_def Let_def bindE_Inr_iff if_Inl_iff)

lemma encode_operation_set_inject:
  assumes "encode_operation_set i es = Inr c" "encode_operation_set i' es' = Inr c" "length i = 16" "length i' = 16"
    and "\<forall>(i, h, b) \<in> set es. length i = 16 \<and> length h = 32" "\<forall>(i, h, b) \<in> set es'. length i = 16 \<and> length h = 32"
  shows "i = i' \<and> es = es'"
proof -
  from assms(1) obtain n body where n: "u64_try_from (length es) = Some n" "encode_entries es = Inr body"
    "c = OPERATION_SET_MAGIC @ [IDENTITY_VERSION] @ i @ to_be_bytes n @ body" by (rule encode_operation_setD)
  from assms(2) obtain n' body' where n': "u64_try_from (length es') = Some n'" "encode_entries es' = Inr body'"
    "c = OPERATION_SET_MAGIC @ [IDENTITY_VERSION] @ i' @ to_be_bytes n' @ body'" by (rule encode_operation_setD)
  have "i = i'" "n = n'" "body = body'" using n(3) n'(3) assms(3,4) by (simp_all add: append_eq_append_conv be_field_eq)
  with n n' have "length es = length es'" using u64_try_from_inject by blast
  with n(2) n'(2) \<open>body = body'\<close> \<open>i = i'\<close> show ?thesis using encode_entries_inject assms(5,6) by blast
qed

lemma identity_of_operation_setD:
  assumes "identity_of_operation_set fmt s = Inr i"
  obtains es where "list_all2 (entry_of fmt) (bm_values (set_operations s)) es"
    "encode_operation_set (set_project_id s) es = Inr (si_canonical i)"
    "si_content_hash i = identity_digest fmt OPERATION_SET_DOMAIN (si_canonical i)"
proof -
  from assms obtain es canon where *: "identity_entries fmt (bm_values (set_operations s)) OPERATION_SET_HEADER_BYTES [] = Inr es"
    "encode_operation_set (set_project_id s) es = Inr canon"
    "i = \<lparr>si_project_id = set_project_id s, si_operation_count = length es, si_canonical = canon,
          si_content_hash = identity_digest fmt OPERATION_SET_DOMAIN canon\<rparr>"
    by (auto simp: identity_of_operation_set_def bindE_Inr_iff if_Inl_iff)
  from identity_entriesD [OF *(1)] have "list_all2 (entry_of fmt) (bm_values (set_operations s)) es" by simp
  with * show thesis by (intro that) simp_all
qed

lemma wire_of_inject: "operation_wf fmt a \<Longrightarrow> operation_wf fmt b \<Longrightarrow> wire_of a = wire_of b \<Longrightarrow> a = b"
  using operation_try_from_wire_of by (metis sum.inject(2))

lemma entries_determine_operations:
  assumes "list_all2 (entry_of fmt) xs es" "list_all2 (entry_of fmt) ys es"
    and "\<And>op. op \<in> set xs \<union> set ys \<Longrightarrow> operation_wf fmt op"
    and "\<And>w bs. wire_to_vec fmt w = Some bs \<Longrightarrow> wire_parse fmt bs = Some w"
  shows "xs = ys"
  using assms(1,2,3)
proof (induction xs es arbitrary: ys rule: list_all2_induct)
  case (Cons x xs e es)
  then obtain y ys' where ys: "ys = y # ys'" "entry_of fmt y e" "list_all2 (entry_of fmt) ys' es"
    by (auto simp: list_all2_Cons2)
  from Cons.hyps(1) ys(2) obtain bs where "wire_to_vec fmt (wire_of x) = Some bs" "wire_to_vec fmt (wire_of y) = Some bs"
    by (auto simp: entry_of_def to_bytes_def split: option.splits if_splits)
  then have "wire_of x = wire_of y" using assms(4) by (metis option.inject)
  moreover have "operation_wf fmt x" "operation_wf fmt y" using Cons.prems(2) ys(1) by auto
  ultimately have "x = y" by (intro wire_of_inject)
  moreover have "xs = ys'" using Cons.prems(2) ys by (intro Cons.IH) auto
  ultimately show ?case by (simp add: ys(1))
qed simp

section \<open>A small pair of inputs\<close>

definition binding_operation :: "unit operation" where
  "binding_operation = demo_apply 1 1 0 [] [66]"

definition binding_set :: "unit operation_set" where
  "binding_set = \<lparr>set_project_id = demo_id 8, set_operations = [(demo_id 1, binding_operation)]\<rparr>"

definition binding_project :: "int project" where
  "binding_project = project_new (demo_id 8) [118]"

definition binding_format :: "unit wire_format" where
  "binding_format =
     \<lparr>unsigned_to_vec = (\<lambda>u. if u = unsigned_of binding_operation then Some [1] else None),
      wire_to_vec = (\<lambda>w. if w = wire_of binding_operation then Some [7] else None),
      wire_writes = (\<lambda>w. ([[7]], True)),
      wire_parse = (\<lambda>b. if b = [7] then Some (wire_of binding_operation) else None),
      sha256 = (\<lambda>b. demo_id 1 @ demo_id 1)\<rparr>"

definition binding_project_format :: "int project_format" where
  "binding_project_format =
     \<lparr>project_writes = (\<lambda>p. if p = binding_project then ([[5]], True) else ([], False)),
      project_parse = (\<lambda>b. if b = [5] then Some binding_project else None)\<rparr>"

lemma binding_operation_wf: "operation_wf binding_format binding_operation"
proof -
  have "validate_payload_inverse (schema_version binding_operation) (payload binding_operation) (inverse_of binding_operation) = Inr ()"
    "content_hash binding_operation = demo_id 1 @ demo_id 1" "canonical binding_operation = [1]"
    "parents binding_operation = []" "causal_depth binding_operation = 0"
    by (simp_all add: binding_operation_def demo_apply_def demo_op_def)
  then show ?thesis
    by (simp add: operation_wf_def binding_format_def digest_def MAX_OPERATION_CANONICAL_BYTES_def MAX_OPERATION_WIRE_BYTES_def)
qed

lemma binding_identity:
  "case (baseline_from_project binding_format binding_project_format binding_project, identity_of_operation_set binding_format binding_set) of
     (Inr b, Inr i) \<Rightarrow> \<not> isl (identity_bind b i) | _ \<Rightarrow> False"
  by code_simp

section \<open>Properties\<close>

text \<open>The lengths that the array types of identifiers and hashes have.\<close>

definition set_typed :: "'t operation_set \<Rightarrow> bool" where
  "set_typed s \<longleftrightarrow> length (set_project_id s) = 16 \<and> ops_inv (set_operations s) \<and>
     (\<forall>op \<in> set (bm_values (set_operations s)). length (operation_id op) = 16 \<and> length (content_hash op) = 32)"

lemma values_determine_map:
  assumes "ops_inv a" "ops_inv b" "bm_values a = bm_values b"
  shows "a = b"
proof -
  have "bm_keys a = bm_keys b" using ops_ids [OF assms(1)] ops_ids [OF assms(2)] assms(3) by simp
  then show ?thesis using assms(3) unfolding bm_values_def by (metis zip_map_fst_snd)
qed

text \<open>
  Claim C17. A materialization identity binds its inputs. If two pairs of a baseline and an operation set
  have the same identity, and the hash does not collide on their canonical bytes, then the two projects
  are equal and so are the two operation sets. The serializer only has to be one whose output its own
  parser reads back.
\<close>

theorem identity_binds_inputs:
  assumes "baseline_from_project fmt pf p = Inr b" "baseline_from_project fmt pf p' = Inr b'"
    and "identity_of_operation_set fmt s = Inr i" "identity_of_operation_set fmt s' = Inr i'"
    and "identity_bind b i = Inr m" "identity_bind b' i' = Inr m"
    and "\<And>q bs. project_writes pf q = (bs, True) \<Longrightarrow> project_parse pf (concat bs) = Some q"
    and "\<And>w bs. wire_to_vec fmt w = Some bs \<Longrightarrow> wire_parse fmt bs = Some w"
    and "sha256 fmt (BASELINE_DOMAIN @ bi_canonical b) = sha256 fmt (BASELINE_DOMAIN @ bi_canonical b') \<Longrightarrow>
           bi_canonical b = bi_canonical b'"
    and "sha256 fmt (OPERATION_SET_DOMAIN @ si_canonical i) = sha256 fmt (OPERATION_SET_DOMAIN @ si_canonical i') \<Longrightarrow>
           si_canonical i = si_canonical i'"
    and "length (pj_id p) = 16" "length (pj_id p') = 16" "set_typed s" "set_typed s'"
    and wf: "\<And>op. op \<in> set (bm_values (set_operations s)) \<union> set (bm_values (set_operations s')) \<Longrightarrow> operation_wf fmt op"
  shows "p = p' \<and> s = s'"
proof
  have hashes: "bi_content_hash b = bi_content_hash b'" "si_content_hash i = si_content_hash i'"
    using assms(5,6) by (auto simp: identity_bind_def split: if_splits)
  from assms(1) obtain bs where bs: "project_writes pf p = (bs, True)"
    "encode_baseline (pj_id p) (pj_revision p) (pj_logical_time p) (concat bs) = Inr (bi_canonical b)"
    "bi_content_hash b = identity_digest fmt BASELINE_DOMAIN (bi_canonical b)" by (rule baseline_from_projectD)
  from assms(2) obtain bs' where bs': "project_writes pf p' = (bs', True)"
    "encode_baseline (pj_id p') (pj_revision p') (pj_logical_time p') (concat bs') = Inr (bi_canonical b')"
    "bi_content_hash b' = identity_digest fmt BASELINE_DOMAIN (bi_canonical b')" by (rule baseline_from_projectD)
  have "bi_canonical b = bi_canonical b'"
    using hashes(1) bs(3) bs'(3) by (intro assms(9)) (simp add: identity_digest_def)
  with encode_baseline_inject [OF bs(2)] bs'(2) assms(11,12) have "concat bs = concat bs'" by auto
  with assms(7) [OF bs(1)] assms(7) [OF bs'(1)] show "p = p'" by simp
  from assms(3) obtain es where es: "list_all2 (entry_of fmt) (bm_values (set_operations s)) es"
    "encode_operation_set (set_project_id s) es = Inr (si_canonical i)"
    "si_content_hash i = identity_digest fmt OPERATION_SET_DOMAIN (si_canonical i)" by (rule identity_of_operation_setD)
  from assms(4) obtain es' where es': "list_all2 (entry_of fmt) (bm_values (set_operations s')) es'"
    "encode_operation_set (set_project_id s') es' = Inr (si_canonical i')"
    "si_content_hash i' = identity_digest fmt OPERATION_SET_DOMAIN (si_canonical i')" by (rule identity_of_operation_setD)
  have "si_canonical i = si_canonical i'"
    using hashes(2) es(3) es'(3) by (intro assms(10)) (simp add: identity_digest_def)
  moreover have "\<forall>(i, h, b) \<in> set es. length i = 16 \<and> length h = 32" "\<forall>(i, h, b) \<in> set es'. length i = 16 \<and> length h = 32"
    using entry_widths [OF es(1)] entry_widths [OF es'(1)] assms(13,14) by (simp_all add: set_typed_def)
  ultimately have same: "set_project_id s = set_project_id s'" "es = es'"
    using encode_operation_set_inject [OF es(2), of "set_project_id s'" es'] es'(2) assms(13,14) by (simp_all add: set_typed_def)
  have "bm_values (set_operations s) = bm_values (set_operations s')"
    using es'(1) same(2) by (intro entries_determine_operations [OF es(1) _ wf assms(8)]) auto
  then have "set_operations s = set_operations s'"
    using assms(13,14) by (intro values_determine_map) (auto simp: set_typed_def)
  with same(1) show "s = s'" by simp
qed

theorem identity_binds_inputs_witness:
  "\<exists>b i m. baseline_from_project binding_format binding_project_format binding_project = Inr b \<and>
     identity_of_operation_set binding_format binding_set = Inr i \<and> identity_bind b i = Inr m \<and>
     binding_project = binding_project \<and> binding_set = binding_set"
proof -
  from binding_identity obtain b i m where id:
    "baseline_from_project binding_format binding_project_format binding_project = Inr b"
    "identity_of_operation_set binding_format binding_set = Inr i" "identity_bind b i = Inr m"
    by (cases "baseline_from_project binding_format binding_project_format binding_project";
        cases "identity_of_operation_set binding_format binding_set") (auto split: sum.splits, metis isl_def sum.exhaust)
  have typed: "set_typed binding_set"
    by (simp add: set_typed_def binding_set_def binding_operation_def demo_apply_def demo_op_def demo_id_def ops_inv_def)
  have "binding_project = binding_project \<and> binding_set = binding_set"
  proof (rule identity_binds_inputs [OF id(1) id(1) id(2) id(2) id(3) id(3)])
    show "project_parse binding_project_format (concat bs) = Some q" if "project_writes binding_project_format q = (bs, True)" for q bs
      using that by (auto simp: binding_project_format_def split: if_splits)
    show "wire_parse binding_format bs = Some w" if "wire_to_vec binding_format w = Some bs" for w bs
      using that by (auto simp: binding_format_def split: if_splits)
    show "operation_wf binding_format op"
      if "op \<in> set (bm_values (set_operations binding_set)) \<union> set (bm_values (set_operations binding_set))" for op
      using that binding_operation_wf by (simp add: binding_set_def)
  qed (simp_all add: typed binding_project_def project_new_def demo_id_def)
  with id show ?thesis by blast
qed

end
