(* ===== verification/Pcapng_Import.thy ===== *)
theory Pcapng_Import
  imports Domain_Identity
begin

text \<open>
  The importer of packet captures, \<open>packet-import/src/pcapng.rs\<close>.

  The importer reads a stream through \<open>std::io::Read\<close>, polls a cancellation flag and a clock, frames
  the stream into blocks, has each block decoded by the third-party crate \<open>pcap-parser\<close>, and hands
  packets to a consumer. The world of a run is a record: the results that the calls of \<open>Read::read\<close>
  still have in store, the number of polls so far and the packets handed over. A reader is the list of
  its results, so a run covers any finite sequence of short reads, interruptions and failures; after
  the list the stream is at its end. The flag and the clock are functions of the number of the poll,
  the consumer a function of the packets it has been given.

  The decoder, the options it returns and SHA-256 are parameters, held in a \<open>pcap_parser\<close> record.
  Counters of type \<open>u64\<close> and \<open>u32\<close> are natural numbers: each is compared with its limit before it
  grows. An \<open>expect\<close> that fails and a subtraction below zero give \<open>PE_Panic\<close>.
\<close>

section \<open>Errors and limits\<close>

datatype import_error =
  PE_Io | PE_Truncated | PE_Malformed | PE_UnsupportedVersion | PE_ResourceLimit | PE_Cancelled
| PE_Deadline | PE_ConsumerStopped | PE_TimestampOverflow | PE_Panic

text \<open>The timeout is in nanoseconds.\<close>

record import_limits =
  max_bytes :: nat
  max_blocks :: nat
  max_packets :: nat
  max_block_bytes :: nat
  max_interfaces_per_section :: nat
  max_sections :: nat
  timeout :: nat

definition default_import_limits :: import_limits where
  "default_import_limits =
     \<lparr>max_bytes = 8 * 1024 * 1024 * 1024, max_blocks = 10000000, max_packets = 10000000,
      max_block_bytes = 1024 * 1024, max_interfaces_per_section = 1024, max_sections = 1024,
      timeout = 120 * 1000000000\<rparr>"

definition validate_import_limits :: "import_limits \<Rightarrow> import_error + unit" where
  "validate_import_limits lim =
     (let cap = default_import_limits in
      if max_bytes lim < 28 \<or> max_bytes lim > max_bytes cap
        \<or> max_blocks lim = 0 \<or> max_blocks lim > max_blocks cap
        \<or> max_packets lim = 0 \<or> max_packets lim > max_packets cap
        \<or> \<not> (28 \<le> max_block_bytes lim \<and> max_block_bytes lim \<le> max_block_bytes cap)
        \<or> \<not> (1 \<le> max_interfaces_per_section lim
              \<and> max_interfaces_per_section lim \<le> max_interfaces_per_section cap)
        \<or> max_sections lim = 0 \<or> max_sections lim > max_sections cap
        \<or> timeout lim = 0 \<or> timeout lim > timeout cap
      then Inl PE_ResourceLimit else Inr ())"

section \<open>Integers in the order of a section\<close>

datatype byte_order = Little | Big

definition order_bytes :: "byte_order \<Rightarrow> u8 list \<Rightarrow> 'a::len word" where
  "order_bytes ord b = (case ord of Little \<Rightarrow> from_le_bytes b | Big \<Rightarrow> from_le_bytes (rev b))"

definition order_u32 :: "byte_order \<Rightarrow> u8 list \<Rightarrow> import_error + u32" where
  "order_u32 ord b = (if length b = 4 then Inr (order_bytes ord b) else Inl PE_Panic)"

definition order_u64 :: "byte_order \<Rightarrow> u8 list \<Rightarrow> import_error + u64" where
  "order_u64 ord b = (if length b = 8 then Inr (order_bytes ord b) else Inl PE_Panic)"

section \<open>Interfaces, timestamps, packets, receipts\<close>

record interface =
  section_index :: u32
  interface_index :: u32
  link_type :: u32
  snaplen :: u32
  timestamp_resolution :: u8
  timestamp_offset_seconds :: int

record reported_timestamp =
  raw_ticks :: u64
  resolution :: u8
  offset_seconds :: int
  utc_nanoseconds :: int
  subnanosecond_remainder :: bool

text \<open>\<open>10u128.checked_pow(r)\<close>; the other operations of \<open>timestamp\<close> cannot leave 128 bits.\<close>

definition timestamp_divisor :: "u8 \<Rightarrow> nat option" where
  "timestamp_divisor r =
     (if r AND 128 \<noteq> 0 then Some (2 ^ unat (r AND 127))
      else if 10 ^ unat r < (2 :: nat) ^ 128 then Some (10 ^ unat r) else None)"

definition packet_timestamp :: "u64 \<Rightarrow> interface \<Rightarrow> import_error + reported_timestamp" where
  "packet_timestamp ticks i =
     (let r = timestamp_resolution i;
          numerator = unat ticks * 1000000000;
          (nanos, remainder) = (case timestamp_divisor r of
             Some d \<Rightarrow> (numerator div d, numerator mod d \<noteq> 0) | None \<Rightarrow> (0, numerator \<noteq> 0));
          total_ns = int nanos + timestamp_offset_seconds i * 1000000000
      in if - (2 ^ 63) \<le> total_ns \<and> total_ns < 2 ^ 63
         then Inr \<lparr>raw_ticks = ticks, resolution = r, offset_seconds = timestamp_offset_seconds i,
                   utc_nanoseconds = total_ns, subnanosecond_remainder = remainder\<rparr>
         else Inl PE_TimestampOverflow)"

record packet =
  block_offset :: nat
  pk_interface :: interface
  pk_timestamp :: "reported_timestamp evidence"
  original_length :: u32
  captured_length :: u32
  contradictory_original_length :: bool
  pk_flags :: "u32 evidence"
  dropped_since_previous :: "u64 evidence"
  correlation_packet_id :: "u64 evidence"
  pk_data :: "u8 list"

record receipt =
  decoder_version :: string
  rc_sha256 :: "u8 list"
  byte_length :: nat
  rc_blocks :: nat
  rc_packets :: nat
  rc_sections :: nat
  skipped_blocks :: nat

definition unknown_evidence :: "'a evidence" where
  "unknown_evidence = Unknown SourceDidNotProvide"

section \<open>The decoder\<close>

text \<open>
  What the importer uses of \<open>pcap-parser\<close>: the blocks it distinguishes, and of an option its code, its
  length and \<open>as_bytes\<close>. The section length is an \<open>i64\<close> and the link type an \<open>i32\<close>.
\<close>

datatype 'o pcap_block =
  SectionHeader u16 u16 int "'o list"
| InterfaceDescription int u32 "'o list"
| EnhancedPacket u32 u32 u32 u32 u32 "u8 list" "'o list"
| SimplePacket u32 "u8 list"
| OtherBlock

record 'o pcap_parser =
  parse_block_le :: "u8 list \<Rightarrow> (u8 list \<times> 'o pcap_block) option"
  parse_block_be :: "u8 list \<Rightarrow> (u8 list \<times> 'o pcap_block) option"
  opt_code :: "'o \<Rightarrow> u16"
  opt_len :: "'o \<Rightarrow> u16"
  opt_bytes :: "'o \<Rightarrow> u8 list option"
  stream_sha256 :: "u8 list \<Rightarrow> u8 list"

definition div_ceil4 :: "nat \<Rightarrow> nat" where
  "div_ceil4 n = (n + 3) div 4"

fun options_loop :: "'o pcap_parser \<Rightarrow> 'o list \<Rightarrow> nat \<Rightarrow> import_error + nat" where
  "options_loop X [] consumed = Inr consumed"
| "options_loop X (opt # rest) consumed =
     (if opt_bytes X opt = None then Inl PE_Malformed
      else
        let consumed = consumed + (4 + div_ceil4 (unat (opt_len X opt)) * 4) in
        if opt_code X opt = 0 \<and> (opt_len X opt \<noteq> 0 \<or> rest \<noteq> []) then Inl PE_Malformed
        else options_loop X rest consumed)"

definition check_options :: "'o pcap_parser \<Rightarrow> 'o list \<Rightarrow> nat \<Rightarrow> import_error + unit" where
  "check_options X opts expected_bytes =
     bindE (ensure (\<not> length opts > 256) PE_ResourceLimit) (\<lambda>_.
     bindE (options_loop X opts 0) (\<lambda>consumed.
     ensure (\<not> consumed \<noteq> expected_bytes) PE_Malformed))"

fun single_loop :: "'o pcap_parser \<Rightarrow> nat \<Rightarrow> 'o list \<Rightarrow> u8 list option \<Rightarrow> import_error + u8 list option" where
  "single_loop X len [] found = Inr found"
| "single_loop X len (opt # rest) found =
     (if found \<noteq> None \<or> unat (opt_len X opt) \<noteq> len then Inl PE_Malformed
      else bindE (some_or (opt_bytes X opt) PE_Malformed) (\<lambda>b. single_loop X len rest (Some b)))"

definition single_option :: "'o pcap_parser \<Rightarrow> 'o list \<Rightarrow> u16 \<Rightarrow> nat \<Rightarrow> import_error + u8 list option" where
  "single_option X opts code len = single_loop X len (filter (\<lambda>opt. opt_code X opt = code) opts) None"

section \<open>Blocks\<close>

text \<open>The local variables of \<open>read\<close>; the hasher holds the octets it was updated with.\<close>

record import_state =
  im_bytes :: nat
  im_blocks :: nat
  im_packets :: nat
  im_sections :: nat
  im_skipped :: nat
  im_order :: "byte_order option"
  im_interfaces :: "interface list"
  im_section_end :: "nat option"
  im_hashed :: "u8 list"

definition import_start :: import_state where
  "import_start = \<lparr>im_bytes = 0, im_blocks = 0, im_packets = 0, im_sections = 0, im_skipped = 0,
     im_order = None, im_interfaces = [], im_section_end = None, im_hashed = []\<rparr>"

definition sub_or_panic :: "nat \<Rightarrow> nat \<Rightarrow> import_error + nat" where
  "sub_or_panic a b = some_or (checked_sub a b) PE_Panic"

definition section_header ::
    "'o pcap_parser \<Rightarrow> import_limits \<Rightarrow> nat \<Rightarrow> u16 \<Rightarrow> u16 \<Rightarrow> int \<Rightarrow> 'o list \<Rightarrow> import_state
       \<Rightarrow> import_error + import_state" where
  "section_header X lim sz major minor section_len opts st =
     bindE (ensure (\<not> (major \<noteq> 1 \<or> minor \<noteq> 0)) PE_UnsupportedVersion) (\<lambda>_.
     bindE (ensure (\<not> im_sections st \<ge> max_sections lim) PE_ResourceLimit) (\<lambda>_.
     bindE (sub_or_panic sz 28) (\<lambda>expected.
     bindE (check_options X opts expected) (\<lambda>_.
     bindE (if section_len = - 1 then Inr None
            else if section_len \<ge> 0 then
              bindE (some_or (checked_add (im_bytes st) sz) PE_ResourceLimit) (\<lambda>b.
              map_sum id Some (some_or (checked_add b (nat section_len)) PE_ResourceLimit))
            else Inl PE_Malformed) (\<lambda>section_end.
     Inr (st\<lparr>im_section_end := section_end, im_sections := im_sections st + 1, im_interfaces := []\<rparr>))))))"

definition interface_description ::
    "'o pcap_parser \<Rightarrow> import_limits \<Rightarrow> byte_order \<Rightarrow> nat \<Rightarrow> int \<Rightarrow> u32 \<Rightarrow> 'o list \<Rightarrow> import_state
       \<Rightarrow> import_error + import_state" where
  "interface_description X lim ord sz linktype snap opts st =
     bindE (ensure (\<not> length (im_interfaces st) \<ge> max_interfaces_per_section lim) PE_ResourceLimit) (\<lambda>_.
     bindE (sub_or_panic sz 20) (\<lambda>expected.
     bindE (check_options X opts expected) (\<lambda>_.
     bindE (single_option X opts 9 1) (\<lambda>res.
     bindE (case res of None \<Rightarrow> Inr 6 | Some b \<Rightarrow> some_or (nth_get b 0) PE_Panic) (\<lambda>res.
     bindE (single_option X opts 14 8) (\<lambda>off.
     bindE (case off of None \<Rightarrow> Inr 0 | Some b \<Rightarrow> map_sum id sint (order_u64 ord b)) (\<lambda>off.
     bindE (sub_or_panic (im_sections st) 1) (\<lambda>index.
     bindE (ensure (0 \<le> linktype) PE_Malformed) (\<lambda>_.
     Inr (st\<lparr>im_interfaces := im_interfaces st @
            [\<lparr>section_index = of_nat index, interface_index = of_nat (length (im_interfaces st)),
              link_type = of_int linktype, snaplen = snap, timestamp_resolution = res,
              timestamp_offset_seconds = off\<rparr>]\<rparr>))))))))))"

definition known_or :: "(u8 list \<Rightarrow> import_error + 'a) \<Rightarrow> u8 list option \<Rightarrow> import_error + 'a evidence" where
  "known_or f v = (case v of None \<Rightarrow> Inr unknown_evidence | Some b \<Rightarrow> map_sum id Known (f b))"

definition enhanced_packet ::
    "'o pcap_parser \<Rightarrow> import_limits \<Rightarrow> byte_order \<Rightarrow> nat \<Rightarrow> u32 \<Rightarrow> u32 \<Rightarrow> u32 \<Rightarrow> u32 \<Rightarrow> u32 \<Rightarrow> u8 list
       \<Rightarrow> 'o list \<Rightarrow> import_state \<Rightarrow> import_error + packet" where
  "enhanced_packet X lim ord sz if_id ts_high ts_low caplen origlen dat opts st =
     bindE (some_or (nth_get (im_interfaces st) (unat if_id)) PE_Malformed) (\<lambda>i.
     bindE (ensure (\<not> (unat caplen > length dat \<or> snaplen i \<noteq> 0 \<and> caplen > snaplen i)) PE_Malformed) (\<lambda>_.
     bindE (some_or (checked_sub sz (32 + div_ceil4 (unat caplen) * 4)) PE_Malformed) (\<lambda>expected.
     bindE (check_options X opts expected) (\<lambda>_.
     bindE (ensure (\<not> im_packets st \<ge> max_packets lim) PE_ResourceLimit) (\<lambda>_.
     bindE (bindE (single_option X opts 2 4) (known_or (order_u32 ord))) (\<lambda>flags.
     bindE (bindE (single_option X opts 4 8) (known_or (order_u64 ord))) (\<lambda>drops.
     bindE (bindE (single_option X opts 5 8) (known_or (order_u64 ord))) (\<lambda>pid.
     bindE (packet_timestamp (push_bit 32 (ucast ts_high) OR ucast ts_low) i) (\<lambda>ts.
     Inr \<lparr>block_offset = im_bytes st, pk_interface = i, pk_timestamp = Known ts,
          original_length = origlen, captured_length = caplen,
          contradictory_original_length = (origlen < caplen), pk_flags = flags,
          dropped_since_previous = drops, correlation_packet_id = pid,
          pk_data = take (unat caplen) dat\<rparr>)))))))))"

definition simple_packet ::
    "import_limits \<Rightarrow> u32 \<Rightarrow> u8 list \<Rightarrow> import_state \<Rightarrow> import_error + packet" where
  "simple_packet lim origlen dat st =
     bindE (some_or (nth_get (im_interfaces st) 0) PE_Malformed) (\<lambda>i.
     let captured = (if snaplen i = 0 then origlen else min origlen (snaplen i)) in
     bindE (ensure (\<not> (unat captured > length dat \<or> div_ceil4 (unat captured) * 4 \<noteq> length dat))
              PE_Malformed) (\<lambda>_.
     bindE (ensure (\<not> im_packets st \<ge> max_packets lim) PE_ResourceLimit) (\<lambda>_.
     Inr \<lparr>block_offset = im_bytes st, pk_interface = i, pk_timestamp = unknown_evidence,
          original_length = origlen, captured_length = captured,
          contradictory_original_length = False, pk_flags = unknown_evidence,
          dropped_since_previous = unknown_evidence, correlation_packet_id = unknown_evidence,
          pk_data = take (unat captured) dat\<rparr>)))"

text \<open>
  Effects on the packets handed over. The consumer is asked with all the packets so far, the new one last.
\<close>

definition lift_import :: "import_error + 'a \<Rightarrow> ('s, import_error, 'a) rsm" where
  "lift_import r s = (r, s)"

definition deliver :: "(packet list \<Rightarrow> bool) \<Rightarrow> packet \<Rightarrow> (packet list, import_error, unit) rsm" where
  "deliver consume p delivered =
     (if consume (delivered @ [p]) then (Inr (), delivered @ [p])
      else (Inl PE_ConsumerStopped, delivered @ [p]))"

definition apply_block ::
    "'o pcap_parser \<Rightarrow> import_limits \<Rightarrow> (packet list \<Rightarrow> bool) \<Rightarrow> byte_order \<Rightarrow> nat \<Rightarrow> 'o pcap_block
       \<Rightarrow> import_state \<Rightarrow> (packet list, import_error, import_state) rsm" where
  "apply_block X lim consume ord sz blk st =
     (case blk of
        SectionHeader major minor section_len opts \<Rightarrow>
          lift_import (section_header X lim sz major minor section_len opts st)
      | InterfaceDescription linktype snap opts \<Rightarrow>
          lift_import (interface_description X lim ord sz linktype snap opts st)
      | EnhancedPacket if_id ts_high ts_low caplen origlen dat opts \<Rightarrow>
          bindR (lift_import (enhanced_packet X lim ord sz if_id ts_high ts_low caplen origlen dat opts st)) (\<lambda>p.
          bindR (deliver consume p) (\<lambda>_.
          ret (st\<lparr>im_packets := im_packets st + 1\<rparr>)))
      | SimplePacket origlen dat \<Rightarrow>
          bindR (lift_import (simple_packet lim origlen dat st)) (\<lambda>p.
          bindR (deliver consume p) (\<lambda>_.
          ret (st\<lparr>im_packets := im_packets st + 1\<rparr>)))
      | OtherBlock \<Rightarrow> ret (st\<lparr>im_skipped := im_skipped st + 1\<rparr>))"

definition parse_block :: "'o pcap_parser \<Rightarrow> byte_order \<Rightarrow> u8 list \<Rightarrow> import_error + 'o pcap_block" where
  "parse_block X ord buffer =
     bindE (some_or (case ord of Little \<Rightarrow> parse_block_le X buffer | Big \<Rightarrow> parse_block_be X buffer)
              PE_Malformed) (\<lambda>(rest, blk).
     bindE (ensure (rest = []) PE_Malformed) (\<lambda>_. Inr blk))"

text \<open>One framed block: decoded, counted, applied, hashed.\<close>

definition take_block ::
    "'o pcap_parser \<Rightarrow> import_limits \<Rightarrow> (packet list \<Rightarrow> bool) \<Rightarrow> byte_order \<Rightarrow> u8 list \<Rightarrow> import_state
       \<Rightarrow> (packet list, import_error, import_state) rsm" where
  "take_block X lim consume ord buffer st =
     bindR (lift_import (parse_block X ord buffer)) (\<lambda>blk.
     let st = st\<lparr>im_order := Some ord, im_blocks := im_blocks st + 1\<rparr> in
     bindR (apply_block X lim consume ord (length buffer) blk st) (\<lambda>st.
     ret (st\<lparr>im_hashed := im_hashed st @ buffer, im_bytes := im_bytes st + length buffer\<rparr>)))"

definition section_complete :: "import_state \<Rightarrow> bool" where
  "section_complete st = (\<not> (case im_section_end st of None \<Rightarrow> False | Some e \<Rightarrow> e \<noteq> im_bytes st))"

definition finish_import :: "'o pcap_parser \<Rightarrow> import_state \<Rightarrow> import_error + receipt" where
  "finish_import X st =
     bindE (ensure (im_sections st \<noteq> 0) PE_Truncated) (\<lambda>_.
     bindE (ensure (section_complete st) PE_Truncated) (\<lambda>_.
     Inr \<lparr>decoder_version = ''kyberia-pcapng/1.0.0'', rc_sha256 = stream_sha256 X (im_hashed st),
          byte_length = im_bytes st, rc_blocks = im_blocks st, rc_packets = im_packets st,
          rc_sections = im_sections st, skipped_blocks = im_skipped st\<rparr>))"

section \<open>Framing\<close>

definition section_magic :: "u8 list" where
  "section_magic = [0x0a, 0x0d, 0x0d, 0x0a]"

definition order_of_magic :: "u8 list \<Rightarrow> import_error + byte_order" where
  "order_of_magic b =
     (if b = [0x4d, 0x3c, 0x2b, 0x1a] then Inr Little
      else if b = [0x1a, 0x2b, 0x3c, 0x4d] then Inr Big else Inl PE_Malformed)"

definition block_size :: "import_limits \<Rightarrow> import_state \<Rightarrow> bool \<Rightarrow> byte_order \<Rightarrow> u8 list \<Rightarrow> import_error + nat" where
  "block_size lim st is_section ord header =
     bindE (order_u32 ord (take 4 (drop 4 header))) (\<lambda>w.
     let sz = unat w in
     bindE (ensure (\<not> (sz < 12 \<or> sz mod 4 \<noteq> 0)) PE_Malformed) (\<lambda>_.
     bindE (ensure (\<not> (sz > max_block_bytes lim
              \<or> (case checked_add (im_bytes st) sz of None \<Rightarrow> True | Some n \<Rightarrow> n > max_bytes lim)
              \<or> im_blocks st \<ge> max_blocks lim)) PE_ResourceLimit) (\<lambda>_.
     bindE (ensure (\<not> (\<not> is_section
              \<and> (case im_section_end st of None \<Rightarrow> False | Some e \<Rightarrow> im_bytes st + sz > e))) PE_Malformed) (\<lambda>_.
     Inr sz))))"

definition check_trailer :: "byte_order \<Rightarrow> u8 list \<Rightarrow> import_error + unit" where
  "check_trailer ord buffer =
     bindE (order_u32 ord (drop (length buffer - 4) buffer)) (\<lambda>w.
     ensure (\<not> w \<noteq> of_nat (length buffer)) PE_Malformed)"

section \<open>Reading\<close>

datatype read_event = Chunk "u8 list" | Interrupted | Failed

datatype read_result = Read_Ok "u8 list" | Read_Interrupted | Read_Err

record world =
  wd_reader :: "read_event list"
  wd_polls :: nat
  wd_delivered :: "packet list"

record watch =
  wt_cancelled :: "nat \<Rightarrow> bool"
  wt_now :: "nat \<Rightarrow> nat"

type_synonym 'a importing = "(world, import_error, 'a) rsm"

text \<open>\<open>Read::read\<close> into a buffer of \<open>n\<close> octets.\<close>

fun reader_read :: "nat \<Rightarrow> read_event list \<Rightarrow> read_result \<times> read_event list" where
  "reader_read n [] = (Read_Ok [], [])"
| "reader_read n (Chunk bs # r) =
     (if length bs \<le> n then (Read_Ok bs, r) else (Read_Ok (take n bs), Chunk (drop n bs) # r))"
| "reader_read n (Interrupted # r) = (Read_Interrupted, r)"
| "reader_read n (Failed # r) = (Read_Err, r)"

definition io_read :: "nat \<Rightarrow> read_result importing" where
  "io_read n w = (case reader_read n (wd_reader w) of (res, r) \<Rightarrow> (Inr res, w\<lparr>wd_reader := r\<rparr>))"

definition instant_now :: "watch \<Rightarrow> nat importing" where
  "instant_now t w = (Inr (wt_now t (wd_polls w)), w\<lparr>wd_polls := wd_polls w + 1\<rparr>)"

definition import_check :: "watch \<Rightarrow> nat \<Rightarrow> unit importing" where
  "import_check t deadline w =
     ((if wt_cancelled t (wd_polls w) then Inl PE_Cancelled
       else if wt_now t (wd_polls w) \<ge> deadline then Inl PE_Deadline
       else Inr ()), w\<lparr>wd_polls := wd_polls w + 1\<rparr>)"

definition on_delivered :: "(packet list, import_error, 'a) rsm \<Rightarrow> 'a importing" where
  "on_delivered m w = (case m (wd_delivered w) of (r, ps) \<Rightarrow> (r, w\<lparr>wd_delivered := ps\<rparr>))"

lemma io_read_smaller:
  "io_read n w = (Inr (Read_Ok bs), w') \<Longrightarrow> length (wd_reader w') \<le> length (wd_reader w) \<and> length bs \<le> n"
  "io_read n w = (Inr Read_Interrupted, w') \<Longrightarrow> length (wd_reader w') < length (wd_reader w)"
  by (cases "(n, wd_reader w)" rule: reader_read.cases; auto simp: io_read_def split: if_splits)+

lemma import_check_reader: "import_check t d w = (r, w') \<Longrightarrow> wd_reader w' = wd_reader w \<and> wd_delivered w' = wd_delivered w"
  by (auto simp: import_check_def)

text \<open>The loop of \<open>read_part\<close>; \<open>got\<close> is the part of the buffer that is filled.\<close>

function read_part_loop :: "watch \<Rightarrow> nat \<Rightarrow> nat \<Rightarrow> bool \<Rightarrow> u8 list \<Rightarrow> u8 list option importing" where
  "read_part_loop t deadline need allow_empty got w =
     (if length got < need then
        bindR (import_check t deadline) (\<lambda>_.
        bindR (io_read (need - length got)) (\<lambda>result.
        bindR (import_check t deadline) (\<lambda>_ w.
        case result of
          Read_Ok bs \<Rightarrow>
            (if bs = [] then
               (if got = [] \<and> allow_empty then (Inr None, w) else (Inl PE_Truncated, w))
             else read_part_loop t deadline need allow_empty (got @ bs) w)
        | Read_Interrupted \<Rightarrow> read_part_loop t deadline need allow_empty got w
        | Read_Err \<Rightarrow> (Inl PE_Io, w)))) w
      else (Inr (Some got), w))"
  by pat_completeness auto
termination
  by (relation "measure (\<lambda>(t, deadline, need, ae, got, w). (need - length got) + length (wd_reader w))")
    (auto dest!: io_read_smaller import_check_reader simp flip: length_greater_0_conv)

declare read_part_loop.simps [simp del]

text \<open>The equation for evaluation: no recursive call has its state before it is reached.\<close>

lemma read_part_loop_code [code]:
  "read_part_loop t deadline need allow_empty got w =
     (if length got < need then
        bindR (import_check t deadline) (\<lambda>_.
        bindR (io_read (need - length got)) (\<lambda>result.
        bindR (import_check t deadline) (\<lambda>_.
        case result of
          Read_Ok bs \<Rightarrow>
            (if bs = [] then
               (if got = [] \<and> allow_empty then ret None else fail PE_Truncated)
             else read_part_loop t deadline need allow_empty (got @ bs))
        | Read_Interrupted \<Rightarrow> read_part_loop t deadline need allow_empty got
        | Read_Err \<Rightarrow> fail PE_Io))) w
      else (Inr (Some got), w))"
  by (subst read_part_loop.simps)
    (auto simp: bindR_def ret_def fail_def split: prod.splits sum.splits read_result.splits)

definition read_part :: "watch \<Rightarrow> nat \<Rightarrow> nat \<Rightarrow> bool \<Rightarrow> u8 list option importing" where
  "read_part t deadline need allow_empty = read_part_loop t deadline need allow_empty []"

text \<open>A part whose emptiness the caller does not look at; the buffer is zeroed at first.\<close>

definition read_rest :: "watch \<Rightarrow> nat \<Rightarrow> nat \<Rightarrow> u8 list importing" where
  "read_rest t deadline need =
     bindR (read_part t deadline need False) (\<lambda>r.
     ret (case r of None \<Rightarrow> replicate need 0 | Some b \<Rightarrow> b))"

definition read_order ::
    "watch \<Rightarrow> nat \<Rightarrow> import_state \<Rightarrow> u8 list \<Rightarrow> (bool \<times> byte_order \<times> u8 list) importing" where
  "read_order t deadline st header =
     (if take 4 header = section_magic then
        bindR (guardR (section_complete st) PE_Malformed) (\<lambda>_.
        bindR (read_rest t deadline 4) (\<lambda>more.
        bindR (lift_import (order_of_magic more)) (\<lambda>ord.
        ret (True, ord, header @ more))))
      else
        bindR (ok_or (im_order st) PE_Malformed) (\<lambda>ord. ret (False, ord, header)))"

text \<open>The rest of a block after its first eight octets.\<close>

definition read_tail ::
    "import_limits \<Rightarrow> watch \<Rightarrow> nat \<Rightarrow> import_state \<Rightarrow> u8 list \<Rightarrow> (byte_order \<times> u8 list) importing" where
  "read_tail lim t deadline st header =
     bindR (read_order t deadline st header) (\<lambda>(is_section, ord, header).
     bindR (lift_import (block_size lim st is_section ord header)) (\<lambda>sz.
     bindR (read_rest t deadline (sz - length header)) (\<lambda>body.
     bindR (lift_import (check_trailer ord (header @ body))) (\<lambda>_.
     ret (ord, header @ body)))))"

definition read_block ::
    "import_limits \<Rightarrow> watch \<Rightarrow> nat \<Rightarrow> import_state \<Rightarrow> (byte_order \<times> u8 list) option importing" where
  "read_block lim t deadline st =
     bindR (read_part t deadline 8 True) (\<lambda>r.
     case r of
       None \<Rightarrow> ret None
     | Some header \<Rightarrow> bindR (read_tail lim t deadline st header) (\<lambda>blk. ret (Some blk)))"

subsection \<open>Every block consumes a part of the stream\<close>

primrec event_size :: "read_event \<Rightarrow> nat" where
  "event_size (Chunk bs) = Suc (length bs)"
| "event_size Interrupted = 1"
| "event_size Failed = 1"

definition reader_size :: "read_event list \<Rightarrow> nat" where
  "reader_size r = sum_list (map event_size r)"

lemma reader_read_size:
  "reader_read n r = (res, r') \<Longrightarrow> reader_size r' \<le> reader_size r"
  "reader_read n r = (Read_Ok bs, r') \<Longrightarrow> 0 < n \<Longrightarrow> bs \<noteq> [] \<Longrightarrow> reader_size r' < reader_size r"
  by (cases "(n, r)" rule: reader_read.cases; auto simp: reader_size_def split: if_splits)+

lemma io_read_size:
  assumes "io_read n w = (res, w')"
  shows "reader_size (wd_reader w') \<le> reader_size (wd_reader w)"
    "res = Inr (Read_Ok bs) \<Longrightarrow> 0 < n \<Longrightarrow> bs \<noteq> [] \<Longrightarrow> reader_size (wd_reader w') < reader_size (wd_reader w)"
  using assms by (auto simp: io_read_def split: prod.splits dest: reader_read_size)

lemma read_part_loop_size:
  "read_part_loop t d need ae got w = (r, w') \<Longrightarrow>
     reader_size (wd_reader w') \<le> reader_size (wd_reader w) \<and>
     (\<forall>b. r = Inr (Some b) \<longrightarrow> length got < need \<longrightarrow> reader_size (wd_reader w') < reader_size (wd_reader w))"
proof (induction t d need ae got w rule: read_part_loop.induct)
  case (1 t d need ae got w)
  show ?case
  proof (cases "length got < need")
    case False
    with 1(3) show ?thesis by (subst (asm) read_part_loop.simps) auto
  next
    case short: True
    obtain r1 w1 where c1: "import_check t d w = (r1, w1)" by fastforce
    obtain res w2 where io: "io_read (need - length got) w1 = (Inr res, w2)"
      by (cases "reader_read (need - length got) (wd_reader w1)") (simp add: io_read_def)
    obtain r3 w3 where c3: "import_check t d w2 = (r3, w3)" by fastforce
    note keep = import_check_reader [OF c1] import_check_reader [OF c3]
    note io_size = io_read_size(1) [OF io] io_read_size(2) [OF io]
    show ?thesis
    proof (cases "isl r1 \<or> isl r3")
      case True
      then show ?thesis using 1(3) short c1 io c3 keep io_size
        by (subst (asm) read_part_loop.simps) (auto simp: bindR_def isl_def split: sum.splits)
    next
      case False
      then have ok: "import_check t d w = (Inr (), w1)" "import_check t d w2 = (Inr (), w3)"
        using c1 c3 by (cases r1; cases r3; simp)+
      note run = 1(3) [unfolded read_part_loop.simps [of t d need ae got w]]
      show ?thesis
      proof (cases res)
        case (Read_Ok bs)
        show ?thesis
        proof (cases "bs = []")
          case False
          have "reader_size (wd_reader w') \<le> reader_size (wd_reader w3)"
            using 1(1) [OF short ok(1) io ok(2) Read_Ok False] run short ok io Read_Ok False
            by (simp add: bindR_def)
          then show ?thesis using io_size(2) short Read_Ok False keep by fastforce
        qed (use run short ok io Read_Ok keep io_size in \<open>auto simp: bindR_def split: if_splits\<close>)
      next
        case Read_Interrupted
        then show ?thesis using 1(2) [OF short ok(1) io ok(2)] run short ok io keep io_size
          by (fastforce simp: bindR_def)
      qed (use run short ok io keep io_size in \<open>auto simp: bindR_def\<close>)
    qed
  qed
qed

lemma read_part_size:
  "read_part t d need ae w = (r, w') \<Longrightarrow> reader_size (wd_reader w') \<le> reader_size (wd_reader w)"
  "read_part t d need ae w = (Inr (Some b), w') \<Longrightarrow> 0 < need \<Longrightarrow> reader_size (wd_reader w') < reader_size (wd_reader w)"
  unfolding read_part_def by (auto dest: read_part_loop_size)

lemma read_rest_size: "read_rest t d need w = (r, w') \<Longrightarrow> reader_size (wd_reader w') \<le> reader_size (wd_reader w)"
  by (auto simp: read_rest_def bindR_def ret_def split: prod.splits sum.splits dest: read_part_size(1))

lemma read_order_size: "read_order t d st header w = (r, w') \<Longrightarrow> reader_size (wd_reader w') \<le> reader_size (wd_reader w)"
  by (auto simp: read_order_def bindR_def ret_def fail_def guardR_def ok_or_def lift_import_def
      split: prod.splits sum.splits if_splits option.splits dest: read_rest_size)

lemma read_block_size:
  assumes "read_block lim t d st w = (Inr (Some b), w')"
  shows "reader_size (wd_reader w') < reader_size (wd_reader w)"
  using assms
  by (fastforce simp: read_block_def read_tail_def bindR_Inr_iff lift_import_def split: option.splits prod.splits
      dest!: read_part_size(2) read_order_size read_rest_size)

lemma on_delivered_reader: "on_delivered m w = (r, w') \<Longrightarrow> wd_reader w' = wd_reader w"
  by (auto simp: on_delivered_def split: prod.splits)

section \<open>The importer\<close>

function read_loop ::
    "'o pcap_parser \<Rightarrow> import_limits \<Rightarrow> watch \<Rightarrow> (packet list \<Rightarrow> bool) \<Rightarrow> nat \<Rightarrow> import_state \<Rightarrow> receipt importing" where
  "read_loop X lim t consume deadline st w =
     bindR (import_check t deadline) (\<lambda>_.
     bindR (read_block lim t deadline st) (\<lambda>r w.
     case r of
       None \<Rightarrow>
         bindR (lift_import (finish_import X st)) (\<lambda>receipt.
         bindR (import_check t deadline) (\<lambda>_. ret receipt)) w
     | Some (ord, buffer) \<Rightarrow>
         bindR (on_delivered (take_block X lim consume ord buffer st)) (\<lambda>st.
         read_loop X lim t consume deadline st) w)) w"
  by pat_completeness auto
termination
  by (relation "measure (\<lambda>(X, lim, t, consume, deadline, st, w). reader_size (wd_reader w))")
    (auto dest!: read_block_size import_check_reader on_delivered_reader)

declare read_loop.simps [simp del]

definition pcapng_read ::
    "'o pcap_parser \<Rightarrow> import_limits \<Rightarrow> watch \<Rightarrow> (packet list \<Rightarrow> bool) \<Rightarrow> receipt importing" where
  "pcapng_read X lim t consume =
     bindR (lift_import (validate_import_limits lim)) (\<lambda>_.
     bindR (instant_now t) (\<lambda>start.
     read_loop X lim t consume (start + timeout lim) import_start))"

end
