(* ===== verification/Pcapng_Stream.thy ===== *)
theory Pcapng_Stream
  imports Pcapng_Import
begin

text \<open>
  What the importer makes of a stream: a function of its octets. It is independent of how the reader cuts
  the stream into reads and of interruptions, and stopping early only shortens what was handed over.
\<close>

section \<open>The octets of a reader\<close>

text \<open>The octets up to the first read of length zero, which is the end of a stream.\<close>

fun stream_octets :: "read_event list \<Rightarrow> u8 list" where
  "stream_octets [] = []"
| "stream_octets (Chunk bs # r) = (if bs = [] then [] else bs @ stream_octets r)"
| "stream_octets (Interrupted # r) = stream_octets r"
| "stream_octets (Failed # r) = []"

lemma reader_read_content:
  assumes "reader_read n r = (res, r')" "0 < n"
  shows "res = Read_Ok bs \<Longrightarrow> bs \<noteq> [] \<Longrightarrow> stream_octets r = bs @ stream_octets r'"
    and "res = Read_Ok [] \<Longrightarrow> stream_octets r = []"
    and "res = Read_Interrupted \<Longrightarrow> stream_octets r' = stream_octets r"
    and "res = Read_Err \<Longrightarrow> Failed \<in> set r"
    and "Failed \<in> set r' \<Longrightarrow> Failed \<in> set r"
  using assms by (cases "(n, r)" rule: reader_read.cases; auto split: if_splits)+

text \<open>Why a run may stop: a failed read, a cancellation, the deadline.\<close>

definition stopped :: "watch \<Rightarrow> nat \<Rightarrow> read_event list \<Rightarrow> import_error \<Rightarrow> bool" where
  "stopped t deadline r e \<longleftrightarrow>
     e = PE_Io \<and> Failed \<in> set r \<or> e = PE_Cancelled \<and> (\<exists>i. wt_cancelled t i) \<or>
     e = PE_Deadline \<and> (\<exists>i. deadline \<le> wt_now t i)"

lemma import_check_stopped: "import_check t d w = (Inl e, w') \<Longrightarrow> stopped t d r e"
  by (auto simp: import_check_def stopped_def split: if_splits)

definition reads :: "watch \<Rightarrow> nat \<Rightarrow> nat \<Rightarrow> bool \<Rightarrow> u8 list \<Rightarrow> world \<Rightarrow> (import_error + u8 list option) \<times> world \<Rightarrow> bool" where
  "reads t d need ae got w out \<longleftrightarrow>
     wd_delivered (snd out) = wd_delivered w \<and> (Failed \<in> set (wd_reader (snd out)) \<longrightarrow> Failed \<in> set (wd_reader w)) \<and>
     (case fst out of
        Inr None \<Rightarrow> ae \<and> got @ stream_octets (wd_reader w) = []
      | Inr (Some b) \<Rightarrow> length b = need \<and> got @ stream_octets (wd_reader w) = b @ stream_octets (wd_reader (snd out))
      | Inl e \<Rightarrow> stopped t d (wd_reader w) e \<or>
          e = PE_Truncated \<and> length (got @ stream_octets (wd_reader w)) < need \<and> \<not> (ae \<and> got @ stream_octets (wd_reader w) = []))"

lemma read_part_loop_reads:
  "length got \<le> need \<Longrightarrow> reads t d need ae got w (read_part_loop t d need ae got w)"
proof (induction t d need ae got w rule: read_part_loop.induct)
  case (1 t d need ae got w)
  show ?case
  proof (cases "length got < need")
    case False
    then show ?thesis using 1(3) by (subst read_part_loop.simps) (simp add: reads_def)
  next
    case short: True
    obtain r1 w1 where c1: "import_check t d w = (r1, w1)" by fastforce
    obtain res w2 where io: "io_read (need - length got) w1 = (Inr res, w2)"
      by (cases "reader_read (need - length got) (wd_reader w1)") (simp add: io_read_def)
    obtain r3 w3 where c3: "import_check t d w2 = (r3, w3)" by fastforce
    note keep = import_check_reader [OF c1] import_check_reader [OF c3]
    have rd: "reader_read (need - length got) (wd_reader w1) = (res, wd_reader w2)" "wd_delivered w2 = wd_delivered w1"
      using io by (auto simp: io_read_def split: prod.splits)
    have pos: "0 < need - length got" using short by simp
    note cont = reader_read_content [OF rd(1) pos]
    note run = read_part_loop.simps [of t d need ae got w]
    show ?thesis
    proof (cases r1)
      case (Inl e)
      then show ?thesis using short c1 keep import_check_stopped [of t d w e w1]
        by (subst run) (auto simp: reads_def bindR_def)
    next
      case r1: (Inr u1)
      show ?thesis
      proof (cases r3)
        case (Inl e)
        then show ?thesis using short c1 r1 io c3 keep rd(2) cont(5) import_check_stopped [of t d w2 e w3]
          by (subst run) (auto simp: reads_def bindR_def)
      next
        case r3: (Inr u3)
        have ok: "import_check t d w = (Inr (), w1)" "import_check t d w2 = (Inr (), w3)" using c1 c3 r1 r3 by simp_all
        have same: "wd_delivered w3 = wd_delivered w" "wd_reader w3 = wd_reader w2" "wd_reader w1 = wd_reader w"
          using keep rd(2) by simp_all
        show ?thesis
        proof (cases res)
          case (Read_Ok bs)
          show ?thesis
          proof (cases "bs = []")
            case True
            then show ?thesis using short ok io Read_Ok same cont(2,5)
              by (subst run) (auto simp: reads_def bindR_def)
          next
            case False
            have "length bs \<le> need - length got" using io_read_smaller(1) [of _ w1 bs w2] io Read_Ok by blast
            then have "reads t d need ae (got @ bs) w3 (read_part_loop t d need ae (got @ bs) w3)"
              using 1(1) [OF short ok(1) io ok(2) Read_Ok False] short by simp
            then show ?thesis using short ok io Read_Ok False same cont(1,5)
              by (subst run) (auto simp: reads_def bindR_def stopped_def split: sum.splits option.splits)
          qed
        next
          case Read_Interrupted
          have "reads t d need ae got w3 (read_part_loop t d need ae got w3)"
            using 1(2) [OF short ok(1) io ok(2) Read_Interrupted] short by simp
          then show ?thesis using short ok io Read_Interrupted same cont(3,5)
            by (subst run) (auto simp: reads_def bindR_def stopped_def split: sum.splits option.splits)
        next
          case Read_Err
          then show ?thesis using short ok io same cont(4,5)
            by (subst run) (auto simp: reads_def bindR_def stopped_def)
        qed
      qed
    qed
  qed
qed

section \<open>Framing as a function of the octets\<close>

definition split_part :: "nat \<Rightarrow> u8 list \<Rightarrow> import_error + u8 list \<times> u8 list" where
  "split_part n bs = (if length bs < n then Inl PE_Truncated else Inr (take n bs, drop n bs))"

definition split_order ::
    "import_state \<Rightarrow> u8 list \<Rightarrow> u8 list \<Rightarrow> import_error + (bool \<times> byte_order \<times> u8 list) \<times> u8 list" where
  "split_order st header bs =
     (if take 4 header = section_magic then
        bindE (ensure (section_complete st) PE_Malformed) (\<lambda>_.
        bindE (split_part 4 bs) (\<lambda>(more, bs).
        bindE (order_of_magic more) (\<lambda>ord.
        Inr ((True, ord, header @ more), bs))))
      else bindE (some_or (im_order st) PE_Malformed) (\<lambda>ord. Inr ((False, ord, header), bs)))"

definition split_tail ::
    "import_limits \<Rightarrow> import_state \<Rightarrow> u8 list \<Rightarrow> u8 list \<Rightarrow> import_error + (byte_order \<times> u8 list) \<times> u8 list" where
  "split_tail lim st header bs =
     bindE (split_order st header bs) (\<lambda>((is_section, ord, header), bs).
     bindE (block_size lim st is_section ord header) (\<lambda>sz.
     bindE (split_part (sz - length header) bs) (\<lambda>(body, bs).
     bindE (check_trailer ord (header @ body)) (\<lambda>_.
     Inr ((ord, header @ body), bs)))))"

text \<open>The first block of the octets that are left, and the octets after it; \<open>None\<close> at the end.\<close>

definition split_block ::
    "import_limits \<Rightarrow> import_state \<Rightarrow> u8 list \<Rightarrow> import_error + ((byte_order \<times> u8 list) \<times> u8 list) option" where
  "split_block lim st bs =
     (if bs = [] then Inr None
      else bindE (split_part 8 bs) (\<lambda>(header, bs). map_sum id Some (split_tail lim st header bs)))"

text \<open>A program that reads follows a function of the octets, unless it is stopped.\<close>

definition streams :: "watch \<Rightarrow> nat \<Rightarrow> 'a importing \<Rightarrow> (u8 list \<Rightarrow> import_error + 'a \<times> u8 list) \<Rightarrow> bool" where
  "streams t d m f \<longleftrightarrow> (\<forall>w r w'. m w = (r, w') \<longrightarrow>
     wd_delivered w' = wd_delivered w \<and> (Failed \<in> set (wd_reader w') \<longrightarrow> Failed \<in> set (wd_reader w)) \<and>
     (case r of
        Inr x \<Rightarrow> f (stream_octets (wd_reader w)) = Inr (x, stream_octets (wd_reader w'))
      | Inl e \<Rightarrow> stopped t d (wd_reader w) e \<or> f (stream_octets (wd_reader w)) = Inl e))"

lemma streamsD:
  assumes "streams t d m f" "m w = (r, w')"
  shows "wd_delivered w' = wd_delivered w" "Failed \<in> set (wd_reader w') \<Longrightarrow> Failed \<in> set (wd_reader w)"
    "r = Inr x \<Longrightarrow> f (stream_octets (wd_reader w)) = Inr (x, stream_octets (wd_reader w'))"
    "r = Inl e \<Longrightarrow> stopped t d (wd_reader w) e \<or> f (stream_octets (wd_reader w)) = Inl e"
  using assms unfolding streams_def by (auto split: sum.splits)

named_theorems streams_rules "the octets that each program construct reads"

lemma streams_ret [streams_rules]: "streams t d (ret x) (\<lambda>bs. Inr (x, bs))"
  by (auto simp: streams_def ret_def)

lemma streams_guardR [streams_rules]: "streams t d (guardR b e) (\<lambda>bs. bindE (ensure b e) (\<lambda>x. Inr (x, bs)))"
  by (auto simp: streams_def)

lemma streams_ok_or [streams_rules]: "streams t d (ok_or v e) (\<lambda>bs. bindE (some_or v e) (\<lambda>x. Inr (x, bs)))"
  by (auto simp: streams_def split: option.splits)

lemma streams_lift [streams_rules]: "streams t d (lift_import r) (\<lambda>bs. bindE r (\<lambda>x. Inr (x, bs)))"
  by (auto simp: streams_def lift_import_def split: sum.splits)

lemma streams_bind [streams_rules]:
  assumes "streams t d m f" "\<And>x. streams t d (g x) (h x)"
  shows "streams t d (bindR m g) (\<lambda>bs. bindE (f bs) (\<lambda>(x, bs). h x bs))"
  unfolding streams_def
proof (intro allI impI)
  fix w r w' assume run: "bindR m g w = (r, w')"
  obtain r1 w1 where m: "m w = (r1, w1)" by fastforce
  note D = streamsD [OF assms(1) m]
  show "wd_delivered w' = wd_delivered w \<and> (Failed \<in> set (wd_reader w') \<longrightarrow> Failed \<in> set (wd_reader w)) \<and>
     (case r of
        Inr x \<Rightarrow> bindE (f (stream_octets (wd_reader w))) (\<lambda>(x, bs). h x bs) = Inr (x, stream_octets (wd_reader w'))
      | Inl e \<Rightarrow> stopped t d (wd_reader w) e \<or> bindE (f (stream_octets (wd_reader w))) (\<lambda>(x, bs). h x bs) = Inl e)"
  proof (cases r1)
    case (Inl e)
    then show ?thesis using run m D by (auto simp: bindR_def)
  next
    case (Inr x)
    then have "g x w1 = (r, w')" using run m by (simp add: bindR_def)
    note E = streamsD [OF assms(2) this]
    show ?thesis using E D Inr by (auto simp: stopped_def split: sum.splits)
  qed
qed

lemma streams_cong: "streams t d m f \<Longrightarrow> (\<And>bs. f bs = g bs) \<Longrightarrow> streams t d m g"
  using ext [of f g] by simp

lemma streams_read_rest [streams_rules]: "streams t d (read_rest t d n) (split_part n)"
  unfolding streams_def
proof (intro allI impI)
  fix w r w' assume run: "read_rest t d n w = (r, w')"
  have "reads t d n False [] w (read_part t d n False w)"
    unfolding read_part_def by (rule read_part_loop_reads) simp
  then show "wd_delivered w' = wd_delivered w \<and> (Failed \<in> set (wd_reader w') \<longrightarrow> Failed \<in> set (wd_reader w)) \<and>
     (case r of
        Inr x \<Rightarrow> split_part n (stream_octets (wd_reader w)) = Inr (x, stream_octets (wd_reader w'))
      | Inl e \<Rightarrow> stopped t d (wd_reader w) e \<or> split_part n (stream_octets (wd_reader w)) = Inl e)"
    using run
    by (auto simp: read_rest_def bindR_def ret_def reads_def split_part_def split: prod.splits sum.splits option.splits)
qed

lemma streams_read_order [streams_rules]: "streams t d (read_order t d st header) (split_order st header)"
proof (cases "take 4 header = section_magic")
  case True
  show ?thesis
    unfolding read_order_def split_order_def if_P [OF True]
    by (rule streams_cong, (rule streams_rules)+) (auto simp: bindE_def split: sum.splits)
next
  case False
  show ?thesis
    unfolding read_order_def split_order_def if_not_P [OF False]
    by (rule streams_cong, (rule streams_rules)+) (auto simp: bindE_def split: sum.splits)
qed

lemma streams_read_tail: "streams t d (read_tail lim t d st header) (split_tail lim st header)"
proof -
  have tail: "streams t d
     (case x of (is_section, ord, header) \<Rightarrow>
      bindR (lift_import (block_size lim st is_section ord header)) (\<lambda>sz.
      bindR (read_rest t d (sz - length header)) (\<lambda>body.
      bindR (lift_import (check_trailer ord (header @ body))) (\<lambda>_.
      ret (ord, header @ body)))))
     (\<lambda>bs. case x of (is_section, ord, header) \<Rightarrow>
      bindE (block_size lim st is_section ord header) (\<lambda>sz.
      bindE (split_part (sz - length header) bs) (\<lambda>(body, bs).
      bindE (check_trailer ord (header @ body)) (\<lambda>_.
      Inr ((ord, header @ body), bs)))))" for x
    by (cases x, hypsubst, unfold prod.case) (rule streams_cong, (rule streams_rules)+, auto simp: bindE_def split: sum.splits)
  show ?thesis
    unfolding read_tail_def split_tail_def
    by (rule streams_cong [OF streams_bind [OF streams_read_order tail]]) (auto simp: bindE_def split: sum.splits)
qed

lemma read_block_splits:
  assumes "read_block lim t d st w = (r, w')"
  shows "wd_delivered w' = wd_delivered w \<and> (Failed \<in> set (wd_reader w') \<longrightarrow> Failed \<in> set (wd_reader w)) \<and>
    (case r of Inl e \<Rightarrow> stopped t d (wd_reader w) e \<or> split_block lim st (stream_octets (wd_reader w)) = Inl e
     | Inr None \<Rightarrow> split_block lim st (stream_octets (wd_reader w)) = Inr None
     | Inr (Some blk) \<Rightarrow> split_block lim st (stream_octets (wd_reader w)) = Inr (Some (blk, stream_octets (wd_reader w'))))"
proof -
  have rd: "reads t d 8 True [] w (read_part t d 8 True w)"
    unfolding read_part_def by (rule read_part_loop_reads) simp
  obtain r1 w1 where part: "read_part t d 8 True w = (r1, w1)" by fastforce
  have frame: "wd_delivered w1 = wd_delivered w" "Failed \<in> set (wd_reader w1) \<Longrightarrow> Failed \<in> set (wd_reader w)"
    using rd part by (simp_all add: reads_def)
  show ?thesis
  proof (cases "\<exists>header. r1 = Inr (Some header)")
    case False
    then show ?thesis using assms part rd
      by (auto simp: read_block_def bindR_def ret_def reads_def split_block_def split_part_def split: sum.splits option.splits)
  next
    case True
    then obtain header where r1: "r1 = Inr (Some header)" by blast
    then have bs: "stream_octets (wd_reader w) = header @ stream_octets (wd_reader w1)" "length header = 8"
      using rd part by (auto simp: reads_def)
    then have split: "split_block lim st (stream_octets (wd_reader w)) =
        map_sum id Some (split_tail lim st header (stream_octets (wd_reader w1)))"
      by (auto simp: split_block_def split_part_def)
    obtain r2 w2 where tail: "read_tail lim t d st header w1 = (r2, w2)" by fastforce
    note D = streamsD [OF streams_read_tail tail]
    have "r = map_sum id Some r2" "w' = w2"
      using assms part r1 tail by (cases r2; auto simp: read_block_def bindR_def ret_def)+
    then show ?thesis using D frame split by (cases r2) (auto simp: stopped_def)
  qed
qed

section \<open>The importer as a function of the octets\<close>

lemma map_sum_Some_iff: "map_sum id Some v = Inr (Some x) \<longleftrightarrow> v = Inr x"
  by (cases v) auto

lemma split_part_Inr_iff: "split_part n bs = Inr (a, b) \<longleftrightarrow> bs = a @ b \<and> length a = n"
  by (auto simp: split_part_def)

lemma split_order_Inr:
  assumes "split_order st header bs = Inr ((sec, ord, header'), bs')" "length header = 8"
  shows "\<exists>more. header' = header @ more \<and> bs = more @ bs'" "8 \<le> length header'" "length header' \<le> 12"
    "sec \<longleftrightarrow> take 4 header = section_magic"
    "if sec then section_complete st \<and> order_of_magic (take 4 (drop 8 header')) = Inr ord else im_order st = Some ord"
  using assms by (auto simp: split_order_def bindE_Inr_iff split_part_Inr_iff split: if_splits)

lemma block_size_Inr:
  assumes "block_size lim st sec ord header = Inr sz"
  shows "12 \<le> sz" "sz mod 4 = 0" "sz \<le> max_block_bytes lim" "im_bytes st + sz \<le> max_bytes lim" "im_blocks st < max_blocks lim"
    "sz = unat (order_bytes ord (take 4 (drop 4 header)) :: u32)"
    "\<not> sec \<Longrightarrow> im_section_end st = Some e \<Longrightarrow> im_bytes st + sz \<le> e"
  using assms by (auto simp: block_size_def bindE_Inr_iff Let_def order_u32_def not_less split: option.splits if_splits)

text \<open>What a framed block satisfies.\<close>

definition framed :: "import_limits \<Rightarrow> import_state \<Rightarrow> byte_order \<Rightarrow> u8 list \<Rightarrow> bool" where
  "framed lim st ord buffer \<longleftrightarrow>
     12 \<le> length buffer \<and> length buffer mod 4 = 0 \<and> length buffer \<le> max_block_bytes lim \<and>
     im_bytes st + length buffer \<le> max_bytes lim \<and> im_blocks st < max_blocks lim \<and>
     order_bytes ord (take 4 (drop 4 buffer)) = (of_nat (length buffer) :: u32) \<and>
     order_bytes ord (drop (length buffer - 4) buffer) = (of_nat (length buffer) :: u32) \<and>
     (if take 4 buffer = section_magic
      then section_complete st \<and> order_of_magic (take 4 (drop 8 buffer)) = Inr ord
      else im_order st = Some ord)"

lemma split_block_Some:
  assumes "split_block lim st bs = Inr (Some ((ord, buffer), rest))"
  shows "bs = buffer @ rest" "framed lim st ord buffer"
proof -
  from assms obtain header bs1 where h: "bs = header @ bs1" "length header = 8"
    and "split_tail lim st header bs1 = Inr ((ord, buffer), rest)"
    by (auto simp: split_block_def bindE_Inr_iff split_part_Inr_iff map_sum_Some_iff split: if_splits)
  then obtain sec header' bs2 sz body where o: "split_order st header bs1 = Inr ((sec, ord, header'), bs2)"
    and sz: "block_size lim st sec ord header' = Inr sz" and body: "bs2 = body @ rest" "length body = sz - length header'"
    and trail: "check_trailer ord (header' @ body) = Inr ()" and buffer: "buffer = header' @ body"
    by (auto simp: split_tail_def bindE_Inr_iff split_part_Inr_iff split: prod.splits)
  note O = split_order_Inr [OF o h(2)] and B = block_size_Inr [OF sz]
  from O(1) obtain more where more: "header' = header @ more" "bs1 = more @ bs2" by blast
  then show "bs = buffer @ rest" using h body buffer by simp
  have len: "length buffer = sz" using B(1) O(3) body buffer by simp
  have "take 4 (drop 4 buffer) = take 4 (drop 4 header')" "take 4 buffer = take 4 header"
    using h(2) more(1) buffer by simp_all
  moreover have "take 4 (drop 8 buffer) = take 4 (drop 8 header')" if sec
    using o h(2) buffer that by (auto simp: split_order_def bindE_Inr_iff split_part_Inr_iff split: if_splits)
  moreover have "(order_bytes ord (drop (length buffer - 4) buffer) :: u32) = of_nat (length buffer)"
    using trail buffer by (auto simp: check_trailer_def bindE_Inr_iff order_u32_def split: if_splits)
  moreover have "(order_bytes ord (take 4 (drop 4 header')) :: u32) = of_nat sz" using B(6) by simp
  ultimately show "framed lim st ord buffer"
    unfolding framed_def len using B(1-5) O(4,5) by (auto split: if_splits)
qed

lemma split_block_shorter: "split_block lim st bs = Inr (Some ((ord, buffer), rest)) \<Longrightarrow> length rest < length bs"
  using split_block_Some [of lim st bs ord buffer rest] by (auto simp: framed_def)

function import_bytes ::
    "'o pcap_parser \<Rightarrow> import_limits \<Rightarrow> (packet list \<Rightarrow> bool) \<Rightarrow> import_state \<Rightarrow> u8 list
       \<Rightarrow> (packet list, import_error, receipt) rsm" where
  "import_bytes X lim consume st bs ps =
     (case split_block lim st bs of
        Inl e \<Rightarrow> (Inl e, ps)
      | Inr None \<Rightarrow> (finish_import X st, ps)
      | Inr (Some ((ord, buffer), rest)) \<Rightarrow>
          bindR (take_block X lim consume ord buffer st) (\<lambda>st. import_bytes X lim consume st rest) ps)"
  by pat_completeness auto
termination
  by (relation "measure (\<lambda>(X, lim, consume, st, bs, ps). length bs)")
    (auto dest: split_block_shorter)

declare import_bytes.simps [simp del]

definition import_stream ::
    "'o pcap_parser \<Rightarrow> import_limits \<Rightarrow> (packet list \<Rightarrow> bool) \<Rightarrow> u8 list \<Rightarrow> (packet list, import_error, receipt) rsm" where
  "import_stream X lim consume bs =
     bindR (lift_import (validate_import_limits lim)) (\<lambda>_. import_bytes X lim consume import_start bs)"

lemma deliver_extends: "deliver consume p ps = (r, ps') \<Longrightarrow> \<exists>zs. ps' = ps @ zs"
  by (auto simp: deliver_def split: if_splits)

lemma take_block_extends: "take_block X lim consume ord buffer st ps = (r, ps') \<Longrightarrow> \<exists>zs. ps' = ps @ zs"
  by (auto simp: take_block_def apply_block_def lift_import_def bindR_def ret_def Let_def
      split: prod.splits sum.splits pcap_block.splits dest: deliver_extends)

lemma import_bytes_extends: "\<exists>zs. snd (import_bytes X lim consume st bs ps) = ps @ zs"
proof (induction X lim consume st bs ps rule: import_bytes.induct)
  case (1 X lim consume st bs ps)
  show ?case
  proof (cases "\<exists>ord buffer rest. split_block lim st bs = Inr (Some ((ord, buffer), rest))")
    case False
    then show ?thesis by (subst import_bytes.simps) (auto split: sum.splits option.splits)
  next
    case True
    then obtain ord buffer rest where sp: "split_block lim st bs = Inr (Some ((ord, buffer), rest))" by blast
    obtain r ps1 where tb: "take_block X lim consume ord buffer st ps = (r, ps1)" by fastforce
    with take_block_extends obtain zs where zs: "ps1 = ps @ zs" by blast
    show ?thesis
    proof (cases r)
      case (Inl e)
      then show ?thesis using sp tb zs by (subst import_bytes.simps) (simp add: bindR_def)
    next
      case (Inr st')
      then show ?thesis using sp tb zs 1 [OF sp refl refl refl] by (subst import_bytes.simps) (fastforce simp: bindR_def)
    qed
  qed
qed

text \<open>A run of the loop has the outcome of the octets, or is stopped with a part of the packets.\<close>

definition outcome :: "watch \<Rightarrow> nat \<Rightarrow> world \<Rightarrow> (import_error + 'a) \<times> packet list \<Rightarrow> (import_error + 'a) \<times> world \<Rightarrow> bool" where
  "outcome t d w spec out \<longleftrightarrow>
     (fst out, wd_delivered (snd out)) = spec \<or>
     (\<exists>e zs. fst out = Inl e \<and> stopped t d (wd_reader w) e \<and> snd spec = wd_delivered (snd out) @ zs)"

lemma outcome_stopped:
  "stopped t d (wd_reader w) e \<Longrightarrow> snd spec = wd_delivered w' @ zs \<Longrightarrow> outcome t d w spec (Inl e, w')"
  by (auto simp: outcome_def)

lemma read_loop_outcome:
  "outcome t d w (import_bytes X lim consume st (stream_octets (wd_reader w)) (wd_delivered w)) (read_loop X lim t consume d st w)"
proof (induction X lim t consume d st w rule: read_loop.induct)
  case (1 X lim t consume d st w)
  let ?spec = "import_bytes X lim consume st (stream_octets (wd_reader w)) (wd_delivered w)"
  obtain zs where zs: "snd ?spec = wd_delivered w @ zs" using import_bytes_extends by blast
  note run = read_loop.simps [of X lim t consume d st w] and spec = import_bytes.simps [of X lim consume st "stream_octets (wd_reader w)" "wd_delivered w"]
  obtain r1 w1 where c: "import_check t d w = (r1, w1)" by fastforce
  note keep = import_check_reader [OF c]
  obtain r2 w2 where b: "read_block lim t d st w1 = (r2, w2)" by fastforce
  note sp = read_block_splits [OF b]
  show ?case
  proof (cases r1)
    case (Inl e)
    then show ?thesis using c keep zs import_check_stopped [of t d w e w1]
      by (subst run) (auto simp: bindR_def intro!: outcome_stopped)
  next
    case r1: (Inr u)
    show ?thesis
    proof (cases r2)
      case (Inl e)
      then have "stopped t d (wd_reader w) e \<or> ?spec = (Inl e, wd_delivered w)"
        using sp keep by (subst spec) auto
      moreover have "read_loop X lim t consume d st w = (Inl e, w2)" using c r1 b Inl by (subst run) (simp add: bindR_def)
      ultimately show ?thesis using sp keep zs by (auto simp: outcome_def)
    next
      case r2: (Inr blk)
      show ?thesis
      proof (cases blk)
        case None
        then have "?spec = (finish_import X st, wd_delivered w)" using sp keep r2 by (subst spec) auto
        moreover obtain r3 w3 where c3: "import_check t d w2 = (r3, w3)" by fastforce
        moreover have "read_loop X lim t consume d st w =
            bindR (lift_import (finish_import X st)) (\<lambda>rc. bindR (import_check t d) (\<lambda>_. ret rc)) w2"
          using c r1 b r2 None by (subst run) (simp add: bindR_def)
        ultimately show ?thesis
          using sp keep import_check_reader [OF c3] import_check_stopped [of t d w2 _ w3 "wd_reader w"]
          by (cases "finish_import X st"; cases r3) (auto simp: outcome_def bindR_def lift_import_def ret_def)
      next
        case (Some ob)
        obtain ord buffer where ob: "ob = (ord, buffer)" by fastforce
        have split: "split_block lim st (stream_octets (wd_reader w)) = Inr (Some ((ord, buffer), stream_octets (wd_reader w2)))"
          using sp keep r2 Some ob by simp
        have dl: "wd_delivered w2 = wd_delivered w" using sp keep by simp
        obtain r3 ps3 where tb: "take_block X lim consume ord buffer st (wd_delivered w) = (r3, ps3)" by fastforce
        let ?w3 = "w2\<lparr>wd_delivered := ps3\<rparr>"
        have od: "on_delivered (take_block X lim consume ord buffer st) w2 = (r3, ?w3)"
          using tb dl by (simp add: on_delivered_def)
        have loop: "read_loop X lim t consume d st w =
            bindR (on_delivered (take_block X lim consume ord buffer st)) (\<lambda>st. read_loop X lim t consume d st) w2"
          using c r1 b r2 Some ob by (subst run) (simp add: bindR_def)
        show ?thesis
        proof (cases r3)
          case (Inl e)
          then have "?spec = (Inl e, ps3)" using split tb by (subst spec) (simp add: bindR_def)
          then show ?thesis unfolding loop using od Inl by (simp add: bindR_def outcome_def)
        next
          case (Inr st')
          then have s': "?spec = import_bytes X lim consume st' (stream_octets (wd_reader ?w3)) (wd_delivered ?w3)"
            using split tb by (subst spec) (simp add: bindR_def)
          have "outcome t d ?w3 ?spec (read_loop X lim t consume d st' ?w3)"
            by (subst s', rule 1 [OF c [unfolded r1] b [unfolded r2] Some ob [symmetric] od [unfolded Inr]])
          moreover have "stopped t d (wd_reader ?w3) e \<Longrightarrow> stopped t d (wd_reader w) e" for e
            using sp keep by (auto simp: stopped_def)
          ultimately show ?thesis unfolding loop using od Inr by (auto simp: bindR_def outcome_def)
        qed
      qed
    qed
  qed
qed

end
