(* ===== verification/Pcapng_Receipt.thy ===== *)
theory Pcapng_Receipt
  imports Pcapng_Stream "HOL-Library.Code_Target_Nat"
begin

text \<open>
  What a successful import of a packet capture certifies, and the properties of
  \<open>packet-import/src/pcapng.rs\<close>.
\<close>

section \<open>The decoder's contract\<close>

text \<open>
  What the importer needs of \<open>pcap-parser\<close>: a block is a section header exactly when it starts with the
  type of section headers, decoded section headers and interface descriptions have their minimal length,
  and \<open>as_bytes\<close> returns as many octets as the option is long.
\<close>

definition block_sound :: "u8 list \<Rightarrow> 'o pcap_block \<Rightarrow> bool" where
  "block_sound buffer blk \<longleftrightarrow>
     (case blk of
        SectionHeader major minor section_len opts \<Rightarrow> take 4 buffer = section_magic \<and> 28 \<le> length buffer
      | InterfaceDescription linktype snap opts \<Rightarrow> take 4 buffer \<noteq> section_magic \<and> 20 \<le> length buffer
      | _ \<Rightarrow> take 4 buffer \<noteq> section_magic)"

definition parser_contract :: "'o pcap_parser \<Rightarrow> bool" where
  "parser_contract X \<longleftrightarrow>
     (\<forall>buffer rest blk. parse_block_le X buffer = Some (rest, blk) \<or> parse_block_be X buffer = Some (rest, blk) \<longrightarrow>
        block_sound buffer blk) \<and>
     (\<forall>opt b. opt_bytes X opt = Some b \<longrightarrow> length b = unat (opt_len X opt))"

lemma parse_block_sound: "parser_contract X \<Longrightarrow> parse_block X ord buffer = Inr blk \<Longrightarrow> block_sound buffer blk"
  by (auto simp: parser_contract_def parse_block_def bindE_Inr_iff split: byte_order.splits prod.splits)

lemma bindE_Inl_iff: "bindE r f = Inl e \<longleftrightarrow> r = Inl e \<or> (\<exists>x. r = Inr x \<and> f x = Inl e)"
  by (cases r) auto

lemma ensure_Inl_iff: "ensure b e = Inl e' \<longleftrightarrow> \<not> b \<and> e' = e"
  by (auto simp: ensure_def)

lemma some_or_Inl_iff: "some_or v e = Inl e' \<longleftrightarrow> v = None \<and> e' = e"
  by (cases v) (auto simp: some_or_def)

lemma map_sum_Inl_iff: "map_sum id f v = Inl e \<longleftrightarrow> v = Inl e"
  by (cases v) auto

lemmas error_iffs = bindE_Inl_iff ensure_Inl_iff some_or_Inl_iff map_sum_Inl_iff

section \<open>No panic\<close>

lemma options_loop_no_panic: "options_loop X opts n \<noteq> Inl PE_Panic"
  by (induction opts arbitrary: n) (auto simp: Let_def)

lemma check_options_no_panic: "check_options X opts n \<noteq> Inl PE_Panic"
  by (auto simp: check_options_def error_iffs options_loop_no_panic)

lemma single_loop_no_panic: "single_loop X len opts found \<noteq> Inl PE_Panic"
  by (induction opts arbitrary: found) (auto simp: error_iffs)

lemma single_loop_length:
  "parser_contract X \<Longrightarrow> single_loop X len opts found = Inr (Some b) \<Longrightarrow> (\<And>c. found = Some c \<Longrightarrow> length c = len) \<Longrightarrow>
     length b = len"
  by (induction opts arbitrary: found)
    (auto simp: bindE_Inr_iff parser_contract_def split: if_splits)

lemma single_option_facts:
  "single_option X opts code len \<noteq> Inl PE_Panic"
  "parser_contract X \<Longrightarrow> single_option X opts code len = Inr (Some b) \<Longrightarrow> length b = len"
  using single_loop_length [of X len _ None b] by (auto simp: single_option_def single_loop_no_panic)

lemma known_or_no_panic: "(\<And>b. v = Some b \<Longrightarrow> f b \<noteq> Inl PE_Panic) \<Longrightarrow> known_or f v \<noteq> Inl PE_Panic"
  by (cases v; cases "f (the v)") (auto simp: known_or_def)

lemma section_header_no_panic: "28 \<le> sz \<Longrightarrow> section_header X lim sz major minor len opts st \<noteq> Inl PE_Panic"
  by (auto simp: section_header_def error_iffs sub_or_panic_def check_options_no_panic checked_sub_def
      split: if_splits)

lemma interface_description_no_panic:
  assumes "parser_contract X" "20 \<le> sz" "1 \<le> im_sections st"
  shows "interface_description X lim ord sz linktype snap opts st \<noteq> Inl PE_Panic"
  using assms(2,3)
  by (auto simp: interface_description_def error_iffs sub_or_panic_def check_options_no_panic checked_sub_def
      single_option_facts(1) order_u64_def dest: single_option_facts(2) [OF assms(1)] split: if_splits option.splits)

lemma packet_timestamp_no_panic: "packet_timestamp ticks i \<noteq> Inl PE_Panic"
  by (auto simp: packet_timestamp_def Let_def split: prod.splits)

lemma enhanced_packet_no_panic:
  assumes "parser_contract X"
  shows "enhanced_packet X lim ord sz if_id hi lo caplen origlen dat opts st \<noteq> Inl PE_Panic"
  by (auto simp: enhanced_packet_def error_iffs check_options_no_panic single_option_facts(1) packet_timestamp_no_panic
      order_u32_def order_u64_def known_or_def dest: single_option_facts(2) [OF assms] split: if_splits option.splits)

lemma simple_packet_no_panic: "simple_packet lim origlen dat st \<noteq> Inl PE_Panic"
  by (auto simp: simple_packet_def error_iffs Let_def)

lemma take_block_no_panic:
  assumes "parser_contract X" "take 4 buffer \<noteq> section_magic \<Longrightarrow> 1 \<le> im_sections st"
  shows "fst (take_block X lim consume ord buffer st ps) \<noteq> Inl PE_Panic"
proof (cases "parse_block X ord buffer")
  case (Inl e)
  then have "e \<noteq> PE_Panic" by (auto simp: parse_block_def error_iffs split: prod.splits)
  then show ?thesis using Inl by (simp add: take_block_def lift_import_def bindR_def)
next
  case (Inr blk)
  note sound = parse_block_sound [OF assms(1) Inr]
  have "fst (apply_block X lim consume ord (length buffer) blk s ps) \<noteq> Inl PE_Panic" if "im_sections s = im_sections st" for s
    using sound assms(2) that
    by (cases blk) (auto simp: apply_block_def block_sound_def lift_import_def bindR_def deliver_def ret_def
        section_header_no_panic interface_description_no_panic [OF assms(1)]
        enhanced_packet_no_panic [OF assms(1)] simple_packet_no_panic split: sum.splits)
  from this [of "st\<lparr>im_order := Some ord, im_blocks := im_blocks st + 1\<rparr>"] show ?thesis
    using Inr by (auto simp: take_block_def lift_import_def bindR_def ret_def Let_def split: prod.splits sum.splits)
qed

lemma block_size_no_panic: "8 \<le> length header \<Longrightarrow> block_size lim st sec ord header \<noteq> Inl PE_Panic"
  by (auto simp: block_size_def error_iffs Let_def order_u32_def)

lemma check_trailer_no_panic: "4 \<le> length buffer \<Longrightarrow> check_trailer ord buffer \<noteq> Inl PE_Panic"
  by (auto simp: check_trailer_def error_iffs order_u32_def)

lemma split_part_no_panic: "split_part n bs \<noteq> Inl PE_Panic"
  by (simp add: split_part_def)

lemma split_order_no_panic: "split_order st header bs \<noteq> Inl PE_Panic"
  by (auto simp: split_order_def error_iffs split_part_no_panic order_of_magic_def split: if_splits prod.splits)

lemma split_tail_no_panic:
  assumes "length header = 8"
  shows "split_tail lim st header bs \<noteq> Inl PE_Panic"
proof
  assume "split_tail lim st header bs = Inl PE_Panic"
  then obtain sec ord header' bs2 where o: "split_order st header bs = Inr ((sec, ord, header'), bs2)"
    and "bindE (block_size lim st sec ord header') (\<lambda>sz. bindE (split_part (sz - length header') bs2) (\<lambda>(body, bs).
           bindE (check_trailer ord (header' @ body)) (\<lambda>_. Inr ((ord, header' @ body), bs)))) = Inl PE_Panic"
    by (auto simp: split_tail_def bindE_Inl_iff split_order_no_panic)
  moreover have "8 \<le> length header'" using split_order_Inr(2) [OF o assms] .
  ultimately show False
    by (auto simp: error_iffs split_part_no_panic block_size_no_panic check_trailer_no_panic split: prod.splits)
qed

lemma split_block_no_panic: "split_block lim st bs \<noteq> Inl PE_Panic"
  by (auto simp: split_block_def error_iffs split_part_no_panic split_part_Inr_iff split_tail_no_panic split: prod.splits)

lemma finish_import_no_panic: "finish_import X st \<noteq> Inl PE_Panic"
  by (auto simp: finish_import_def error_iffs)

section \<open>One block\<close>

text \<open>The divisor of a resolution octet, without the bound of 128 bits.\<close>

definition ticks_per_second :: "u8 \<Rightarrow> nat" where
  "ticks_per_second r = (if r AND 128 \<noteq> 0 then 2 ^ unat (r AND 127) else 10 ^ unat r)"

lemma packet_timestamp_exact:
  assumes "packet_timestamp ticks i = Inr ts"
  shows "raw_ticks ts = ticks"
    "utc_nanoseconds ts = int (unat ticks * 10 ^ 9 div ticks_per_second (timestamp_resolution i)) + timestamp_offset_seconds i * 10 ^ 9"
    "subnanosecond_remainder ts \<longleftrightarrow> \<not> ticks_per_second (timestamp_resolution i) dvd unat ticks * 10 ^ 9"
proof -
  let ?r = "timestamp_resolution i" and ?n = "unat ticks * 1000000000"
  have "unat ticks < 2 ^ 64" using unsigned_less [of ticks, where ?'a = nat] by simp
  then have small: "?n < 2 ^ 128" by simp
  have big: "?n div d = 0" "(d dvd ?n) \<longleftrightarrow> ?n = 0" if "2 ^ 128 \<le> d" for d
    using small that by (auto dest: dvd_imp_le)
  have "(case timestamp_divisor ?r of Some d \<Rightarrow> (?n div d, ?n mod d \<noteq> 0) | None \<Rightarrow> (0, ?n \<noteq> 0)) =
      (?n div ticks_per_second ?r, \<not> ticks_per_second ?r dvd ?n)"
    using big [of "10 ^ unat ?r"] by (auto simp: timestamp_divisor_def ticks_per_second_def dvd_eq_mod_eq_0)
  with assms show "raw_ticks ts = ticks"
    "utc_nanoseconds ts = int (unat ticks * 10 ^ 9 div ticks_per_second ?r) + timestamp_offset_seconds i * 10 ^ 9"
    "subnanosecond_remainder ts \<longleftrightarrow> \<not> ticks_per_second ?r dvd unat ticks * 10 ^ 9"
    by (auto simp: packet_timestamp_def Let_def split: if_splits)
qed

text \<open>A packet is what its interface allows: lengths, and the time computed without loss.\<close>

definition faithful_packet :: "packet \<Rightarrow> bool" where
  "faithful_packet p \<longleftrightarrow>
     length (pk_data p) = unat (captured_length p) \<and>
     (snaplen (pk_interface p) = 0 \<or> captured_length p \<le> snaplen (pk_interface p)) \<and>
     (contradictory_original_length p \<longleftrightarrow> original_length p < captured_length p) \<and>
     (case pk_timestamp p of
        Unknown reason \<Rightarrow> reason = SourceDidNotProvide
      | Known ts \<Rightarrow>
          utc_nanoseconds ts = int (unat (raw_ticks ts) * 10 ^ 9 div ticks_per_second (timestamp_resolution (pk_interface p))) +
            timestamp_offset_seconds (pk_interface p) * 10 ^ 9 \<and>
          (subnanosecond_remainder ts \<longleftrightarrow>
             \<not> ticks_per_second (timestamp_resolution (pk_interface p)) dvd unat (raw_ticks ts) * 10 ^ 9))"

definition packet_of :: "import_limits \<Rightarrow> import_state \<Rightarrow> packet \<Rightarrow> bool" where
  "packet_of lim st p \<longleftrightarrow>
     faithful_packet p \<and> block_offset p = im_bytes st \<and> pk_interface p \<in> set (im_interfaces st) \<and> im_packets st < max_packets lim"

lemma enhanced_packet_of:
  assumes "enhanced_packet X lim ord sz if_id hi lo caplen origlen dat opts st = Inr p"
  shows "packet_of lim st p"
  using assms
  by (auto simp: enhanced_packet_def bindE_Inr_iff packet_of_def faithful_packet_def packet_timestamp_exact not_less min_absorb2)

lemma simple_packet_of:
  assumes "simple_packet lim origlen dat st = Inr p"
  shows "packet_of lim st p"
  using assms
  by (auto simp: simple_packet_def bindE_Inr_iff packet_of_def faithful_packet_def unknown_evidence_def Let_def not_less min_absorb2
      split: if_splits)

abbreviation is_section :: "u8 list \<Rightarrow> bool" where
  "is_section b \<equiv> take 4 b = section_magic"

text \<open>What a block that is accepted changes.\<close>

definition block_step ::
    "import_limits \<Rightarrow> (packet list \<Rightarrow> bool) \<Rightarrow> bool \<Rightarrow> import_state \<Rightarrow> packet list \<Rightarrow> import_state \<Rightarrow> packet list \<Rightarrow> bool" where
  "block_step lim consume sec st ps st' ps' \<longleftrightarrow>
     im_sections st' = im_sections st + (if sec then 1 else 0) \<and> (sec \<longrightarrow> im_sections st' \<le> max_sections lim) \<and>
     (\<exists>new. ps' = ps @ new \<and> im_packets st' = im_packets st + length new \<and> length new \<le> 1 \<and>
        (\<forall>p \<in> set new. packet_of lim st p \<and> consume ps')) \<and>
     (\<forall>i \<in> set (im_interfaces st'). \<not> sec \<and>
        (i \<in> set (im_interfaces st) \<or> 1 \<le> im_sections st \<and> section_index i = of_nat (im_sections st - 1))) \<and>
     im_packets st' + im_skipped st' + im_sections st' \<le> Suc (im_packets st + im_skipped st + im_sections st)"

lemma section_header_step:
  "section_header X lim sz major minor len opts st = Inr st' \<Longrightarrow>
     block_step lim consume True st ps st' ps \<and> im_bytes st' = im_bytes st \<and> im_hashed st' = im_hashed st \<and>
     im_blocks st' = im_blocks st \<and> im_order st' = im_order st"
  by (auto simp: section_header_def bindE_Inr_iff block_step_def)

lemma interface_description_step:
  "interface_description X lim ord sz linktype snap opts st = Inr st' \<Longrightarrow>
     block_step lim consume False st ps st' ps \<and> im_bytes st' = im_bytes st \<and> im_hashed st' = im_hashed st \<and>
     im_blocks st' = im_blocks st \<and> im_order st' = im_order st"
  by (auto simp: interface_description_def bindE_Inr_iff block_step_def sub_or_panic_def)

lemma deliver_step:
  assumes "packet_of lim st p" "deliver consume p ps = (Inr u, ps')"
  shows "block_step lim consume False st ps (st\<lparr>im_packets := im_packets st + 1\<rparr>) ps'"
  using assms by (auto simp: deliver_def block_step_def split: if_splits intro!: exI [of _ "[p]"])

lemma apply_block_step:
  assumes "block_sound buffer blk" "apply_block X lim consume ord sz blk st ps = (Inr st', ps')"
  shows "block_step lim consume (is_section buffer) st ps st' ps' \<and> im_bytes st' = im_bytes st \<and> im_hashed st' = im_hashed st \<and>
    im_blocks st' = im_blocks st \<and> im_order st' = im_order st"
proof (cases blk)
  case (SectionHeader major minor len opts)
  then show ?thesis using assms section_header_step [of X lim sz major minor len opts st st' consume ps]
    by (simp add: apply_block_def block_sound_def lift_import_def)
next
  case (InterfaceDescription linktype snap opts)
  then show ?thesis using assms interface_description_step [of X lim ord sz linktype snap opts st st' consume ps]
    by (simp add: apply_block_def block_sound_def lift_import_def)
next
  case (EnhancedPacket if_id hi lo caplen origlen dat opts)
  with assms(2) obtain p u where "enhanced_packet X lim ord sz if_id hi lo caplen origlen dat opts st = Inr p"
    "deliver consume p ps = (Inr u, ps')" "st' = st\<lparr>im_packets := im_packets st + 1\<rparr>"
    by (auto simp: apply_block_def bindR_Inr_iff lift_import_def)
  then show ?thesis using deliver_step [OF enhanced_packet_of] assms(1) EnhancedPacket by (simp add: block_sound_def)
next
  case (SimplePacket origlen dat)
  with assms(2) obtain p u where "simple_packet lim origlen dat st = Inr p"
    "deliver consume p ps = (Inr u, ps')" "st' = st\<lparr>im_packets := im_packets st + 1\<rparr>"
    by (auto simp: apply_block_def bindR_Inr_iff lift_import_def)
  then show ?thesis using deliver_step [OF simple_packet_of] assms(1) SimplePacket by (simp add: block_sound_def)
next
  case OtherBlock
  then show ?thesis using assms by (simp add: apply_block_def block_sound_def block_step_def)
qed

lemma take_block_step:
  assumes "parser_contract X" "take_block X lim consume ord buffer st ps = (Inr st', ps')"
  shows "block_step lim consume (is_section buffer) st ps st' ps'" "im_bytes st' = im_bytes st + length buffer"
    "im_hashed st' = im_hashed st @ buffer" "im_blocks st' = Suc (im_blocks st)" "im_order st' = Some ord"
proof -
  let ?st = "st\<lparr>im_order := Some ord, im_blocks := im_blocks st + 1\<rparr>"
  from assms(2) obtain blk st1 where blk: "parse_block X ord buffer = Inr blk"
    and st1: "apply_block X lim consume ord (length buffer) blk ?st ps = (Inr st1, ps')"
    and st': "st' = st1\<lparr>im_hashed := im_hashed st1 @ buffer, im_bytes := im_bytes st1 + length buffer\<rparr>"
    by (auto simp: take_block_def lift_import_def bindR_Inr_iff Let_def)
  note step = apply_block_step [OF parse_block_sound [OF assms(1) blk] st1]
  then show "block_step lim consume (is_section buffer) st ps st' ps'"
    by (auto simp: st' block_step_def packet_of_def split: if_splits)
  show "im_bytes st' = im_bytes st + length buffer" "im_hashed st' = im_hashed st @ buffer"
    "im_blocks st' = Suc (im_blocks st)" "im_order st' = Some ord"
    using step by (simp_all add: st')
qed

section \<open>The whole stream\<close>

definition sound_state :: "import_limits \<Rightarrow> import_state \<Rightarrow> bool" where
  "sound_state lim st \<longleftrightarrow>
     (im_order st \<noteq> None \<longrightarrow> 1 \<le> im_sections st) \<and>
     (\<forall>i \<in> set (im_interfaces st). Suc (unat (section_index i)) = im_sections st) \<and>
     im_sections st \<le> max_sections lim \<and> im_packets st \<le> max_packets lim \<and> im_blocks st \<le> max_blocks lim \<and>
     im_bytes st \<le> max_bytes lim \<and> im_packets st + im_skipped st + im_sections st \<le> im_blocks st"

lemma sound_state_step:
  assumes "parser_contract X" "max_sections lim \<le> 1024" "sound_state lim st" "framed lim st ord buffer"
    and "take_block X lim consume ord buffer st ps = (Inr st', ps')"
  shows "sound_state lim st'"
proof -
  note step = take_block_step [OF assms(1,5)]
  have idx: "Suc (unat (of_nat (im_sections st - 1) :: u32)) = im_sections st" if "1 \<le> im_sections st"
    using assms(2,3) that by (cases "im_sections st") (simp_all add: sound_state_def unat_of_nat)
  from step(1) obtain new where "im_packets st' = im_packets st + length new" "length new \<le> 1"
    "\<forall>p \<in> set new. packet_of lim st p"
    unfolding block_step_def by blast
  then have "im_packets st' \<le> max_packets lim" using assms(3) by (cases new) (auto simp: sound_state_def packet_of_def)
  moreover have "1 \<le> im_sections st'" using step(1) assms(3,4) by (auto simp: block_step_def sound_state_def framed_def)
  moreover have "\<forall>i \<in> set (im_interfaces st'). Suc (unat (section_index i)) = im_sections st'"
    using step(1) assms(3) idx by (auto simp: block_step_def sound_state_def)
  ultimately show ?thesis
    using step assms(3,4) by (auto simp: sound_state_def block_step_def framed_def split: if_splits)
qed

lemma import_bytes_no_panic:
  assumes "parser_contract X" "max_sections lim \<le> 1024"
  shows "sound_state lim st \<Longrightarrow> fst (import_bytes X lim consume st bs ps) \<noteq> Inl PE_Panic"
  using assms
proof (induction X lim consume st bs ps rule: import_bytes.induct)
  case (1 X lim consume st bs ps)
  note run = import_bytes.simps [of X lim consume st bs ps]
  show ?case
  proof (cases "\<exists>ord buffer rest. split_block lim st bs = Inr (Some ((ord, buffer), rest))")
    case False
    then show ?thesis using split_block_no_panic [of lim st bs]
      by (subst run) (auto simp: finish_import_no_panic split: sum.splits option.splits)
  next
    case True
    then obtain ord buffer rest where sp: "split_block lim st bs = Inr (Some ((ord, buffer), rest))" by blast
    note fr = split_block_Some(2) [OF sp]
    have "fst (take_block X lim consume ord buffer st ps) \<noteq> Inl PE_Panic"
      using 1(3) fr 1(2) by (intro take_block_no_panic) (auto simp: framed_def sound_state_def 1)
    then show ?thesis
      using sp 1(1) [OF sp refl refl refl] 1(3,4) sound_state_step [OF 1(3,4,2) fr]
      by (subst run) (auto simp: bindR_def split: prod.splits sum.splits)
  qed
qed

text \<open>A block carries its length twice, in front and at its end.\<close>

definition block_frame :: "import_limits \<Rightarrow> u8 list \<Rightarrow> bool" where
  "block_frame lim b \<longleftrightarrow>
     12 \<le> length b \<and> length b mod 4 = 0 \<and> length b \<le> max_block_bytes lim \<and>
     (\<exists>ord. order_bytes ord (take 4 (drop 4 b)) = (of_nat (length b) :: u32) \<and>
        order_bytes ord (drop (length b - 4) b) = (of_nat (length b) :: u32))"

text \<open>Where the packets of a list of blocks come from, after \<open>off\<close> octets and \<open>secs\<close> sections.\<close>

definition placed :: "nat \<Rightarrow> nat \<Rightarrow> u8 list list \<Rightarrow> packet \<Rightarrow> bool" where
  "placed off secs blocks p \<longleftrightarrow>
     (\<exists>k < length blocks. block_offset p = off + length (concat (take k blocks)) \<and>
        Suc (unat (section_index (pk_interface p))) = secs + length (filter is_section (take k blocks)))"

lemma placed_Cons:
  assumes "placed (off + length b) (secs + (if is_section b then 1 else 0)) blocks p"
  shows "placed off secs (b # blocks) p"
proof -
  from assms obtain k where "k < length blocks" "block_offset p = off + length b + length (concat (take k blocks))"
    "Suc (unat (section_index (pk_interface p))) = secs + (if is_section b then 1 else 0) + length (filter is_section (take k blocks))"
    by (auto simp: placed_def)
  then show ?thesis unfolding placed_def by (intro exI [of _ "Suc k"]) auto
qed

lemma placed_head:
  "block_offset p = off \<Longrightarrow> Suc (unat (section_index (pk_interface p))) = secs \<Longrightarrow> placed off secs (b # blocks) p"
  unfolding placed_def by (intro exI [of _ 0]) simp

lemma placed_offset: "placed off secs blocks p \<Longrightarrow> off \<le> block_offset p"
  by (auto simp: placed_def)

definition certifies ::
    "'o pcap_parser \<Rightarrow> import_limits \<Rightarrow> (packet list \<Rightarrow> bool) \<Rightarrow> import_state \<Rightarrow> u8 list list \<Rightarrow> packet list \<Rightarrow> packet list \<Rightarrow> receipt \<Rightarrow> bool" where
  "certifies X lim consume st blocks ps new rc \<longleftrightarrow>
     byte_length rc = im_bytes st + length (concat blocks) \<and>
     rc_sha256 rc = stream_sha256 X (im_hashed st @ concat blocks) \<and>
     rc_blocks rc = im_blocks st + length blocks \<and> rc_packets rc = im_packets st + length new \<and>
     rc_sections rc = im_sections st + length (filter is_section blocks) \<and>
     (\<forall>b \<in> set blocks. block_frame lim b) \<and>
     sorted_wrt (<) (map block_offset new) \<and>
     (\<forall>i < length new. consume (ps @ take (Suc i) new)) \<and>
     (\<forall>p \<in> set new. faithful_packet p \<and> placed (im_bytes st) (im_sections st) blocks p)"

lemma certifies_Nil: "finish_import X st = Inr rc \<Longrightarrow> certifies X lim consume st [] ps [] rc"
  by (auto simp: certifies_def finish_import_def bindE_Inr_iff)

lemma certifies_Cons:
  assumes "parser_contract X" "sound_state lim st" "framed lim st ord buffer"
    and tb: "take_block X lim consume ord buffer st ps = (Inr st', ps')"
    and rest: "certifies X lim consume st' blocks ps' new rc"
  shows "\<exists>first. ps' = ps @ first \<and> certifies X lim consume st (buffer # blocks) ps (first @ new) rc"
proof -
  note step = take_block_step [OF assms(1) tb]
  from step(1) obtain first where first: "ps' = ps @ first" "im_packets st' = im_packets st + length first" "length first \<le> 1"
    "\<forall>p \<in> set first. packet_of lim st p \<and> consume ps'"
    unfolding block_step_def by blast
  have secs: "im_sections st' = im_sections st + (if is_section buffer then 1 else 0)" using step(1) by (simp add: block_step_def)
  have head: "placed (im_bytes st) (im_sections st) (buffer # blocks) p" if "p \<in> set first" for p
    using that first(4) assms(2) by (intro placed_head) (auto simp: packet_of_def sound_state_def)
  have tail: "placed (im_bytes st) (im_sections st) (buffer # blocks) p" "im_bytes st + length buffer \<le> block_offset p"
    if "p \<in> set new" for p
    using that rest placed_Cons placed_offset unfolding certifies_def step(2) secs by blast+
  have "sorted_wrt (<) (map block_offset (first @ new))"
    using first(3,4) rest tail(2) assms(3)
    by (cases first) (force simp: certifies_def packet_of_def framed_def)+
  moreover have "consume (ps @ take (Suc i) (first @ new))" if "i < length (first @ new)" for i
  proof (cases first)
    case Nil
    then show ?thesis using that first(1) rest by (simp add: certifies_def)
  next
    case (Cons p qs)
    with first(3) have "first = [p]" by simp
    then show ?thesis using that first(1,4) rest by (cases i) (auto simp: certifies_def)
  qed
  moreover have "block_frame lim buffer" using assms(3) by (auto simp: framed_def block_frame_def)
  ultimately have "certifies X lim consume st (buffer # blocks) ps (first @ new) rc"
    using rest first(2,4) head tail(1) secs unfolding certifies_def step by (auto simp: packet_of_def)
  with first(1) show ?thesis by blast
qed

lemma import_bytes_certifies:
  assumes "parser_contract X" "max_sections lim \<le> 1024"
  shows "sound_state lim st \<Longrightarrow> import_bytes X lim consume st bs ps = (Inr rc, ps') \<Longrightarrow>
    (\<exists>blocks new. bs = concat blocks \<and> ps' = ps @ new \<and> certifies X lim consume st blocks ps new rc) \<and>
    (\<exists>st'. sound_state lim st' \<and> finish_import X st' = Inr rc)"
  using assms
proof (induction X lim consume st bs ps rule: import_bytes.induct)
  case (1 X lim consume st bs ps)
  note run = 1(3) [unfolded import_bytes.simps [of X lim consume st bs ps]]
  show ?case
  proof (cases "split_block lim st bs = Inr None")
    case True
    then have "bs = []" by (auto simp: split_block_def bindE_def map_sum_def split: if_splits sum.splits prod.splits)
    moreover have "finish_import X st = Inr rc" "ps' = ps" using run True by auto
    ultimately show ?thesis using certifies_Nil [of X st rc lim consume ps] 1(2)
      by (intro conjI exI [of _ "[]"] exI [of _ st]) auto
  next
    case False
    then obtain ord buffer rest where sp: "split_block lim st bs = Inr (Some ((ord, buffer), rest))"
      using run by (auto split: sum.splits option.splits)
    with run obtain st1 ps1 where tb: "take_block X lim consume ord buffer st ps = (Inr st1, ps1)"
      and more: "import_bytes X lim consume st1 rest ps1 = (Inr rc, ps')"
      by (auto simp: bindR_Inr_iff)
    note fr = split_block_Some [OF sp]
    have sound: "sound_state lim st1" by (rule sound_state_step [OF 1(4,5,2) fr(2) tb])
    from 1(1) [OF sp refl refl refl tb sound more 1(4,5)] obtain blocks new st2
      where IH: "rest = concat blocks" "ps' = ps1 @ new" "certifies X lim consume st1 blocks ps1 new rc"
        and st2: "sound_state lim st2" "finish_import X st2 = Inr rc" by blast
    from certifies_Cons [OF 1(4,2) fr(2) tb IH(3)] obtain first
      where "ps1 = ps @ first" "certifies X lim consume st (buffer # blocks) ps (first @ new) rc" by blast
    then show ?thesis using fr(1) IH st2
      by (intro conjI exI [of _ "buffer # blocks"] exI [of _ "first @ new"] exI [of _ st2]) auto
  qed
qed

lemma import_start_sound: "sound_state lim import_start"
  by (simp add: sound_state_def import_start_def)

lemma pcapng_read_outcome:
  "outcome t (wt_now t (wd_polls w) + timeout lim) w
     (import_stream X lim consume (stream_octets (wd_reader w)) (wd_delivered w)) (pcapng_read X lim t consume w)"
proof (cases "validate_import_limits lim")
  case (Inl e)
  then show ?thesis by (simp add: pcapng_read_def import_stream_def bindR_def lift_import_def outcome_def)
next
  case (Inr u)
  then show ?thesis
    using read_loop_outcome [of t "wt_now t (wd_polls w) + timeout lim" "w\<lparr>wd_polls := wd_polls w + 1\<rparr>" X lim consume import_start]
    by (simp add: pcapng_read_def import_stream_def bindR_def lift_import_def instant_now_def outcome_def)
qed

lemma validate_sections: "validate_import_limits lim = Inr u \<Longrightarrow> max_sections lim \<le> 1024"
  by (auto simp: validate_import_limits_def Let_def default_import_limits_def split: if_splits)

section \<open>A sample capture\<close>

text \<open>
  A decoder for little-endian captures without options, and a capture with a section, an interface and
  one packet of three octets, read in two parts with an interruption between them.
\<close>

definition le_at :: "nat \<Rightarrow> nat \<Rightarrow> u8 list \<Rightarrow> 'a::len word" where
  "le_at i n b = from_le_bytes (take n (drop i b))"

definition sample_parse :: "u8 list \<Rightarrow> (u8 list \<times> (u16 \<times> u8 list) pcap_block) option" where
  "sample_parse b =
     (if take 4 b = section_magic then
        (if length b = 28 then Some ([], SectionHeader (le_at 12 2 b) (le_at 14 2 b) (sint (le_at 16 8 b :: u64)) []) else None)
      else if take 4 b = [1, 0, 0, 0] then
        (if length b = 20 then Some ([], InterfaceDescription (uint (le_at 8 2 b :: u16)) (le_at 12 4 b) []) else None)
      else if take 4 b = [6, 0, 0, 0] \<and> 32 \<le> length b then
        Some ([], EnhancedPacket (le_at 8 4 b) (le_at 12 4 b) (le_at 16 4 b) (le_at 20 4 b) (le_at 24 4 b)
                    (take (length b - 32) (drop 28 b)) [])
      else Some ([], OtherBlock))"

definition sample_parser :: "(u16 \<times> u8 list) pcap_parser" where
  "sample_parser =
     \<lparr>parse_block_le = sample_parse, parse_block_be = (\<lambda>_. None), opt_code = fst,
      opt_len = (\<lambda>opt. of_nat (length (snd opt))),
      opt_bytes = (\<lambda>opt. if length (snd opt) < 65536 then Some (snd opt) else None),
      stream_sha256 = take 32\<rparr>"

lemma sample_parser_contract: "parser_contract sample_parser"
  by (auto simp: parser_contract_def sample_parser_def sample_parse_def block_sound_def section_magic_def unat_of_nat
      split: if_splits)

definition sample_capture :: "u8 list" where
  "sample_capture =
     section_magic @ [28, 0, 0, 0, 0x4d, 0x3c, 0x2b, 0x1a, 1, 0, 0, 0] @ replicate 8 0xff @ [28, 0, 0, 0] @
     [1, 0, 0, 0, 20, 0, 0, 0, 127, 0, 0, 0, 0xff, 0xff, 0, 0, 20, 0, 0, 0] @
     [6, 0, 0, 0, 36, 0, 0, 0, 0, 0, 0, 0, 0, 0, 0, 0, 5, 0, 0, 0, 3, 0, 0, 0, 3, 0, 0, 0, 1, 2, 3, 0, 36, 0, 0, 0]"

definition sample_interface :: interface where
  "sample_interface = \<lparr>section_index = 0, interface_index = 0, link_type = 127, snaplen = 65535,
     timestamp_resolution = 6, timestamp_offset_seconds = 0\<rparr>"

definition sample_packet :: packet where
  "sample_packet = \<lparr>block_offset = 48, pk_interface = sample_interface,
     pk_timestamp = Known \<lparr>raw_ticks = 5, resolution = 6, offset_seconds = 0, utc_nanoseconds = 5000,
       subnanosecond_remainder = False\<rparr>,
     original_length = 3, captured_length = 3, contradictory_original_length = False,
     pk_flags = unknown_evidence, dropped_since_previous = unknown_evidence,
     correlation_packet_id = unknown_evidence, pk_data = [1, 2, 3]\<rparr>"

text \<open>The states after the section header, after the interface and at the end.\<close>

definition sample_state :: "nat \<Rightarrow> import_state" where
  "sample_state n = \<lparr>im_bytes = [0, 28, 48, 84] ! n, im_blocks = n, im_packets = n div 3, im_sections = (if n = 0 then 0 else 1),
     im_skipped = 0, im_order = (if n = 0 then None else Some Little),
     im_interfaces = (if n < 2 then [] else [sample_interface]), im_section_end = None,
     im_hashed = take ([0, 28, 48, 84] ! n) sample_capture\<rparr>"

abbreviation sample_take :: "u8 list \<Rightarrow> import_state \<Rightarrow> (packet list, import_error, import_state) rsm" where
  "sample_take \<equiv> take_block sample_parser default_import_limits (\<lambda>_. True) Little"

lemma sample_blocks:
  "split_block default_import_limits (sample_state 0) sample_capture =
     Inr (Some ((Little, take 28 sample_capture), drop 28 sample_capture))"
  "split_block default_import_limits (sample_state 1) (drop 28 sample_capture) =
     Inr (Some ((Little, take 20 (drop 28 sample_capture)), drop 48 sample_capture))"
  "split_block default_import_limits (sample_state 2) (drop 48 sample_capture) =
     Inr (Some ((Little, drop 48 sample_capture), []))"
  by code_simp+

lemma sample_decoded:
  "parse_block sample_parser Little (drop 48 sample_capture) = Inr (EnhancedPacket 0 0 5 3 3 [1, 2, 3, 0] [])"
  "enhanced_packet sample_parser default_import_limits Little 36 0 0 5 3 3 [1, 2, 3, 0] []
     (sample_state 2\<lparr>im_order := Some Little, im_blocks := 3\<rparr>) = Inr sample_packet"
  by code_simp+

lemma sample_steps:
  "sample_take (take 28 sample_capture) (sample_state 0) [] = (Inr (sample_state 1), [])"
  "sample_take (take 20 (drop 28 sample_capture)) (sample_state 1) [] = (Inr (sample_state 2), [])"
  "sample_take (drop 48 sample_capture) (sample_state 2) [] = (Inr (sample_state 3), [sample_packet])"
proof -
  let ?st = "sample_state 2\<lparr>im_order := Some Little, im_blocks := 3\<rparr>"
  have len: "length sample_capture = 84" by (simp add: sample_capture_def section_magic_def)
  have applied: "apply_block sample_parser default_import_limits (\<lambda>_. True) Little 36 (EnhancedPacket 0 0 5 3 3 [1, 2, 3, 0] []) ?st [] =
      (Inr (?st\<lparr>im_packets := im_packets ?st + 1\<rparr>), [sample_packet])"
    unfolding apply_block_def pcap_block.case lift_import_def bindR_def sample_decoded(2) by (simp add: deliver_def ret_def)
  have blocks: "im_blocks (sample_state 2) + 1 = 3" "length (drop 48 sample_capture) = 36"
    by (simp_all add: sample_state_def len)
  have "?st\<lparr>im_packets := im_packets ?st + 1, im_hashed := im_hashed ?st @ drop 48 sample_capture, im_bytes := im_bytes ?st + 36\<rparr> =
      sample_state 3"
    using append_take_drop_id [of 48 sample_capture] by (simp add: sample_state_def len)
  then show "sample_take (drop 48 sample_capture) (sample_state 2) [] = (Inr (sample_state 3), [sample_packet])"
    unfolding take_block_def lift_import_def sample_decoded(1) bindR_def [of "\<lambda>s. (Inr x, s)" for x] prod.case sum.case Let_def blocks
    by (simp add: bindR_def applied ret_def)
qed code_simp+

lemma sample_stream:
  "import_stream sample_parser default_import_limits (\<lambda>_. True) sample_capture [] =
     (finish_import sample_parser (sample_state 3), [sample_packet])"
proof -
  have start: "import_start = sample_state 0" by (simp add: import_start_def sample_state_def)
  have "validate_import_limits default_import_limits = Inr ()" by code_simp
  moreover have "split_block default_import_limits (sample_state 3) [] = Inr None" by (simp add: split_block_def)
  ultimately show ?thesis
    using sample_blocks(2) sample_steps(2)
    by (simp add: import_stream_def lift_import_def bindR_def start import_bytes.simps sample_blocks sample_steps)
qed

definition sample_world :: world where
  "sample_world = \<lparr>wd_reader = [Chunk (take 5 sample_capture), Interrupted, Chunk (drop 5 sample_capture)],
     wd_polls = 0, wd_delivered = []\<rparr>"

definition sample_watch :: watch where
  "sample_watch = \<lparr>wt_cancelled = (\<lambda>_. False), wt_now = (\<lambda>i. i mod 1000)\<rparr>"

lemma sample_content: "stream_octets (wd_reader sample_world) = sample_capture"
  using append_take_drop_id [of 5 sample_capture] by (simp add: sample_world_def sample_capture_def section_magic_def)

lemma sample_world_stream:
  "import_stream sample_parser default_import_limits (\<lambda>_. True) (stream_octets (wd_reader sample_world)) (wd_delivered sample_world) =
     (finish_import sample_parser (sample_state 3), [sample_packet])"
  unfolding sample_content using sample_stream by (simp add: sample_world_def)

text \<open>Nothing stops the sample import.\<close>

lemma sample_quiet:
  "\<not> wt_now sample_watch (wd_polls sample_world) + timeout default_import_limits \<le> wt_now sample_watch i"
  "Failed \<notin> set (wd_reader sample_world)" "\<not> wt_cancelled sample_watch i"
proof -
  have "i mod 1000 < 1000" by simp
  then have "i mod 1000 < 120000000000" by linarith
  then show "\<not> wt_now sample_watch (wd_polls sample_world) + timeout default_import_limits \<le> wt_now sample_watch i"
    by (simp add: sample_watch_def sample_world_def default_import_limits_def)
qed (simp_all add: sample_world_def sample_watch_def)

lemma sample_run:
  "fst (pcapng_read sample_parser default_import_limits sample_watch (\<lambda>_. True) sample_world) =
     finish_import sample_parser (sample_state 3)"
  using pcapng_read_outcome [of sample_watch sample_world default_import_limits sample_parser "\<lambda>_. True"] sample_quiet
  by (auto simp: outcome_def stopped_def sample_world_stream)

section \<open>Properties\<close>

text \<open>
  Claim C18. An import is a function of the octets of the stream. However the reader cuts the stream into
  short reads and whenever it is interrupted, the result and the packets handed to the consumer are those
  that the octets up to the end of the stream determine; otherwise a read failed, the import was cancelled
  or the deadline passed, that reason is the error, and the packets handed over so far are the first ones of
  those. No index, length subtraction or conversion of the importer panics, given a decoder that tells
  section headers from other blocks by their type, refuses blocks that are too short for their kind and
  returns options in their length.
\<close>

theorem import_follows_octets:
  assumes "parser_contract X" "pcapng_read X lim t consume w = (r, w')"
    and "import_stream X lim consume (stream_octets (wd_reader w)) (wd_delivered w) = (spec, ps)"
  shows "r \<noteq> Inl PE_Panic \<and>
    (r = spec \<and> wd_delivered w' = ps \<or>
     (\<exists>e later. r = Inl e \<and> ps = wd_delivered w' @ later \<and>
        (e = PE_Io \<and> Failed \<in> set (wd_reader w) \<or> e = PE_Cancelled \<and> (\<exists>i. wt_cancelled t i) \<or>
         e = PE_Deadline \<and> (\<exists>i. wt_now t (wd_polls w) + timeout lim \<le> wt_now t i))))"
proof -
  have "spec \<noteq> Inl PE_Panic"
  proof (cases "validate_import_limits lim")
    case (Inl e)
    then show ?thesis using assms(3)
      by (auto simp: import_stream_def bindR_def lift_import_def validate_import_limits_def Let_def split: if_splits)
  next
    case (Inr u)
    then show ?thesis
      using import_bytes_no_panic [OF assms(1) validate_sections [OF Inr] import_start_sound, of consume] assms(3)
      by (auto simp: import_stream_def bindR_def lift_import_def dest: arg_cong [where f = fst])
  qed
  then show ?thesis
    using pcapng_read_outcome [of t w lim X consume] assms(2,3) by (auto simp: outcome_def stopped_def)
qed

theorem import_follows_octets_witness:
  "parser_contract sample_parser \<and>
   fst (pcapng_read sample_parser default_import_limits sample_watch (\<lambda>_. True) sample_world) =
     finish_import sample_parser (sample_state 3) \<and>
   wd_delivered (snd (pcapng_read sample_parser default_import_limits sample_watch (\<lambda>_. True) sample_world)) = [sample_packet]"
proof -
  obtain r w' where run: "pcapng_read sample_parser default_import_limits sample_watch (\<lambda>_. True) sample_world = (r, w')" by fastforce
  show ?thesis
    using import_follows_octets [OF sample_parser_contract run sample_world_stream] sample_quiet run sample_parser_contract by auto
qed

text \<open>
  Claim C19. What the receipt of an import certifies. The octets of the stream are cut without gap into
  blocks that carry their own length in front and at their end; the receipt has their number, the number
  of octets and the hash of exactly these octets, the number of section headers among the blocks and the
  number of packets handed over, each within its limit. The consumer accepted every packet; packets come in
  the order of their blocks, each with the offset of its block and an interface of the section the block lies
  in, with as many octets as it claims, at most as many as the interface captures, and with a time that
  is the tick count in nanoseconds, rounded down and marked when inexact, plus the offset of the interface.
\<close>

theorem import_receipt_exact:
  assumes "parser_contract X" "pcapng_read X lim t consume w = (Inr rc, w')" "wd_delivered w = []"
  shows "\<exists>blocks.
    concat blocks = stream_octets (wd_reader w) \<and> (\<forall>b \<in> set blocks. block_frame lim b) \<and>
    rc_blocks rc = length blocks \<and> byte_length rc = length (concat blocks) \<and>
    rc_sha256 rc = stream_sha256 X (concat blocks) \<and>
    rc_sections rc = length (filter is_section blocks) \<and> rc_packets rc = length (wd_delivered w') \<and>
    byte_length rc \<le> max_bytes lim \<and> rc_blocks rc \<le> max_blocks lim \<and> rc_packets rc \<le> max_packets lim \<and>
    1 \<le> rc_sections rc \<and> rc_sections rc \<le> max_sections lim \<and>
    (\<forall>i < rc_packets rc. consume (take (Suc i) (wd_delivered w'))) \<and>
    sorted_wrt (<) (map block_offset (wd_delivered w')) \<and>
    (\<forall>p \<in> set (wd_delivered w'). faithful_packet p \<and>
       (\<exists>k < length blocks. block_offset p = length (concat (take k blocks)) \<and>
          Suc (unat (section_index (pk_interface p))) = length (filter is_section (take k blocks))))"
proof -
  have "import_stream X lim consume (stream_octets (wd_reader w)) [] = (Inr rc, wd_delivered w')"
    using pcapng_read_outcome [of t w lim X consume] assms(2,3) by (auto simp: outcome_def)
  then have val: "validate_import_limits lim = Inr ()"
    and run: "import_bytes X lim consume import_start (stream_octets (wd_reader w)) [] = (Inr rc, wd_delivered w')"
    by (auto simp: import_stream_def bindR_Inr_iff lift_import_def)
  from import_bytes_certifies [OF assms(1) validate_sections [OF val] import_start_sound run] obtain blocks st
    where "concat blocks = stream_octets (wd_reader w)" "certifies X lim consume import_start blocks [] (wd_delivered w') rc"
      and "sound_state lim st" "finish_import X st = Inr rc"
    by auto
  moreover from this(4) have "1 \<le> im_sections st" "im_sections st = rc_sections rc" "im_packets st = rc_packets rc"
    "im_blocks st = rc_blocks rc" "im_bytes st = byte_length rc"
    by (auto simp: finish_import_def bindE_Inr_iff)
  ultimately show ?thesis
    by (intro exI [of _ blocks]) (auto simp: certifies_def placed_def import_start_def sound_state_def)
qed

theorem import_receipt_exact_witness:
  "case pcapng_read sample_parser default_import_limits sample_watch (\<lambda>_. True) sample_world of
     (Inr rc, w) \<Rightarrow> byte_length rc = 84 \<and> rc_packets rc = length (wd_delivered w)
   | _ \<Rightarrow> False"
proof -
  obtain r w' where run: "pcapng_read sample_parser default_import_limits sample_watch (\<lambda>_. True) sample_world = (r, w')" by fastforce
  have "r = finish_import sample_parser (sample_state 3)" using sample_run run by simp
  moreover have "finish_import sample_parser (sample_state 3) \<noteq> Inl e" for e
    by (auto simp: finish_import_def error_iffs sample_state_def section_complete_def)
  ultimately obtain rc where "r = Inr rc" by (metis sum.exhaust)
  then show ?thesis
    using import_receipt_exact [OF sample_parser_contract run [unfolded \<open>r = Inr rc\<close>]] run sample_content
    by (auto simp: sample_world_def sample_capture_def section_magic_def)
qed

end
