(* ===== verification/Spec2Isabelle.thy ===== *)
theory Spec2Isabelle
  imports Resource_Budget Ieee80211_Frames Ieee80211_Codec Ieee80211_Views Operation_Supply Operation_Replay Survey_Point Domain_Project_States
    Materialized_Project Identity_Binding Pcapng_Receipt
begin

text \<open>
  Verification of the core crates of Kyberia, a Wi-Fi survey and planning system written in Rust.

  \<^bold>\<open>The program.\<close> A project is edited through immutable operations that are appended to a local log,
  exchanged between devices, merged and replayed; radio evidence enters as IEEE 802.11 management
  frames and as observations that a survey admits at a point. The parts that carry this logic are
  \<^item> \<open>crates/resource-budget\<close>: cumulative counters with limits and a cancellation hook;
  \<^item> \<open>crates/ieee80211\<close>: the management-frame parser, its element decoders, its canonical codec, the
    explorer view of a frame and the comparison of two frames;
  \<^item> \<open>crates/domain\<close>: identities, bounded text, evidence values, project entities, units, clocks,
    capabilities, observation envelopes, and the project aggregate with its commands, receipts and
    compensating undo;
  \<^item> \<open>crates/operation-log\<close>: operations and their codec, the linear log, operation sets with their
    causal validation, deterministic order, merge, conflict detection and replay;
  \<^item> \<open>crates/materialization-identity\<close>: canonical bytes and hashes of a project baseline and of an
    operation set, and the identity that binds the two;
  \<^item> \<open>crates/causal-materializer\<close>: the project an operation set makes of a baseline, with every recorded
    prior checked against the state of its causal ancestors;
  \<^item> \<open>crates/packet-import\<close>: the streaming importer of pcapng captures, which frames, checks, decodes and
    hands over packets and returns a receipt;
  \<^item> \<open>crates/survey\<close>: the point survey, a state machine that admits observations at one anchor, measures
    its progress and can be stored and restored.

  \<^bold>\<open>Theories and sources.\<close>
  \<^item> \<open>Rust_Prelude\<close>: machine integers at their width, \<open>usize\<close> as a natural number with its 64-bit bound,
    checked and saturating arithmetic, slices, the result-state monad \<open>rsm\<close> in which a function
    \<open>fn(&mut S) -> Result<A, E>\<close> is a function from a state to a result and the state it leaves, and
    the locale \<open>meter\<close> (a counter that never passes its limit).
  \<^item> \<open>BTree_Map\<close>: \<open>BTreeMap\<close> as an ascending association list; the locale \<open>ordered_map\<close> states the laws
    of lookup, insertion and removal that its clients use, and is interpreted on that list.
  \<^item> \<open>Resource_Budget\<close>: \<open>ResourceBudget\<close> (\<open>charge\<close>, \<open>charge_with_limit\<close>, \<open>check_cancelled\<close>); the hook is a
    function from the number of polls so far to a decision. It interprets \<open>meter\<close>.
  \<^item> \<open>Budgeted\<close>: how programs with a budget are compared with results without one (\<open>refines\<close>,
    \<open>budget_free\<close>, \<open>returns\<close>).
  \<^item> \<open>Ieee80211_Types\<close>, \<open>Ieee80211_Decode\<close>, \<open>Ieee80211_Repeats\<close>, \<open>Ieee80211_Parse\<close>, \<open>Ieee80211_Codec\<close>: the data,
    the leaf decoders, the summary of repeated elements, \<open>parse_controlled\<close> and the canonical bytes of
    \<open>ieee80211/src/lib.rs\<close>; \<open>Ieee80211_Metered\<close>, \<open>Ieee80211_Limits\<close> and \<open>Ieee80211_Frames\<close> hold the
    judgements on metered programs, the resource bounds and the properties of returned frames.
  \<^item> \<open>Ieee80211_Explorer\<close>, \<open>Ieee80211_Diff\<close>, \<open>Ieee80211_Diff_Limits\<close>, \<open>Ieee80211_Views\<close>: the explorer, the heap sort of
    element occurrences and \<open>diff_information_elements\<close> of the same file, with the specification of a
    comparison, what it costs and what the views show.
  \<^item> \<open>Domain_Identity\<close>: \<open>identity.rs\<close>, \<open>evidence.rs\<close> and the map entities of \<open>domain\<close>.
  \<^item> \<open>Operation_Types\<close>, \<open>Operation_Codec\<close>, \<open>Operation_Effects\<close>: mutations, inverses, payloads, operations,
    their checked constructors and bytes, and the effects they have.
  \<^item> \<open>Operation_Ancestry\<close>, \<open>Operation_Order\<close>, \<open>Operation_Graph\<close>: \<open>OperationSet\<close> with its ancestor search, its
    topological order and the validation of the causal graph.
  \<^item> \<open>Operation_Log\<close>: \<open>OperationLog\<close>, with reachability as an inductive predicate over appends.
  \<^item> \<open>Operation_Merge\<close>, \<open>Operation_Replay\<close>: merge, conflict records and replay.
  \<^item> \<open>Operation_Supply\<close>: how much room a budget must have for a search to return; the locale
    \<open>monotone_room\<close> is interpreted on the budget and on the state of a search.
  \<^item> \<open>Operation_Samples\<close>: concrete operations for the witnesses.
  \<^item> \<open>Domain_Observation\<close>: \<open>units.rs\<close>, \<open>time.rs\<close>, \<open>capability.rs\<close>, \<open>observation.rs\<close> and \<open>reception.rs\<close> of \<open>domain\<close>.
  \<^item> \<open>Survey_Config\<close>, \<open>Survey_State\<close>: \<open>config.rs\<close>, \<open>state.rs\<close> and \<open>association.rs\<close> of \<open>survey\<close>, every transition of
    \<open>PointSurvey\<close> as a function from a state to an error or the next state; \<open>Survey_Invariant\<close> and
    \<open>Survey_Reach\<close> show that the validation of snapshots is an invariant of the step relation,
    \<open>Survey_Progress\<close> that interval merging and the two-pointer sweep measure sets of nanoseconds;
    \<open>Survey_Samples\<close> has a concrete survey and \<open>Survey_Point\<close> the properties.
  \<^item> \<open>Domain_Project\<close>: \<open>project.rs\<close>, \<open>project/entities.rs\<close>, \<open>project/commands.rs\<close> and \<open>spatial/calibration.rs\<close> of
    \<open>domain\<close>: \<open>Project\<close>, its validation, every command, receipts and undo. \<open>Domain_Project_Valid\<close> shows that a command keeps a
    project valid, \<open>Domain_Project_Undo\<close> what an undo restores, and \<open>Domain_Project_States\<close> has the step
    relation over commands and undos with the properties of its reachable states.
  \<^item> \<open>Materialization_Identity\<close>, \<open>Identity_Binding\<close>: the identities with their readers and writers, and what
    equal identities imply.
  \<^item> \<open>Causal_Materializer\<close>, \<open>Materializer_Causality\<close>, \<open>Materialized_Project\<close>: \<open>materialize\<close> with its causal replay,
    prior validation and lock check, the correctness of its ancestor searches, and its properties.
  \<^item> \<open>Pcapng_Import\<close>, \<open>Pcapng_Stream\<close>, \<open>Pcapng_Receipt\<close>: \<open>pcapng.rs\<close> of \<open>packet-import\<close>: \<open>read\<close> with its parts, the
    importer as a function of the octets of a stream (\<open>streams\<close> relates a program that reads to a function
    of octets), and the properties of results and receipts.

  \<^bold>\<open>What is shown.\<close> For the budget: it is six independent ledgers whose
  answers and counters are determined by the requests alone, accounting is cumulative over any run, and
  the charge on two counters is atomic. For frames: the metered parser implements a pure
  specification and never panics, accepts every specified frame given stated linear resources, returns
  elements that tile the frame without loss, detects every single-octet corruption under a frame
  check sequence, and has a canonical byte form that round-trips and is unique; the comparison of two
  frames is exact and always affordable within the default limits, and the explorer loses nothing. For
  operations: bytes and operations are in bijection, the precomputed wire length is exact, texts of
  identities and hashes are canonical,
  and every inverse has an effect on the edited field. For the log: an append accepts exactly the
  operations that follow the history and acknowledges exactly those it holds, every reachable log is a chain, its set view is valid and its
  replay gives the effects in append order. For sets: construction accepts exactly the admissible
  inputs, causality respects time and depth, the order is the least topological one, a merge is the
  union, commutes, and reports only justified conflicts; the searches that validated sets need return
  within stated budgets. For projects: every reachable project is valid, an undo restores the edited
  fields, and a floor with bound evidence keeps its maps. For materialization: a result is the replayed
  effects applied in order to the baseline, every recorded prior is the value in the state of the causal
  ancestors, evidence and floor changes are causally ordered, and the identity determines the baseline
  and the operations. For surveys: every reachable state is a valid
  snapshot, progress is exact and cannot overflow, final phases are final, and an admitted observation
  matches its record ever after. For imports: the outcome depends on the octets alone and not on how they
  are read, nothing panics, and a receipt certifies the framed blocks, their hash and the packets. Two
  properties and a lemma (\<open>merge_loses_conflict\<close>) record behaviour that falls short of its intent: the undo of a
  calibration removal, a floor-evidence binding of the third schema that no materialization accepts, and
  a conflict that is present and not reported.

  \<^bold>\<open>Errors and budgets.\<close> Errors are values. \<open>Panic\<close>, \<open>OE_Panic\<close> and \<open>SE_Panic\<close> are added to the error types for
  indexing and subtraction that would panic, and are proved unreachable. A budget is threaded as in the
  source; \<open>refines\<close> states that a program returns the result computed without a budget or a resource
  error, so no theorem depends on the size of a budget unless it says so.

  \<^bold>\<open>Termination.\<close> No fuel is used. The loops that are not structural have measures: the unread octets for
  the element loops, the unvisited operations and the stack for the ancestor searches of the log and of the materializer, the remaining
  in-degrees and ready entries for the topological order, the octets and results left in a reader for the
  importer.

  \<^bold>\<open>Parameters.\<close> \<open>serde_json\<close> and SHA-256 are third-party code: a \<open>wire_format\<close> record holds the encoder,
  the decoder, the buffers the encoder writes and the hash, and a property states what it needs of
  them (a decoder that inverts the encoder, an injective encoder, no collision on the two inputs). The
  bytes of a project are a \<open>project_format\<close> record: the chunks the serializer writes and the parser. The
  in-memory sizes of Rust types are a \<open>rust_layout\<close> record. The floating-point transform of a map
  calibration, of which operations use only equality, is a type parameter. Floating-point numbers are
  the type parameter of the record \<open>f64_ops\<close> of the IEEE 754 operations in use; the one fact needed of
  them, \<open>f64_durations\<close>, says that a nanosecond count divided by \<open>1e9\<close> is finite and not negative.

  The decoder \<open>pcap-parser\<close> is a \<open>pcap_parser\<close> record, with \<open>parser_contract\<close> as what the importer relies on; a
  reader is the finite list of the results of its reads, so a run of the importer always ends.

  \<^bold>\<open>Not modelled.\<close> The capture and Wi-Fi semantics crates, the active measurement domain,
  the manual path survey and the decoding of stored survey snapshots, whose logic is within reach of the
  same methods; the adapters, the project store, the desktop and command-line applications and the
  collectors, which are input and output around the core; and the geometry, rendering, antenna, pose and
  spatial analysis crates, which compute with floating-point numbers.
\<close>

end
